(* ===== verification/Prelude.thy ===== *)
theory Prelude
  imports Complex_Main "HOL-Library.AList"
begin

text \<open>
  Shared vocabulary of the development: Go's machine integers, times and durations, Go maps as
  association lists, a few string functions of Go's standard library, and the generic lemmas that
  the component theories use.  The collections declared here gather the rewrite rules of Go maps
  (\<open>gomap_simps\<close>) and the frame rules of the daemon's operations (\<open>frame_simps\<close>).
\<close>

named_theorems gomap_simps
named_theorems frame_simps

section \<open>Machine integers, times and durations\<close>

text \<open>
  \<open>int64\<close> wraps around; \<open>i64\<close> reduces an integer to the value a 64-bit two's complement
  variable holds.  A \<open>time.Time\<close> is the number of nanoseconds since Go's zero time (so \<open>0\<close> is
  the value for which \<open>IsZero\<close> holds), a \<open>time.Duration\<close> a number of nanoseconds.
  \<open>t.Sub(u)\<close> saturates at the ends of the \<open>int64\<close> range, and integer division truncates
  towards zero.
\<close>

type_synonym go_time = int
type_synonym go_duration = int

definition i64 :: "int \<Rightarrow> int" where
  "i64 x = (x + 2 ^ 63) mod 2 ^ 64 - 2 ^ 63"

definition time_sub :: "go_time \<Rightarrow> go_time \<Rightarrow> go_duration" where
  "time_sub t u = max (- (2 ^ 63)) (min (2 ^ 63 - 1) (t - u))"

definition go_div :: "int \<Rightarrow> int \<Rightarrow> int" where
  "go_div a b = sgn a * sgn b * (\<bar>a\<bar> div \<bar>b\<bar>)"

definition duration_minute :: go_duration where
  "duration_minute = 60 * 1000000000"

definition duration_seconds :: "go_duration \<Rightarrow> rat" where
  "duration_seconds n = of_int n / 1000000000"

lemma i64_id: "- (2 ^ 63) \<le> x \<Longrightarrow> x < 2 ^ 63 \<Longrightarrow> i64 x = x"
  unfolding i64_def by (simp add: mod_pos_pos_trivial)

lemma i64_bounds: "- (2 ^ 63) \<le> i64 x \<and> i64 x < 2 ^ 63"
proof -
  define y where "y = (x + 2 ^ 63) mod 2 ^ 64"
  have "0 \<le> y" and "y < 2 ^ 64" unfolding y_def by simp_all
  then show ?thesis unfolding i64_def y_def [symmetric] by simp
qed

lemma go_div_nonneg: "0 \<le> a \<Longrightarrow> 0 < b \<Longrightarrow> go_div a b = a div b"
  by (cases "a = 0") (simp_all add: go_div_def)

lemma go_div_nonpos: "a \<le> 0 \<Longrightarrow> 0 < b \<Longrightarrow> go_div a b \<le> 0"
  by (cases "a = 0") (simp_all add: go_div_def pos_imp_zdiv_nonneg_iff)

section \<open>Go maps\<close>

text \<open>
  A Go map is an association list: \<open>map_of m k\<close> is the comma-ok lookup, \<open>mget z m k\<close> the
  plain lookup \<open>m[k]\<close> with the zero value \<open>z\<close> for a missing key, \<open>AList.update\<close> and
  \<open>AList.delete\<close> the assignment and \<open>delete\<close>.  A \<open>range\<close> loop visits the entries in the
  list's order; Go leaves that order open, so a statement about every list covers every order.
  A nil map behaves as the empty one.
\<close>

type_synonym ('k, 'v) gomap = "('k \<times> 'v) list"

definition mget :: "'v \<Rightarrow> ('k, 'v) gomap \<Rightarrow> 'k \<Rightarrow> 'v" where
  "mget z m k = (case map_of m k of None \<Rightarrow> z | Some v \<Rightarrow> v)"

definition mhas :: "('k, 'v) gomap \<Rightarrow> 'k \<Rightarrow> bool" where
  "mhas m k = (map_of m k \<noteq> None)"

abbreviation mput :: "'k \<Rightarrow> 'v \<Rightarrow> ('k, 'v) gomap \<Rightarrow> ('k, 'v) gomap" where
  "mput k v m \<equiv> AList.update k v m"

abbreviation mdel :: "'k \<Rightarrow> ('k, 'v) gomap \<Rightarrow> ('k, 'v) gomap" where
  "mdel k m \<equiv> AList.delete k m"

text \<open>Two maps with the same entries, whatever their iteration order
  (\<open>reflect.DeepEqual\<close> on maps of comparable values).\<close>

definition map_eq :: "('k, 'v) gomap \<Rightarrow> ('k, 'v) gomap \<Rightarrow> bool" where
  "map_eq m n = (list_all (\<lambda>k. map_of m k = map_of n k) (map fst m @ map fst n))"

definition nested_eq ::
    "('k, ('l, 'v) gomap) gomap \<Rightarrow> ('k, ('l, 'v) gomap) gomap \<Rightarrow> bool" where
  "nested_eq m n =
     list_all (\<lambda>k. case (map_of m k, map_of n k) of
                    (Some a, Some b) \<Rightarrow> map_eq a b
                  | (None, None) \<Rightarrow> True
                  | _ \<Rightarrow> False) (map fst m @ map fst n)"

lemma map_of_update [simp, gomap_simps]:
  "map_of (AList.update k v m) = (map_of m)(k \<mapsto> v)"
  by (rule update_conv')

lemma map_of_delete [simp, gomap_simps]:
  "map_of (AList.delete k m) = (map_of m)(k := None)"
  by (rule delete_conv')

lemma mget_mput [simp, gomap_simps]: "mget z (mput k v m) l = (if l = k then v else mget z m l)"
  by (simp add: mget_def)

lemma mget_mdel [simp, gomap_simps]: "mget z (mdel k m) l = (if l = k then z else mget z m l)"
  by (simp add: mget_def)

lemma mhas_mput [simp, gomap_simps]: "mhas (mput k v m) l \<longleftrightarrow> l = k \<or> mhas m l"
  by (simp add: mhas_def)

lemma mhas_mdel [simp, gomap_simps]: "mhas (mdel k m) l \<longleftrightarrow> l \<noteq> k \<and> mhas m l"
  by (simp add: mhas_def)

lemma mget_Nil [simp, gomap_simps]: "mget z [] k = z" and mhas_Nil [simp]: "\<not> mhas [] k"
  by (simp_all add: mget_def mhas_def)

lemma mhas_iff: "mhas m k \<longleftrightarrow> k \<in> set (map fst m)"
  by (auto simp: mhas_def map_of_eq_None_iff image_iff)

lemma mget_Some: "map_of m k = Some v \<Longrightarrow> mget z m k = v"
  by (simp add: mget_def)

lemma map_eq_iff: "map_eq m n \<longleftrightarrow> map_of m = map_of n"
proof
  assume e: "map_eq m n"
  show "map_of m = map_of n"
  proof
    fix k
    show "map_of m k = map_of n k"
    proof (cases "k \<in> set (map fst m @ map fst n)")
      case True
      with e show ?thesis by (auto simp: map_eq_def list_all_iff)
    next
      case False
      then have "map_of m k = None" and "map_of n k = None"
        by (auto simp: map_of_eq_None_iff)
      then show ?thesis by simp
    qed
  qed
qed (simp add: map_eq_def list_all_iff)

lemma map_eq_refl [simp]: "map_eq m m"
  by (simp add: map_eq_iff)

lemma nested_eq_refl [simp]: "nested_eq m m"
  by (auto simp: nested_eq_def list_all_iff split: option.splits)

lemma map_of_map_filter_fst:
  "map_of (filter (\<lambda>kv. P (fst kv)) m) k = (if P k then map_of m k else None)"
  by (induction m) auto

text \<open>Looking a key up after a filtering \<open>range\<close> loop with \<open>delete\<close>: on a list with distinct
  keys the entry survives exactly when it passes the test.\<close>

lemma map_of_filter_distinct:
  "distinct (map fst m) \<Longrightarrow>
   map_of (filter P m) k = (case map_of m k of None \<Rightarrow> None | Some v \<Rightarrow> if P (k, v) then Some v else None)"
proof (induction m)
  case (Cons a m)
  obtain x y where a: "a = (x, y)" by (cases a)
  have nx: "map_of m x = None" using Cons.prems a by (simp add: map_of_eq_None_iff)
  with Cons a show ?case by (auto split: option.splits)
qed simp

lemma distinct_map_fst_filter: "distinct (map fst m) \<Longrightarrow> distinct (map fst (filter P m))"
  by (induction m) auto

section \<open>Strings\<close>

text \<open>
  Strings are byte lists, as Go's are.  \<open>show_int\<close> is \<open>strconv.Itoa\<close> (and the verb \<open>%d\<close>),
  \<open>go_quote\<close> the verb \<open>%q\<close> on text whose bytes are printable or common control characters,
  \<open>str_join\<close> is \<open>strings.Join\<close>, \<open>cut_prefix\<close> is \<open>strings.CutPrefix\<close>, \<open>str_cut\<close> is
  \<open>strings.Cut\<close> at a single byte and \<open>trim_space\<close> is \<open>strings.TrimSpace\<close> on ASCII text.
\<close>

definition digit_char :: "nat \<Rightarrow> char" where
  "digit_char d = char_of (48 + d)"

fun show_nat :: "nat \<Rightarrow> string" where
  "show_nat n = (if n < 10 then [digit_char n] else show_nat (n div 10) @ [digit_char (n mod 10)])"

declare show_nat.simps [simp del]

definition show_int :: "int \<Rightarrow> string" where
  "show_int i = (if i < 0 then CHR ''-'' # show_nat (nat (- i)) else show_nat (nat i))"

definition quote_char :: "char \<Rightarrow> string" where
  "quote_char c =
     (if c = CHR 0x22 then [CHR 0x5C, CHR 0x22]
      else if c = CHR 0x5C then [CHR 0x5C, CHR 0x5C]
      else if c = CHR 0x0A then [CHR 0x5C, CHR ''n'']
      else if c = CHR 0x09 then [CHR 0x5C, CHR ''t'']
      else if c = CHR 0x0D then [CHR 0x5C, CHR ''r'']
      else [c])"

definition go_quote :: "string \<Rightarrow> string" where
  "go_quote s = CHR 0x22 # concat (map quote_char s) @ [CHR 0x22]"

text \<open>\<open>msg\<close> concatenates the pieces of a message (\<open>+\<close> and \<open>fmt.Sprintf\<close>).\<close>

definition msg :: "string list \<Rightarrow> string" where
  "msg parts = concat parts"

fun str_join :: "string \<Rightarrow> string list \<Rightarrow> string" where
  "str_join sep [] = []"
| "str_join sep [x] = x"
| "str_join sep (x # y # xs) = x @ sep @ str_join sep (y # xs)"

fun cut_prefix :: "string \<Rightarrow> string \<Rightarrow> string option" where
  "cut_prefix [] s = Some s"
| "cut_prefix (p # ps) [] = None"
| "cut_prefix (p # ps) (c # cs) = (if p = c then cut_prefix ps cs else None)"

fun str_cut :: "char \<Rightarrow> string \<Rightarrow> (string \<times> string) option" where
  "str_cut sep [] = None"
| "str_cut sep (c # cs) =
     (if c = sep then Some ([], cs)
      else case str_cut sep cs of None \<Rightarrow> None | Some (a, b) \<Rightarrow> Some (c # a, b))"

definition is_space :: "char \<Rightarrow> bool" where
  "is_space c = (c = CHR 0x20 \<or> c = CHR 0x09 \<or> c = CHR 0x0A \<or> c = CHR 0x0B \<or> c = CHR 0x0C \<or> c = CHR 0x0D)"

definition trim_space :: "string \<Rightarrow> string" where
  "trim_space s = rev (dropWhile is_space (rev (dropWhile is_space s)))"

fun split_on :: "char \<Rightarrow> string \<Rightarrow> string list" where
  "split_on sep [] = [[]]"
| "split_on sep (c # cs) =
     (if c = sep then [] # split_on sep cs
      else case split_on sep cs of [] \<Rightarrow> [[c]] | w # ws \<Rightarrow> (c # w) # ws)"

lemma cut_prefix_Some: "cut_prefix p s = Some r \<longleftrightarrow> s = p @ r"
  by (induction p s rule: cut_prefix.induct) auto

lemma cut_prefix_append [simp]: "cut_prefix p (p @ r) = Some r"
  by (simp add: cut_prefix_Some)

lemma str_cut_SomeD: "str_cut sep s = Some (a, b) \<Longrightarrow> s = a @ sep # b \<and> sep \<notin> set a"
  by (induction s arbitrary: a) (auto split: if_splits option.splits)

lemma str_cut_append [simp]: "sep \<notin> set a \<Longrightarrow> str_cut sep (a @ sep # b) = Some (a, b)"
  by (induction a) auto

lemma str_cut_None: "str_cut sep s = None \<longleftrightarrow> sep \<notin> set s"
  by (induction s) (auto split: option.splits)

lemma of_char_digit_char: "d < 10 \<Longrightarrow> of_char (digit_char d) = (48 + d :: nat)"
  unfolding digit_char_def of_char_of by (rule mod_less) simp

lemma digit_char_inj:
  assumes "d < 10" "e < 10" "digit_char d = digit_char e"
  shows "d = e"
proof -
  have "48 + d = of_char (digit_char d)" using of_char_digit_char [OF assms(1)] by (rule sym)
  also have "\<dots> = of_char (digit_char e)" by (rule arg_cong [OF assms(3)])
  also have "\<dots> = 48 + e" by (rule of_char_digit_char [OF assms(2)])
  finally show ?thesis by (rule add_left_imp_eq)
qed

lemma digit_char_not_dash:
  assumes "d < 10"
  shows "digit_char d \<noteq> CHR ''-''"
proof
  assume "digit_char d = CHR ''-''"
  then have "of_char (digit_char d) = (of_char CHR ''-'' :: nat)" by (rule arg_cong)
  also have "\<dots> = 45" by code_simp
  finally have "48 + d = 45" unfolding of_char_digit_char [OF assms] .
  then show False by arith
qed

lemma show_nat_no_dash: "CHR ''-'' \<notin> set (show_nat n)"
proof (induction n rule: show_nat.induct)
  case (1 n)
  then show ?case
    by (cases "n < 10") (simp_all add: show_nat.simps [of n] digit_char_not_dash [symmetric])
qed

lemma show_nat_nonempty: "show_nat n \<noteq> []"
  by (subst show_nat.simps) simp

lemma show_nat_inj: "show_nat m = show_nat n \<Longrightarrow> m = n"
proof (induction m arbitrary: n rule: show_nat.induct)
  case (1 m)
  note eq = 1(2)
  show ?case
  proof (cases "m < 10")
    case m: True
    show ?thesis
    proof (cases "n < 10")
      case True
      with m eq show ?thesis
        by (simp add: show_nat.simps [of m] show_nat.simps [of n] digit_char_inj)
    next
      case False
      with m eq show ?thesis
        by (simp add: show_nat.simps [of m] show_nat.simps [of n] show_nat_nonempty [symmetric])
    qed
  next
    case m: False
    show ?thesis
    proof (cases "n < 10")
      case True
      with m eq show ?thesis
        by (simp add: show_nat.simps [of m] show_nat.simps [of n] show_nat_nonempty)
    next
      case False
      with m eq have "show_nat (m div 10) = show_nat (n div 10)"
        and d: "digit_char (m mod 10) = digit_char (n mod 10)"
        by (simp_all add: show_nat.simps [of m] show_nat.simps [of n])
      then have "m div 10 = n div 10" using "1.IH" m by simp
      moreover have "m mod 10 = n mod 10" using d by (rule digit_char_inj [rotated 2]) simp_all
      ultimately show ?thesis by (metis div_mult_mod_eq)
    qed
  qed
qed

section \<open>Lists\<close>

text \<open>\<open>last_n n xs\<close> is the slice \<open>xs[len(xs)-n:]\<close> taken when \<open>len(xs) > n\<close>.\<close>

definition last_n :: "nat \<Rightarrow> 'a list \<Rightarrow> 'a list" where
  "last_n n xs = drop (length xs - n) xs"

lemma length_last_n [simp]: "length (last_n n xs) = min n (length xs)"
  by (simp add: last_n_def)

lemma set_last_n: "set (last_n n xs) \<subseteq> set xs"
  by (simp add: last_n_def set_drop_subset)

lemma last_n_snoc: "0 < n \<Longrightarrow> x \<in> set (last_n n (xs @ [x]))"
  by (auto simp: last_n_def not_less_eq_eq)

lemma distinct_last_n: "distinct xs \<Longrightarrow> distinct (last_n n xs)"
  by (simp add: last_n_def)

section \<open>Invariants of operation sequences\<close>

text \<open>
  Every stateful component below has an invariant that each of its operations keeps.  The locale
  states that contract once; its lemma carries the invariant over any sequence of operations.
\<close>

locale invariant_system =
  fixes step :: "'op \<Rightarrow> 's \<Rightarrow> 's"
    and inv :: "'s \<Rightarrow> bool"
  assumes step_inv: "inv s \<Longrightarrow> inv (step x s)"
begin

lemma run_inv: "inv s \<Longrightarrow> inv (fold step xs s)"
  by (induction xs arbitrary: s) (simp_all add: step_inv)

end

text \<open>
  A monotone system moreover never decreases a measure of its state; used for facts such as
  ``a drain, once requested, is never withdrawn''.
\<close>

locale monotone_system =
  fixes step :: "'op \<Rightarrow> 's \<Rightarrow> 's"
    and le :: "'s \<Rightarrow> 's \<Rightarrow> bool"
  assumes le_refl: "le s s"
    and le_trans: "le s t \<Longrightarrow> le t u \<Longrightarrow> le s u"
    and step_le: "le s (step x s)"
begin

lemma run_le: "le s (fold step xs s)"
proof (induction xs arbitrary: s)
  case Nil
  show ?case by (simp add: le_refl)
next
  case (Cons x xs)
  have "le s (step x s)" by (rule step_le)
  moreover have "le (step x s) (fold step xs (step x s))" by (rule Cons.IH)
  ultimately show ?case by (simp add: le_trans)
qed

end

end
