(* ===== verification/Core_Types.thy ===== *)
theory Core_Types
  imports Prelude
begin

text \<open>
  The shared data model of \<^verbatim>\<open>internal/core/types.go\<close> and \<^verbatim>\<open>internal/core/tests.go\<close>: one record per
  struct with the struct's fields in their order, one datatype per enumeration, and the zero value
  of each struct that the code builds by naming only some of its fields.  A Go \<open>error\<close> is a
  \<open>string option\<close> (\<open>None\<close> is nil), a pointer to a struct an \<open>option\<close>, and a \<open>[]byte\<close> whose
  nil value matters a \<open>string option\<close>.
\<close>

type_synonym go_error = "string option"

section \<open>Candidates and trial merges\<close>

record candidate =
  c_AdmissionBlocked :: string
  c_SkipChecks :: bool
  c_OverridePause :: bool
  c_Requester :: string
  c_RequestReason :: string
  c_EmergencyID :: string
  c_RequestID :: string
  c_RequestedCount :: int
  c_Ref :: string
  c_Target :: string
  c_User :: string
  c_Topic :: string
  c_SHA :: string
  c_Source :: string
  c_SourceBase :: string
  c_Message :: string
  c_ReviewURL :: string
  c_Version :: string
  c_DependsOn :: string
  c_Urgent :: bool
  c_Priority :: string
  c_Preempt :: bool

definition candidate_zero :: candidate where
  "candidate_zero = \<lparr>c_AdmissionBlocked = [], c_SkipChecks = False, c_OverridePause = False,
     c_Requester = [], c_RequestReason = [], c_EmergencyID = [], c_RequestID = [],
     c_RequestedCount = 0, c_Ref = [], c_Target = [], c_User = [], c_Topic = [], c_SHA = [],
     c_Source = [], c_SourceBase = [], c_Message = [], c_ReviewURL = [], c_Version = [],
     c_DependsOn = [], c_Urgent = False, c_Priority = [], c_Preempt = False\<rparr>"

record trial_merge =
  tm_Clean :: bool
  tm_TreeOID :: string
  tm_Conflicts :: "string list"

definition trial_merge_zero :: trial_merge where
  "trial_merge_zero = \<lparr>tm_Clean = False, tm_TreeOID = [], tm_Conflicts = []\<rparr>"

section \<open>Check jobs and results\<close>

record test_case =
  tc_ID :: string
  tc_Status :: string
  tc_Message :: string

record test_attempt =
  ta_LogDigest :: string
  ta_ExecutionID :: string
  ta_Worker :: string
  ta_Command :: "string list"
  ta_LogPath :: string
  ta_Number :: int
  ta_Tests :: "test_case list"

record check_job =
  j_RecordLogs :: bool
  j_HistoryMtimes :: bool
  j_ServiceSpecs :: string
  j_ServiceNeeds :: "string list"
  j_Priority :: string
  j_PreviousExecution :: string
  j_TestResults :: string
  j_RetryCommand :: "string list"
  j_RetryTests :: "string list"
  j_VerificationID :: string
  j_InputsCapture :: bool
  j_GitDir :: string
  j_Candidates :: "candidate list"
  j_RunID :: string
  j_Target :: string
  j_Name :: string
  j_Command :: "string list"
  j_Executor :: string
  j_OperatorOwned :: bool
  j_ImageBuild :: bool
  j_Image :: string
  j_ReceiptCapture :: bool
  j_ReceiptMaxBytes :: int
  j_DeployEnv :: string
  j_DeployNode :: string
  j_DeployedSHA :: string
  j_Dir :: string
  j_LogPath :: string
  j_BaseSHA :: string
  j_MergeSHA :: string
  j_Candidate :: candidate
  j_Clean :: bool
  j_ServiceEnv :: "string list"
  j_Networks :: "string list"

definition check_job_zero :: check_job where
  "check_job_zero = \<lparr>j_RecordLogs = False, j_HistoryMtimes = False, j_ServiceSpecs = [],
     j_ServiceNeeds = [], j_Priority = [], j_PreviousExecution = [], j_TestResults = [],
     j_RetryCommand = [], j_RetryTests = [], j_VerificationID = [], j_InputsCapture = False,
     j_GitDir = [], j_Candidates = [], j_RunID = [], j_Target = [], j_Name = [], j_Command = [],
     j_Executor = [], j_OperatorOwned = False, j_ImageBuild = False, j_Image = [],
     j_ReceiptCapture = False, j_ReceiptMaxBytes = 0, j_DeployEnv = [], j_DeployNode = [],
     j_DeployedSHA = [], j_Dir = [], j_LogPath = [], j_BaseSHA = [], j_MergeSHA = [],
     j_Candidate = candidate_zero, j_Clean = False, j_ServiceEnv = [], j_Networks = []\<rparr>"

datatype check_status = CheckFailed | CheckPassed | CheckSkipped | CheckBlocked | CheckWaived

record check_result =
  cr_ExecutionID :: string
  cr_Worker :: string
  cr_Tests :: "test_case list"
  cr_TestAttempts :: "test_attempt list"
  cr_InputsKey :: string
  cr_VerificationID :: string
  cr_ExecutedRun :: string
  cr_ExecutedSHA :: string
  cr_Reused :: bool
  cr_SuspectedRefs :: "string list"
  cr_FailureKind :: string
  cr_Name :: string
  cr_Image :: string
  cr_Receipt :: "string option"
  cr_Seq :: int
  cr_Command :: "string list"
  cr_Status :: check_status
  cr_Output :: string
  cr_LogPath :: string
  cr_Duration :: go_duration
  cr_Waited :: go_duration
  cr_Materialized :: go_duration
  cr_PeakRSS :: int
  cr_UserCPU :: go_duration
  cr_SysCPU :: go_duration
  cr_BlockedBy :: "string list"
  cr_Err :: go_error

definition check_result_zero :: check_result where
  "check_result_zero = \<lparr>cr_ExecutionID = [], cr_Worker = [], cr_Tests = [], cr_TestAttempts = [],
     cr_InputsKey = [], cr_VerificationID = [], cr_ExecutedRun = [], cr_ExecutedSHA = [],
     cr_Reused = False, cr_SuspectedRefs = [], cr_FailureKind = [], cr_Name = [], cr_Image = [],
     cr_Receipt = None, cr_Seq = 0, cr_Command = [], cr_Status = CheckFailed, cr_Output = [],
     cr_LogPath = [], cr_Duration = 0, cr_Waited = 0, cr_Materialized = 0, cr_PeakRSS = 0,
     cr_UserCPU = 0, cr_SysCPU = 0, cr_BlockedBy = [], cr_Err = None\<rparr>"

section \<open>Outcomes and run records\<close>

datatype outcome =
  OutcomeLanded | OutcomeRejected | OutcomeConflict | OutcomeSkipped | OutcomeError

text \<open>The \<open>int\<close> value of an outcome, as \<open>iota\<close> numbers the constants.\<close>

fun outcome_int :: "outcome \<Rightarrow> int" where
  "outcome_int OutcomeLanded = 0"
| "outcome_int OutcomeRejected = 1"
| "outcome_int OutcomeConflict = 2"
| "outcome_int OutcomeSkipped = 3"
| "outcome_int OutcomeError = 4"

record run_record =
  rr_RunID :: string
  rr_Target :: string
  rr_Candidate :: candidate
  rr_BaseOID :: string
  rr_MergeSHA :: string
  rr_Trial :: trial_merge
  rr_Checks :: "check_result list"
  rr_Outcome :: outcome
  rr_Detail :: string
  rr_StartedAt :: go_time
  rr_EndedAt :: go_time
  rr_BatchID :: string
  rr_Position :: int
  rr_BatchSize :: int
  rr_Speculated :: bool
  rr_Recovered :: bool
  rr_ReceiptRef :: string
  rr_ReceiptBlob :: string
  rr_ReceiptPublished :: string

definition run_record_zero :: run_record where
  "run_record_zero = \<lparr>rr_RunID = [], rr_Target = [], rr_Candidate = candidate_zero,
     rr_BaseOID = [], rr_MergeSHA = [], rr_Trial = trial_merge_zero, rr_Checks = [],
     rr_Outcome = OutcomeLanded, rr_Detail = [], rr_StartedAt = 0, rr_EndedAt = 0,
     rr_BatchID = [], rr_Position = 0, rr_BatchSize = 0, rr_Speculated = False,
     rr_Recovered = False, rr_ReceiptRef = [], rr_ReceiptBlob = [], rr_ReceiptPublished = []\<rparr>"

record identity =
  id_Name :: string
  id_Email :: string

section \<open>Events and deploy records\<close>

datatype event_kind =
    EventQueued | EventTrialClean | EventTrialConflict | EventCheckStarted | EventCheckFinished
  | EventLanded | EventRejected | EventSkipped | EventError | EventIgnoredRef
  | EventHookFinished | EventHookStarted | EventHookSkipped | EventTrialMerged | EventVerified
  | EventRetryRequested | EventDeployStarted | EventDeployNodeFinished | EventDeployFinished

record deploy_record =
  dr_Env :: string
  dr_RunID :: string
  dr_DeploySHA :: string
  dr_DeployedSHA :: string
  dr_Nodes :: "check_result list"
  dr_Outcome :: outcome
  dr_Culprit :: string
  dr_Detail :: string
  dr_StartedAt :: go_time
  dr_EndedAt :: go_time

record event =
  ev_Kind :: event_kind
  ev_At :: go_time
  ev_Target :: string
  ev_Candidate :: candidate
  ev_RunID :: string
  ev_CheckName :: string
  ev_HookIndex :: int
  ev_HookCount :: int
  ev_Check :: "check_result option"
  ev_Record :: "run_record option"
  ev_MergeSHA :: string
  ev_DeployEnv :: string
  ev_DeploySHA :: string
  ev_DeployedSHA :: string
  ev_Deploy :: "deploy_record option"
  ev_Detail :: string

definition event_zero :: "event_kind \<Rightarrow> event" where
  "event_zero k = \<lparr>ev_Kind = k, ev_At = 0, ev_Target = [], ev_Candidate = candidate_zero,
     ev_RunID = [], ev_CheckName = [], ev_HookIndex = 0, ev_HookCount = 0, ev_Check = None,
     ev_Record = None, ev_MergeSHA = [], ev_DeployEnv = [], ev_DeploySHA = [],
     ev_DeployedSHA = [], ev_Deploy = None, ev_Detail = []\<rparr>"

section \<open>Commands\<close>

record revision =
  rev_Ref :: string
  rev_SHA :: string
  rev_Version :: string

record principal =
  pr_Source :: string
  pr_ID :: string
  pr_Authenticated :: bool
  pr_AllowedByConfig :: bool
  pr_Permission :: string
  pr_Teams :: "(string, bool) gomap"

record command =
  cmd_Priority :: string
  cmd_Preempt :: bool
  cmd_Before :: string
  cmd_After :: string
  cmd_PlanToken :: string
  cmd_Principal :: "principal option"
  cmd_RequestID :: string
  cmd_Actor :: string
  cmd_Reason :: string
  cmd_OverridePause :: bool
  cmd_Revisions :: "revision list"
  cmd_Kind :: string
  cmd_Target :: string
  cmd_Ref :: string

definition CommandPause :: string where "CommandPause = ''pause''"
definition CommandResume :: string where "CommandResume = ''resume''"
definition CommandUrgent :: string where "CommandUrgent = ''urgent''"
definition CommandPriority :: string where "CommandPriority = ''priority''"
definition CommandMove :: string where "CommandMove = ''move''"
definition CommandMergeAnyway :: string where "CommandMergeAnyway = ''merge-anyway''"
definition CommandMergePaused :: string where "CommandMergePaused = ''merge-paused''"
definition CommandRetry :: string where "CommandRetry = ''retry''"
definition CommandCancel :: string where "CommandCancel = ''cancel''"

lemmas command_kind_defs =
  CommandPause_def CommandResume_def CommandUrgent_def CommandPriority_def CommandMove_def
  CommandMergeAnyway_def CommandMergePaused_def CommandRetry_def CommandCancel_def

text \<open>The field-by-field form of the zero candidate, for rewriting partial struct literals.\<close>

lemma candidate_zero_simps [simp]:
  "c_Ref candidate_zero = []" "c_Target candidate_zero = []" "c_SHA candidate_zero = []"
  "c_User candidate_zero = []" "c_Topic candidate_zero = []" "c_Version candidate_zero = []"
  "c_DependsOn candidate_zero = []" "c_Source candidate_zero = []"
  "c_AdmissionBlocked candidate_zero = []" "c_SkipChecks candidate_zero = False"
  "c_OverridePause candidate_zero = False" "c_Urgent candidate_zero = False"
  "c_Priority candidate_zero = []"
  by (simp_all add: candidate_zero_def)

lemma event_zero_simps [simp]:
  "ev_Kind (event_zero k) = k" "ev_Record (event_zero k) = None" "ev_Check (event_zero k) = None"
  "ev_Deploy (event_zero k) = None" "ev_DeployEnv (event_zero k) = []"
  "ev_DeploySHA (event_zero k) = []" "ev_DeployedSHA (event_zero k) = []"
  "ev_Target (event_zero k) = []" "ev_RunID (event_zero k) = []"
  "ev_Candidate (event_zero k) = candidate_zero" "ev_Detail (event_zero k) = []"
  "ev_At (event_zero k) = 0" "ev_CheckName (event_zero k) = []"
  by (simp_all add: event_zero_def)

lemma check_result_zero_simps [simp]:
  "cr_Status check_result_zero = CheckFailed" "cr_Err check_result_zero = None"
  "cr_Name check_result_zero = []"
  by (simp_all add: check_result_zero_def)

lemma run_record_zero_simps [simp]:
  "rr_Checks run_record_zero = []" "rr_Outcome run_record_zero = OutcomeLanded"
  by (simp_all add: run_record_zero_def)

end
