(* ===== verification/Core_Events.thy ===== *)
theory Core_Events
  imports Core_Types
begin

text \<open>
  The emit-site contract of \<^verbatim>\<open>internal/core/events.go\<close>: which fields an event of each kind must and
  must not carry.  \<open>ValidateEvent\<close> returns the first violation, one constructor per error message
  of the source.
\<close>

fun TerminalKind :: "event_kind \<Rightarrow> bool" where
  "TerminalKind k = (case k of
      EventLanded \<Rightarrow> True | EventRejected \<Rightarrow> True | EventTrialConflict \<Rightarrow> True
    | EventSkipped \<Rightarrow> True | EventError \<Rightarrow> True
    | EventDeployFinished \<Rightarrow> True
    | _ \<Rightarrow> False)"

fun DeployKind :: "event_kind \<Rightarrow> bool" where
  "DeployKind k = (case k of
      EventDeployStarted \<Rightarrow> True | EventDeployNodeFinished \<Rightarrow> True | EventDeployFinished \<Rightarrow> True
    | _ \<Rightarrow> False)"

datatype event_violation =
    TerminalNeedsRecord | NonTerminalHasRecord | NeedsCheck | NeedsCheckName | HasCheck
  | HasDeployRecord | HasDeployCoordinates | DeployHasRunRecord | NeedsDeployEnv
  | NeedsDeployRunID | NeedsDeploySHA | DeployHasCandidate | NeedsDeployRecord
  | DeployRecordDisagrees | NonTerminalHasDeployRecord

definition carries_check :: "event_kind \<Rightarrow> bool" where
  "carries_check k = (k = EventCheckFinished \<or> k = EventHookFinished \<or> k = EventDeployNodeFinished)"

definition ValidateEvent :: "event \<Rightarrow> event_violation option" where
  "ValidateEvent ev =
    (let k = ev_Kind ev in
     if TerminalKind k \<and> \<not> DeployKind k \<and> ev_Record ev = None then Some TerminalNeedsRecord
     else if \<not> TerminalKind k \<and> ev_Record ev \<noteq> None then Some NonTerminalHasRecord
     else if carries_check k \<and> ev_Check ev = None then Some NeedsCheck
     else if carries_check k \<and> ev_CheckName ev = [] then Some NeedsCheckName
     else if \<not> carries_check k \<and> ev_Check ev \<noteq> None then Some HasCheck
     else if \<not> DeployKind k then
       (if ev_Deploy ev \<noteq> None then Some HasDeployRecord
        else if ev_DeployEnv ev \<noteq> [] \<or> ev_DeploySHA ev \<noteq> [] \<or> ev_DeployedSHA ev \<noteq> []
        then Some HasDeployCoordinates
        else None)
     else if ev_Record ev \<noteq> None then Some DeployHasRunRecord
     else if ev_DeployEnv ev = [] then Some NeedsDeployEnv
     else if ev_RunID ev = [] then Some NeedsDeployRunID
     else if ev_DeploySHA ev = [] then Some NeedsDeploySHA
     else if ev_Candidate ev \<noteq> candidate_zero then Some DeployHasCandidate
     else if k = EventDeployFinished then
       (case ev_Deploy ev of
          None \<Rightarrow> Some NeedsDeployRecord
        | Some dr \<Rightarrow>
            if dr_Env dr \<noteq> ev_DeployEnv ev \<or> dr_RunID dr \<noteq> ev_RunID ev
               \<or> dr_DeploySHA dr \<noteq> ev_DeploySHA ev \<or> dr_DeployedSHA dr \<noteq> ev_DeployedSHA ev
            then Some DeployRecordDisagrees else None)
     else if ev_Deploy ev \<noteq> None then Some NonTerminalHasDeployRecord
     else None)"

text \<open>What the consumers of events (history, Slack) rely on, written without the order of the
  source's checks.\<close>

definition well_shaped :: "event \<Rightarrow> bool" where
  "well_shaped ev =
     ((ev_Record ev \<noteq> None) = (TerminalKind (ev_Kind ev) \<and> \<not> DeployKind (ev_Kind ev))
      \<and> (ev_Check ev \<noteq> None) = carries_check (ev_Kind ev)
      \<and> (carries_check (ev_Kind ev) \<longrightarrow> ev_CheckName ev \<noteq> [])
      \<and> (ev_Deploy ev \<noteq> None) = (ev_Kind ev = EventDeployFinished)
      \<and> (if DeployKind (ev_Kind ev)
         then ev_DeployEnv ev \<noteq> [] \<and> ev_RunID ev \<noteq> [] \<and> ev_DeploySHA ev \<noteq> []
              \<and> ev_Candidate ev = candidate_zero
         else ev_DeployEnv ev = [] \<and> ev_DeploySHA ev = [] \<and> ev_DeployedSHA ev = [])
      \<and> (case ev_Deploy ev of None \<Rightarrow> True
         | Some dr \<Rightarrow> dr_Env dr = ev_DeployEnv ev \<and> dr_RunID dr = ev_RunID ev
             \<and> dr_DeploySHA dr = ev_DeploySHA ev \<and> dr_DeployedSHA dr = ev_DeployedSHA ev))"

lemma ValidateEvent_deploy:
  "DeployKind (ev_Kind ev) \<Longrightarrow> (ValidateEvent ev = None) = well_shaped ev"
  unfolding ValidateEvent_def well_shaped_def Let_def
  by (cases "ev_Kind ev"; cases "ev_Record ev"; cases "ev_Deploy ev"; cases "ev_Check ev")
    (auto simp: carries_check_def)

lemma ValidateEvent_run:
  "\<not> DeployKind (ev_Kind ev) \<Longrightarrow> (ValidateEvent ev = None) = well_shaped ev"
  unfolding ValidateEvent_def well_shaped_def Let_def
  by (cases "ev_Kind ev"; cases "ev_Record ev"; cases "ev_Deploy ev"; cases "ev_Check ev")
    (auto simp: carries_check_def)

lemma ValidateEvent_run_ok:
  assumes "\<not> DeployKind (ev_Kind ev)" "ev_Deploy ev = None" "ev_DeployEnv ev = []"
    "ev_DeploySHA ev = []" "ev_DeployedSHA ev = []"
    "(ev_Record ev \<noteq> None) = TerminalKind (ev_Kind ev)"
    "ev_Check ev = None" "\<not> carries_check (ev_Kind ev)"
  shows "ValidateEvent ev = None"
  using assms by (auto simp: ValidateEvent_def Let_def)

text \<open>
  \<open>ValidateEvent\<close> accepts an event exactly when its fields have the shape its kind promises:
  records on terminal kinds only, a finished check where something finished, and deploy
  coordinates on deploy events only, agreeing with the deploy record.
\<close>

theorem ValidateEvent_exact: "ValidateEvent ev = None \<longleftrightarrow> well_shaped ev"
  by (cases "DeployKind (ev_Kind ev)") (simp_all only: ValidateEvent_deploy ValidateEvent_run simp_thms)

end
