(* ===== verification/Core_Check.thy ===== *)
theory Core_Check
  imports Core_Types
begin

text \<open>
  The small pure functions of \<^verbatim>\<open>internal/core\<close>: the shared notion of a green result
  (\<^verbatim>\<open>green.go\<close>), the failure excerpt of a run (\<^verbatim>\<open>failure.go\<close>) and the name sanitizer
  (\<^verbatim>\<open>sanitize.go\<close>).
\<close>

definition NodeGreen :: "check_result \<Rightarrow> bool" where
  "NodeGreen res = (cr_Err res = None \<and> (cr_Status res = CheckPassed \<or> cr_Status res = CheckSkipped))"

fun first_failure :: "check_result list \<Rightarrow> check_result option" where
  "first_failure [] = None"
| "first_failure (x # xs) =
     (if cr_Status x = CheckFailed \<or> cr_Err x \<noteq> None then Some x else first_failure xs)"

definition FirstFailure :: "run_record \<Rightarrow> check_result option" where
  "FirstFailure r = first_failure (rr_Checks r)"

text \<open>\<open>FailureTail\<close>: \<open>maxLines\<close> and \<open>maxBytes\<close> are Go \<open>int\<close>s; a value \<open>\<le> 0\<close> means no limit.\<close>

definition tail_lines :: "check_result \<Rightarrow> string list" where
  "tail_lines res =
     filter (\<lambda>ln. trim_space ln \<noteq> []) (split_on CHR 0x0A (cr_Output res))
     @ (case cr_Err res of None \<Rightarrow> [] | Some e \<Rightarrow> [e])"

definition FailureTail :: "check_result option \<Rightarrow> int \<Rightarrow> int \<Rightarrow> string" where
  "FailureTail r maxLines maxBytes =
    (case r of None \<Rightarrow> []
     | Some res \<Rightarrow>
        (let lines = tail_lines res in
         if lines = [] then []
         else
          (let lines = (if 0 < maxLines \<and> maxLines < int (length lines)
                        then last_n (nat maxLines) lines else lines);
               out = str_join [CHR 0x0A] lines in
           if 0 < maxBytes \<and> maxBytes < int (length out)
           then (let out = last_n (nat maxBytes) out in
                 case str_cut CHR 0x0A out of None \<Rightarrow> out | Some (_, rest) \<Rightarrow> rest)
           else out)))"

text \<open>\<open>SanitizeName\<close> works rune by rune; on ASCII text a rune is a byte.\<close>

definition name_char :: "char \<Rightarrow> bool" where
  "name_char c =
     (let n = of_char c :: nat in
      (97 \<le> n \<and> n \<le> 122) \<or> (65 \<le> n \<and> n \<le> 90) \<or> (48 \<le> n \<and> n \<le> 57)
      \<or> c = CHR ''_'' \<or> c = CHR ''.'' \<or> c = CHR ''-'')"

definition SanitizeName :: "string \<Rightarrow> string" where
  "SanitizeName s = map (\<lambda>c. if name_char c then c else CHR ''-'') s"

section \<open>Lemmas\<close>

lemma NodeGreen_not_failed: "NodeGreen res \<Longrightarrow> cr_Status res \<noteq> CheckFailed \<and> cr_Err res = None"
  by (auto simp: NodeGreen_def)

lemma first_failure_None:
  "first_failure xs = None \<longleftrightarrow> (\<forall>x \<in> set xs. cr_Status x \<noteq> CheckFailed \<and> cr_Err x = None)"
  by (induction xs) auto

lemma first_failure_Some:
  "first_failure xs = Some x \<Longrightarrow>
   \<exists>pre post. xs = pre @ x # post \<and> (cr_Status x = CheckFailed \<or> cr_Err x \<noteq> None)
     \<and> (\<forall>y \<in> set pre. cr_Status y \<noteq> CheckFailed \<and> cr_Err y = None)"
proof (induction xs)
  case (Cons a xs)
  show ?case
  proof (cases "cr_Status a = CheckFailed \<or> cr_Err a \<noteq> None")
    case True
    with Cons.prems show ?thesis by (auto intro: exI [of _ "[]"])
  next
    case False
    with Cons obtain pre post where "xs = pre @ x # post"
      "cr_Status x = CheckFailed \<or> cr_Err x \<noteq> None"
      "\<forall>y \<in> set pre. cr_Status y \<noteq> CheckFailed \<and> cr_Err y = None" by auto
    with False show ?thesis by (intro exI [of _ "a # pre"] exI [of _ post]) auto
  qed
qed simp

lemma str_cut_length: "str_cut c s = Some (a, b) \<Longrightarrow> length b < length s"
  by (drule str_cut_SomeD) simp

lemma name_char_dash [simp]: "name_char CHR ''-''"
  by (simp add: name_char_def Let_def)

lemma name_char_slash [simp]: "\<not> name_char CHR ''/''"
  by (simp add: name_char_def Let_def)

lemma str_join_append:
  "xs \<noteq> [] \<Longrightarrow> ys \<noteq> [] \<Longrightarrow> str_join sep (xs @ ys) = str_join sep xs @ sep @ str_join sep ys"
proof (induction sep xs rule: str_join.induct)
  case (2 sep x)
  then show ?case by (cases ys) simp_all
qed simp_all

text \<open>The cut at \<open>maxLines\<close> drops whole lines from the front.\<close>

lemma tail_lines_cut:
  assumes "0 < n" "n < length lines"
  shows "\<exists>pre. str_join [c] lines = pre @ [c] @ str_join [c] (last_n n lines)"
proof -
  let ?k = "length lines - n"
  have "lines = take ?k lines @ last_n n lines" by (simp add: last_n_def)
  moreover have "take ?k lines \<noteq> []" "last_n n lines \<noteq> []"
    using assms by (auto simp: last_n_def)
  ultimately show ?thesis by (metis str_join_append)
qed

text \<open>The two cuts of \<open>FailureTail\<close>: whole lines, then bytes up to the next line break.\<close>

definition cut_lines :: "int \<Rightarrow> string list \<Rightarrow> string list" where
  "cut_lines maxLines lines =
     (if 0 < maxLines \<and> maxLines < int (length lines) then last_n (nat maxLines) lines else lines)"

definition cut_bytes :: "int \<Rightarrow> string \<Rightarrow> string" where
  "cut_bytes maxBytes out =
     (if 0 < maxBytes \<and> maxBytes < int (length out)
      then (let out = last_n (nat maxBytes) out in
            case str_cut CHR 0x0A out of None \<Rightarrow> out | Some (_, rest) \<Rightarrow> rest)
      else out)"

lemma FailureTail_cuts:
  "FailureTail (Some res) maxLines maxBytes =
     cut_bytes maxBytes (str_join [CHR 0x0A] (cut_lines maxLines (tail_lines res)))"
  by (cases "tail_lines res = []")
    (auto simp: FailureTail_def cut_bytes_def cut_lines_def Let_def)

lemma cut_lines_suffix:
  "\<exists>pre. str_join [CHR 0x0A] lines = pre @ str_join [CHR 0x0A] (cut_lines n lines)
     \<and> (pre = [] \<or> last pre = CHR 0x0A)"
proof (cases "0 < n \<and> n < int (length lines)")
  case True
  then obtain p where "str_join [CHR 0x0A] lines = p @ [CHR 0x0A] @ str_join [CHR 0x0A] (cut_lines n lines)"
    using tail_lines_cut [of "nat n" lines "CHR 0x0A"] by (auto simp: cut_lines_def nat_less_iff)
  then show ?thesis by (intro exI [of _ "p @ [CHR 0x0A]"]) simp
qed (auto simp: cut_lines_def)

lemma cut_bytes_suffix:
  "\<exists>pre. out = pre @ cut_bytes n out \<and> (0 < n \<longrightarrow> int (length (cut_bytes n out)) \<le> n)
     \<and> (pre = [] \<or> last pre = CHR 0x0A \<or> CHR 0x0A \<notin> set (cut_bytes n out))"
proof (cases "0 < n \<and> n < int (length out)")
  case True
  define kept where "kept = last_n (nat n) out"
  define cut where "cut = take (length out - nat n) out"
  have split: "out = cut @ kept" by (simp add: cut_def kept_def last_n_def)
  have len: "int (length kept) \<le> n" using True by (auto simp: kept_def)
  show ?thesis
  proof (cases "str_cut CHR 0x0A kept")
    case None
    with True have "cut_bytes n out = kept" by (simp add: cut_bytes_def kept_def)
    then show ?thesis using split len None by (intro exI [of _ cut]) (simp add: str_cut_None)
  next
    case (Some ab)
    then obtain a b where ab: "str_cut CHR 0x0A kept = Some (a, b)" by (cases ab) simp
    with True have "cut_bytes n out = b" by (simp add: cut_bytes_def kept_def)
    moreover have "kept = a @ CHR 0x0A # b" using ab by (auto dest: str_cut_SomeD)
    ultimately show ?thesis using split len by (intro exI [of _ "cut @ a @ [CHR 0x0A]"]) auto
  qed
qed (auto simp: cut_bytes_def)

text \<open>
  \<open>FailureTail\<close> returns an end of the non-blank output lines joined with the error, at most
  \<open>maxBytes\<close> long when a byte limit is set, and the cut is at the start of a line unless what is
  left is a single line.
\<close>

theorem FailureTail_suffix:
  "\<exists>pre. str_join [CHR 0x0A] (tail_lines res) = pre @ FailureTail (Some res) maxLines maxBytes
     \<and> (0 < maxBytes \<longrightarrow> int (length (FailureTail (Some res) maxLines maxBytes)) \<le> maxBytes)
     \<and> (pre = [] \<or> last pre = CHR 0x0A \<or> CHR 0x0A \<notin> set (FailureTail (Some res) maxLines maxBytes))"
proof -
  obtain p where p: "str_join [CHR 0x0A] (tail_lines res) =
      p @ str_join [CHR 0x0A] (cut_lines maxLines (tail_lines res))"
    "p = [] \<or> last p = CHR 0x0A"
    using cut_lines_suffix by blast
  obtain q where q: "str_join [CHR 0x0A] (cut_lines maxLines (tail_lines res)) =
      q @ FailureTail (Some res) maxLines maxBytes"
    "0 < maxBytes \<longrightarrow> int (length (FailureTail (Some res) maxLines maxBytes)) \<le> maxBytes"
    "q = [] \<or> last q = CHR 0x0A \<or> CHR 0x0A \<notin> set (FailureTail (Some res) maxLines maxBytes)"
    using cut_bytes_suffix unfolding FailureTail_cuts by blast
  show ?thesis using p q by (intro exI [of _ "p @ q"]) (auto simp: last_append)
qed

definition sample_failure :: check_result where
  "sample_failure = check_result_zero\<lparr>cr_Output := ''ok one'' @ [CHR 0x0A, CHR 0x0A] @ ''boom'', cr_Err := Some ''exit 1''\<rparr>"

theorem FailureTail_suffix_witness:
  "FailureTail (Some sample_failure) 2 9 = ''exit 1''
   \<and> int (length (FailureTail (Some sample_failure) 2 9)) \<le> 9"
  using FailureTail_suffix [of sample_failure 2 9] by (auto simp: sample_failure_def) code_simp+

text \<open>
  \<open>SanitizeName\<close> keeps every allowed character, replaces every other one, so its result has
  no path separator, and applying it again changes nothing.
\<close>

theorem SanitizeName_safe:
  "length (SanitizeName s) = length s \<and> list_all name_char (SanitizeName s)
   \<and> CHR ''/'' \<notin> set (SanitizeName s)
   \<and> SanitizeName (SanitizeName s) = SanitizeName s
   \<and> (SanitizeName s = s) = list_all name_char s"
proof -
  have "(map (\<lambda>c. if name_char c then c else CHR ''-'') s = s) = list_all name_char s"
    by (induction s) auto
  then show ?thesis
    by (auto simp: SanitizeName_def list_all_iff comp_def split: if_splits)
qed

end
