(* ===== verification/Core_Slots.thy ===== *)
theory Core_Slots
  imports Core_Types
begin

text \<open>
  The execution slots of \<^verbatim>\<open>internal/core/slots.go\<close>: a counting semaphore of \<open>limit\<close> slots, the last
  \<open>reserve\<close> of which only urgent work may take.  A nil \<open>*Slots\<close> is \<open>None\<close> and unlimited.
  A panic is \<open>Inl\<close> of its message.  The \<open>changed\<close> channel, closed and replaced by every
  \<open>Release\<close>, is a generation number.
\<close>

record slots =
  sl_limit :: int
  sl_reserve :: int
  sl_used :: int
  sl_changed :: nat

definition NewReservedSlots :: "int \<Rightarrow> int \<Rightarrow> string + slots" where
  "NewReservedSlots n reserve =
     (if n \<le> 0 \<or> reserve < 0 \<or> n \<le> reserve
      then Inl ''core.NewReservedSlots: invalid capacity''
      else Inr \<lparr>sl_limit = n, sl_reserve = reserve, sl_used = 0, sl_changed = 0\<rparr>)"

definition NewSlots :: "int \<Rightarrow> string + slots" where
  "NewSlots n = NewReservedSlots n 0"

definition acquire :: "bool \<Rightarrow> slots \<Rightarrow> bool \<times> slots" where
  "acquire urgent s =
     (let limit = (if urgent then sl_limit s else sl_limit s - sl_reserve s) in
      if limit \<le> sl_used s then (False, s) else (True, s\<lparr>sl_used := sl_used s + 1\<rparr>))"

definition TryAcquirePriority :: "bool \<Rightarrow> slots option \<Rightarrow> bool \<times> slots option" where
  "TryAcquirePriority urgent os =
     (case os of None \<Rightarrow> (True, None)
      | Some s \<Rightarrow> (case acquire urgent s of (ok, s') \<Rightarrow> (ok, Some s')))"

definition TryAcquire :: "slots option \<Rightarrow> bool \<times> slots option" where
  "TryAcquire os = TryAcquirePriority False os"

text \<open>
  \<open>Acquire\<close> blocks.  Its loop runs over what each iteration observes: the context's error and the
  state the mutex protects at that moment.  It returns an error, an acquired slot, or, when the
  observations end first, it is still waiting.
\<close>

datatype acquire_outcome = Acquired "slots option" | AcquireFailed string | StillWaiting

fun Acquire_loop :: "(go_error \<times> slots) list \<Rightarrow> acquire_outcome" where
  "Acquire_loop [] = StillWaiting"
| "Acquire_loop ((err, s) # obs) =
     (case err of Some e \<Rightarrow> AcquireFailed e
      | None \<Rightarrow> (case acquire False s of
                   (True, s') \<Rightarrow> Acquired (Some s')
                 | (False, _) \<Rightarrow> Acquire_loop obs))"

definition Acquire :: "bool \<Rightarrow> (go_error \<times> slots) list \<Rightarrow> acquire_outcome" where
  "Acquire is_nil obs = (if is_nil then Acquired None else Acquire_loop obs)"

definition Release :: "slots option \<Rightarrow> string + slots option" where
  "Release os =
     (case os of None \<Rightarrow> Inr None
      | Some s \<Rightarrow>
          if sl_used s = 0 then Inl ''core.Slots.Release: release without matching acquire''
          else Inr (Some (s\<lparr>sl_used := sl_used s - 1, sl_changed := Suc (sl_changed s)\<rparr>)))"

definition InUse :: "slots option \<Rightarrow> int" where
  "InUse os = (case os of None \<Rightarrow> 0 | Some s \<Rightarrow> sl_used s)"

definition Saturated :: "slots option \<Rightarrow> bool" where
  "Saturated os = (case os of None \<Rightarrow> False | Some s \<Rightarrow> sl_limit s - sl_reserve s \<le> sl_used s)"

section \<open>Invariant\<close>

definition slots_inv :: "slots \<Rightarrow> bool" where
  "slots_inv s = (0 \<le> sl_reserve s \<and> sl_reserve s < sl_limit s \<and> 0 \<le> sl_used s \<and> sl_used s \<le> sl_limit s)"

datatype slot_op = OpTry bool | OpRelease

text \<open>One call on a shared \<open>Slots\<close>; a \<open>Release\<close> that panics leaves the state alone.\<close>

fun slot_step :: "slot_op \<Rightarrow> slots \<Rightarrow> slots" where
  "slot_step (OpTry u) s = snd (acquire u s)"
| "slot_step OpRelease s =
     (case Release (Some s) of Inr (Some s') \<Rightarrow> s' | _ \<Rightarrow> s)"

lemma slot_step_inv: "slots_inv s \<Longrightarrow> slots_inv (slot_step x s)"
  by (cases x) (auto simp: acquire_def Let_def Release_def slots_inv_def)

interpretation slot_sys: invariant_system slot_step slots_inv
  by unfold_locales (rule slot_step_inv)

lemma slot_step_limits [simp]:
  "sl_limit (slot_step x s) = sl_limit s" "sl_reserve (slot_step x s) = sl_reserve s"
  by (cases x; auto simp: acquire_def Release_def Let_def)+

lemma slot_run_limits:
  "sl_limit (fold slot_step xs s) = sl_limit s \<and> sl_reserve (fold slot_step xs s) = sl_reserve s"
  by (induction xs arbitrary: s) simp_all

lemma NewReservedSlots_inv: "NewReservedSlots n r = Inr s \<Longrightarrow> slots_inv s"
  by (auto simp: NewReservedSlots_def slots_inv_def split: if_splits)

lemma acquire_false_same: "acquire u s = (False, s') \<Longrightarrow> s' = s"
  by (auto simp: acquire_def Let_def split: if_splits)

lemma slot_step_ordinary:
  "x \<noteq> OpTry True \<Longrightarrow> sl_used s \<le> sl_limit s - sl_reserve s \<Longrightarrow>
   sl_used (slot_step x s) \<le> sl_limit s - sl_reserve s"
  by (cases x) (auto simp: acquire_def Release_def Let_def)

lemma slot_run_ordinary:
  "OpTry True \<notin> set xs \<Longrightarrow> sl_used s \<le> sl_limit s - sl_reserve s \<Longrightarrow>
   sl_used (fold slot_step xs s) \<le> sl_limit s - sl_reserve s"
proof (induction xs arbitrary: s)
  case (Cons x xs)
  then have "x \<noteq> OpTry True" "OpTry True \<notin> set xs" by auto
  with Cons.IH [of "slot_step x s"] slot_step_ordinary Cons.prems(2) show ?case by simp
qed simp

text \<open>
  C34: whatever calls are made on a semaphore of \<open>n\<close> slots with \<open>r\<close> reserved, the count stays
  within \<open>0..n\<close>; ordinary work gets a slot exactly while fewer than \<open>n - r\<close> are taken and urgent
  work exactly while fewer than \<open>n\<close> are; \<open>Saturated\<close> is the negation of the ordinary test; and
  ordinary work alone never takes the reserve.
\<close>

theorem slots_capacity:
  assumes new: "NewReservedSlots n r = Inr s0" and s: "s = fold slot_step xs s0"
  shows "0 \<le> InUse (Some s) \<and> InUse (Some s) \<le> n
    \<and> fst (TryAcquire (Some s)) = (InUse (Some s) < n - r)
    \<and> fst (TryAcquirePriority True (Some s)) = (InUse (Some s) < n)
    \<and> Saturated (Some s) = (\<not> fst (TryAcquire (Some s)))
    \<and> (OpTry True \<notin> set xs \<longrightarrow> InUse (Some s) \<le> n - r)"
proof -
  from new have init: "sl_limit s0 = n" "sl_reserve s0 = r" "sl_used s0 = 0" "0 \<le> n - r"
    by (auto simp: NewReservedSlots_def split: if_splits)
  have lim: "sl_limit s = n" "sl_reserve s = r" using slot_run_limits [of xs s0] s init by simp_all
  have "slots_inv s" unfolding s by (rule slot_sys.run_inv [OF NewReservedSlots_inv [OF new]])
  then have "0 \<le> sl_used s \<and> sl_used s \<le> n" by (simp add: slots_inv_def lim)
  moreover have "OpTry True \<notin> set xs \<longrightarrow> sl_used s \<le> n - r"
    using slot_run_ordinary [of xs s0] init s by simp
  ultimately show ?thesis
    by (auto simp: InUse_def Saturated_def TryAcquire_def TryAcquirePriority_def acquire_def Let_def lim
        split: prod.splits)
qed

theorem slots_capacity_witness:
  "\<not> fst (TryAcquire (Some (fold slot_step [OpTry False, OpTry False, OpRelease, OpTry False]
       \<lparr>sl_limit = 3, sl_reserve = 1, sl_used = 0, sl_changed = 0\<rparr>)))"
proof -
  let ?s0 = "\<lparr>sl_limit = 3, sl_reserve = 1, sl_used = 0, sl_changed = 0\<rparr>"
  have new: "NewReservedSlots 3 1 = Inr ?s0" by (simp add: NewReservedSlots_def)
  have "InUse (Some (fold slot_step [OpTry False, OpTry False, OpRelease, OpTry False] ?s0)) = 2"
    by code_simp
  then show ?thesis
    using slots_capacity [OF new refl, of "[OpTry False, OpTry False, OpRelease, OpTry False]"] by simp
qed

end
