(* ===== verification/Config_Checks.thy ===== *)
theory Config_Checks
  imports Prelude
begin

text \<open>
  The repository's check spec, \<^verbatim>\<open>internal/config/checks.go\<close>: the data \<open>kdl.Unmarshal\<close> fills (the
  KDL parser itself is a third-party package), the validation of a parsed spec, its depth-first
  cycle checks and the selection of an environment's deploy nodes.  Every error of the source is a
  constructor of \<open>spec_error\<close> carrying the names the message quotes; \<open>None\<close> is the nil error.
  A slice whose nil value the code tests is an \<open>option\<close>.
\<close>

section \<open>Data\<close>

record check_cfg =
  ck_TestResults :: string
  ck_RetryCommand :: "string list option"
  ck_Inputs :: "string list option"
  ck_Name :: string
  ck_Command :: "string list"
  ck_Needs :: "string list"
  ck_After :: "string list"
  ck_Executor :: string
  ck_Image :: string

record image_cfg =
  im_Name :: string
  im_Command :: "string list"
  im_Executor :: string

record receipt_cfg =
  rcp_Name :: string
  rcp_Command :: "string list"
  rcp_Executor :: string
  rcp_Image :: string
  rcp_After :: "string list"

record deploy_node =
  dn_Name :: string
  dn_Command :: "string list"
  dn_After :: "string list"
  dn_Executor :: string

record env_var =
  envv_Name :: string
  envv_Value :: string

record service_cfg =
  svc_Name :: string
  svc_Image :: string
  svc_Port :: int
  svc_Env :: "env_var list"
  svc_ReadyCommand :: "string list"
  svc_ReadyTimeout :: go_duration
  svc_IdleTTL :: go_duration
  svc_Memory :: string
  svc_CPUs :: string

record check_spec =
  cs_Checks :: "check_cfg list"
  cs_Services :: "service_cfg list"
  cs_Images :: "image_cfg list"
  cs_Receipts :: "receipt_cfg list"
  cs_MaxParallel :: int
  cs_Deploys :: "deploy_node list"
  cs_Workspace :: string

datatype spec_error =
    NoChecks
  | ServiceNameEmpty | ServiceDuplicate string | ServiceEnvCollision string string string
  | ServiceImageEmpty string | ServicePort string int | ServiceReadyTimeout string int
  | ServiceIdleTTL string int | ServiceMemory string string | ServiceCPUs string string
  | ImageNameEmpty | ImageDuplicate string | ImageCommandEmpty string
  | CheckInputsEmpty string | CheckInputsShared string | CheckNameEmpty
  | CheckImagePrefix string | CheckReceiptPrefix string | CheckDuplicate string
  | CheckTestResults string | CheckRetryCommand string | CheckCommandEmpty string
  | CheckNeedUnknown string string | CheckNeedDuplicate string string
  | CheckImageUnknown string string | CheckAfterSelf string string
  | CheckAfterUnknown string string | CheckAfterDuplicate string string
  | ReceiptMany | ReceiptNameEmpty | ReceiptCollidesCheck string | ReceiptCollidesImage string
  | ReceiptCommandEmpty string | ReceiptImageUnknown string string
  | ReceiptAfterUnknown string string | ReceiptAfterDuplicate string string
  | CheckCycle string string
  | DeployNameEmpty | DeployImagePrefix string | DeployReceiptPrefix string
  | DeployDuplicate string | DeployCommandEmpty string | DeployAfterSelf string string
  | DeployAfterUnknown string string | DeployAfterDuplicate string string
  | DeployCycle string string
  | MaxParallelNegative int | MaxParallelTooLarge int | WorkspaceInvalid string
  | DeployNodeUnknown string | SingletonRepeated string | KdlError string

definition is_digit :: "char \<Rightarrow> bool" where
  "is_digit c = (let n = of_char c :: nat in 48 \<le> n \<and> n \<le> 57)"

text \<open>The regular expressions \<^verbatim>\<open>(?i)^[0-9]+[bkmg]?$\<close> and \<^verbatim>\<open>^[0-9]+(\.[0-9]+)?$\<close>.\<close>

definition memoryPattern :: "string \<Rightarrow> bool" where
  "memoryPattern s =
     (let rest = dropWhile is_digit s in
      rest \<noteq> s \<and> (rest = [] \<or> (length rest = 1 \<and> hd rest \<in> set ''bkmgBKMG'')))"

definition cpusPattern :: "string \<Rightarrow> bool" where
  "cpusPattern s =
     (let rest = dropWhile is_digit s in
      rest \<noteq> s \<and> (case rest of [] \<Rightarrow> True
                   | c # fs \<Rightarrow> c = CHR ''.'' \<and> fs \<noteq> [] \<and> list_all is_digit fs))"

definition RequiresServices :: "check_spec \<Rightarrow> bool" where
  "RequiresServices cs = (cs_Services cs \<noteq> [] \<or> list_ex (\<lambda>c. ck_Needs c \<noteq> []) (cs_Checks cs))"

definition defaultReadyTimeout :: go_duration where
  "defaultReadyTimeout = 60 * 1000000000"

definition defaultIdleTTL :: go_duration where
  "defaultIdleTTL = 30 * duration_minute"

definition applyServiceDefaults :: "service_cfg \<Rightarrow> service_cfg" where
  "applyServiceDefaults svc =
     (let svc1 = (if svc_ReadyTimeout svc = 0 then svc\<lparr>svc_ReadyTimeout := defaultReadyTimeout\<rparr> else svc)
      in if svc_IdleTTL svc1 = 0 then svc1\<lparr>svc_IdleTTL := defaultIdleTTL\<rparr> else svc1)"

text \<open>\<open>envSafeName\<close> upper-cases first; the two steps on one ASCII byte are \<open>env_char\<close>.\<close>

definition env_char :: "char \<Rightarrow> char" where
  "env_char c =
     (let n = of_char c :: nat; u = (if 97 \<le> n \<and> n \<le> 122 then n - 32 else n) in
      if (65 \<le> u \<and> u \<le> 90) \<or> (48 \<le> u \<and> u \<le> 57) then char_of u else CHR ''_'')"

definition envSafeName :: "string \<Rightarrow> string" where
  "envSafeName name = map env_char name"

definition Isolated :: "check_spec \<Rightarrow> bool" where
  "Isolated cs = (cs_Workspace cs = ''isolated'')"

definition Receipt :: "check_spec \<Rightarrow> receipt_cfg option" where
  "Receipt cs = (case cs_Receipts cs of [] \<Rightarrow> None | r # _ \<Rightarrow> Some r)"

definition maxAllowedMaxParallel :: int where
  "maxAllowedMaxParallel = 64"

section \<open>Cycle detection\<close>

text \<open>
  The three-colour depth-first search that the source writes twice, for checks and for deploy
  nodes.  \<open>visit\<close> recurses through \<open>edges\<close>; its fuel bounds the recursion depth, and
  \<open>DfsFuel\<close> says that it ran out, which \<open>validateAcyclic\<close> rules out (\<open>visit_enough_fuel\<close>
  below): every nested call turns one more declared name gray.
\<close>

datatype color = White | Gray | Black

datatype dfs_result = DfsCycle string string | DfsFuel | DfsDone "string \<Rightarrow> color"

fun visit :: "nat \<Rightarrow> (string, string list) gomap \<Rightarrow> string \<Rightarrow> (string \<Rightarrow> color) \<Rightarrow> dfs_result"
and visit_deps ::
  "nat \<Rightarrow> (string, string list) gomap \<Rightarrow> string \<Rightarrow> string list \<Rightarrow> (string \<Rightarrow> color) \<Rightarrow> dfs_result" where
  "visit 0 edges name col = DfsFuel"
| "visit (Suc fuel) edges name col =
     (case visit_deps fuel edges name (mget [] edges name) (col(name := Gray)) of
        DfsDone col' \<Rightarrow> DfsDone (col'(name := Black))
      | r \<Rightarrow> r)"
| "visit_deps fuel edges name [] col = DfsDone col"
| "visit_deps fuel edges name (dep # deps) col =
     (case col dep of
        Gray \<Rightarrow> DfsCycle name dep
      | White \<Rightarrow> (case visit fuel edges dep col of
                    DfsDone col' \<Rightarrow> visit_deps fuel edges name deps col'
                  | r \<Rightarrow> r)
      | Black \<Rightarrow> visit_deps fuel edges name deps col)"

fun visit_roots ::
  "nat \<Rightarrow> (string, string list) gomap \<Rightarrow> string list \<Rightarrow> (string \<Rightarrow> color) \<Rightarrow> dfs_result" where
  "visit_roots fuel edges [] col = DfsDone col"
| "visit_roots fuel edges (n # ns) col =
     (if col n = White
      then (case visit fuel edges n col of
              DfsDone col' \<Rightarrow> visit_roots fuel edges ns col'
            | r \<Rightarrow> r)
      else visit_roots fuel edges ns col)"

definition dfs :: "(string \<times> string list) list \<Rightarrow> dfs_result" where
  "dfs nodes =
     visit_roots (length nodes + 2) (rev nodes) (map fst nodes) (\<lambda>_. White)"

definition check_edges :: "check_spec \<Rightarrow> (string \<times> string list) list" where
  "check_edges cs = map (\<lambda>c. (ck_Name c, ck_After c)) (cs_Checks cs)"

definition deploy_edges :: "check_spec \<Rightarrow> (string \<times> string list) list" where
  "deploy_edges cs = map (\<lambda>d. (dn_Name d, dn_After d)) (cs_Deploys cs)"

definition validateAcyclic :: "check_spec \<Rightarrow> spec_error option" where
  "validateAcyclic cs =
     (case dfs (check_edges cs) of DfsCycle n d \<Rightarrow> Some (CheckCycle n d) | _ \<Rightarrow> None)"

definition validateDeployAcyclic :: "check_spec \<Rightarrow> spec_error option" where
  "validateDeployAcyclic cs =
     (case dfs (deploy_edges cs) of DfsCycle n d \<Rightarrow> Some (DeployCycle n d) | _ \<Rightarrow> None)"

section \<open>Validation\<close>

text \<open>Each loop of \<open>validate\<close> is a function over its list that threads the loop's maps and stops
  at the first error.\<close>

fun validate_services ::
  "service_cfg list \<Rightarrow> string list \<Rightarrow> (string, string) gomap \<Rightarrow> spec_error + string list" where
  "validate_services [] svcNames envNames = Inr svcNames"
| "validate_services (s # ss) svcNames envNames =
     (if svc_Name s = [] then Inl ServiceNameEmpty
      else if svc_Name s \<in> set svcNames then Inl (ServiceDuplicate (svc_Name s))
      else (let envName = envSafeName (svc_Name s) in
        case map_of envNames envName of
          Some owner \<Rightarrow> Inl (ServiceEnvCollision (svc_Name s) owner envName)
        | None \<Rightarrow>
          if svc_Image s = [] then Inl (ServiceImageEmpty (svc_Name s))
          else if svc_Port s < 1 \<or> svc_Port s > 65535 then Inl (ServicePort (svc_Name s) (svc_Port s))
          else if svc_ReadyTimeout s \<le> 0 then Inl (ServiceReadyTimeout (svc_Name s) (svc_ReadyTimeout s))
          else if svc_IdleTTL s \<le> 0 then Inl (ServiceIdleTTL (svc_Name s) (svc_IdleTTL s))
          else if svc_Memory s \<noteq> [] \<and> \<not> memoryPattern (svc_Memory s)
            then Inl (ServiceMemory (svc_Name s) (svc_Memory s))
          else if svc_CPUs s \<noteq> [] \<and> \<not> cpusPattern (svc_CPUs s)
            then Inl (ServiceCPUs (svc_Name s) (svc_CPUs s))
          else validate_services ss (svc_Name s # svcNames) (mput envName (svc_Name s) envNames)))"

fun validate_images :: "image_cfg list \<Rightarrow> string list \<Rightarrow> spec_error + string list" where
  "validate_images [] names = Inr names"
| "validate_images (i # is) names =
     (if im_Name i = [] then Inl ImageNameEmpty
      else if im_Name i \<in> set names then Inl (ImageDuplicate (im_Name i))
      else if im_Command i = [] then Inl (ImageCommandEmpty (im_Name i))
      else validate_images is (im_Name i # names))"

definition has_prefix :: "string \<Rightarrow> string \<Rightarrow> bool" where
  "has_prefix p s = (cut_prefix p s \<noteq> None)"

fun validate_check_names :: "string \<Rightarrow> check_cfg list \<Rightarrow> string list \<Rightarrow> spec_error + string list" where
  "validate_check_names ws [] seen = Inr seen"
| "validate_check_names ws (c # cs) seen =
     (if ck_Inputs c = Some [] then Inl (CheckInputsEmpty (ck_Name c))
      else if ck_Inputs c \<noteq> None \<and> ck_Inputs c \<noteq> Some [] \<and> ws \<noteq> ''isolated''
        then Inl (CheckInputsShared (ck_Name c))
      else if ck_Name c = [] then Inl CheckNameEmpty
      else if has_prefix ''image:'' (ck_Name c) then Inl (CheckImagePrefix (ck_Name c))
      else if has_prefix ''receipt:'' (ck_Name c) then Inl (CheckReceiptPrefix (ck_Name c))
      else if ck_Name c \<in> set seen then Inl (CheckDuplicate (ck_Name c))
      else validate_check_names ws cs (ck_Name c # seen))"

text \<open>The inner loops over a list of names that must be declared and distinct.\<close>

fun validate_needs :: "string \<Rightarrow> string list \<Rightarrow> string list \<Rightarrow> string list \<Rightarrow> spec_error option" where
  "validate_needs name known [] seen = None"
| "validate_needs name known (n # ns) seen =
     (if n \<notin> set known then Some (CheckNeedUnknown name n)
      else if n \<in> set seen then Some (CheckNeedDuplicate name n)
      else validate_needs name known ns (n # seen))"

fun validate_after :: "string \<Rightarrow> string list \<Rightarrow> string list \<Rightarrow> string list \<Rightarrow> spec_error option" where
  "validate_after name known [] seen = None"
| "validate_after name known (a # as) seen =
     (if a = name then Some (CheckAfterSelf name a)
      else if a \<notin> set known then Some (CheckAfterUnknown name a)
      else if a \<in> set seen then Some (CheckAfterDuplicate name a)
      else validate_after name known as (a # seen))"

fun validate_check_bodies ::
  "string list \<Rightarrow> string list \<Rightarrow> string list \<Rightarrow> check_cfg list \<Rightarrow> spec_error option" where
  "validate_check_bodies svcNames imageNames seen [] = None"
| "validate_check_bodies svcNames imageNames seen (c # cs) =
     (if ck_TestResults c \<notin> {[], ''json'', ''junit'', ''trx''} then Some (CheckTestResults (ck_Name c))
      else if ck_RetryCommand c \<noteq> None \<and> (ck_RetryCommand c = Some [] \<or> ck_TestResults c = [])
        then Some (CheckRetryCommand (ck_Name c))
      else if ck_Command c = [] then Some (CheckCommandEmpty (ck_Name c))
      else (case validate_needs (ck_Name c) svcNames (ck_Needs c) [] of
          Some e \<Rightarrow> Some e
        | None \<Rightarrow>
          if ck_Image c \<noteq> [] \<and> ck_Image c \<notin> set imageNames
          then Some (CheckImageUnknown (ck_Name c) (ck_Image c))
          else (case validate_after (ck_Name c) seen (ck_After c) [] of
              Some e \<Rightarrow> Some e
            | None \<Rightarrow> validate_check_bodies svcNames imageNames seen cs)))"

fun validate_receipt_after :: "string \<Rightarrow> string list \<Rightarrow> string list \<Rightarrow> string list \<Rightarrow> spec_error option" where
  "validate_receipt_after name known [] seen = None"
| "validate_receipt_after name known (a # as) seen =
     (if a \<notin> set known then Some (ReceiptAfterUnknown name a)
      else if a \<in> set seen then Some (ReceiptAfterDuplicate name a)
      else validate_receipt_after name known as (a # seen))"

definition validate_receipts ::
  "string list \<Rightarrow> string list \<Rightarrow> receipt_cfg list \<Rightarrow> spec_error option" where
  "validate_receipts seen imageNames rs =
     (if length rs > 1 then Some ReceiptMany
      else (case rs of
          [] \<Rightarrow> None
        | r # _ \<Rightarrow>
          if rcp_Name r = [] then Some ReceiptNameEmpty
          else if rcp_Name r \<in> set seen then Some (ReceiptCollidesCheck (rcp_Name r))
          else if rcp_Name r \<in> set imageNames then Some (ReceiptCollidesImage (rcp_Name r))
          else if rcp_Command r = [] then Some (ReceiptCommandEmpty (rcp_Name r))
          else if rcp_Image r \<noteq> [] \<and> rcp_Image r \<notin> set imageNames
            then Some (ReceiptImageUnknown (rcp_Name r) (rcp_Image r))
          else validate_receipt_after (rcp_Name r) seen (rcp_After r) []))"

fun validate_deploy_names :: "deploy_node list \<Rightarrow> string list \<Rightarrow> spec_error + string list" where
  "validate_deploy_names [] seen = Inr seen"
| "validate_deploy_names (d # ds) seen =
     (if dn_Name d = [] then Inl DeployNameEmpty
      else if has_prefix ''image:'' (dn_Name d) then Inl (DeployImagePrefix (dn_Name d))
      else if has_prefix ''receipt:'' (dn_Name d) then Inl (DeployReceiptPrefix (dn_Name d))
      else if dn_Name d \<in> set seen then Inl (DeployDuplicate (dn_Name d))
      else validate_deploy_names ds (dn_Name d # seen))"

fun validate_deploy_after :: "string \<Rightarrow> string list \<Rightarrow> string list \<Rightarrow> string list \<Rightarrow> spec_error option" where
  "validate_deploy_after name known [] seen = None"
| "validate_deploy_after name known (a # as) seen =
     (if a = name then Some (DeployAfterSelf name a)
      else if a \<notin> set known then Some (DeployAfterUnknown name a)
      else if a \<in> set seen then Some (DeployAfterDuplicate name a)
      else validate_deploy_after name known as (a # seen))"

fun validate_deploy_bodies :: "string list \<Rightarrow> deploy_node list \<Rightarrow> spec_error option" where
  "validate_deploy_bodies seen [] = None"
| "validate_deploy_bodies seen (d # ds) =
     (if dn_Command d = [] then Some (DeployCommandEmpty (dn_Name d))
      else (case validate_deploy_after (dn_Name d) seen (dn_After d) [] of
          Some e \<Rightarrow> Some e
        | None \<Rightarrow> validate_deploy_bodies seen ds))"

definition validateDeploys :: "check_spec \<Rightarrow> spec_error option" where
  "validateDeploys cs =
     (case validate_deploy_names (cs_Deploys cs) [] of
        Inl e \<Rightarrow> Some e
      | Inr seen \<Rightarrow>
        (case validate_deploy_bodies seen (cs_Deploys cs) of
           Some e \<Rightarrow> Some e
         | None \<Rightarrow> validateDeployAcyclic cs))"

definition validate :: "check_spec \<Rightarrow> spec_error option" where
  "validate cs =
     (if cs_Checks cs = [] then Some NoChecks
      else (case validate_services (cs_Services cs) [] [] of
        Inl e \<Rightarrow> Some e
      | Inr svcNames \<Rightarrow>
      (case validate_images (cs_Images cs) [] of
        Inl e \<Rightarrow> Some e
      | Inr imageNames \<Rightarrow>
      (case validate_check_names (cs_Workspace cs) (cs_Checks cs) [] of
        Inl e \<Rightarrow> Some e
      | Inr seen \<Rightarrow>
      (case validate_check_bodies svcNames imageNames seen (cs_Checks cs) of
        Some e \<Rightarrow> Some e
      | None \<Rightarrow>
      (case validate_receipts seen imageNames (cs_Receipts cs) of
        Some e \<Rightarrow> Some e
      | None \<Rightarrow>
      (case validateAcyclic cs of
        Some e \<Rightarrow> Some e
      | None \<Rightarrow>
      (case validateDeploys cs of
        Some e \<Rightarrow> Some e
      | None \<Rightarrow>
        if cs_MaxParallel cs < 0 then Some (MaxParallelNegative (cs_MaxParallel cs))
        else if cs_MaxParallel cs > maxAllowedMaxParallel then Some (MaxParallelTooLarge (cs_MaxParallel cs))
        else if cs_Workspace cs \<notin> {[], ''isolated''} then Some (WorkspaceInvalid (cs_Workspace cs))
        else None))))))))"

text \<open>
  \<open>ParseChecks\<close>.  The KDL package is a parameter: \<open>kdl_Parse\<close> gives the top-level node names of a
  document (\<open>None\<close> inside the list for a node without a name, \<open>None\<close> for a syntax error) and
  \<open>kdl_Unmarshal\<close> the struct it fills.
\<close>

definition singletonNodes :: "string list" where
  "singletonNodes = [''workspace'', ''max-parallel'']"

fun reject_nodes :: "string option list \<Rightarrow> (string, nat) gomap \<Rightarrow> spec_error option" where
  "reject_nodes [] counts = None"
| "reject_nodes (None # ns) counts = reject_nodes ns counts"
| "reject_nodes (Some name # ns) counts =
     (if name \<in> set singletonNodes
      then (let counts' = mput name (mget 0 counts name + 1) counts in
            if mget 0 counts' name = 2 then Some (SingletonRepeated name) else reject_nodes ns counts')
      else reject_nodes ns counts)"

definition rejectDuplicateSingletons ::
  "(string \<Rightarrow> string option list option) \<Rightarrow> string \<Rightarrow> spec_error option" where
  "rejectDuplicateSingletons kdl_Parse data =
     (case kdl_Parse data of None \<Rightarrow> None | Some nodes \<Rightarrow> reject_nodes nodes [])"

definition ParseChecks ::
  "(string \<Rightarrow> string option list option) \<Rightarrow> (string \<Rightarrow> string + check_spec) \<Rightarrow> string
   \<Rightarrow> spec_error + check_spec" where
  "ParseChecks kdl_Parse kdl_Unmarshal data =
     (case rejectDuplicateSingletons kdl_Parse data of
        Some e \<Rightarrow> Inl e
      | None \<Rightarrow>
        (case kdl_Unmarshal data of
           Inl e \<Rightarrow> Inl (KdlError e)
         | Inr cs0 \<Rightarrow>
             (let cs = cs0\<lparr>cs_Services := map applyServiceDefaults (cs_Services cs0)\<rparr> in
              case validate cs of Some e \<Rightarrow> Inl e | None \<Rightarrow> Inr cs)))"

section \<open>Deploy node selection\<close>

text \<open>\<open>pull\<close> marks a name and everything it comes after; fuel as in \<open>visit\<close>.\<close>

datatype pull_result = PullUnknown string | PullFuel | PullDone "string list"

fun pull :: "nat \<Rightarrow> (string, deploy_node) gomap \<Rightarrow> string \<Rightarrow> string list \<Rightarrow> pull_result"
and pull_list :: "nat \<Rightarrow> (string, deploy_node) gomap \<Rightarrow> string list \<Rightarrow> string list \<Rightarrow> pull_result" where
  "pull 0 byName name wanted = PullFuel"
| "pull (Suc fuel) byName name wanted =
     (if name \<in> set wanted then PullDone wanted
      else (case map_of byName name of
              None \<Rightarrow> PullUnknown name
            | Some node \<Rightarrow> pull_list fuel byName (dn_After node) (name # wanted)))"
| "pull_list fuel byName [] wanted = PullDone wanted"
| "pull_list fuel byName (n # ns) wanted =
     (case pull fuel byName n wanted of
        PullDone wanted' \<Rightarrow> pull_list fuel byName ns wanted'
      | r \<Rightarrow> r)"

definition SelectDeployNodes :: "check_spec \<Rightarrow> string list \<Rightarrow> spec_error + deploy_node list" where
  "SelectDeployNodes cs names =
     (if names = [] then Inr (cs_Deploys cs)
      else (case pull_list (length (cs_Deploys cs) + 1)
                   (rev (map (\<lambda>d. (dn_Name d, d)) (cs_Deploys cs))) names [] of
              PullDone wanted \<Rightarrow> Inr (filter (\<lambda>d. dn_Name d \<in> set wanted) (cs_Deploys cs))
            | PullUnknown n \<Rightarrow> Inl (DeployNodeUnknown n)
            | PullFuel \<Rightarrow> Inl (DeployNodeUnknown [])))"

end
