(* ===== verification/Config_Graph.thy ===== *)
theory Config_Graph
  imports Config_Checks
begin

text \<open>
  Correctness of the check spec's validation: the depth-first search finds a cycle exactly when the
  declared \<open>after\<close> edges have one, validation accepts only well-formed graphs, and the selection
  of deploy nodes is closed under \<open>after\<close>.
\<close>

section \<open>The depth-first search\<close>

definition edge_rel :: "(string, string list) gomap \<Rightarrow> (string \<times> string) set" where
  "edge_rel edges = {(n, d). d \<in> set (mget [] edges n)}"

definition black_closed :: "(string \<times> string) set \<Rightarrow> (string \<Rightarrow> color) \<Rightarrow> bool" where
  "black_closed E col = (\<forall>x y. col x = Black \<longrightarrow> (x, y) \<in> E \<longrightarrow> col y = Black)"

definition black_acyclic :: "(string \<times> string) set \<Rightarrow> (string \<Rightarrow> color) \<Rightarrow> bool" where
  "black_acyclic E col = (\<forall>x. col x = Black \<longrightarrow> (x, x) \<notin> E\<^sup>+)"

definition darker :: "(string \<Rightarrow> color) \<Rightarrow> (string \<Rightarrow> color) \<Rightarrow> bool" where
  "darker col col' = ((\<forall>x. col x \<noteq> White \<longrightarrow> col' x = col x) \<and> (\<forall>x. col' x = Gray \<longrightarrow> col x = Gray))"

lemma darker_trans: "darker a b \<Longrightarrow> darker b c \<Longrightarrow> darker a c"
  unfolding darker_def by metis

lemma darker_refl [simp]: "darker a a"
  by (simp add: darker_def)

lemma darker_black: "darker a b \<Longrightarrow> a n = Black \<Longrightarrow> b n = Black"
  by (simp add: darker_def)

lemma black_closed_trancl:
  assumes "black_closed E col" "col x = Black" "(x, y) \<in> E\<^sup>+"
  shows "col y = Black"
  using assms(3,2)
proof (induction rule: trancl_induct)
  case (base y)
  then show ?case using assms(1) by (auto simp: black_closed_def)
next
  case (step y z)
  then show ?case using assms(1) by (auto simp: black_closed_def)
qed

lemma visit_darker:
  "visit fuel edges name col = DfsDone col' \<Longrightarrow> col name = White \<Longrightarrow>
     darker col col' \<and> col' name = Black"
  "visit_deps fuel edges name deps col = DfsDone col' \<Longrightarrow> darker col col'"
proof (induction fuel edges name col and fuel edges name deps col arbitrary: col' and col'
    rule: visit_visit_deps.induct)
  case (2 fuel edges name col)
  then obtain c where c: "visit_deps fuel edges name (mget [] edges name) (col(name := Gray)) = DfsDone c"
    and col': "col' = c(name := Black)" by (auto split: dfs_result.splits)
  have "darker (col(name := Gray)) c" by (rule "2.IH" [OF c])
  then show ?case using 2(3) col' by (auto simp: darker_def)
next
  case (4 fuel edges name dep deps col)
  then show ?case
    by (auto split: color.splits dfs_result.splits intro: darker_trans)
qed simp_all

lemma closed_gray: "black_closed E col \<Longrightarrow> col n = White \<Longrightarrow> black_closed E (col(n := Gray))"
  by (fastforce simp: black_closed_def)

text \<open>Finishing a node: its successors are black, so it is on no cycle.\<close>

lemma finish_node:
  assumes cl: "black_closed E c" and ac: "black_acyclic E c" and g: "c n = Gray"
    and succ: "\<And>y. (n, y) \<in> E \<Longrightarrow> c y = Black"
  shows "black_closed E (c(n := Black)) \<and> black_acyclic E (c(n := Black))"
proof -
  have cl': "black_closed E (c(n := Black))"
    using cl succ by (auto simp: black_closed_def)
  have not_n: "(n, n) \<notin> E\<^sup>+"
  proof
    assume "(n, n) \<in> E\<^sup>+"
    then obtain y where y: "(n, y) \<in> E" "y = n \<or> (y, n) \<in> E\<^sup>+"
      by (metis tranclD rtrancl_eq_or_trancl)
    then have "c y = Black" using succ by blast
    then have "c n = Black" using y(2) black_closed_trancl [OF cl] by blast
    with g show False by simp
  qed
  have "black_acyclic E (c(n := Black))"
    using ac not_n by (auto simp: black_acyclic_def)
  with cl' show ?thesis by simp
qed

lemma visit_black:
  "visit fuel edges name col = DfsDone col' \<Longrightarrow> col name = White \<Longrightarrow>
     black_closed (edge_rel edges) col \<Longrightarrow> black_acyclic (edge_rel edges) col \<Longrightarrow>
     black_closed (edge_rel edges) col' \<and> black_acyclic (edge_rel edges) col'"
  "visit_deps fuel edges name deps col = DfsDone col' \<Longrightarrow> col name = Gray \<Longrightarrow>
     black_closed (edge_rel edges) col \<Longrightarrow> black_acyclic (edge_rel edges) col \<Longrightarrow>
     black_closed (edge_rel edges) col' \<and> black_acyclic (edge_rel edges) col'
     \<and> (\<forall>d \<in> set deps. col' d = Black)"
proof (induction fuel edges name col and fuel edges name deps col arbitrary: col' and col'
    rule: visit_visit_deps.induct)
  case (2 fuel edges name col)
  let ?E = "edge_rel edges" and ?g = "col(name := Gray)"
  from 2(2) obtain c where c: "visit_deps fuel edges name (mget [] edges name) ?g = DfsDone c"
    and col': "col' = c(name := Black)" by (auto split: dfs_result.splits)
  have g: "black_closed ?E ?g" "black_acyclic ?E ?g" "?g name = Gray"
    using "2.prems" closed_gray by (auto simp: black_acyclic_def)
  have b: "black_closed ?E c \<and> black_acyclic ?E c \<and> (\<forall>d \<in> set (mget [] edges name). c d = Black)"
    by (rule "2.IH" [OF c g(3) g(1) g(2)])
  have "c name = Gray" using visit_darker(2) [OF c] by (simp add: darker_def)
  then show ?case unfolding col'
    by (intro finish_node) (use b in \<open>auto simp: edge_rel_def\<close>)
next
  case (4 fuel edges name dep deps col)
  show ?case
  proof (cases "col dep")
    case White
    then obtain c where v: "visit fuel edges dep col = DfsDone c"
      and r: "visit_deps fuel edges name deps c = DfsDone col'"
      using 4(4) by (auto split: dfs_result.splits)
    have d: "darker col c" "c dep = Black" using visit_darker(1) [OF v White] by auto
    have "c name = Gray" using d(1) "4.prems"(2) by (simp add: darker_def)
    moreover have "black_closed (edge_rel edges) c \<and> black_acyclic (edge_rel edges) c"
      using "4.IH"(1) [OF White v White] "4.prems" by simp
    ultimately have
      "black_closed (edge_rel edges) col' \<and> black_acyclic (edge_rel edges) col'
       \<and> (\<forall>d \<in> set deps. col' d = Black)"
      using "4.IH"(2) [OF White v r] by simp
    moreover have "col' dep = Black"
      using visit_darker(2) [OF r] d(2) by (simp add: darker_def)
    ultimately show ?thesis by simp
  next
    case Black
    then have r: "visit_deps fuel edges name deps col = DfsDone col'" using 4(4) by simp
    have "col' dep = Black" using visit_darker(2) [OF r] Black by (simp add: darker_def)
    then show ?thesis using "4.IH"(3) [OF Black r] "4.prems" by simp
  qed (use 4 in simp)
qed simp_all

text \<open>A reported cycle is one: every gray node reaches the node being visited.\<close>

lemma visit_cycle:
  "visit fuel edges name col = DfsCycle a b \<Longrightarrow> col name = White \<Longrightarrow>
     (\<forall>g. col g = Gray \<longrightarrow> (g, name) \<in> (edge_rel edges)\<^sup>*) \<Longrightarrow> \<exists>x. (x, x) \<in> (edge_rel edges)\<^sup>+"
  "visit_deps fuel edges name deps col = DfsCycle a b \<Longrightarrow>
     (\<forall>g. col g = Gray \<longrightarrow> (g, name) \<in> (edge_rel edges)\<^sup>*) \<Longrightarrow>
     set deps \<subseteq> set (mget [] edges name) \<Longrightarrow> \<exists>x. (x, x) \<in> (edge_rel edges)\<^sup>+"
proof (induction fuel edges name col and fuel edges name deps col rule: visit_visit_deps.induct)
  case (2 fuel edges name col)
  then have "visit_deps fuel edges name (mget [] edges name) (col(name := Gray)) = DfsCycle a b"
    by (auto split: dfs_result.splits)
  then show ?case by (rule "2.IH") (use "2.prems" in auto)
next
  case (4 fuel edges name dep deps col)
  let ?E = "edge_rel edges"
  have e: "(name, dep) \<in> ?E" using "4.prems"(3) by (auto simp: edge_rel_def)
  show ?case
  proof (cases "col dep")
    case White
    have g: "\<forall>g. col g = Gray \<longrightarrow> (g, dep) \<in> ?E\<^sup>*"
      using "4.prems"(2) e by (meson rtrancl.rtrancl_into_rtrancl)
    show ?thesis
    proof (cases "visit fuel edges dep col")
      case (DfsCycle x y)
      with White "4.prems"(1) have "x = a" "y = b" by simp_all
      with DfsCycle show ?thesis using "4.IH"(1) [OF White] White g by blast
    next
      case (DfsDone c)
      then have r: "visit_deps fuel edges name deps c = DfsCycle a b"
        using White "4.prems"(1) by simp
      have "\<forall>g. c g = Gray \<longrightarrow> (g, name) \<in> ?E\<^sup>*"
        using visit_darker(1) [OF DfsDone White] "4.prems"(2) by (auto simp: darker_def)
      then show ?thesis using "4.IH"(2) [OF White DfsDone r] "4.prems"(3) by simp
    next
      case DfsFuel
      then show ?thesis using White "4.prems"(1) by simp
    qed
  next
    case Gray
    then have "(dep, name) \<in> ?E\<^sup>*" using "4.prems"(2) by blast
    with e have "(name, name) \<in> ?E\<^sup>+" by (meson rtrancl_into_trancl2)
    then show ?thesis by blast
  next
    case Black
    then show ?thesis using "4.IH"(3) [OF Black] "4.prems" by simp
  qed
qed simp_all

definition whites :: "string set \<Rightarrow> (string \<Rightarrow> color) \<Rightarrow> nat" where
  "whites U col = card {x \<in> U. col x = White}"

lemma whites_mono: "finite U \<Longrightarrow> darker col col' \<Longrightarrow> whites U col' \<le> whites U col"
  unfolding whites_def darker_def by (rule card_mono) auto

lemma whites_gray:
  assumes "finite U" "n \<in> U" "col n = White"
  shows "Suc (whites U (col(n := Gray))) = whites U col"
proof -
  have "{x \<in> U. col x = White} = insert n {x \<in> U. (col(n := Gray)) x = White}"
    using assms by auto
  then show ?thesis unfolding whites_def using assms(1) by simp
qed

lemma visit_enough_fuel:
  "finite U \<Longrightarrow> (\<forall>n. n \<notin> U \<longrightarrow> mget [] edges n = []) \<Longrightarrow> col name = White \<Longrightarrow>
     whites U col < fuel \<Longrightarrow> visit fuel edges name col \<noteq> DfsFuel"
  "finite U \<Longrightarrow> (\<forall>n. n \<notin> U \<longrightarrow> mget [] edges n = []) \<Longrightarrow>
     whites U col < fuel \<Longrightarrow> visit_deps fuel edges name deps col \<noteq> DfsFuel"
proof (induction fuel edges name col and fuel edges name deps col rule: visit_visit_deps.induct)
  case (2 fuel edges name col)
  show ?case
  proof (cases "name \<in> U")
    case True
    then have "whites U (col(name := Gray)) < fuel"
      using whites_gray [of U name col] "2.prems" by simp
    then have "visit_deps fuel edges name (mget [] edges name) (col(name := Gray)) \<noteq> DfsFuel"
      by (rule "2.IH" [OF "2.prems"(1,2)])
    then show ?thesis by (auto split: dfs_result.splits)
  next
    case False
    then show ?thesis using "2.prems"(2) by simp
  qed
next
  case (4 fuel edges name dep deps col)
  show ?case
  proof (cases "col dep")
    case White
    show ?thesis
    proof (cases "visit fuel edges dep col")
      case (DfsDone c)
      have "whites U c \<le> whites U col"
        using visit_darker(1) [OF DfsDone White] "4.prems"(1) by (simp add: whites_mono)
      then have "visit_deps fuel edges name deps c \<noteq> DfsFuel"
        using "4.IH"(2) [OF White DfsDone] "4.prems" by simp
      then show ?thesis using White DfsDone by simp
    qed (use White "4.IH"(1) [OF White] "4.prems" in auto)
  qed (use 4 in auto)
qed simp_all

lemma visit_roots_result:
  assumes "finite U" "\<forall>n. n \<notin> U \<longrightarrow> mget [] edges n = []" "card U < fuel"
  shows "black_closed (edge_rel edges) col \<Longrightarrow> black_acyclic (edge_rel edges) col \<Longrightarrow>
    (\<forall>x. col x \<noteq> Gray) \<Longrightarrow>
    (case visit_roots fuel edges ns col of
       DfsFuel \<Rightarrow> False
     | DfsCycle a b \<Rightarrow> \<exists>x. (x, x) \<in> (edge_rel edges)\<^sup>+
     | DfsDone c \<Rightarrow> black_acyclic (edge_rel edges) c \<and> darker col c \<and> (\<forall>n \<in> set ns. c n = Black))"
proof (induction ns arbitrary: col)
  case (Cons n ns)
  show ?case
  proof (cases "col n = White")
    case False
    then have b: "col n = Black" using Cons.prems(3) by (cases "col n") auto
    show ?thesis using Cons.IH [OF Cons.prems] False b
      by (auto split: dfs_result.splits dest: darker_black)
  next
    case True
    have "whites U col < fuel"
      using assms(1,3) card_mono [of U "{x \<in> U. col x = White}"] by (simp add: whites_def)
    then have nf: "visit fuel edges n col \<noteq> DfsFuel"
      using visit_enough_fuel(1) [OF assms(1,2), of col n fuel] True by simp
    show ?thesis
    proof (cases "visit fuel edges n col")
      case (DfsCycle a b)
      then have "\<exists>x. (x, x) \<in> (edge_rel edges)\<^sup>+"
        using visit_cycle(1) [OF DfsCycle True] Cons.prems(3) by blast
      then show ?thesis using True DfsCycle by simp
    next
      case (DfsDone c)
      have d: "darker col c" "c n = Black" using visit_darker(1) [OF DfsDone True] by auto
      have "\<forall>x. c x \<noteq> Gray" using d(1) Cons.prems(3) by (auto simp: darker_def)
      then have ih: "case visit_roots fuel edges ns c of
          DfsFuel \<Rightarrow> False
        | DfsCycle a b \<Rightarrow> \<exists>x. (x, x) \<in> (edge_rel edges)\<^sup>+
        | DfsDone c' \<Rightarrow> black_acyclic (edge_rel edges) c' \<and> darker c c' \<and> (\<forall>n \<in> set ns. c' n = Black)"
        using Cons.IH visit_black(1) [OF DfsDone True] Cons.prems by blast
      show ?thesis
      proof (cases "visit_roots fuel edges ns c")
        case (DfsDone c')
        have "c' n = Black" using ih DfsDone d(2) by (simp add: darker_def)
        then show ?thesis
          using ih DfsDone True \<open>visit fuel edges n col = DfsDone c\<close> darker_trans [OF d(1)] by auto
      qed (use ih True DfsDone in auto)
    qed (use nf in simp)
  qed
qed simp

theorem dfs_correct:
  "case dfs nodes of
     DfsFuel \<Rightarrow> False
   | DfsCycle a b \<Rightarrow> \<not> acyclic (edge_rel (rev nodes))
   | DfsDone c \<Rightarrow> acyclic (edge_rel (rev nodes))"
proof -
  let ?U = "set (map fst nodes)" and ?E = "edge_rel (rev nodes)"
  have out: "\<forall>n. n \<notin> ?U \<longrightarrow> mget [] (rev nodes) n = []"
  proof (intro allI impI)
    fix n assume "n \<notin> ?U"
    then have "map_of (rev nodes) n = None" by (auto simp: map_of_eq_None_iff)
    then show "mget [] (rev nodes) n = []" by (simp add: mget_def)
  qed
  have card: "card ?U < length nodes + 2"
    using card_length [of "map fst nodes"] by simp
  have r: "case visit_roots (length nodes + 2) (rev nodes) (map fst nodes) (\<lambda>_. White) of
       DfsFuel \<Rightarrow> False
     | DfsCycle a b \<Rightarrow> \<exists>x. (x, x) \<in> ?E\<^sup>+
     | DfsDone c \<Rightarrow> black_acyclic ?E c \<and> darker (\<lambda>_. White) c \<and> (\<forall>n \<in> ?U. c n = Black)"
    using visit_roots_result [OF _ out card, of "\<lambda>_. White" "map fst nodes"]
    by (simp add: black_closed_def black_acyclic_def)
  show ?thesis
  proof (cases "dfs nodes")
    case (DfsDone c)
    with r have b: "black_acyclic ?E c" "\<forall>n \<in> ?U. c n = Black" by (simp_all add: dfs_def)
    have "acyclic ?E" unfolding acyclic_def
    proof (intro allI notI)
      fix x assume x: "(x, x) \<in> ?E\<^sup>+"
      then obtain y where "(x, y) \<in> ?E" by (meson tranclD)
      then have "x \<in> ?U" using out by (fastforce simp: edge_rel_def)
      with b x show False by (auto simp: black_acyclic_def)
    qed
    then show ?thesis using DfsDone by simp
  next
    case DfsFuel
    then show ?thesis using r unfolding dfs_def by simp
  next
    case (DfsCycle a b)
    then show ?thesis using r unfolding dfs_def by (auto simp: acyclic_def)
  qed
qed

section \<open>What validation accepts\<close>

definition check_rel :: "check_spec \<Rightarrow> (string \<times> string) set" where
  "check_rel cs = {(ck_Name c, d) |c d. c \<in> set (cs_Checks cs) \<and> d \<in> set (ck_After c)}"

definition deploy_rel :: "check_spec \<Rightarrow> (string \<times> string) set" where
  "deploy_rel cs = {(dn_Name n, d) |n d. n \<in> set (cs_Deploys cs) \<and> d \<in> set (dn_After n)}"

definition check_wf :: "check_spec \<Rightarrow> check_cfg \<Rightarrow> bool" where
  "check_wf cs c =
     (ck_Name c \<noteq> [] \<and> \<not> has_prefix ''image:'' (ck_Name c) \<and> \<not> has_prefix ''receipt:'' (ck_Name c)
      \<and> ck_Command c \<noteq> []
      \<and> set (ck_After c) \<subseteq> ck_Name ` set (cs_Checks cs) \<and> ck_Name c \<notin> set (ck_After c)
      \<and> set (ck_Needs c) \<subseteq> svc_Name ` set (cs_Services cs)
      \<and> (ck_Image c = [] \<or> ck_Image c \<in> im_Name ` set (cs_Images cs)))"

definition receipt_wf :: "check_spec \<Rightarrow> receipt_cfg \<Rightarrow> bool" where
  "receipt_wf cs r =
     (rcp_Name r \<noteq> [] \<and> set (rcp_After r) \<subseteq> ck_Name ` set (cs_Checks cs)
      \<and> (rcp_Image r = [] \<or> rcp_Image r \<in> im_Name ` set (cs_Images cs)))"

definition spec_wf :: "check_spec \<Rightarrow> bool" where
  "spec_wf cs =
     (cs_Checks cs \<noteq> []
      \<and> distinct (map ck_Name (cs_Checks cs)) \<and> list_all (check_wf cs) (cs_Checks cs)
      \<and> acyclic (check_rel cs)
      \<and> distinct (map im_Name (cs_Images cs))
      \<and> length (cs_Receipts cs) \<le> 1 \<and> list_all (receipt_wf cs) (cs_Receipts cs)
      \<and> distinct (map dn_Name (cs_Deploys cs))
      \<and> list_all (\<lambda>d. set (dn_After d) \<subseteq> dn_Name ` set (cs_Deploys cs)) (cs_Deploys cs)
      \<and> acyclic (deploy_rel cs)
      \<and> 0 \<le> cs_MaxParallel cs \<and> cs_MaxParallel cs \<le> 64)"

lemma edge_rel_distinct:
  assumes "distinct (map fst nodes)"
  shows "edge_rel (rev nodes) = {(n, d). \<exists>as. (n, as) \<in> set nodes \<and> d \<in> set as}"
proof -
  have "map_of (rev nodes) = map_of nodes"
    using assms by (simp add: map_of_inject_set rev_map [symmetric])
  moreover have "d \<in> set (mget [] nodes n) \<longleftrightarrow> (\<exists>as. (n, as) \<in> set nodes \<and> d \<in> set as)" for n d
  proof (cases "map_of nodes n")
    case None
    then have "(n, as) \<notin> set nodes" for as by (force simp: map_of_eq_None_iff)
    with None show ?thesis by (simp add: mget_def)
  next
    case (Some as)
    with assms have "(n, bs) \<in> set nodes \<longleftrightarrow> bs = as" for bs
      by (metis map_of_eq_Some_iff option.inject)
    with Some show ?thesis by (simp add: mget_def)
  qed
  ultimately show ?thesis by (simp add: edge_rel_def mget_def)
qed

lemma check_edges_rel:
  "distinct (map ck_Name (cs_Checks cs)) \<Longrightarrow> edge_rel (rev (check_edges cs)) = check_rel cs"
  by (subst edge_rel_distinct) (auto simp: check_edges_def check_rel_def comp_def)

lemma deploy_edges_rel:
  "distinct (map dn_Name (cs_Deploys cs)) \<Longrightarrow> edge_rel (rev (deploy_edges cs)) = deploy_rel cs"
  by (subst edge_rel_distinct) (auto simp: deploy_edges_def deploy_rel_def comp_def)

lemma validateAcyclic_None:
  "distinct (map ck_Name (cs_Checks cs)) \<Longrightarrow> validateAcyclic cs = None \<longleftrightarrow> acyclic (check_rel cs)"
  using dfs_correct [of "check_edges cs"]
  by (auto simp: validateAcyclic_def check_edges_rel split: dfs_result.splits)

lemma validateDeployAcyclic_None:
  "distinct (map dn_Name (cs_Deploys cs)) \<Longrightarrow>
   validateDeployAcyclic cs = None \<longleftrightarrow> acyclic (deploy_rel cs)"
  using dfs_correct [of "deploy_edges cs"]
  by (auto simp: validateDeployAcyclic_def deploy_edges_rel split: dfs_result.splits)

lemma validate_services_names:
  "validate_services ss names envs = Inr out \<Longrightarrow> set out = set names \<union> svc_Name ` set ss"
  by (induction ss names envs rule: validate_services.induct)
    (auto simp: Let_def split: if_splits option.splits)

lemma validate_services_bounds:
  "validate_services ss names envs = Inr out \<Longrightarrow>
     list_all (\<lambda>s. 0 < svc_ReadyTimeout s \<and> 0 < svc_IdleTTL s \<and> 1 \<le> svc_Port s \<and> svc_Port s \<le> 65535) ss"
  by (induction ss names envs rule: validate_services.induct)
    (auto simp: Let_def split: if_splits option.splits)

lemma validate_images_names:
  "validate_images is names = Inr out \<Longrightarrow>
     set out = set names \<union> im_Name ` set is \<and> distinct (map im_Name is)
     \<and> im_Name ` set is \<inter> set names = {}"
  by (induction "is" names rule: validate_images.induct) (auto split: if_splits)

lemma validate_check_names_names:
  "validate_check_names ws cs seen = Inr out \<Longrightarrow>
     set out = set seen \<union> ck_Name ` set cs \<and> distinct (map ck_Name cs)
     \<and> ck_Name ` set cs \<inter> set seen = {}
     \<and> (\<forall>c \<in> set cs. ck_Name c \<noteq> [] \<and> \<not> has_prefix ''image:'' (ck_Name c)
          \<and> \<not> has_prefix ''receipt:'' (ck_Name c))"
  by (induction ws cs seen rule: validate_check_names.induct) (auto split: if_splits)

lemma validate_needs_None:
  "validate_needs name known ns seen = None \<Longrightarrow> set ns \<subseteq> set known"
  by (induction name known ns seen rule: validate_needs.induct) (auto split: if_splits)

lemma validate_after_None:
  "validate_after name known as seen = None \<Longrightarrow> set as \<subseteq> set known \<and> name \<notin> set as"
  by (induction name known as seen rule: validate_after.induct) (auto split: if_splits)

lemma validate_check_bodies_None:
  "validate_check_bodies svcs imgs seen cs = None \<Longrightarrow>
     \<forall>c \<in> set cs. ck_Command c \<noteq> [] \<and> set (ck_After c) \<subseteq> set seen \<and> ck_Name c \<notin> set (ck_After c)
       \<and> set (ck_Needs c) \<subseteq> set svcs \<and> (ck_Image c = [] \<or> ck_Image c \<in> set imgs)"
proof (induction svcs imgs seen cs rule: validate_check_bodies.induct)
  case (2 svcs imgs seen c cs)
  then show ?case
    by (auto split: if_splits option.splits dest: validate_needs_None validate_after_None)
qed simp

lemma validate_receipt_after_None:
  "validate_receipt_after name known as seen = None \<Longrightarrow> set as \<subseteq> set known"
  by (induction name known as seen rule: validate_receipt_after.induct) (auto split: if_splits)

lemma validate_receipts_None:
  "validate_receipts seen imgs rs = None \<Longrightarrow>
     length rs \<le> 1 \<and> (\<forall>r \<in> set rs. rcp_Name r \<noteq> [] \<and> set (rcp_After r) \<subseteq> set seen
       \<and> (rcp_Image r = [] \<or> rcp_Image r \<in> set imgs))"
  by (cases rs)
    (auto simp: validate_receipts_def split: if_splits dest: validate_receipt_after_None)

lemma validate_deploy_names_names:
  "validate_deploy_names ds seen = Inr out \<Longrightarrow>
     set out = set seen \<union> dn_Name ` set ds \<and> distinct (map dn_Name ds)
     \<and> dn_Name ` set ds \<inter> set seen = {}"
  by (induction ds seen rule: validate_deploy_names.induct) (auto split: if_splits)

lemma validate_deploy_after_None:
  "validate_deploy_after name known as seen = None \<Longrightarrow> set as \<subseteq> set known"
  by (induction name known as seen rule: validate_deploy_after.induct) (auto split: if_splits)

lemma validate_deploy_bodies_None:
  "validate_deploy_bodies seen ds = None \<Longrightarrow> \<forall>d \<in> set ds. set (dn_After d) \<subseteq> set seen"
  by (induction seen ds rule: validate_deploy_bodies.induct)
    (auto split: if_splits option.splits dest: validate_deploy_after_None)

lemma validateDeploys_None:
  assumes "validateDeploys cs = None"
  shows "distinct (map dn_Name (cs_Deploys cs))"
    and "list_all (\<lambda>d. set (dn_After d) \<subseteq> dn_Name ` set (cs_Deploys cs)) (cs_Deploys cs)"
    and "acyclic (deploy_rel cs)"
proof -
  from assms obtain seen where n: "validate_deploy_names (cs_Deploys cs) [] = Inr seen"
    and b: "validate_deploy_bodies seen (cs_Deploys cs) = None"
    and a: "validateDeployAcyclic cs = None"
    by (auto simp: validateDeploys_def split: sum.splits option.splits)
  show d: "distinct (map dn_Name (cs_Deploys cs))"
    using validate_deploy_names_names [OF n] by simp
  show "list_all (\<lambda>d. set (dn_After d) \<subseteq> dn_Name ` set (cs_Deploys cs)) (cs_Deploys cs)"
    using validate_deploy_names_names [OF n] validate_deploy_bodies_None [OF b]
    by (auto simp: list_all_iff)
  show "acyclic (deploy_rel cs)" using a validateDeployAcyclic_None [OF d] by simp
qed

lemma spec_wf_validate:
  assumes "validate cs = None"
  shows "spec_wf cs"
proof -
  from assms obtain svcs imgs seen where
    ne: "cs_Checks cs \<noteq> []"
    and s: "validate_services (cs_Services cs) [] [] = Inr svcs"
    and i: "validate_images (cs_Images cs) [] = Inr imgs"
    and n: "validate_check_names (cs_Workspace cs) (cs_Checks cs) [] = Inr seen"
    and b: "validate_check_bodies svcs imgs seen (cs_Checks cs) = None"
    and r: "validate_receipts seen imgs (cs_Receipts cs) = None"
    and a: "validateAcyclic cs = None"
    and d: "validateDeploys cs = None"
    and m: "0 \<le> cs_MaxParallel cs" "cs_MaxParallel cs \<le> 64"
    by (auto simp: validate_def maxAllowedMaxParallel_def split: if_splits sum.splits option.splits)
  note names = validate_services_names [OF s] validate_images_names [OF i]
    validate_check_names_names [OF n]
  have dist: "distinct (map ck_Name (cs_Checks cs))" using names by simp
  have "list_all (check_wf cs) (cs_Checks cs)"
    using names validate_check_bodies_None [OF b] by (auto simp: list_all_iff check_wf_def)
  moreover have "length (cs_Receipts cs) \<le> 1 \<and> list_all (receipt_wf cs) (cs_Receipts cs)"
    using names validate_receipts_None [OF r] by (auto simp: list_all_iff receipt_wf_def)
  moreover have "acyclic (check_rel cs)" using a validateAcyclic_None [OF dist] by simp
  ultimately show ?thesis
    using ne dist names m validateDeploys_None [OF d] by (simp add: spec_wf_def)
qed

text \<open>
  a check spec that \<open>ParseChecks\<close> returns is well formed, whatever the KDL package parsed.  Check, image and deploy names are
  distinct; every \<open>after\<close>, \<open>needs\<close> and \<open>image\<close> edge names something declared; both dependency
  graphs are acyclic; there is at most one receipt, \<open>max-parallel\<close> and the services' ports are
  within bounds and their timeouts positive.
\<close>

theorem validate_sound:
  assumes "ParseChecks kdl_Parse kdl_Unmarshal data = Inr cs"
  shows "spec_wf cs \<and> list_all (\<lambda>s. 0 < svc_ReadyTimeout s \<and> 0 < svc_IdleTTL s
           \<and> 1 \<le> svc_Port s \<and> svc_Port s \<le> 65535) (cs_Services cs)"
proof -
  from assms have v: "validate cs = None"
    by (auto simp: ParseChecks_def Let_def split: option.splits sum.splits)
  then obtain svcs where "validate_services (cs_Services cs) [] [] = Inr svcs"
    by (auto simp: validate_def split: if_splits sum.splits)
  then show ?thesis using spec_wf_validate [OF v] validate_services_bounds by blast
qed

definition sample_check :: "string \<Rightarrow> string list \<Rightarrow> check_cfg" where
  "sample_check name after =
     \<lparr>ck_TestResults = [], ck_RetryCommand = None, ck_Inputs = None, ck_Name = name,
      ck_Command = [''make'', name], ck_Needs = [], ck_After = after, ck_Executor = [], ck_Image = []\<rparr>"

definition sample_spec :: "check_cfg list \<Rightarrow> check_spec" where
  "sample_spec checks =
     \<lparr>cs_Checks = checks, cs_Services = [], cs_Images = [], cs_Receipts = [], cs_MaxParallel = 2,
      cs_Deploys = [], cs_Workspace = []\<rparr>"

lemma sample_spec_valid:
  "validate (sample_spec [sample_check ''build'' [], sample_check ''test'' [''build'']]) = None"
  by code_simp

theorem validate_sound_witness:
  "spec_wf (sample_spec [sample_check ''build'' [], sample_check ''test'' [''build'']])"
proof -
  let ?cs = "sample_spec [sample_check ''build'' [], sample_check ''test'' [''build'']]"
  have "?cs\<lparr>cs_Services := map applyServiceDefaults (cs_Services ?cs)\<rparr> = ?cs"
    by (simp add: sample_spec_def)
  then have "ParseChecks (\<lambda>_. Some [Some ''check'', Some ''max-parallel'']) (\<lambda>_. Inr ?cs) [] = Inr ?cs"
    using sample_spec_valid
    by (simp add: ParseChecks_def rejectDuplicateSingletons_def singletonNodes_def mget_def Let_def)
  then show ?thesis using validate_sound by blast
qed

text \<open>
  C33: the depth-first search of \<open>validateAcyclic\<close> is exact: on a spec with distinct check names
  it reports a dependency cycle if and only if the \<open>after\<close> edges have one (in particular the
  recursion never runs out of its bound).
\<close>

theorem validateAcyclic_exact:
  assumes "distinct (map ck_Name (cs_Checks cs))"
  shows "(\<exists>n d. validateAcyclic cs = Some (CheckCycle n d)) \<longleftrightarrow> \<not> acyclic (check_rel cs)"
proof -
  have "validateAcyclic cs = None \<longleftrightarrow> acyclic (check_rel cs)"
    by (rule validateAcyclic_None [OF assms])
  moreover have "validateAcyclic cs \<noteq> None \<longleftrightarrow> (\<exists>n d. validateAcyclic cs = Some (CheckCycle n d))"
    by (auto simp: validateAcyclic_def split: dfs_result.splits)
  ultimately show ?thesis by blast
qed

theorem validateAcyclic_exact_witness:
  "\<not> acyclic (check_rel (sample_spec [sample_check ''a'' [''b''], sample_check ''b'' [''a'']]))"
proof -
  let ?cs = "sample_spec [sample_check ''a'' [''b''], sample_check ''b'' [''a'']]"
  have d: "distinct (map ck_Name (cs_Checks ?cs))" by code_simp
  have "validateAcyclic ?cs = Some (CheckCycle ''b'' ''a'')" by code_simp
  then show ?thesis using validateAcyclic_exact [OF d] by blast
qed

section \<open>Deploy node selection\<close>

definition pull_rel :: "(string, deploy_node) gomap \<Rightarrow> (string \<times> string) set" where
  "pull_rel byName = {(n, d). \<exists>node. map_of byName n = Some node \<and> d \<in> set (dn_After node)}"

lemma pull_extends:
  "pull fuel byName name wanted = PullDone out \<Longrightarrow>
     set wanted \<subseteq> set out \<and> name \<in> set out"
  "pull_list fuel byName ns wanted = PullDone out \<Longrightarrow> set wanted \<subseteq> set out \<and> set ns \<subseteq> set out"
  by (induction fuel byName name wanted and fuel byName ns wanted arbitrary: out and out
      rule: pull_pull_list.induct)
    (force split: if_splits option.splits pull_result.splits)+

lemma pull_declared:
  "pull fuel byName name wanted = PullDone out \<Longrightarrow> set out \<subseteq> set wanted \<union> dom (map_of byName)"
  "pull_list fuel byName ns wanted = PullDone out \<Longrightarrow> set out \<subseteq> set wanted \<union> dom (map_of byName)"
  by (induction fuel byName name wanted and fuel byName ns wanted arbitrary: out and out
      rule: pull_pull_list.induct)
    (fastforce split: if_splits option.splits pull_result.splits)+

lemma pull_closed:
  "pull fuel byName name wanted = PullDone out \<Longrightarrow>
     n \<in> set out - set wanted \<Longrightarrow> (n, d) \<in> pull_rel byName \<Longrightarrow> d \<in> set out"
  "pull_list fuel byName ns wanted = PullDone out \<Longrightarrow>
     n \<in> set out - set wanted \<Longrightarrow> (n, d) \<in> pull_rel byName \<Longrightarrow> d \<in> set out"
proof (induction fuel byName name wanted and fuel byName ns wanted arbitrary: out and out
      rule: pull_pull_list.induct)
  case (2 fuel byName name wanted)
  then show ?case
    by (cases "n = name")
      (auto simp: pull_rel_def dest!: pull_extends(2) split: if_splits option.splits)
next
  case (4 fuel byName m ns wanted)
  from "4.prems"(1) obtain mid where
    m: "pull fuel byName m wanted = PullDone mid" "pull_list fuel byName ns mid = PullDone out"
    by (auto split: pull_result.splits)
  then show ?case
    using 4 pull_extends(2) [OF m(2)] by (cases "n \<in> set mid") auto
qed auto

lemma pull_reaches:
  "pull fuel byName name wanted = PullDone out \<Longrightarrow>
     n \<in> set out \<Longrightarrow> n \<in> set wanted \<or> (name, n) \<in> (pull_rel byName)\<^sup>*"
  "pull_list fuel byName ns wanted = PullDone out \<Longrightarrow>
     n \<in> set out \<Longrightarrow> n \<in> set wanted \<or> (\<exists>m \<in> set ns. (m, n) \<in> (pull_rel byName)\<^sup>*)"
proof (induction fuel byName name wanted and fuel byName ns wanted arbitrary: out and out
      rule: pull_pull_list.induct)
  case (2 fuel byName name wanted)
  show ?case
  proof (cases "name \<in> set wanted")
    case False
    with 2 obtain node where node: "map_of byName name = Some node"
      "pull_list fuel byName (dn_After node) (name # wanted) = PullDone out"
      by (auto split: option.splits)
    from "2.IH" [OF False node "2.prems"(2)] node(1) show ?thesis
      by (auto simp: pull_rel_def intro: converse_rtrancl_into_rtrancl)
  qed (use 2 in auto)
next
  case (4 fuel byName m ns wanted)
  then show ?case by (fastforce split: pull_result.splits)
qed auto

lemma pull_unknown:
  "pull fuel byName name wanted = PullUnknown u \<Longrightarrow>
     u \<notin> dom (map_of byName) \<and> (name, u) \<in> (pull_rel byName)\<^sup>*"
  "pull_list fuel byName ns wanted = PullUnknown u \<Longrightarrow>
     u \<notin> dom (map_of byName) \<and> (\<exists>m \<in> set ns. (m, u) \<in> (pull_rel byName)\<^sup>*)"
proof (induction fuel byName name wanted and fuel byName ns wanted rule: pull_pull_list.induct)
  case (2 fuel byName name wanted)
  then show ?case
    by (auto simp: domIff pull_rel_def split: if_splits option.splits
        intro: converse_rtrancl_into_rtrancl)
next
  case (4 fuel byName m ns wanted)
  then show ?case by (auto split: pull_result.splits)
qed auto

lemma pull_enough_fuel:
  "card (dom (map_of byName) - set wanted) < fuel \<Longrightarrow> pull fuel byName name wanted \<noteq> PullFuel"
  "card (dom (map_of byName) - set wanted) < fuel \<Longrightarrow> pull_list fuel byName ns wanted \<noteq> PullFuel"
proof (induction fuel byName name wanted and fuel byName ns wanted rule: pull_pull_list.induct)
  case (2 fuel byName name wanted)
  show ?case
  proof (cases "name \<in> set wanted \<or> map_of byName name = None")
    case False
    then obtain node where node: "name \<notin> set wanted" "map_of byName name = Some node" by auto
    have "card (dom (map_of byName) - set (name # wanted)) < card (dom (map_of byName) - set wanted)"
      using node by (intro psubset_card_mono) (auto simp: finite_dom_map_of)
    with 2 node show ?thesis by auto
  qed auto
next
  case (4 fuel byName m ns wanted)
  have "card (dom (map_of byName) - set mid) \<le> card (dom (map_of byName) - set wanted)"
    if "pull fuel byName m wanted = PullDone mid" for mid
    using pull_extends(1) [OF that] by (intro card_mono) (auto simp: finite_dom_map_of)
  with 4 show ?case by (fastforce split: pull_result.splits)
qed auto


definition deploy_byName :: "check_spec \<Rightarrow> (string, deploy_node) gomap" where
  "deploy_byName cs = rev (map (\<lambda>d. (dn_Name d, d)) (cs_Deploys cs))"

lemma deploy_byName_dom: "dom (map_of (deploy_byName cs)) = dn_Name ` set (cs_Deploys cs)"
  by (auto simp: deploy_byName_def dom_map_of_conv_image_fst image_image)

lemma deploy_byName_rel:
  assumes "distinct (map dn_Name (cs_Deploys cs))"
  shows "pull_rel (deploy_byName cs) = deploy_rel cs"
proof -
  have "distinct (map fst (deploy_byName cs))"
    using assms by (simp add: deploy_byName_def rev_map [symmetric] comp_def)
  then have "map_of (deploy_byName cs) n = Some d \<longleftrightarrow> (n, d) \<in> set (deploy_byName cs)" for n d
    by simp
  then show ?thesis by (auto simp: pull_rel_def deploy_rel_def deploy_byName_def)
qed

lemma pull_list_exact:
  assumes "pull_list fuel byName ns [] = PullDone out"
  shows "set out = (pull_rel byName)\<^sup>* `` set ns"
proof
  show "set out \<subseteq> (pull_rel byName)\<^sup>* `` set ns"
    using pull_reaches(2) [OF assms] by auto
  have "x \<in> set out" if "(m, x) \<in> (pull_rel byName)\<^sup>*" "m \<in> set ns" for m x
    using that
    by (induction rule: rtrancl_induct) (use pull_extends(2) [OF assms] pull_closed(2) [OF assms] in auto)
  then show "(pull_rel byName)\<^sup>* `` set ns \<subseteq> set out" by auto
qed

lemma deploy_rel_closed:
  assumes "list_all (\<lambda>d. set (dn_After d) \<subseteq> dn_Name ` set (cs_Deploys cs)) (cs_Deploys cs)"
    and "(m, x) \<in> (deploy_rel cs)\<^sup>*" and "m \<in> dn_Name ` set (cs_Deploys cs)"
  shows "x \<in> dn_Name ` set (cs_Deploys cs)"
  using assms(2,1,3) by (induction rule: rtrancl_induct) (auto simp: deploy_rel_def list_all_iff)

text \<open>
  on a validated spec, \<open>SelectDeployNodes\<close> with a non-empty list of names returns exactly the
  deploy nodes that a named node depends on, directly or not (the named nodes included), in the
  order the spec declares them; a name that no node declares, and nothing else, is an error.
\<close>

theorem SelectDeployNodes_closure:
  assumes "validate cs = None" and "names \<noteq> []"
  shows "if set names \<subseteq> dn_Name ` set (cs_Deploys cs)
         then SelectDeployNodes cs names =
                Inr (filter (\<lambda>d. \<exists>n \<in> set names. (n, dn_Name d) \<in> (deploy_rel cs)\<^sup>*) (cs_Deploys cs))
         else (\<exists>n \<in> set names - dn_Name ` set (cs_Deploys cs).
                SelectDeployNodes cs names = Inl (DeployNodeUnknown n))"
proof -
  let ?D = "dn_Name ` set (cs_Deploys cs)"
  from assms(1) have d: "validateDeploys cs = None"
    by (auto simp: validate_def split: if_splits sum.splits option.splits)
  note v = validateDeploys_None [OF d]
  note rel = deploy_byName_rel [OF v(1)]
  let ?r = "pull_list (length (cs_Deploys cs) + 1) (deploy_byName cs) names []"
  have "card ?D \<le> length (cs_Deploys cs)" by (metis card_length image_set length_map)
  then have "?r \<noteq> PullFuel"
    by (intro pull_enough_fuel(2)) (simp add: deploy_byName_dom)
  then consider (ok) out where "?r = PullDone out" | (unknown) u where "?r = PullUnknown u"
    by (cases ?r) auto
  then show ?thesis
  proof cases
    case ok
    have "set names \<subseteq> ?D"
      using pull_declared(2) [OF ok] pull_extends(2) [OF ok] by (auto simp: deploy_byName_dom)
    moreover have "dn_Name d \<in> set out \<longleftrightarrow> (\<exists>n \<in> set names. (n, dn_Name d) \<in> (deploy_rel cs)\<^sup>*)"
      for d :: deploy_node
      unfolding pull_list_exact [OF ok] rel by auto
    ultimately show ?thesis
      using assms(2) ok by (simp add: SelectDeployNodes_def deploy_byName_def [symmetric])
  next
    case unknown
    from pull_unknown(2) [OF this] obtain m where
      m: "u \<notin> ?D" "m \<in> set names" "(m, u) \<in> (deploy_rel cs)\<^sup>*"
      by (auto simp: deploy_byName_dom rel)
    then have "m \<notin> ?D" using deploy_rel_closed [OF v(2)] by blast
    then have "m = u" using m(3) by (auto simp: deploy_rel_def elim: converse_rtranclE)
    then show ?thesis
      using m \<open>m \<notin> ?D\<close> assms(2) unknown
      by (auto simp: SelectDeployNodes_def deploy_byName_def [symmetric])
  qed
qed

definition sample_deploy :: "string \<Rightarrow> string list \<Rightarrow> deploy_node" where
  "sample_deploy name after =
     \<lparr>dn_Name = name, dn_Command = [''deploy'', name], dn_After = after, dn_Executor = []\<rparr>"

definition sample_deploy_spec :: check_spec where
  "sample_deploy_spec =
     (sample_spec [sample_check ''build'' []])
       \<lparr>cs_Deploys := [sample_deploy ''db'' [], sample_deploy ''docs'' [], sample_deploy ''app'' [''db'']]\<rparr>"

theorem SelectDeployNodes_closure_witness:
  "SelectDeployNodes sample_deploy_spec [''app''] =
     Inr (filter (\<lambda>d. (''app'', dn_Name d) \<in> (deploy_rel sample_deploy_spec)\<^sup>*)
           (cs_Deploys sample_deploy_spec))
   \<and> SelectDeployNodes sample_deploy_spec [''ghost''] = Inl (DeployNodeUnknown ''ghost'')"
proof -
  have v: "validate sample_deploy_spec = None" by code_simp
  have "set [''app''] \<subseteq> dn_Name ` set (cs_Deploys sample_deploy_spec)"
    "\<not> set [''ghost''] \<subseteq> dn_Name ` set (cs_Deploys sample_deploy_spec)" by code_simp+
  then show ?thesis
    using SelectDeployNodes_closure [OF v, of "[''app'']"]
      SelectDeployNodes_closure [OF v, of "[''ghost'']"] by auto
qed

end
