(* ===== verification/Queue_Spec.thy ===== *)
theory Queue_Spec
  imports Core_Check Config_Graph
begin

text \<open>
  \<^verbatim>\<open>internal/queue/checkspec.go\<close>: the gate a parsed check spec passes before a run is built from it,
  the run's node graph (image builds, checks, the receipt) and the validation of the two captured
  results.  A nil function value is \<open>None\<close>.  The main result is that the node graph of an accepted
  spec has distinct names, no dangling edge and no cycle.
\<close>

section \<open>Node names\<close>

definition imageNodePrefix :: string where "imageNodePrefix = ''image:''"
definition receiptNodePrefix :: string where "receiptNodePrefix = ''receipt:''"

definition imageNodeName :: "string \<Rightarrow> string option" where
  "imageNodeName node = cut_prefix imageNodePrefix node"

definition receiptNodeName :: "string \<Rightarrow> string option" where
  "receiptNodeName node = cut_prefix receiptNodePrefix node"

definition nodeKind :: "string \<Rightarrow> string" where
  "nodeKind node =
     (if imageNodeName node \<noteq> None then ''image''
      else if receiptNodeName node \<noteq> None then ''receipt''
      else ''check'')"

section \<open>The admission gate\<close>

definition resolves :: "(string \<Rightarrow> bool) option \<Rightarrow> string \<Rightarrow> bool" where
  "resolves known name = (case known of None \<Rightarrow> False | Some f \<Rightarrow> f name)"

fun unknown_check_profile :: "(string \<Rightarrow> bool) option \<Rightarrow> check_cfg list \<Rightarrow> (string \<times> string) option" where
  "unknown_check_profile known [] = None"
| "unknown_check_profile known (c # cs) =
     (if ck_Executor c = [] then unknown_check_profile known cs
      else if \<not> resolves known (ck_Executor c) then Some (ck_Name c, ck_Executor c)
      else unknown_check_profile known cs)"

fun unknown_image_profile :: "(string \<Rightarrow> bool) option \<Rightarrow> image_cfg list \<Rightarrow> (string \<times> string) option" where
  "unknown_image_profile known [] = None"
| "unknown_image_profile known (i # is) =
     (if im_Executor i = [] then unknown_image_profile known is
      else if \<not> resolves known (im_Executor i) then Some (imageNodePrefix @ im_Name i, im_Executor i)
      else unknown_image_profile known is)"

definition unknownExecutorProfile ::
  "check_spec \<Rightarrow> (string \<Rightarrow> bool) option \<Rightarrow> string \<times> string" where
  "unknownExecutorProfile spec known =
     (case unknown_check_profile known (cs_Checks spec) of
        Some r \<Rightarrow> r
      | None \<Rightarrow>
        (case unknown_image_profile known (cs_Images spec) of
           Some r \<Rightarrow> r
         | None \<Rightarrow>
           (case Receipt spec of
              Some rcp \<Rightarrow>
                if rcp_Executor rcp \<noteq> [] \<and> \<not> resolves known (rcp_Executor rcp)
                then (receiptNodePrefix @ rcp_Name rcp, rcp_Executor rcp) else ([], [])
            | None \<Rightarrow> ([], []))))"

fun incapable_check :: "(string \<Rightarrow> bool) option \<Rightarrow> check_cfg list \<Rightarrow> (string \<times> string) option" where
  "incapable_check capable [] = None"
| "incapable_check capable (c # cs) =
     (if ck_Image c = [] then incapable_check capable cs
      else if \<not> resolves capable (ck_Executor c) then Some (ck_Name c, ck_Image c)
      else incapable_check capable cs)"

definition imageOnIncapableProfile ::
  "check_spec \<Rightarrow> (string \<Rightarrow> bool) option \<Rightarrow> string \<times> string" where
  "imageOnIncapableProfile spec capable =
     (case incapable_check capable (cs_Checks spec) of
        Some r \<Rightarrow> r
      | None \<Rightarrow>
        (case Receipt spec of
           Some rcp \<Rightarrow>
             if rcp_Image rcp \<noteq> [] \<and> \<not> resolves capable (rcp_Executor rcp)
             then (receiptNodePrefix @ rcp_Name rcp, rcp_Image rcp) else ([], [])
         | None \<Rightarrow> ([], [])))"

text \<open>The first loop of \<open>SpecRejectReason\<close> returns a reason or \<open>hasRemoteServices\<close>.\<close>

definition noServices :: string where
  "noServices = ''check spec declares services but this daemon has no services block''"

fun reject_checks ::
  "(string \<Rightarrow> bool) \<Rightarrow> string \<Rightarrow> bool \<Rightarrow> check_cfg list \<Rightarrow> bool \<Rightarrow> string + bool" where
  "reject_checks remote ws hasServices [] hasRemote = Inr hasRemote"
| "reject_checks remote ws hasServices (c # cs) hasRemote =
     (if remote (ck_Executor c) \<and> ws \<noteq> ''isolated'' then Inl ''remote checks require workspace isolated''
      else if ck_Needs c \<noteq> [] then
        (if \<not> remote (ck_Executor c) \<and> \<not> hasServices then Inl noServices
         else reject_checks remote ws hasServices cs (hasRemote \<or> remote (ck_Executor c)))
      else reject_checks remote ws hasServices cs hasRemote)"

definition SpecRejectReason ::
  "check_spec \<Rightarrow> bool \<Rightarrow> (string \<Rightarrow> bool) option \<Rightarrow> (string \<Rightarrow> bool) option \<Rightarrow> bool
   \<Rightarrow> (string \<Rightarrow> bool) option \<Rightarrow> string" where
  "SpecRejectReason spec hasServices known imageCapable receiptPolicy remoteProfile =
     (let remote = resolves remoteProfile in
      case reject_checks remote (cs_Workspace spec) hasServices (cs_Checks spec) False of
        Inl reason \<Rightarrow> reason
      | Inr hasRemoteServices \<Rightarrow>
        if list_ex (\<lambda>i. remote (im_Executor i)) (cs_Images spec) \<and> cs_Workspace spec \<noteq> ''isolated''
        then ''remote image builds require workspace isolated''
        else if (case Receipt spec of None \<Rightarrow> False | Some r \<Rightarrow> remote (rcp_Executor r))
                \<and> cs_Workspace spec \<noteq> ''isolated''
        then ''remote receipts require workspace isolated''
        else if RequiresServices spec \<and> \<not> hasServices \<and> \<not> hasRemoteServices then noServices
        else
         (case unknownExecutorProfile spec known of (chk, prof) \<Rightarrow>
          if prof \<noteq> []
          then ''check spec: check '' @ go_quote chk @ '' selects unknown executor profile '' @ go_quote prof
          else
           (case imageOnIncapableProfile spec imageCapable of (chk, img) \<Rightarrow>
            if img \<noteq> []
            then ''check spec: check '' @ go_quote chk @ '' runs candidate-built image '' @ go_quote img
                 @ '' but its executor profile is not a container profile''
            else
             (case Receipt spec of
                None \<Rightarrow>
                  if receiptPolicy
                  then ''this daemon requires a receipt (receipt-notes is configured) but the check spec declares none''
                  else []
              | Some rcp \<Rightarrow>
                  if \<not> receiptPolicy
                  then ''check spec declares receipt '' @ go_quote (rcp_Name rcp)
                       @ '' but this daemon has no receipt-notes policy''
                  else []))))"

section \<open>The run's node graph\<close>

definition node_zero :: check_cfg where
  "node_zero = \<lparr>ck_TestResults = [], ck_RetryCommand = None, ck_Inputs = None, ck_Name = [],
     ck_Command = [], ck_Needs = [], ck_After = [], ck_Executor = [], ck_Image = []\<rparr>"

definition image_node :: "image_cfg \<Rightarrow> check_cfg" where
  "image_node img = node_zero\<lparr>ck_Name := imageNodePrefix @ im_Name img, ck_Command := im_Command img,
     ck_Executor := im_Executor img\<rparr>"

definition check_node :: "check_cfg \<Rightarrow> check_cfg" where
  "check_node c =
     (if ck_Image c \<noteq> [] then c\<lparr>ck_After := ck_After c @ [imageNodePrefix @ ck_Image c]\<rparr> else c)"

definition receipt_node :: "receipt_cfg \<Rightarrow> check_cfg" where
  "receipt_node rcp = node_zero\<lparr>ck_Name := receiptNodePrefix @ rcp_Name rcp,
     ck_Command := rcp_Command rcp, ck_Executor := rcp_Executor rcp, ck_Image := rcp_Image rcp,
     ck_After := rcp_After rcp @ (if rcp_Image rcp \<noteq> [] then [imageNodePrefix @ rcp_Image rcp] else [])\<rparr>"

definition buildRunNodes :: "check_spec \<Rightarrow> check_cfg list" where
  "buildRunNodes spec =
     (if cs_Images spec = [] \<and> Receipt spec = None then cs_Checks spec
      else map image_node (cs_Images spec) @ map check_node (cs_Checks spec)
           @ (case Receipt spec of None \<Rightarrow> [] | Some rcp \<Rightarrow> [receipt_node rcp]))"

definition effectiveMaxParallel :: "check_spec \<Rightarrow> int" where
  "effectiveMaxParallel spec = (if cs_MaxParallel spec \<le> 0 then 1 else cs_MaxParallel spec)"

section \<open>Captured results\<close>

definition truncateForError :: "string \<Rightarrow> string" where
  "truncateForError s = (if length s \<le> 200 then s else take 200 s @ ''...'')"

definition is_hex :: "char \<Rightarrow> bool" where
  "is_hex c = (let n = of_char c :: nat in (48 \<le> n \<and> n \<le> 57) \<or> (97 \<le> n \<and> n \<le> 102))"

definition hex64 :: "string \<Rightarrow> bool" where
  "hex64 s = (length s = 64 \<and> list_all is_hex s)"

definition repo_char :: "char \<Rightarrow> bool" where
  "repo_char c =
     (let n = of_char c :: nat in
      (97 \<le> n \<and> n \<le> 122) \<or> (65 \<le> n \<and> n \<le> 90) \<or> (48 \<le> n \<and> n \<le> 57)
      \<or> c \<in> set ''._/:-'')"

text \<open>The regular expressions \<^verbatim>\<open>^sha256:[0-9a-f]{64}$\<close> and \<^verbatim>\<open>^[a-zA-Z0-9._/:-]+@sha256:[0-9a-f]{64}$\<close>.\<close>

definition localImageIDPattern :: "string \<Rightarrow> bool" where
  "localImageIDPattern s = (case cut_prefix ''sha256:'' s of None \<Rightarrow> False | Some h \<Rightarrow> hex64 h)"

definition digestRefPattern :: "string \<Rightarrow> bool" where
  "digestRefPattern s =
     (let repo = takeWhile repo_char s in
      repo \<noteq> [] \<and>
      (case cut_prefix ''@sha256:'' (drop (length repo) s) of None \<Rightarrow> False | Some h \<Rightarrow> hex64 h))"

definition validImageRef :: "string \<Rightarrow> string + string" where
  "validImageRef raw =
     (let ref = trim_space raw in
      if ref = []
      then Inl (''build wrote no image reference to $GAUNTLET_IMAGE_RESULT_FILE (e.g. docker buildx --iidfile ''
                @ [CHR 0x22] @ ''$GAUNTLET_IMAGE_RESULT_FILE'' @ [CHR 0x22] @ '')'')
      else if list_ex (\<lambda>c. c = CHR 0x20 \<or> c = CHR 0x09 \<or> c = CHR 0x0A \<or> c = CHR 0x0D) ref
      then Inl (''image result must be exactly one reference, got '' @ go_quote (truncateForError ref))
      else if localImageIDPattern ref \<or> digestRefPattern ref then Inr ref
      else Inl (''image result '' @ go_quote (truncateForError ref)
                @ '' is not immutable: need a local image ID (sha256:<64 hex>) or a digest-pinned reference (<repo>@sha256:<64 hex>), never a tag''))"

definition validReceipt :: "string option \<Rightarrow> int \<Rightarrow> string + string" where
  "validReceipt raw maxBytes =
     (case raw of
        None \<Rightarrow> Inl ''receipt result file could not be read (missing, or left unwritten/unreadable by the command)''
      | Some r \<Rightarrow>
          if r = [] then Inl ''receipt result file is empty''
          else if maxBytes > 0 \<and> int (length r) > maxBytes
          then Inl (''receipt result exceeds the configured max-bytes '' @ show_int maxBytes
                    @ '' (got at least '' @ show_int (int (length r)) @ '' bytes)'')
          else Inr r)"

section \<open>The node graph is well formed\<close>

definition node_rel :: "check_cfg list \<Rightarrow> (string \<times> string) set" where
  "node_rel nodes = {(n, d). \<exists>c \<in> set nodes. ck_Name c = n \<and> d \<in> set (ck_After c)}"

definition nodes_wf :: "check_cfg list \<Rightarrow> bool" where
  "nodes_wf nodes =
     (nodes \<noteq> [] \<and> distinct (map ck_Name nodes)
      \<and> list_all (\<lambda>c. set (ck_After c) \<subseteq> ck_Name ` set nodes) nodes
      \<and> acyclic (node_rel nodes))"

lemma has_prefix_iff: "has_prefix p s \<longleftrightarrow> (\<exists>r. s = p @ r)"
  by (auto simp: has_prefix_def cut_prefix_Some)

lemma node_fields [simp]:
  "ck_Name (image_node i) = imageNodePrefix @ im_Name i" "ck_After (image_node i) = []"
  "ck_Name (check_node c) = ck_Name c"
  "ck_Name (receipt_node r) = receiptNodePrefix @ rcp_Name r"
  by (simp_all add: image_node_def check_node_def receipt_node_def node_zero_def)

lemma check_node_after:
  "set (ck_After (check_node c)) =
     set (ck_After c) \<union> (if ck_Image c = [] then {} else {imageNodePrefix @ ck_Image c})"
  by (simp add: check_node_def)

lemma receipt_node_after:
  "set (ck_After (receipt_node r)) =
     set (rcp_After r) \<union> (if rcp_Image r = [] then {} else {imageNodePrefix @ rcp_Image r})"
  by (simp add: receipt_node_def)

text \<open>On an accepted spec the shortcut of \<open>buildRunNodes\<close> changes nothing: without images no
  check names one.\<close>

lemma buildRunNodes_wf:
  assumes "spec_wf cs"
  shows "buildRunNodes cs = map image_node (cs_Images cs) @ map check_node (cs_Checks cs)
           @ (case Receipt cs of None \<Rightarrow> [] | Some rcp \<Rightarrow> [receipt_node rcp])"
proof (cases "cs_Images cs = [] \<and> Receipt cs = None")
  case True
  with assms have "ck_Image c = []" if "c \<in> set (cs_Checks cs)" for c
    using that by (auto simp: spec_wf_def list_all_iff check_wf_def)
  then have "map check_node (cs_Checks cs) = cs_Checks cs"
    by (intro map_idI) (simp add: check_node_def)
  with True show ?thesis by (simp add: buildRunNodes_def)
qed (auto simp: buildRunNodes_def)

lemma Receipt_Some: "Receipt cs = Some r \<Longrightarrow> r \<in> set (cs_Receipts cs)"
  by (auto simp: Receipt_def split: list.splits)

lemma check_name_plain:
  assumes "spec_wf cs" "c \<in> set (cs_Checks cs)"
  shows "ck_Name c \<noteq> imageNodePrefix @ x" "ck_Name c \<noteq> receiptNodePrefix @ x"
  using assms by (auto simp: spec_wf_def list_all_iff check_wf_def has_prefix_iff
      imageNodePrefix_def receiptNodePrefix_def)

lemma prefix_disjoint: "imageNodePrefix @ x \<noteq> receiptNodePrefix @ y"
  by (simp add: imageNodePrefix_def receiptNodePrefix_def)

lemma buildRunNodes_distinct:
  assumes "spec_wf cs"
  shows "distinct (map ck_Name (buildRunNodes cs))"
proof -
  have "distinct (map (\<lambda>i. imageNodePrefix @ im_Name i) (cs_Images cs))"
    using assms by (simp add: spec_wf_def distinct_map inj_on_def)
  moreover have "distinct (map ck_Name (cs_Checks cs))" using assms by (simp add: spec_wf_def)
  ultimately show ?thesis
    unfolding buildRunNodes_wf [OF assms]
    using check_name_plain [OF assms] check_name_plain [OF assms, symmetric]
      prefix_disjoint prefix_disjoint [symmetric]
    by (auto simp: comp_def split: option.splits)
qed

lemma node_in_buildRunNodes:
  assumes "spec_wf cs"
  shows "set (buildRunNodes cs) =
     image_node ` set (cs_Images cs) \<union> check_node ` set (cs_Checks cs)
     \<union> {receipt_node r | r. Receipt cs = Some r}"
  unfolding buildRunNodes_wf [OF assms] by (auto split: option.splits)

lemma buildRunNodes_names:
  assumes "spec_wf cs"
  shows "ck_Name ` set (cs_Checks cs) \<union> (\<lambda>i. imageNodePrefix @ im_Name i) ` set (cs_Images cs)
         \<subseteq> ck_Name ` set (buildRunNodes cs)"
  unfolding node_in_buildRunNodes [OF assms] by (auto simp: image_Un image_image)

lemma buildRunNodes_declared:
  assumes wf: "spec_wf cs" and c: "c \<in> set (buildRunNodes cs)" and d: "d \<in> set (ck_After c)"
  shows "d \<in> ck_Name ` set (cs_Checks cs) \<union> (\<lambda>i. imageNodePrefix @ im_Name i) ` set (cs_Images cs)"
proof -
  from c consider (image) i where "c = image_node i"
    | (check) k where "k \<in> set (cs_Checks cs)" "c = check_node k"
    | (receipt) r where "Receipt cs = Some r" "c = receipt_node r"
    by (auto simp: node_in_buildRunNodes [OF wf])
  then show ?thesis
  proof cases
    case check
    with wf d show ?thesis
      by (auto simp: spec_wf_def list_all_iff check_wf_def check_node_after split: if_splits)
  next
    case receipt
    then have "receipt_wf cs r" using wf Receipt_Some by (auto simp: spec_wf_def list_all_iff)
    with receipt d show ?thesis by (auto simp: receipt_wf_def receipt_node_after split: if_splits)
  qed (use d in simp)
qed

lemma buildRunNodes_rel:
  assumes wf: "spec_wf cs" and e: "(x, y) \<in> node_rel (buildRunNodes cs)"
  shows "y \<in> ck_Name ` set (cs_Checks cs) \<longrightarrow> (x, y) \<in> check_rel cs \<or> (\<exists>s. x = receiptNodePrefix @ s)"
    and "x \<noteq> imageNodePrefix @ z" and "y \<noteq> receiptNodePrefix @ z"
proof -
  from e obtain c where c: "c \<in> set (buildRunNodes cs)" "ck_Name c = x" "y \<in> set (ck_After c)"
    by (auto simp: node_rel_def)
  from c(1) consider (image) i where "c = image_node i"
    | (check) k where "k \<in> set (cs_Checks cs)" "c = check_node k"
    | (receipt) r where "c = receipt_node r"
    by (auto simp: node_in_buildRunNodes [OF wf])
  then show "y \<in> ck_Name ` set (cs_Checks cs) \<longrightarrow> (x, y) \<in> check_rel cs \<or> (\<exists>s. x = receiptNodePrefix @ s)"
    and "x \<noteq> imageNodePrefix @ z"
    using c check_name_plain [OF wf] prefix_disjoint
    by (cases; auto simp: check_rel_def check_node_after split: if_splits; metis)+
  show "y \<noteq> receiptNodePrefix @ z"
    using buildRunNodes_declared [OF wf c(1,3)] check_name_plain(2) [OF wf] prefix_disjoint
    by (elim UnE imageE) auto
qed

lemma buildRunNodes_path:
  assumes wf: "spec_wf cs" and "(x, y) \<in> (node_rel (buildRunNodes cs))\<^sup>+"
    and "y \<in> ck_Name ` set (cs_Checks cs)"
  shows "(x, y) \<in> (check_rel cs)\<^sup>+ \<or> (\<exists>s. x = receiptNodePrefix @ s)"
  using assms(2,3)
proof (induction rule: trancl_induct)
  case (base y)
  then show ?case using buildRunNodes_rel(1) [OF wf] by auto
next
  case (step y z)
  from step.hyps(1) obtain w where "(w, y) \<in> node_rel (buildRunNodes cs)" by (meson tranclE)
  then have nr: "y \<noteq> receiptNodePrefix @ s" for s by (rule buildRunNodes_rel(3) [OF wf])
  with step have yz: "(y, z) \<in> check_rel cs" using buildRunNodes_rel(1) [OF wf] by blast
  then have "y \<in> ck_Name ` set (cs_Checks cs)" by (auto simp: check_rel_def)
  with step.IH yz show ?case by auto
qed

lemma buildRunNodes_graph:
  assumes "validate cs = None"
  shows "nodes_wf (buildRunNodes cs)"
proof -
  have wf: "spec_wf cs" by (rule spec_wf_validate [OF assms])
  have "(x, x) \<notin> (node_rel (buildRunNodes cs))\<^sup>+" for x
  proof
    assume cyc: "(x, x) \<in> (node_rel (buildRunNodes cs))\<^sup>+"
    obtain a where a: "(x, a) \<in> node_rel (buildRunNodes cs)" using tranclD [OF cyc] by blast
    obtain b where b: "(b, x) \<in> node_rel (buildRunNodes cs)" using tranclD2 [OF cyc] by blast
    have "x \<in> ck_Name ` set (cs_Checks cs)"
      using b buildRunNodes_rel(2) [OF wf a] buildRunNodes_declared [OF wf]
      by (fastforce simp: node_rel_def)
    with buildRunNodes_path [OF wf cyc] buildRunNodes_rel(3) [OF wf b]
    have "(x, x) \<in> (check_rel cs)\<^sup>+" by blast
    with wf show False by (simp add: spec_wf_def acyclic_def)
  qed
  then have "acyclic (node_rel (buildRunNodes cs))" by (simp add: acyclic_def)
  moreover have "buildRunNodes cs \<noteq> []"
    using wf by (simp add: buildRunNodes_wf [OF wf] spec_wf_def)
  moreover have "set (ck_After c) \<subseteq> ck_Name ` set (buildRunNodes cs)" if "c \<in> set (buildRunNodes cs)" for c
    using buildRunNodes_declared [OF wf that] buildRunNodes_names [OF wf] by blast
  ultimately show ?thesis
    using buildRunNodes_distinct [OF wf] by (simp add: nodes_wf_def list_all_iff)
qed

text \<open>
  C32: the node graph built from an accepted spec can be scheduled: it is not empty, its node names
  (checks, \<open>image:\<close> builds, the \<open>receipt:\<close> node) are distinct, every edge leads to a node of the
  graph, and the added image and receipt edges create no cycle.
\<close>

theorem buildRunNodes_schedulable:
  assumes "validate cs = None"
  shows "nodes_wf (buildRunNodes cs)"
  by (rule buildRunNodes_graph [OF assms])

definition sample_image_spec :: check_spec where
  "sample_image_spec =
     (sample_spec [sample_check ''build'' [],
        (sample_check ''test'' [''build''])\<lparr>ck_Image := ''ci''\<rparr>])
       \<lparr>cs_Images := [\<lparr>im_Name = ''ci'', im_Command = [''docker''], im_Executor = []\<rparr>],
        cs_Receipts := [\<lparr>rcp_Name = ''proof'', rcp_Command = [''sign''], rcp_Executor = [],
                         rcp_Image = ''ci'', rcp_After = [''test'']\<rparr>]\<rparr>"

theorem buildRunNodes_schedulable_witness:
  "nodes_wf (buildRunNodes sample_image_spec)
   \<and> map ck_Name (buildRunNodes sample_image_spec) = [''image:ci'', ''build'', ''test'', ''receipt:proof'']"
proof
  have "validate sample_image_spec = None" by code_simp
  then show "nodes_wf (buildRunNodes sample_image_spec)" by (rule buildRunNodes_schedulable)
qed code_simp

section \<open>What the gate admits\<close>

definition spec_admissible ::
  "check_spec \<Rightarrow> bool \<Rightarrow> (string \<Rightarrow> bool) \<Rightarrow> (string \<Rightarrow> bool) \<Rightarrow> bool \<Rightarrow> (string \<Rightarrow> bool) \<Rightarrow> bool" where
  "spec_admissible spec hasServices known capable receiptPolicy remote =
     (list_all (\<lambda>c. (remote (ck_Executor c) \<longrightarrow> cs_Workspace spec = ''isolated'')
                  \<and> (ck_Needs c \<noteq> [] \<longrightarrow> remote (ck_Executor c) \<or> hasServices)
                  \<and> (ck_Executor c \<noteq> [] \<longrightarrow> known (ck_Executor c))
                  \<and> (ck_Image c \<noteq> [] \<longrightarrow> capable (ck_Executor c))) (cs_Checks spec)
      \<and> list_all (\<lambda>i. (remote (im_Executor i) \<longrightarrow> cs_Workspace spec = ''isolated'')
                  \<and> (im_Executor i \<noteq> [] \<longrightarrow> known (im_Executor i))) (cs_Images spec)
      \<and> (case Receipt spec of
           None \<Rightarrow> \<not> receiptPolicy
         | Some r \<Rightarrow> receiptPolicy \<and> (remote (rcp_Executor r) \<longrightarrow> cs_Workspace spec = ''isolated'')
             \<and> (rcp_Executor r \<noteq> [] \<longrightarrow> known (rcp_Executor r))
             \<and> (rcp_Image r \<noteq> [] \<longrightarrow> capable (rcp_Executor r)))
      \<and> (RequiresServices spec \<longrightarrow> hasServices
          \<or> list_ex (\<lambda>c. ck_Needs c \<noteq> [] \<and> remote (ck_Executor c)) (cs_Checks spec)))"

lemma reject_checks_Inr:
  "reject_checks remote ws hs cs b = Inr out \<longleftrightarrow>
     (\<forall>c \<in> set cs. (remote (ck_Executor c) \<longrightarrow> ws = ''isolated'')
        \<and> (ck_Needs c \<noteq> [] \<longrightarrow> remote (ck_Executor c) \<or> hs))
     \<and> out = (b \<or> list_ex (\<lambda>c. ck_Needs c \<noteq> [] \<and> remote (ck_Executor c)) cs)"
  by (induction remote ws hs cs b rule: reject_checks.induct) auto

lemma reject_checks_reason: "reject_checks remote ws hs cs b = Inl reason \<Longrightarrow> reason \<noteq> []"
  by (induction remote ws hs cs b rule: reject_checks.induct) (auto simp: noServices_def split: if_splits)

lemma unknown_check_profile_None:
  "unknown_check_profile known cs = None \<longleftrightarrow>
     (\<forall>c \<in> set cs. ck_Executor c \<noteq> [] \<longrightarrow> resolves known (ck_Executor c))"
  by (induction known cs rule: unknown_check_profile.induct) auto

lemma unknown_image_profile_None:
  "unknown_image_profile known is = None \<longleftrightarrow>
     (\<forall>i \<in> set is. im_Executor i \<noteq> [] \<longrightarrow> resolves known (im_Executor i))"
  by (induction known "is" rule: unknown_image_profile.induct) auto

lemma unknown_profile_Some:
  "unknown_check_profile known cs = Some (n, p) \<Longrightarrow> p \<noteq> []"
  "unknown_image_profile known is = Some (n, p) \<Longrightarrow> p \<noteq> []"
  subgoal by (induction cs) (auto split: if_splits)
  subgoal by (induction "is") (auto split: if_splits)
  done

lemma incapable_check_None:
  "incapable_check capable cs = None \<longleftrightarrow>
     (\<forall>c \<in> set cs. ck_Image c \<noteq> [] \<longrightarrow> resolves capable (ck_Executor c))"
  by (induction capable cs rule: incapable_check.induct) auto

lemma incapable_check_Some: "incapable_check capable cs = Some (n, p) \<Longrightarrow> p \<noteq> []"
  by (induction cs) (auto split: if_splits)

lemma unknownExecutorProfile_ok:
  "snd (unknownExecutorProfile spec known) = [] \<longleftrightarrow>
     (\<forall>c \<in> set (cs_Checks spec). ck_Executor c \<noteq> [] \<longrightarrow> resolves known (ck_Executor c))
     \<and> (\<forall>i \<in> set (cs_Images spec). im_Executor i \<noteq> [] \<longrightarrow> resolves known (im_Executor i))
     \<and> (case Receipt spec of None \<Rightarrow> True
         | Some r \<Rightarrow> rcp_Executor r \<noteq> [] \<longrightarrow> resolves known (rcp_Executor r))"
  unfolding unknown_check_profile_None [symmetric] unknown_image_profile_None [symmetric]
  by (auto simp: unknownExecutorProfile_def split: option.splits dest: unknown_profile_Some)

lemma imageOnIncapableProfile_ok:
  "snd (imageOnIncapableProfile spec capable) = [] \<longleftrightarrow>
     (\<forall>c \<in> set (cs_Checks spec). ck_Image c \<noteq> [] \<longrightarrow> resolves capable (ck_Executor c))
     \<and> (case Receipt spec of None \<Rightarrow> True
         | Some r \<Rightarrow> rcp_Image r \<noteq> [] \<longrightarrow> resolves capable (rcp_Executor r))"
  unfolding incapable_check_None [symmetric]
  by (auto simp: imageOnIncapableProfile_def split: option.splits dest: incapable_check_Some)

text \<open>
  the gate that run construction and the validate command share accepts a spec exactly when
  every selected profile resolves, candidate-built images run only on capable profiles, remote work
  has an isolated workspace, the services a check needs exist where it runs, and a receipt is
  declared if and only if the daemon publishes one.
\<close>

theorem SpecRejectReason_exact:
  "SpecRejectReason spec hasServices known imageCapable receiptPolicy remoteProfile = [] \<longleftrightarrow>
   spec_admissible spec hasServices (resolves known) (resolves imageCapable) receiptPolicy
     (resolves remoteProfile)"
proof (cases "reject_checks (resolves remoteProfile) (cs_Workspace spec) hasServices (cs_Checks spec) False")
  case (Inl reason)
  then have "\<not> (\<exists>b. reject_checks (resolves remoteProfile) (cs_Workspace spec) hasServices
      (cs_Checks spec) False = Inr b)" by simp
  then show ?thesis
    using Inl reject_checks_reason [OF Inl]
    unfolding reject_checks_Inr by (auto simp: SpecRejectReason_def spec_admissible_def list_all_iff)
next
  case (Inr b)
  note I = Inr [unfolded reject_checks_Inr]
  have "SpecRejectReason spec hasServices known imageCapable receiptPolicy remoteProfile = [] \<longleftrightarrow>
      \<not> (list_ex (\<lambda>i. resolves remoteProfile (im_Executor i)) (cs_Images spec) \<and> cs_Workspace spec \<noteq> ''isolated'')
      \<and> \<not> ((case Receipt spec of None \<Rightarrow> False | Some r \<Rightarrow> resolves remoteProfile (rcp_Executor r))
            \<and> cs_Workspace spec \<noteq> ''isolated'')
      \<and> \<not> (RequiresServices spec \<and> \<not> hasServices \<and> \<not> b)
      \<and> snd (unknownExecutorProfile spec known) = []
      \<and> snd (imageOnIncapableProfile spec imageCapable) = []
      \<and> receiptPolicy = (Receipt spec \<noteq> None)"
    using Inr by (simp add: SpecRejectReason_def Let_def noServices_def split: prod.splits option.splits)
  also have "\<dots> \<longleftrightarrow> spec_admissible spec hasServices (resolves known) (resolves imageCapable) receiptPolicy
     (resolves remoteProfile)"
    unfolding unknownExecutorProfile_ok imageOnIncapableProfile_ok spec_admissible_def
    using I by (cases "Receipt spec") (auto simp: list_all_iff list_ex_iff)
  finally show ?thesis .
qed

lemma repo_char_not_at: "\<not> repo_char CHR ''@''"
  by code_simp

lemma digestRefPattern_iff:
  "digestRefPattern s \<longleftrightarrow>
     (\<exists>repo h. repo \<noteq> [] \<and> list_all repo_char repo \<and> hex64 h \<and> s = repo @ ''@sha256:'' @ h)"
proof
  assume "digestRefPattern s"
  then obtain h where h: "takeWhile repo_char s \<noteq> []" "hex64 h"
    "drop (length (takeWhile repo_char s)) s = ''@sha256:'' @ h"
    by (auto simp: digestRefPattern_def Let_def cut_prefix_Some split: option.splits)
  moreover have "s = takeWhile repo_char s @ drop (length (takeWhile repo_char s)) s"
    by (metis append_take_drop_id takeWhile_eq_take)
  ultimately show "\<exists>repo h. repo \<noteq> [] \<and> list_all repo_char repo \<and> hex64 h \<and> s = repo @ ''@sha256:'' @ h"
    by (intro exI [of _ "takeWhile repo_char s"] exI [of _ h]) (auto simp: list_all_iff dest: set_takeWhileD)
next
  assume "\<exists>repo h. repo \<noteq> [] \<and> list_all repo_char repo \<and> hex64 h \<and> s = repo @ ''@sha256:'' @ h"
  then obtain repo h where r: "repo \<noteq> []" "list_all repo_char repo" "hex64 h" "s = repo @ ''@sha256:'' @ h"
    by blast
  then have "takeWhile repo_char s = repo"
    by (simp add: takeWhile_append2 list_all_iff repo_char_not_at)
  with r show "digestRefPattern s" by (simp add: digestRefPattern_def)
qed

lemma ref_chars_not_space:
  "is_hex c \<or> repo_char c \<or> c \<in> set ''@sha256:'' \<Longrightarrow> c \<notin> {CHR 0x20, CHR 0x09, CHR 0x0A, CHR 0x0D}"
  by (auto simp: is_hex_def repo_char_def Let_def)

text \<open>
  An image build's captured result is accepted exactly when, trimmed, it is one immutable
  reference: a local image ID or a digest-pinned repository reference.  In particular a mutable
  tag never is.
\<close>

theorem validImageRef_immutable:
  "validImageRef raw = Inr ref \<longleftrightarrow>
     ref = trim_space raw
     \<and> (\<exists>h. hex64 h \<and> (ref = ''sha256:'' @ h
          \<or> (\<exists>repo. repo \<noteq> [] \<and> list_all repo_char repo \<and> ref = repo @ ''@sha256:'' @ h)))"
proof -
  let ?imm = "\<lambda>r. \<exists>h. hex64 h \<and> (r = ''sha256:'' @ h
          \<or> (\<exists>repo. repo \<noteq> [] \<and> list_all repo_char repo \<and> r = repo @ ''@sha256:'' @ h))"
  have pat: "localImageIDPattern r \<or> digestRefPattern r \<longleftrightarrow> ?imm r" for r
    by (auto simp: localImageIDPattern_def digestRefPattern_iff cut_prefix_Some split: option.splits)
  have "r \<noteq> [] \<and> list_all (\<lambda>c. c \<notin> {CHR 0x20, CHR 0x09, CHR 0x0A, CHR 0x0D}) r" if "?imm r" for r
  proof -
    from that have "r \<noteq> []" "\<forall>c \<in> set r. is_hex c \<or> repo_char c \<or> c \<in> set ''@sha256:''"
      by (auto simp: hex64_def list_all_iff)
    then show ?thesis using ref_chars_not_space by (simp add: list_all_iff)
  qed
  then have "?imm r \<Longrightarrow> r \<noteq> [] \<and> \<not> list_ex (\<lambda>c. c = CHR 0x20 \<or> c = CHR 0x09 \<or> c = CHR 0x0A \<or> c = CHR 0x0D) r" for r
    by (simp add: list_all_iff list_ex_iff)
  then show ?thesis
    unfolding validImageRef_def Let_def pat [symmetric] by auto
qed

end
