(* ===== verification/Queue_Types.thy ===== *)
theory Queue_Types
  imports Core_Slots Queue_Spec
begin

text \<open>
  The state of the queue daemon: the persisted scheduler and incident controls
  (\<^verbatim>\<open>internal/queue/controls.go\<close>), the configuration and injected dependencies, a run, a target's
  lane and the daemon itself (\<^verbatim>\<open>internal/queue/daemon.go\<close>).

  Code outside this model is a field of function type: the git repository, the review forge, the
  policy engine and the store the controls are written to.  Each such function takes the number of
  external calls made so far (\<open>d_io\<close>) as its first argument, so that two calls with the same
  arguments may answer differently.  The remote's refs are state (\<open>d_remote\<close>), changed only by
  compare-and-swap updates and by other writers (\<open>g_interfere\<close>).  The clock is the field
  \<open>d_now\<close>: one reading per operation.  Trace spans, contexts, stderr output and the published
  snapshot are not modelled; so \<open>config\<close> has no \<open>WorkDir\<close> or \<open>FailureReview\<close> (they
  belong to the workers), of \<open>Verification\<close> only its maintenance, \<open>Services\<close> only says whether a pool is configured, and \<open>daemon\<close> has
  no executor, channels, tracer, snapshot pointer, mutex or idle timer.  The hashes and encodings the
  code computes with \<open>verification.Key\<close>, \<open>json.Marshal\<close> and \<open>time.Format\<close> are functions of \<open>config\<close>, and
  so are the KDL package behind \<open>ParseChecks\<close>, the wording of its errors, the rendering of a configured
  \<open>text/template\<close> and the creation of a temporary directory.  \<open>g_ListRefs\<close> sees the remote's refs, possibly late.
\<close>

section \<open>Policy\<close>

record policy_command =
  pc_Priority :: string
  pc_Preempt :: bool
  pc_Before :: string
  pc_After :: string
  pc_Kind :: string
  pc_ID :: string
  pc_Reason :: string
  pc_Count :: int
  pc_Urgent :: bool

record policy_settings =
  ps_Approvals :: int
  ps_RequiredChecks :: "string list"
  ps_ResolvedConversations :: bool
  ps_EmergencyEnabled :: bool

record policy_emergency =
  pe_SkipChecks :: bool
  pe_OverridePause :: bool

datatype json_value = JStr string | JBool bool

type_synonym json_object = "(string, json_value) gomap"

text \<open>\<open>policy.Input\<close>; \<open>Forge\<close>, \<open>Deployment\<close> and \<open>Retry\<close> are the adapter's own JSON text and
  \<open>Execution\<close> the spec that \<open>policy.Specification\<close> renders.\<close>

record policy_input =
  pi_AdapterValidated :: bool
  pi_SchemaVersion :: int
  pi_Phase :: string
  pi_Principal :: principal
  pi_Command :: policy_command
  pi_Settings :: policy_settings
  pi_Emergency :: policy_emergency
  pi_Target :: string
  pi_Branch :: string
  pi_BaseSHA :: string
  pi_Candidate :: json_object
  pi_Forge :: string
  pi_Stack :: "json_object list"
  pi_Checks :: "json_object list"
  pi_Paths :: "string list"
  pi_PathsAvailable :: bool
  pi_Execution :: "check_spec option"
  pi_Deployment :: string
  pi_Retry :: string

record requirement =
  rq_Name :: string
  rq_Satisfied :: bool
  rq_Reason :: string

record decision =
  de_Allow :: bool
  de_Requirements :: "requirement list"
  de_Version :: string

definition principal_zero :: principal where
  "principal_zero = \<lparr>pr_Source = [], pr_ID = [], pr_Authenticated = False,
     pr_AllowedByConfig = False, pr_Permission = [], pr_Teams = []\<rparr>"

definition policy_input_zero :: policy_input where
  "policy_input_zero = \<lparr>pi_AdapterValidated = False, pi_SchemaVersion = 0, pi_Phase = [],
     pi_Principal = principal_zero,
     pi_Command = \<lparr>pc_Priority = [], pc_Preempt = False, pc_Before = [], pc_After = [],
       pc_Kind = [], pc_ID = [], pc_Reason = [], pc_Count = 0, pc_Urgent = False\<rparr>,
     pi_Settings = \<lparr>ps_Approvals = 0, ps_RequiredChecks = [], ps_ResolvedConversations = False,
       ps_EmergencyEnabled = False\<rparr>,
     pi_Emergency = \<lparr>pe_SkipChecks = False, pe_OverridePause = False\<rparr>,
     pi_Target = [], pi_Branch = [], pi_BaseSHA = [], pi_Candidate = [], pi_Forge = [],
     pi_Stack = [], pi_Checks = [], pi_Paths = [], pi_PathsAvailable = False,
     pi_Execution = None, pi_Deployment = [], pi_Retry = []\<rparr>"

section \<open>Persisted controls\<close>

record governor =
  gv_Limit :: int
  gv_Clean :: int
  gv_Landed :: int
  gv_Retried :: int
  gv_Failed :: int
  gv_Invalidated :: int
  gv_UsefulSeconds :: rat
  gv_WastedSeconds :: rat
  gv_Reason :: string
  gv_At :: go_time
  gv_Recent :: "string list"

definition governor_zero :: governor where
  "governor_zero = \<lparr>gv_Limit = 0, gv_Clean = 0, gv_Landed = 0, gv_Retried = 0, gv_Failed = 0,
     gv_Invalidated = 0, gv_UsefulSeconds = 0, gv_WastedSeconds = 0, gv_Reason = [], gv_At = 0,
     gv_Recent = []\<rparr>"

record infrastructure_failure =
  if_Revision :: string
  if_At :: go_time

record circuit =
  ci_ProbeRunID :: string
  ci_Failures :: "infrastructure_failure list"
  ci_Until :: go_time
  ci_Backoff :: go_duration
  ci_Reason :: string

definition circuit_zero :: circuit where
  "circuit_zero = \<lparr>ci_ProbeRunID = [], ci_Failures = [], ci_Until = 0, ci_Backoff = 0, ci_Reason = []\<rparr>"

record pause =
  pa_Actor :: string
  pa_Reason :: string
  pa_At :: go_time

record prepared_entry =
  pp_RunID :: string
  pp_Commit :: string
  pp_Tree :: string
  pp_At :: go_time

definition prepared_zero :: prepared_entry where
  "prepared_zero = \<lparr>pp_RunID = [], pp_Commit = [], pp_Tree = [], pp_At = 0\<rparr>"

record priority_entry =
  py_Revision :: revision
  py_Class :: string

record park_entry =
  pk_Version :: string
  pk_SHA :: string
  pk_Outcome :: outcome
  pk_Reason :: string
  pk_At :: go_time
  pk_RunID :: string

record policy_audit =
  au_At :: go_time
  au_Target :: string
  au_Phase :: string
  au_Ref :: string
  au_SHA :: string
  au_InputHash :: string
  au_Decision :: decision
  au_Version :: string
  au_Error :: string

record control_audit =
  ca_At :: go_time
  ca_Command :: command

record control_state =
  ct_Governors :: "(string, governor) gomap"
  ct_Prepared :: "(string, prepared_entry) gomap"
  ct_Scheduled :: "(string, string) gomap"
  ct_Priorities :: "(string, priority_entry) gomap"
  ct_Enqueued :: "(string, go_time) gomap"
  ct_Checkpoint :: bool
  ct_Order :: "(string, (string, int) gomap) gomap"
  ct_Parks :: "(string, (string, park_entry) gomap) gomap"
  ct_AutoRetried :: "(string, (string, string) gomap) gomap"
  ct_ReviewFloor :: int
  ct_ProcessedReviews :: "(string, bool) gomap"
  ct_PolicyAudit :: "policy_audit list"
  ct_Circuits :: "(string, circuit) gomap"
  ct_Version :: int
  ct_Pauses :: "(string, pause) gomap"
  ct_Emergency :: "(string, command) gomap"
  ct_Audit :: "control_audit list"
  ct_LastError :: string
  ct_Uncertain :: bool

definition controls_zero :: control_state where
  "controls_zero = \<lparr>ct_Governors = [], ct_Prepared = [], ct_Scheduled = [], ct_Priorities = [],
     ct_Enqueued = [], ct_Checkpoint = False, ct_Order = [], ct_Parks = [], ct_AutoRetried = [],
     ct_ReviewFloor = 0, ct_ProcessedReviews = [], ct_PolicyAudit = [], ct_Circuits = [],
     ct_Version = 1, ct_Pauses = [], ct_Emergency = [], ct_Audit = [], ct_LastError = [],
     ct_Uncertain = False\<rparr>"

section \<open>Configuration and dependencies\<close>

record adaptive_scheduling =
  ad_Start :: int
  ad_Successes :: int

record hook_cfg =
  hk_Name :: string
  hk_Command :: "string list"

record target_cfg =
  tg_Name :: string
  tg_Branch :: string
  tg_Landing :: string
  tg_Hooks :: "hook_cfg list"
  tg_HooksPolicy :: string
  tg_Mode :: string
  tg_MaxBatch :: int
  tg_Window :: int
  tg_OnBatchRed :: string
  tg_Adaptive :: "adaptive_scheduling option"

definition target_zero :: "string \<Rightarrow> target_cfg" where
  "target_zero name = \<lparr>tg_Name = name, tg_Branch = [], tg_Landing = [], tg_Hooks = [],
     tg_HooksPolicy = [], tg_Mode = [], tg_MaxBatch = 0, tg_Window = 0, tg_OnBatchRed = [],
     tg_Adaptive = None\<rparr>"

record circuit_breaker =
  cb_Threshold :: int
  cb_Window :: go_duration
  cb_Backoff :: go_duration
  cb_MaxBackoff :: go_duration

record receipt_notes =
  rn_Ref :: string
  rn_MaxBytes :: int

record park_seed =
  sd_Version :: string
  sd_Ref :: string
  sd_SHA :: string
  sd_Outcome :: outcome
  sd_Reason :: string
  sd_At :: go_time
  sd_RunID :: string

text \<open>Errors the code distinguishes with \<open>errors.Is\<close>.\<close>

datatype git_error = ErrCASStale | ErrNoteConflict string | ErrOther string

fun git_error_string :: "git_error \<Rightarrow> string" where
  "git_error_string ErrCASStale = ''gitx: CAS failed, ref moved''"
| "git_error_string (ErrNoteConflict s) = s"
| "git_error_string (ErrOther s) = s"

text \<open>What the transport does to one compare-and-swap push: nothing, fail before it took effect, or
  report an error after it took effect on the remote.\<close>

datatype cas_fault = CasClean | CasLost string | CasAmbiguous string

record note_publish_result =
  np_Published :: bool
  np_NoteBlobSHA :: string

record linear_git =
  lg_ReplayTree :: "nat \<Rightarrow> string \<Rightarrow> string \<Rightarrow> string \<Rightarrow> string + trial_merge"
  lg_LinearCommit :: "nat \<Rightarrow> string \<Rightarrow> string \<Rightarrow> string \<Rightarrow> string \<Rightarrow> string + string"
  lg_FindLanding :: "nat \<Rightarrow> string \<Rightarrow> string \<Rightarrow> string \<Rightarrow> string \<Rightarrow> string + string"

record git_repo =
  g_Fetch :: "nat \<Rightarrow> go_error"
  g_ListRefs :: "nat \<Rightarrow> (string, string) gomap \<Rightarrow> string + (string, string) gomap"
  g_MergeTree :: "nat \<Rightarrow> string \<Rightarrow> string \<Rightarrow> string + trial_merge"
  g_CommitTree :: "nat \<Rightarrow> string \<Rightarrow> string list \<Rightarrow> string \<Rightarrow> string + string"
  g_ReadFileFromTree :: "nat \<Rightarrow> string \<Rightarrow> string \<Rightarrow> string + string"
  g_IsAncestor :: "nat \<Rightarrow> string \<Rightarrow> string \<Rightarrow> string + bool"
  g_FindLandingMerge :: "nat \<Rightarrow> string \<Rightarrow> string \<Rightarrow> string + string"
  g_ExportTree :: "nat \<Rightarrow> string \<Rightarrow> go_error"
  g_RestoreMtimes :: "nat \<Rightarrow> string \<Rightarrow> go_error"
  g_Pin :: "nat \<Rightarrow> string \<Rightarrow> go_error"
  g_PublishNote :: "nat \<Rightarrow> string \<Rightarrow> string \<Rightarrow> string option \<Rightarrow> git_error + note_publish_result"
  g_RetainSources :: "nat \<Rightarrow> string list \<Rightarrow> go_error"
  g_ChangedPaths :: "(nat \<Rightarrow> string \<Rightarrow> string \<Rightarrow> string + string list) option"
  g_CommitMessage :: "(nat \<Rightarrow> string \<Rightarrow> string + string) option"
  g_Linear :: "linear_git option"
  g_interfere :: "nat \<Rightarrow> (string, string) gomap \<Rightarrow> (string, string) gomap"
  g_casFault :: "nat \<Rightarrow> cas_fault"

record review_source =
  rs_Candidates :: "nat \<Rightarrow> string + candidate list"
  rs_Validate :: "nat \<Rightarrow> candidate \<Rightarrow> go_error"
  rs_Landed :: "nat \<Rightarrow> candidate \<Rightarrow> string \<Rightarrow> git_error option"
  rs_PolicyInput :: "(nat \<Rightarrow> candidate \<Rightarrow> string + policy_input) option"
  rs_PolicyFacts :: "(nat \<Rightarrow> candidate \<Rightarrow> string + string \<times> string list option) option"
  rs_ValidatePolicyInputs ::
    "(nat \<Rightarrow> candidate list \<Rightarrow> bool \<Rightarrow> string + (string, policy_input) gomap option) option"
  rs_ValidateEmergency :: "(nat \<Rightarrow> candidate \<Rightarrow> go_error) option"

record policy_engine =
  po_Decide :: "nat \<Rightarrow> string \<Rightarrow> policy_input \<Rightarrow> decision \<times> go_error"
  po_HasCustom :: "string \<Rightarrow> bool"
  po_Version :: string
  po_Hash :: "policy_input \<Rightarrow> string"

text \<open>\<open>messageFields\<close> of \<^verbatim>\<open>internal/queue/message.go\<close>.\<close>

record message_fields =
  mf_Topic :: string
  mf_User :: string
  mf_Ref :: string
  mf_RunID :: string
  mf_Target :: string

record config =
  cf_ExecutionPressure :: "(nat \<Rightarrow> bool) option"
  cf_KeepExecutions :: "(nat \<Rightarrow> string \<Rightarrow> string \<Rightarrow> go_error) option"
  cf_RemoteExecutorProfile :: "(string \<Rightarrow> bool) option"
  cf_VerificationContext :: string
  cf_Policy :: policy_engine
  cf_CircuitBreaker :: "circuit_breaker option"
  cf_SourceGitDir :: string
  cf_ControlPath :: string
  cf_AllowEmergency :: bool
  cf_Reviews :: "review_source option"
  cf_Targets :: "target_cfg list"
  cf_CheckSpec :: string
  cf_Committer :: identity
  cf_MergeMessage :: string
  cf_MergeBody :: "(nat \<Rightarrow> candidate \<Rightarrow> string \<Rightarrow> string) option"
  cf_LogDir :: string
  cf_SeedParks :: "(string \<Rightarrow> park_seed list) option"
  cf_Services :: bool
  cf_KnownExecutorProfile :: "(string \<Rightarrow> bool) option"
  cf_HistoryMtimes :: bool
  cf_ImageCapableProfile :: "(string \<Rightarrow> bool) option"
  cf_AutoRetryErrors :: bool
  cf_TrialRefs :: bool
  cf_TrialRefPrefix :: string
  cf_TrialRefRetention :: go_duration
  cf_ReceiptNotes :: "receipt_notes option"
  cf_controlsSize :: "control_state \<Rightarrow> nat"
  cf_writeControls :: "nat \<Rightarrow> control_state \<Rightarrow> go_error"
  cf_graphKey :: "check_cfg list \<Rightarrow> int \<Rightarrow> bool \<Rightarrow> string"
  cf_nodeKey :: "string \<Rightarrow> string \<Rightarrow> string"
  cf_preparedKey :: "string \<Rightarrow> string \<Rightarrow> candidate \<Rightarrow> string list \<Rightarrow> string"
  cf_batchKey :: "candidate list \<Rightarrow> string"
  cf_planToken :: "string list \<Rightarrow> string list \<Rightarrow> candidate list \<Rightarrow> string"
  cf_kdlParse :: "string \<Rightarrow> string option list option"
  cf_kdlUnmarshal :: "string \<Rightarrow> string + check_spec"
  cf_specErrorText :: "spec_error \<Rightarrow> string"
  cf_renderTemplate :: "string \<Rightarrow> message_fields \<Rightarrow> string + string"
  cf_mkdirTemp :: "nat \<Rightarrow> string + string"
  cf_maintainVerification :: "nat \<Rightarrow> go_error"
  cf_marshalServices :: "service_cfg list \<Rightarrow> string"
  cf_formatRFC3339 :: "go_time \<Rightarrow> string"
  cf_formatRunIDTime :: "go_time \<Rightarrow> string"

section \<open>Runs, lanes and the daemon\<close>

text \<open>\<open>cif_result\<close> is the one-shot result channel: \<open>None\<close> while the worker runs, \<open>Some\<close> once it
  has sent.\<close>

record check_in_flight =
  cif_name :: string
  cif_result :: "check_result option"
  cif_start :: go_time
  cif_waited :: go_duration

datatype run_verdict = verdictNone | verdictGreen | verdictRejected | verdictErrored

record run_member =
  m_cand :: candidate
  m_mergeOID :: string
  m_rec :: run_record

record run =
  r_abandonedSeconds :: rat
  r_emergencyReason :: string
  r_pauseOverrideReason :: string
  r_controlPrepared :: bool
  r_overridePause :: bool
  r_target :: string
  r_members :: "run_member list"
  r_baseOID :: string
  r_chainTip :: string
  r_chainTree :: string
  r_predicted :: bool
  r_batchID :: string
  r_runID :: string
  r_dir :: string
  r_checks :: "check_cfg list"
  r_maxParallel :: int
  r_inflight :: "(string, check_in_flight) gomap"
  r_results :: "(string, check_result) gomap"
  r_readyAt :: "(string, go_time) gomap"
  r_culprit :: string
  r_imageRefs :: "(string, string) gomap"
  r_materialized :: bool
  r_receiptPayload :: "string option"
  r_receiptProducer :: string
  r_receiptBlobSHA :: string
  r_receiptPublished :: string
  r_services :: "service_cfg list"
  r_isolated :: bool
  r_verdict :: run_verdict
  r_verifiedEmitted :: bool
  r_trialRef :: string
  r_verificationGraphKey :: string

text \<open>What \<open>startCheck\<close> hands to a check's goroutine: the job, the captured fields of the run and the
  outcome of retaining its sources.\<close>

record worker_job =
  wj_job :: check_job
  wj_check :: check_cfg
  wj_tree :: string
  wj_services :: "service_cfg list"
  wj_isolated :: bool
  wj_remote :: bool
  wj_deps :: "string list"
  wj_sourceErr :: go_error

record trial_reap_entry =
  tr_sha :: string
  tr_at :: go_time

text \<open>A lane is its \<open>runs\<close> slice.  \<open>d_events\<close> is what the channels received, oldest first;
  \<open>d_pushes\<close> the ref updates of this daemon that took effect; \<open>d_pins\<close> the pinned objects;
  \<open>d_jobs\<close> the check jobs handed to workers; \<open>d_stored\<close> the control state last written to disk.\<close>

type_synonym lane = "run list"

record ref_push =
  ps_ref :: string
  ps_old :: string
  ps_new :: string

record daemon =
  d_admission :: "(string, int) gomap"
  d_controls :: control_state
  d_schedulerDirty :: bool
  d_external :: "(string, candidate) gomap"
  d_git :: git_repo
  d_cfg :: config
  d_slots :: "slots option"
  d_now :: go_time
  d_order :: "(string, (string, int) gomap) gomap"
  d_done :: "(string, (string, park_entry) gomap) gomap"
  d_seq :: int
  d_autoRetried :: "(string, (string, string) gomap) gomap"
  d_ignoredRefs :: "(string, string) gomap"
  d_lanes :: "(string, lane) gomap"
  d_urgentBurst :: "(string, int) gomap"
  d_batchRecovery :: "(string, int) gomap"
  d_batchFallback :: "(string, bool) gomap"
  d_seeded :: "(string, bool) gomap"
  d_landedPins :: "(string, string) gomap"
  d_trialReap :: "(string, trial_reap_entry) gomap"
  d_idleSince :: go_time
  d_reaperArmed :: bool
  d_tick :: int
  d_drainReq :: bool
  d_drainReqDL :: go_time
  d_draining :: bool
  d_drainSince :: go_time
  d_drainDeadline :: go_time
  d_runIDCounter :: nat
  d_io :: nat
  d_stored :: "control_state option"
  d_remote :: "(string, string) gomap"
  d_pushes :: "ref_push list"
  d_pins :: "string list"
  d_events :: "event list"
  d_jobs :: "worker_job list"

definition run_zero :: run where
  "run_zero = \<lparr>r_abandonedSeconds = 0, r_emergencyReason = [], r_pauseOverrideReason = [],
     r_controlPrepared = False, r_overridePause = False, r_target = [], r_members = [], r_baseOID = [],
     r_chainTip = [], r_chainTree = [], r_predicted = False, r_batchID = [], r_runID = [], r_dir = [],
     r_checks = [], r_maxParallel = 0, r_inflight = [], r_results = [], r_readyAt = [], r_culprit = [],
     r_imageRefs = [], r_materialized = False, r_receiptPayload = None, r_receiptProducer = [],
     r_receiptBlobSHA = [], r_receiptPublished = [], r_services = [], r_isolated = False,
     r_verdict = verdictNone, r_verifiedEmitted = False, r_trialRef = [], r_verificationGraphKey = []\<rparr>"

definition targetRefName :: "target_cfg \<Rightarrow> string" where
  "targetRefName t = ''refs/heads/'' @ tg_Branch t"

definition headRun :: "daemon \<Rightarrow> string \<Rightarrow> run option" where
  "headRun d target = (case mget [] (d_lanes d) target of [] \<Rightarrow> None | r # _ \<Rightarrow> Some r)"

definition Reason :: "decision \<Rightarrow> string" where
  "Reason d =
     (let reasons = map (\<lambda>r. rq_Name r @ '': '' @ rq_Reason r)
                      (filter (\<lambda>r. \<not> rq_Satisfied r) (de_Requirements d)) in
      if reasons = [] \<and> \<not> de_Allow d then ''policy denied'' else str_join ''; '' reasons)"

section \<open>Circuit breaker configuration\<close>

definition circuit_defaults :: "circuit_breaker \<Rightarrow> circuit_breaker" where
  "circuit_defaults c =
     (let c = (if cb_Threshold c = 0 then c\<lparr>cb_Threshold := 3\<rparr> else c);
          c = (if cb_Window c = 0 then c\<lparr>cb_Window := 5 * duration_minute\<rparr> else c);
          c = (if cb_Backoff c = 0 then c\<lparr>cb_Backoff := 30 * 1000000000\<rparr> else c) in
      if cb_MaxBackoff c = 0 then c\<lparr>cb_MaxBackoff := 10 * duration_minute\<rparr> else c)"

definition circuit_validate :: "circuit_breaker \<Rightarrow> go_error" where
  "circuit_validate c =
     (if cb_Threshold c < 2 \<or> cb_Threshold c > 100 \<or> cb_Window c \<le> 0 \<or> cb_Backoff c \<le> 0
         \<or> cb_MaxBackoff c < cb_Backoff c \<or> cb_MaxBackoff c > 60 * duration_minute
      then Some ''circuit-breaker: invalid threshold, window, or backoff'' else None)"

section \<open>A small instance\<close>

text \<open>A repository that merges everything cleanly, a permissive policy and a store that accepts every
  write: the instance on which the properties below are evaluated.\<close>

definition sample_git :: git_repo where
  "sample_git = \<lparr>g_Fetch = (\<lambda>_. None), g_ListRefs = (\<lambda>_ refs. Inr refs),
     g_MergeTree = (\<lambda>_ base cand. Inr \<lparr>tm_Clean = True, tm_TreeOID = ''tree-'' @ cand, tm_Conflicts = []\<rparr>),
     g_CommitTree = (\<lambda>_ tree _ _. Inr (''commit-'' @ tree)),
     g_ReadFileFromTree = (\<lambda>_ _ _. Inr ''spec''), g_IsAncestor = (\<lambda>_ _ _. Inr False),
     g_FindLandingMerge = (\<lambda>_ _ _. Inr []), g_ExportTree = (\<lambda>_ _. None),
     g_RestoreMtimes = (\<lambda>_ _. None), g_Pin = (\<lambda>_ _. None),
     g_PublishNote = (\<lambda>_ _ _ _. Inr \<lparr>np_Published = True, np_NoteBlobSHA = ''blob''\<rparr>),
     g_RetainSources = (\<lambda>_ _. None), g_ChangedPaths = None, g_CommitMessage = None, g_Linear = None,
     g_interfere = (\<lambda>_ m. m), g_casFault = (\<lambda>_. CasClean)\<rparr>"

definition sample_policy :: policy_engine where
  "sample_policy = \<lparr>po_Decide = (\<lambda>_ _ _. (\<lparr>de_Allow = True, de_Requirements = [], de_Version = []\<rparr>, None)),
     po_HasCustom = (\<lambda>_. False), po_Version = ''v1'', po_Hash = pi_Target\<rparr>"

definition sample_target :: target_cfg where
  "sample_target = (target_zero ''main'')\<lparr>tg_Branch := ''main'', tg_Mode := ''serial''\<rparr>"

definition sample_breaker :: circuit_breaker where
  "sample_breaker = \<lparr>cb_Threshold = 2, cb_Window = 300, cb_Backoff = 30, cb_MaxBackoff = 600\<rparr>"

definition sample_config :: config where
  "sample_config = \<lparr>cf_ExecutionPressure = None, cf_KeepExecutions = None,
     cf_RemoteExecutorProfile = None, cf_VerificationContext = [], cf_Policy = sample_policy,
     cf_CircuitBreaker = Some sample_breaker, cf_SourceGitDir = ''git'', cf_ControlPath = ''state'',
     cf_AllowEmergency = True, cf_Reviews = None, cf_Targets = [sample_target],
     cf_CheckSpec = ''gauntlet.kdl'', cf_Committer = \<lparr>id_Name = ''gauntlet'', id_Email = ''g@x''\<rparr>,
     cf_MergeMessage = [], cf_MergeBody = None, cf_LogDir = [], cf_SeedParks = None, cf_Services = False,
     cf_KnownExecutorProfile = None, cf_HistoryMtimes = False, cf_ImageCapableProfile = None,
     cf_AutoRetryErrors = True, cf_TrialRefs = False, cf_TrialRefPrefix = ''refs/gauntlet/trials'',
     cf_TrialRefRetention = 0, cf_ReceiptNotes = None, cf_controlsSize = (\<lambda>_. 10),
     cf_writeControls = (\<lambda>_ _. None), cf_graphKey = (\<lambda>_ _ _. ''graph''),
     cf_nodeKey = (\<lambda>name tip. name @ tip), cf_preparedKey = (\<lambda>target base c _. target @ base @ c_SHA c),
     cf_batchKey = (\<lambda>cs. concat (map c_SHA cs)), cf_planToken = (\<lambda>refs ids _. concat refs @ concat ids), cf_kdlParse = (\<lambda>_. None), cf_kdlUnmarshal = (\<lambda>_. Inr sample_image_spec),
     cf_specErrorText = (\<lambda>_. ''invalid''), cf_renderTemplate = (\<lambda>tmpl _. Inr tmpl), cf_mkdirTemp = (\<lambda>_. Inr ''dir''),
     cf_maintainVerification = (\<lambda>_. None),
     cf_marshalServices = (\<lambda>_. []), cf_formatRFC3339 = show_int, cf_formatRunIDTime = show_int\<rparr>"

definition sample_daemon :: daemon where
  "sample_daemon = \<lparr>d_admission = [], d_controls = controls_zero, d_schedulerDirty = False,
     d_external = [], d_git = sample_git, d_cfg = sample_config, d_slots = None, d_now = 1000,
     d_order = [], d_done = [], d_seq = 0, d_autoRetried = [], d_ignoredRefs = [], d_lanes = [],
     d_urgentBurst = [], d_batchRecovery = [], d_batchFallback = [], d_seeded = [],
     d_landedPins = [], d_trialReap = [], d_idleSince = 0, d_reaperArmed = False, d_tick = 0, d_drainReq = False, d_drainReqDL = 0,
     d_draining = False, d_drainSince = 0, d_drainDeadline = 0, d_runIDCounter = 0, d_io = 0,
     d_stored = None, d_remote = [(''refs/heads/main'', ''base'')], d_pushes = [], d_pins = [],
     d_events = [], d_jobs = []\<rparr>"

definition sample_candidate :: "string \<Rightarrow> string \<Rightarrow> candidate" where
  "sample_candidate topic sha = candidate_zero\<lparr>c_Ref := ''refs/heads/for/main/'' @ topic,
     c_Target := ''main'', c_Topic := topic, c_SHA := sha\<rparr>"

end
