(* ===== verification/Queue_Controls.thy ===== *)
theory Queue_Controls
  imports Queue_Types "HOL-Library.Sublist"
begin

text \<open>
  Persistence of the control state (\<^verbatim>\<open>controls.go\<close>, \<^verbatim>\<open>checkpoint.go\<close>), the infrastructure circuit
  breaker (\<^verbatim>\<open>circuit.go\<close>) and event emission (\<open>emit\<close> in \<^verbatim>\<open>daemon.go\<close>), which feeds the breaker.
  Operations on the daemon take it first and return it updated.  In a value model the deep copies
  of \<open>clone\<close> are the identity; they are written out field by field as in the source.
\<close>

section \<open>Saving\<close>

definition cloneNested :: "('k, ('l, 'v) gomap) gomap \<Rightarrow> ('k, ('l, 'v) gomap) gomap" where
  "cloneNested m = map (\<lambda>(k, values). (k, values)) m"

definition clone_entries :: "('k, 'v) gomap \<Rightarrow> ('k, 'v) gomap" where
  "clone_entries m = map (\<lambda>(k, v). (k, v)) m"

definition clone :: "control_state \<Rightarrow> control_state" where
  "clone s = s
    \<lparr>ct_Prepared := clone_entries (ct_Prepared s),
     ct_Governors := map (\<lambda>(k, g). (k, g\<lparr>gv_Recent := gv_Recent g\<rparr>)) (ct_Governors s),
     ct_Order := cloneNested (ct_Order s),
     ct_Parks := cloneNested (ct_Parks s),
     ct_AutoRetried := cloneNested (ct_AutoRetried s),
     ct_Scheduled := clone_entries (ct_Scheduled s),
     ct_Priorities := clone_entries (ct_Priorities s),
     ct_Enqueued := clone_entries (ct_Enqueued s),
     ct_ProcessedReviews := clone_entries (ct_ProcessedReviews s),
     ct_Pauses := clone_entries (ct_Pauses s),
     ct_Emergency := map (\<lambda>(k, c). (k, c\<lparr>cmd_Revisions := cmd_Revisions c\<rparr>)) (ct_Emergency s),
     ct_Circuits := map (\<lambda>(k, c). (k, c\<lparr>ci_Failures := ci_Failures c\<rparr>)) (ct_Circuits s),
     ct_Audit := map (\<lambda>a. a\<lparr>ca_Command := (ca_Command a)\<lparr>cmd_Revisions := cmd_Revisions (ca_Command a)\<rparr>\<rparr>)
                   (ct_Audit s),
     ct_PolicyAudit := map (\<lambda>a. a\<lparr>au_Decision := (au_Decision a)
                   \<lparr>de_Requirements := de_Requirements (au_Decision a)\<rparr>\<rparr>) (ct_PolicyAudit s)\<rparr>"

text \<open>The loop of \<open>saveControls\<close>: drop the oldest audit entry, then the oldest policy audit entry,
  until the JSON fits; \<open>False\<close> when nothing is left to drop.\<close>

definition storageLimit :: nat where
  "storageLimit = 3145728"

function trim_controls :: "(control_state \<Rightarrow> nat) \<Rightarrow> control_state \<Rightarrow> control_state \<times> bool" where
  "trim_controls sz next =
     (if sz next \<le> storageLimit then (next, True)
      else case ct_Audit next of
          _ # audit \<Rightarrow> trim_controls sz (next\<lparr>ct_Audit := audit\<rparr>)
        | [] \<Rightarrow> (case ct_PolicyAudit next of
              _ # audit \<Rightarrow> trim_controls sz (next\<lparr>ct_PolicyAudit := audit\<rparr>)
            | [] \<Rightarrow> (next, False)))"
  by pat_completeness auto
termination
  by (relation "measure (\<lambda>(_, s). length (ct_Audit s) + length (ct_PolicyAudit s))") auto

declare trim_controls.simps [simp del]

definition saveControls :: "daemon \<Rightarrow> control_state \<Rightarrow> bool \<times> daemon" where
  "saveControls d next0 =
     (let next1 = (if length (ct_Audit next0) > 500
                   then next0\<lparr>ct_Audit := last_n 500 (ct_Audit next0)\<rparr> else next0) in
      case trim_controls (cf_controlsSize (d_cfg d)) next1 of
        (next, False) \<Rightarrow>
          (False, d\<lparr>d_controls := next\<lparr>ct_LastError := ''incident control state exceeds storage limit'',
                                     ct_Uncertain := True\<rparr>\<rparr>)
      | (next, True) \<Rightarrow>
          if cf_ControlPath (d_cfg d) = []
          then (True, d\<lparr>d_controls := next\<lparr>ct_Uncertain := False\<rparr>\<rparr>)
          else (let d = d\<lparr>d_io := Suc (d_io d)\<rparr> in
            case cf_writeControls (d_cfg d) (d_io d) next of
              Some err \<Rightarrow>
                (False, d\<lparr>d_controls := next\<lparr>ct_LastError := msg [''cannot persist incident control: '', err],
                                           ct_Uncertain := True\<rparr>\<rparr>)
            | None \<Rightarrow>
                (True, d\<lparr>d_controls := next\<lparr>ct_Uncertain := False\<rparr>,
                         d_stored := Some (next\<lparr>ct_Uncertain := False\<rparr>)\<rparr>)))"

definition persistScheduler :: "daemon \<Rightarrow> bool \<times> daemon" where
  "persistScheduler d =
     (let c = d_controls d in
      if \<not> d_schedulerDirty d \<and> \<not> ct_Uncertain c \<and> ct_Checkpoint c
         \<and> nested_eq (d_order d) (ct_Order c) \<and> nested_eq (d_done d) (ct_Parks c)
         \<and> nested_eq (d_autoRetried d) (ct_AutoRetried c)
      then (True, d)
      else
       (let next = clone c;
            next = (if ct_Uncertain next then next\<lparr>ct_LastError := []\<rparr> else next);
            next = next\<lparr>ct_Checkpoint := True, ct_Order := cloneNested (d_order d),
                        ct_Parks := cloneNested (d_done d),
                        ct_AutoRetried := cloneNested (d_autoRetried d)\<rparr> in
        case saveControls d next of
          (False, d') \<Rightarrow> (False, d')
        | (True, d') \<Rightarrow> (True, d'\<lparr>d_schedulerDirty := False\<rparr>)))"

section \<open>The circuit breaker\<close>

definition circuitBlocked :: "daemon \<Rightarrow> string \<Rightarrow> bool" where
  "circuitBlocked d target = (d_now d < ci_Until (mget circuit_zero (ct_Circuits (d_controls d)) target))"

definition probe_healthy :: "event \<Rightarrow> circuit \<Rightarrow> bool" where
  "probe_healthy ev c =
     (case ev_Record ev of
        None \<Rightarrow> False
      | Some rec \<Rightarrow>
          0 < ci_Backoff c \<and> ev_RunID ev \<noteq> [] \<and> ev_RunID ev = ci_ProbeRunID c
          \<and> (rr_Outcome rec = OutcomeLanded \<or> rr_Outcome rec = OutcomeRejected)
          \<and> list_all (\<lambda>chk. cr_Err chk = None) (rr_Checks rec))"

definition infra_failed :: "event \<Rightarrow> bool" where
  "infra_failed ev =
     (case ev_Check ev of
        Some chk \<Rightarrow> cr_Err chk \<noteq> None
      | None \<Rightarrow> (case ev_Record ev of None \<Rightarrow> False | Some rec \<Rightarrow> rr_Outcome rec = OutcomeError))"

definition event_revision :: "event \<Rightarrow> string" where
  "event_revision ev = c_Ref (ev_Candidate ev) @ ''@'' @ c_SHA (ev_Candidate ev)"

definition fresh_failures :: "go_time \<Rightarrow> circuit \<Rightarrow> infrastructure_failure list" where
  "fresh_failures cutoff c = filter (\<lambda>f. cutoff < if_At f) (ci_Failures c)"

definition note_failure :: "daemon \<Rightarrow> circuit_breaker \<Rightarrow> string \<Rightarrow> circuit \<Rightarrow> circuit" where
  "note_failure d cfg revision c =
     (let cutoff = d_now d - cb_Window cfg;
          fresh = fresh_failures cutoff c;
          duplicate = list_ex (\<lambda>f. if_Revision f = revision) fresh;
          failures = (if duplicate then fresh
                      else fresh @ [\<lparr>if_Revision = revision, if_At = d_now d\<rparr>]);
          c = c\<lparr>ci_Failures := failures\<rparr> in
      if cb_Threshold cfg \<le> int (length failures) \<or> 0 < ci_Backoff c
      then
       (let c = (if d_now d < ci_Until c then c
                 else (let backoff = min (cb_MaxBackoff cfg) (max (cb_Backoff cfg) (i64 (2 * ci_Backoff c)))
                       in c\<lparr>ci_Backoff := backoff, ci_Until := d_now d + backoff\<rparr>)) in
        c\<lparr>ci_Reason := msg [''infrastructure failures across '', show_int (int (length failures)),
             '' revisions; next probe after '', cf_formatRFC3339 (d_cfg d) (ci_Until c)]\<rparr>)
      else c)"

definition observeInfrastructure :: "daemon \<Rightarrow> event \<Rightarrow> daemon" where
  "observeInfrastructure d ev =
     (case cf_CircuitBreaker (d_cfg d) of
        None \<Rightarrow> d
      | Some cfg \<Rightarrow>
        if ev_Target ev = [] \<or> c_Ref (ev_Candidate ev) = [] then d
        else
         (let c = mget circuit_zero (ct_Circuits (d_controls d)) (ev_Target ev) in
          if probe_healthy ev c
          then (let next = clone (d_controls d) in
                snd (saveControls d (next\<lparr>ct_Circuits := mdel (ev_Target ev) (ct_Circuits next)\<rparr>)))
          else if \<not> infra_failed ev then d
          else
           (let c = note_failure d cfg (event_revision ev) c;
                next = clone (d_controls d) in
            snd (saveControls d (next\<lparr>ct_Circuits := mput (ev_Target ev) c (ct_Circuits next)\<rparr>)))))"

definition emit :: "daemon \<Rightarrow> event \<Rightarrow> daemon" where
  "emit d ev = (let d = observeInfrastructure d ev in d\<lparr>d_events := d_events d @ [ev]\<rparr>)"

definition markCircuitProbe :: "daemon \<Rightarrow> run \<Rightarrow> daemon" where
  "markCircuitProbe d r =
     (let c = mget circuit_zero (ct_Circuits (d_controls d)) (r_target r) in
      if ci_Backoff c = 0 \<or> circuitBlocked d (r_target r) \<or> ci_ProbeRunID c = r_runID r then d
      else if rr_StartedAt (m_rec (hd (r_members r))) < ci_Until c then d
      else
       (let next = clone (d_controls d) in
        snd (saveControls d (next\<lparr>ct_Circuits :=
               mput (r_target r) (c\<lparr>ci_ProbeRunID := r_runID r\<rparr>) (ct_Circuits next)\<rparr>))))"

section \<open>Lemmas\<close>

lemma cloneNested_id [simp]: "cloneNested m = m"
  by (simp add: cloneNested_def)

lemma clone_entries_id [simp]: "clone_entries m = m"
  by (simp add: clone_entries_def)

lemma clone_id [simp]: "clone s = s"
  by (simp add: clone_def map_idI)

text \<open>Trimming removes the oldest entries of the two audit lists and nothing else.\<close>

definition trimmed :: "control_state \<Rightarrow> control_state \<Rightarrow> bool" where
  "trimmed s s' = (\<exists>a p. s' = s\<lparr>ct_Audit := a, ct_PolicyAudit := p\<rparr>
     \<and> suffix a (ct_Audit s) \<and> suffix p (ct_PolicyAudit s))"

lemma trimmedI:
  "s' = s\<lparr>ct_Audit := a, ct_PolicyAudit := p\<rparr> \<Longrightarrow> suffix a (ct_Audit s) \<Longrightarrow> suffix p (ct_PolicyAudit s)
   \<Longrightarrow> trimmed s s'"
  by (auto simp: trimmed_def)

lemma trimmed_refl [simp]: "trimmed s s"
  by (rule trimmedI [where a = "ct_Audit s" and p = "ct_PolicyAudit s"]) simp_all

lemma trimmed_audit: "trimmed (s\<lparr>ct_Audit := as\<rparr>) s' \<Longrightarrow> ct_Audit s = a # as \<Longrightarrow> trimmed s s'"
  unfolding trimmed_def [of "s\<lparr>ct_Audit := as\<rparr>"]
  by (elim exE conjE, rule trimmedI) (auto intro: suffix_ConsI)

lemma trimmed_policy: "trimmed (s\<lparr>ct_PolicyAudit := as\<rparr>) s' \<Longrightarrow> ct_PolicyAudit s = a # as \<Longrightarrow> trimmed s s'"
  unfolding trimmed_def [of "s\<lparr>ct_PolicyAudit := as\<rparr>"]
  by (elim exE conjE, rule trimmedI) (auto intro: suffix_ConsI)

lemma trim_controls_result:
  "trim_controls sz s = (s', b) \<Longrightarrow>
     trimmed s s' \<and> b = (sz s' \<le> storageLimit) \<and> (\<not> b \<longrightarrow> ct_Audit s' = [] \<and> ct_PolicyAudit s' = [])"
proof (induction sz s arbitrary: s' b rule: trim_controls.induct)
  case (1 sz s)
  show ?case
  proof (cases "sz s \<le> storageLimit")
    case True
    with "1.prems" show ?thesis by (auto simp: trim_controls.simps [of sz s])
  next
    case big: False
    show ?thesis
    proof (cases "ct_Audit s")
      case (Cons a as)
      with big "1.prems" have t: "trim_controls sz (s\<lparr>ct_Audit := as\<rparr>) = (s', b)"
        by (simp add: trim_controls.simps [of sz s])
      from "1.IH"(2) [OF big Cons t] trimmed_audit [OF _ Cons] show ?thesis by blast
    next
      case Nil
      show ?thesis
      proof (cases "ct_PolicyAudit s")
        case (Cons a as)
        with big Nil "1.prems" have t: "trim_controls sz (s\<lparr>ct_PolicyAudit := as\<rparr>) = (s', b)"
          by (simp add: trim_controls.simps [of sz s])
        from "1.IH"(1) [OF big Nil Cons t] trimmed_policy [OF _ Cons] show ?thesis by blast
      qed (use big Nil "1.prems" in \<open>auto simp: trim_controls.simps [of sz s]\<close>)
    qed
  qed
qed

lemma trimmed_same:
  assumes "trimmed s s'"
  shows "ct_Governors s' = ct_Governors s" "ct_Prepared s' = ct_Prepared s"
    "ct_Scheduled s' = ct_Scheduled s" "ct_Priorities s' = ct_Priorities s"
    "ct_Enqueued s' = ct_Enqueued s" "ct_Checkpoint s' = ct_Checkpoint s"
    "ct_Order s' = ct_Order s" "ct_Parks s' = ct_Parks s" "ct_AutoRetried s' = ct_AutoRetried s"
    "ct_ReviewFloor s' = ct_ReviewFloor s" "ct_ProcessedReviews s' = ct_ProcessedReviews s"
    "ct_Circuits s' = ct_Circuits s" "ct_Version s' = ct_Version s" "ct_Pauses s' = ct_Pauses s"
    "ct_Emergency s' = ct_Emergency s" "ct_LastError s' = ct_LastError s"
  using assms by (auto simp: trimmed_def)

text \<open>Whatever happens to the write, \<open>saveControls\<close> publishes the requested state less its oldest
  audit entries; the flag says whether it is known to be on disk.\<close>

definition audit_capped :: "control_state \<Rightarrow> control_state" where
  "audit_capped s = (if length (ct_Audit s) > 500 then s\<lparr>ct_Audit := last_n 500 (ct_Audit s)\<rparr> else s)"

lemma audit_capped_trimmed: "trimmed s (audit_capped s)"
proof (cases "length (ct_Audit s) > 500")
  case True
  then show ?thesis
    by (intro trimmedI [where a = "last_n 500 (ct_Audit s)" and p = "ct_PolicyAudit s"])
      (simp_all add: audit_capped_def last_n_def suffix_drop)
qed (simp add: audit_capped_def)

lemma trimmed_trans:
  assumes "trimmed s t" "trimmed t u"
  shows "trimmed s u"
proof -
  from assms obtain a p b q where
    t: "t = s\<lparr>ct_Audit := a, ct_PolicyAudit := p\<rparr>" "suffix a (ct_Audit s)" "suffix p (ct_PolicyAudit s)"
    and u: "u = t\<lparr>ct_Audit := b, ct_PolicyAudit := q\<rparr>" "suffix b (ct_Audit t)" "suffix q (ct_PolicyAudit t)"
    unfolding trimmed_def by blast
  then show ?thesis
    by (intro trimmedI [where a = b and p = q]) (auto intro: suffix_order.trans)
qed

lemma saveControls_cases:
  assumes "saveControls d next = (ok, d')"
  obtains s e where "trimmed next s" "length (ct_Audit s) \<le> 500"
    "d_controls d' = s\<lparr>ct_LastError := e, ct_Uncertain := \<not> ok\<rparr>" "ok \<longrightarrow> e = ct_LastError next"
    "ok \<longrightarrow> cf_controlsSize (d_cfg d) s \<le> storageLimit"
    "d_stored d' = (if ok \<and> cf_ControlPath (d_cfg d) \<noteq> [] then Some (d_controls d') else d_stored d)"
    "d' = d\<lparr>d_controls := d_controls d', d_io := d_io d', d_stored := d_stored d'\<rparr>"
proof -
  obtain s fits where t: "trim_controls (cf_controlsSize (d_cfg d)) (audit_capped next) = (s, fits)"
    by (cases "trim_controls (cf_controlsSize (d_cfg d)) (audit_capped next)")
  note r = trim_controls_result [OF t]
  have "length (ct_Audit (audit_capped next)) \<le> 500" by (simp add: audit_capped_def)
  moreover have "suffix (ct_Audit s) (ct_Audit (audit_capped next))" using r by (auto simp: trimmed_def)
  ultimately have len: "length (ct_Audit s) \<le> 500" by (auto dest: suffix_length_le)
  have tr: "trimmed next s" using trimmed_trans [OF audit_capped_trimmed] r by blast
  show thesis
    using assms t r len tr trimmed_same(16) [OF tr]
    by (intro that [of s "ct_LastError (d_controls d')"])
      (auto simp: saveControls_def audit_capped_def [symmetric] Let_def split: if_splits option.splits bool.splits)
qed

lemma saveControls_shape:
  "\<exists>c i s. snd (saveControls d next) = d\<lparr>d_controls := c, d_io := i, d_stored := s\<rparr>"
  by (cases "saveControls d next") (auto elim!: saveControls_cases)

lemma saveControls_frame [simp, frame_simps]:
  "d_admission (snd (saveControls d next)) = d_admission d"
  "d_schedulerDirty (snd (saveControls d next)) = d_schedulerDirty d"
  "d_external (snd (saveControls d next)) = d_external d"
  "d_git (snd (saveControls d next)) = d_git d" "d_cfg (snd (saveControls d next)) = d_cfg d"
  "d_slots (snd (saveControls d next)) = d_slots d" "d_now (snd (saveControls d next)) = d_now d"
  "d_order (snd (saveControls d next)) = d_order d"
  "d_done (snd (saveControls d next)) = d_done d" "d_seq (snd (saveControls d next)) = d_seq d"
  "d_autoRetried (snd (saveControls d next)) = d_autoRetried d"
  "d_ignoredRefs (snd (saveControls d next)) = d_ignoredRefs d"
  "d_lanes (snd (saveControls d next)) = d_lanes d"
  "d_urgentBurst (snd (saveControls d next)) = d_urgentBurst d"
  "d_batchRecovery (snd (saveControls d next)) = d_batchRecovery d"
  "d_batchFallback (snd (saveControls d next)) = d_batchFallback d"
  "d_seeded (snd (saveControls d next)) = d_seeded d"
  "d_landedPins (snd (saveControls d next)) = d_landedPins d"
  "d_trialReap (snd (saveControls d next)) = d_trialReap d"
  "d_tick (snd (saveControls d next)) = d_tick d"
  "d_drainReq (snd (saveControls d next)) = d_drainReq d"
  "d_drainReqDL (snd (saveControls d next)) = d_drainReqDL d"
  "d_draining (snd (saveControls d next)) = d_draining d"
  "d_drainSince (snd (saveControls d next)) = d_drainSince d"
  "d_drainDeadline (snd (saveControls d next)) = d_drainDeadline d"
  "d_runIDCounter (snd (saveControls d next)) = d_runIDCounter d"
  "d_remote (snd (saveControls d next)) = d_remote d"
  "d_pushes (snd (saveControls d next)) = d_pushes d"
  "d_pins (snd (saveControls d next)) = d_pins d"
  "d_events (snd (saveControls d next)) = d_events d"
  "d_jobs (snd (saveControls d next)) = d_jobs d"
  using saveControls_shape [of d "next"] by auto

lemma saveControls_controls [simp]:
  "ct_Governors (d_controls (snd (saveControls d next))) = ct_Governors next"
  "ct_Prepared (d_controls (snd (saveControls d next))) = ct_Prepared next"
  "ct_Scheduled (d_controls (snd (saveControls d next))) = ct_Scheduled next"
  "ct_Priorities (d_controls (snd (saveControls d next))) = ct_Priorities next"
  "ct_Enqueued (d_controls (snd (saveControls d next))) = ct_Enqueued next"
  "ct_Checkpoint (d_controls (snd (saveControls d next))) = ct_Checkpoint next"
  "ct_Order (d_controls (snd (saveControls d next))) = ct_Order next"
  "ct_Parks (d_controls (snd (saveControls d next))) = ct_Parks next"
  "ct_AutoRetried (d_controls (snd (saveControls d next))) = ct_AutoRetried next"
  "ct_ReviewFloor (d_controls (snd (saveControls d next))) = ct_ReviewFloor next"
  "ct_ProcessedReviews (d_controls (snd (saveControls d next))) = ct_ProcessedReviews next"
  "ct_Circuits (d_controls (snd (saveControls d next))) = ct_Circuits next"
  "ct_Version (d_controls (snd (saveControls d next))) = ct_Version next"
  "ct_Pauses (d_controls (snd (saveControls d next))) = ct_Pauses next"
  "ct_Emergency (d_controls (snd (saveControls d next))) = ct_Emergency next"
  by (cases "saveControls d next", auto elim!: saveControls_cases simp: trimmed_same)+

section \<open>Durability\<close>

text \<open>
  \<open>saveControls\<close> reports success exactly when the controls are certain, and then the state on
  disk (when a control path is configured) is the published one.  On failure the file is untouched
  and the new state is still in force.  Either way the published state is the requested one less its
  oldest audit entries, of which at most 500 are kept.
\<close>

theorem saveControls_durable:
  assumes "saveControls d next = (ok, d')"
  shows "ok = (\<not> ct_Uncertain (d_controls d'))
    \<and> (ok \<and> cf_ControlPath (d_cfg d) \<noteq> [] \<longrightarrow> d_stored d' = Some (d_controls d'))
    \<and> (\<not> ok \<longrightarrow> d_stored d' = d_stored d)
    \<and> length (ct_Audit (d_controls d')) \<le> 500
    \<and> (\<exists>e. (ok \<longrightarrow> e = ct_LastError next)
          \<and> trimmed (next\<lparr>ct_LastError := e, ct_Uncertain := \<not> ok\<rparr>) (d_controls d'))"
proof -
  from assms obtain s e where s: "trimmed next s" "length (ct_Audit s) \<le> 500"
    "d_controls d' = s\<lparr>ct_LastError := e, ct_Uncertain := \<not> ok\<rparr>" "ok \<longrightarrow> e = ct_LastError next"
    "d_stored d' = (if ok \<and> cf_ControlPath (d_cfg d) \<noteq> [] then Some (d_controls d') else d_stored d)"
    by (rule saveControls_cases)
  have "trimmed (next\<lparr>ct_LastError := e, ct_Uncertain := \<not> ok\<rparr>) (d_controls d')"
    unfolding s(3) using s(1) [unfolded trimmed_def]
    by (elim exE conjE, intro trimmedI) auto
  then show ?thesis using s by auto
qed

theorem saveControls_durable_witness:
  "d_stored (snd (saveControls sample_daemon (controls_zero\<lparr>ct_LastError := ''x''\<rparr>))) =
     Some (controls_zero\<lparr>ct_LastError := ''x''\<rparr>)"
proof -
  obtain ok d' where d': "saveControls sample_daemon (controls_zero\<lparr>ct_LastError := ''x''\<rparr>) = (ok, d')"
    by (cases "saveControls sample_daemon (controls_zero\<lparr>ct_LastError := ''x''\<rparr>)")
  have "ok \<and> d_controls d' = controls_zero\<lparr>ct_LastError := ''x''\<rparr>"
    using d' by (auto simp: saveControls_def trim_controls.simps sample_daemon_def sample_config_def
        controls_zero_def Let_def storageLimit_def)
  moreover have "cf_ControlPath (d_cfg sample_daemon) \<noteq> []" by (simp add: sample_daemon_def sample_config_def)
  ultimately show ?thesis using saveControls_durable [OF d'] unfolding d' by auto
qed

text \<open>The scheduler state on disk is the one the controls hold, whenever they claim to be certain.\<close>

definition stored_agrees :: "daemon \<Rightarrow> bool" where
  "stored_agrees d =
     (let c = d_controls d in
      cf_ControlPath (d_cfg d) \<noteq> [] \<and> ct_Checkpoint c \<and> \<not> ct_Uncertain c \<longrightarrow>
      (case d_stored d of None \<Rightarrow> False
       | Some st \<Rightarrow> ct_Checkpoint st \<and> ct_Order st = ct_Order c \<and> ct_Parks st = ct_Parks c
           \<and> ct_AutoRetried st = ct_AutoRetried c))"

lemma saveControls_stored_agrees: "stored_agrees (snd (saveControls d next))"
proof -
  obtain ok d' where d': "saveControls d next = (ok, d')" by (cases "saveControls d next")
  then have "d_cfg d' = d_cfg d" using saveControls_frame(5) [of d "next"] by simp
  with d' have "stored_agrees d'"
    by (elim saveControls_cases) (auto simp: stored_agrees_def Let_def)
  then show ?thesis using d' by simp
qed

definition scheduler_clean :: "daemon \<Rightarrow> bool" where
  "scheduler_clean d =
     (let c = d_controls d in \<not> d_schedulerDirty d \<and> \<not> ct_Uncertain c \<and> ct_Checkpoint c
         \<and> nested_eq (d_order d) (ct_Order c) \<and> nested_eq (d_done d) (ct_Parks c)
         \<and> nested_eq (d_autoRetried d) (ct_AutoRetried c))"

definition scheduler_next :: "daemon \<Rightarrow> control_state" where
  "scheduler_next d =
     (let c = d_controls d in
      (if ct_Uncertain c then c\<lparr>ct_LastError := []\<rparr> else c)
        \<lparr>ct_Checkpoint := True, ct_Order := d_order d, ct_Parks := d_done d,
         ct_AutoRetried := d_autoRetried d\<rparr>)"

lemma persistScheduler_split:
  "persistScheduler d =
     (if scheduler_clean d then (True, d)
      else if fst (saveControls d (scheduler_next d))
      then (True, (snd (saveControls d (scheduler_next d)))\<lparr>d_schedulerDirty := False\<rparr>)
      else (False, snd (saveControls d (scheduler_next d))))"
  unfolding persistScheduler_def scheduler_clean_def scheduler_next_def
  by (simp add: Let_def split: prod.splits bool.splits)

lemma persistScheduler_saved:
  assumes "saveControls d (scheduler_next d) = (True, d')" "cf_ControlPath (d_cfg d) \<noteq> []"
  shows "\<exists>st. d_stored d' = Some st \<and> ct_Checkpoint st \<and> ct_Order st = d_order d'
    \<and> ct_Parks st = d_done d' \<and> ct_AutoRetried st = d_autoRetried d'"
proof -
  have "d_stored d' = Some (d_controls d')"
    by (rule saveControls_cases [OF assms(1)]) (use assms(2) in simp)
  moreover have "d' = snd (saveControls d (scheduler_next d))" using assms(1) by simp
  ultimately show ?thesis by (simp add: scheduler_next_def Let_def)
qed

text \<open>
  When \<open>persistScheduler\<close> succeeds, the file holds the daemon's queue order, parks and retry
  budgets (so a restart recovers them), also when it skipped the write because nothing changed.
\<close>

theorem persistScheduler_durable:
  assumes "persistScheduler d = (True, d')" "stored_agrees d" "cf_ControlPath (d_cfg d) \<noteq> []"
  shows "\<exists>st. d_stored d' = Some st \<and> ct_Checkpoint st
    \<and> nested_eq (d_order d') (ct_Order st) \<and> nested_eq (d_done d') (ct_Parks st)
    \<and> nested_eq (d_autoRetried d') (ct_AutoRetried st)"
proof (cases "scheduler_clean d")
  case True
  with assms show ?thesis
    by (auto simp: persistScheduler_split scheduler_clean_def stored_agrees_def Let_def split: option.splits)
next
  case False
  let ?s = "saveControls d (scheduler_next d)"
  from False assms(1) have "?s = (True, snd ?s)" and d': "d' = (snd ?s)\<lparr>d_schedulerDirty := False\<rparr>"
    by (auto simp: persistScheduler_split prod_eq_iff split: if_splits)
  from persistScheduler_saved [OF this(1) assms(3)] show ?thesis unfolding d' by auto
qed

theorem persistScheduler_durable_witness:
  "\<exists>st. d_stored (snd (persistScheduler (sample_daemon\<lparr>d_order := [(''main'', [(''r'', 4)])]\<rparr>))) = Some st
      \<and> nested_eq [(''main'', [(''r'', 4)])] (ct_Order st)"
proof -
  let ?d = "sample_daemon\<lparr>d_order := [(''main'', [(''r'', 4)])]\<rparr>"
  have "fst (persistScheduler ?d)" "d_order (snd (persistScheduler ?d)) = [(''main'', [(''r'', 4)])]"
    by (simp_all add: persistScheduler_def saveControls_def trim_controls.simps sample_daemon_def
        sample_config_def controls_zero_def Let_def storageLimit_def)
  moreover have "stored_agrees ?d" "cf_ControlPath (d_cfg ?d) \<noteq> []"
    by (simp_all add: stored_agrees_def sample_daemon_def sample_config_def controls_zero_def)
  ultimately show ?thesis
    using persistScheduler_durable [of ?d "snd (persistScheduler ?d)"] by (auto simp: prod_eq_iff)
qed

section \<open>Frames of event emission\<close>

lemma observeInfrastructure_shape:
  "\<exists>c i s. observeInfrastructure d ev = d\<lparr>d_controls := c, d_io := i, d_stored := s\<rparr>"
proof -
  have "\<exists>c i s. d = d\<lparr>d_controls := c, d_io := i, d_stored := s\<rparr>"
    by (intro exI [of _ "d_controls d"] exI [of _ "d_io d"] exI [of _ "d_stored d"]) simp
  then show ?thesis
    unfolding observeInfrastructure_def Let_def by (auto simp: saveControls_shape split: option.splits)
qed

lemma emit_frame [simp, frame_simps]:
  "d_admission (emit d ev) = d_admission d" "d_schedulerDirty (emit d ev) = d_schedulerDirty d"
  "d_external (emit d ev) = d_external d" "d_git (emit d ev) = d_git d"
  "d_cfg (emit d ev) = d_cfg d" "d_slots (emit d ev) = d_slots d" "d_now (emit d ev) = d_now d"
  "d_order (emit d ev) = d_order d" "d_done (emit d ev) = d_done d" "d_seq (emit d ev) = d_seq d"
  "d_autoRetried (emit d ev) = d_autoRetried d" "d_ignoredRefs (emit d ev) = d_ignoredRefs d"
  "d_lanes (emit d ev) = d_lanes d" "d_urgentBurst (emit d ev) = d_urgentBurst d"
  "d_batchRecovery (emit d ev) = d_batchRecovery d"
  "d_batchFallback (emit d ev) = d_batchFallback d" "d_seeded (emit d ev) = d_seeded d"
  "d_landedPins (emit d ev) = d_landedPins d" "d_trialReap (emit d ev) = d_trialReap d"
  "d_tick (emit d ev) = d_tick d" "d_drainReq (emit d ev) = d_drainReq d"
  "d_drainReqDL (emit d ev) = d_drainReqDL d" "d_draining (emit d ev) = d_draining d"
  "d_drainSince (emit d ev) = d_drainSince d" "d_drainDeadline (emit d ev) = d_drainDeadline d"
  "d_runIDCounter (emit d ev) = d_runIDCounter d" "d_remote (emit d ev) = d_remote d"
  "d_pushes (emit d ev) = d_pushes d" "d_pins (emit d ev) = d_pins d"
  "d_jobs (emit d ev) = d_jobs d"
  using observeInfrastructure_shape [of d ev] by (auto simp: emit_def Let_def)

lemma emit_events [simp]: "d_events (emit d ev) = d_events d @ [ev]"
  using observeInfrastructure_shape [of d ev] by (auto simp: emit_def Let_def)

lemma emit_controls: "d_controls (emit d ev) = d_controls (observeInfrastructure d ev)"
  by (simp add: emit_def Let_def)

text \<open>Emission changes nothing of the controls but the circuits (and what a save changes).\<close>

lemma observe_controls [simp]:
  "ct_Pauses (d_controls (observeInfrastructure d ev)) = ct_Pauses (d_controls d)"
  "ct_Emergency (d_controls (observeInfrastructure d ev)) = ct_Emergency (d_controls d)"
  "ct_Priorities (d_controls (observeInfrastructure d ev)) = ct_Priorities (d_controls d)"
  "ct_Enqueued (d_controls (observeInfrastructure d ev)) = ct_Enqueued (d_controls d)"
  "ct_Scheduled (d_controls (observeInfrastructure d ev)) = ct_Scheduled (d_controls d)"
  "ct_Governors (d_controls (observeInfrastructure d ev)) = ct_Governors (d_controls d)"
  "ct_Prepared (d_controls (observeInfrastructure d ev)) = ct_Prepared (d_controls d)"
  "ct_Order (d_controls (observeInfrastructure d ev)) = ct_Order (d_controls d)"
  "ct_Parks (d_controls (observeInfrastructure d ev)) = ct_Parks (d_controls d)"
  by (auto simp: observeInfrastructure_def Let_def split: option.splits)

lemmas emit_controls_frame [simp] = observe_controls [folded emit_controls]

section \<open>Circuit breaker properties\<close>

definition circuit_ok :: "circuit_breaker \<Rightarrow> go_time \<Rightarrow> circuit \<Rightarrow> bool" where
  "circuit_ok cb now c =
     (0 \<le> ci_Backoff c \<and> ci_Backoff c \<le> cb_MaxBackoff cb
      \<and> (ci_Backoff c = 0 \<or> cb_Backoff cb \<le> ci_Backoff c)
      \<and> ci_Until c \<le> now + cb_MaxBackoff cb
      \<and> distinct (map if_Revision (ci_Failures c)))"

definition circuits_ok :: "circuit_breaker \<Rightarrow> daemon \<Rightarrow> bool" where
  "circuits_ok cb d =
     (cf_CircuitBreaker (d_cfg d) = Some cb \<and> circuit_validate cb = None \<and> 0 \<le> d_now d
      \<and> (\<forall>target c. map_of (ct_Circuits (d_controls d)) target = Some c \<longrightarrow> circuit_ok cb (d_now d) c))"

lemma circuit_validate_None:
  "circuit_validate cb = None \<Longrightarrow>
     2 \<le> cb_Threshold cb \<and> 0 < cb_Window cb \<and> 0 < cb_Backoff cb \<and> cb_Backoff cb \<le> cb_MaxBackoff cb
     \<and> cb_MaxBackoff cb \<le> 3600000000000"
  by (auto simp: circuit_validate_def duration_minute_def split: if_splits)

lemma circuit_ok_zero: "circuit_validate cb = None \<Longrightarrow> 0 \<le> now \<Longrightarrow> circuit_ok cb now circuit_zero"
  by (drule circuit_validate_None) (simp add: circuit_ok_def circuit_zero_def)

lemma distinct_map_filter: "distinct (map f xs) \<Longrightarrow> distinct (map f (filter P xs))"
  by (induction xs) auto

lemma double_backoff:
  assumes "circuit_validate cb = None" "circuit_ok cb now c"
  shows "i64 (2 * ci_Backoff c) = 2 * ci_Backoff c"
  using circuit_validate_None [OF assms(1)] assms(2) by (intro i64_id) (auto simp: circuit_ok_def)

lemma note_failure_failures:
  "ci_Failures (note_failure d cb revision c) =
     (let fresh = fresh_failures (d_now d - cb_Window cb) c in
      if revision \<in> if_Revision ` set fresh then fresh
      else fresh @ [\<lparr>if_Revision = revision, if_At = d_now d\<rparr>])"
  by (auto simp: note_failure_def Let_def list_ex_iff image_iff)

lemma note_failure_count:
  assumes "distinct (map if_Revision (ci_Failures c))"
  shows "length (ci_Failures (note_failure d cb revision c)) =
    card (if_Revision ` set (fresh_failures (d_now d - cb_Window cb) c) \<union> {revision})"
proof -
  let ?fresh = "fresh_failures (d_now d - cb_Window cb) c"
  have "distinct (map if_Revision ?fresh)"
    using assms by (simp add: fresh_failures_def distinct_map_filter)
  then have "card (if_Revision ` set ?fresh) = length ?fresh"
    using distinct_card by fastforce
  then show ?thesis
    by (cases "revision \<in> if_Revision ` set ?fresh") (simp_all add: note_failure_failures insert_absorb)
qed

lemma note_failure_ok:
  assumes v: "circuit_validate cb = None" and c: "circuit_ok cb (d_now d) c"
  shows "circuit_ok cb (d_now d) (note_failure d cb revision c)"
proof -
  note b = circuit_validate_None [OF v]
  have dist: "distinct (map if_Revision (fresh_failures cutoff c))" for cutoff
    using c by (simp add: circuit_ok_def fresh_failures_def distinct_map_filter)
  show ?thesis
    using c b dist double_backoff [OF v c]
    by (auto simp: note_failure_def circuit_ok_def Let_def list_ex_iff image_iff)
qed

lemma circuits_ok_emit: "circuits_ok cb d \<Longrightarrow> circuits_ok cb (emit d ev)"
proof -
  assume ok: "circuits_ok cb d"
  let ?c = "mget circuit_zero (ct_Circuits (d_controls d)) (ev_Target ev)"
  have c: "circuit_ok cb (d_now d) ?c"
    using ok circuit_ok_zero by (auto simp: circuits_ok_def mget_def split: option.splits)
  have "circuit_ok cb (d_now d) (note_failure d cb (event_revision ev) ?c)"
    using ok by (intro note_failure_ok [OF _ c]) (simp add: circuits_ok_def)
  then show ?thesis
    using ok
    by (auto simp: circuits_ok_def emit_controls observeInfrastructure_def Let_def split: if_splits)
qed

text \<open>Events interleaved with the passing of time.\<close>

datatype circuit_op = CircuitEvent event | CircuitTick nat

fun circuit_step :: "circuit_op \<Rightarrow> daemon \<Rightarrow> daemon" where
  "circuit_step (CircuitEvent ev) d = emit d ev"
| "circuit_step (CircuitTick n) d = d\<lparr>d_now := d_now d + int n\<rparr>"

lemma circuits_ok_tick: "circuits_ok cb d \<Longrightarrow> circuits_ok cb (d\<lparr>d_now := d_now d + int n\<rparr>)"
  by (fastforce simp: circuits_ok_def circuit_ok_def)

interpretation circuit_sys: invariant_system circuit_step "circuits_ok cb" for cb
proof
  fix x d
  assume "circuits_ok cb d"
  then show "circuits_ok cb (circuit_step x d)"
    by (cases x) (simp_all add: circuits_ok_emit circuits_ok_tick)
qed

text \<open>
  whatever events a daemon with a valid breaker configuration emits, and however time passes
  between them, no target is blocked for longer than the configured maximum back-off, and a
  back-off, once a circuit has tripped, lies between the configured minimum and maximum.
\<close>

theorem circuit_block_bounded:
  assumes "cf_CircuitBreaker (d_cfg d) = Some cb" "circuit_validate cb = None" "0 \<le> d_now d"
    and "ct_Circuits (d_controls d) = []"
    and "d' = fold circuit_step xs d"
    and "c = mget circuit_zero (ct_Circuits (d_controls d')) target"
  shows "ci_Until c \<le> d_now d' + cb_MaxBackoff cb
    \<and> (ci_Backoff c = 0 \<or> (cb_Backoff cb \<le> ci_Backoff c \<and> ci_Backoff c \<le> cb_MaxBackoff cb))
    \<and> distinct (map if_Revision (ci_Failures c))"
proof -
  have "circuits_ok cb d" using assms(1-4) by (simp add: circuits_ok_def)
  then have "circuits_ok cb d'" unfolding assms(5) by (rule circuit_sys.run_inv)
  then have "circuit_ok cb (d_now d') c"
    using circuit_ok_zero unfolding assms(6) by (auto simp: circuits_ok_def mget_def split: option.splits)
  then show ?thesis by (simp add: circuit_ok_def)
qed

definition sample_infra_event :: "string \<Rightarrow> event" where
  "sample_infra_event topic = (event_zero EventError)
     \<lparr>ev_Target := ''main'', ev_Candidate := sample_candidate topic ''s1'',
      ev_Record := Some (run_record_zero\<lparr>rr_Outcome := OutcomeError\<rparr>)\<rparr>"

theorem circuit_block_bounded_witness:
  "ci_Until (mget circuit_zero (ct_Circuits (d_controls
     (fold circuit_step [CircuitEvent (sample_infra_event ''a''), CircuitTick 5,
        CircuitEvent (sample_infra_event ''b'')] sample_daemon))) ''main'') \<le> 1605"
proof -
  let ?xs = "[CircuitEvent (sample_infra_event ''a''), CircuitTick 5, CircuitEvent (sample_infra_event ''b'')]"
  let ?d' = "fold circuit_step ?xs sample_daemon"
  have "cf_CircuitBreaker (d_cfg sample_daemon) = Some sample_breaker" "0 \<le> d_now sample_daemon"
    "ct_Circuits (d_controls sample_daemon) = []" "circuit_validate sample_breaker = None"
    by (simp_all add: sample_daemon_def sample_config_def controls_zero_def circuit_validate_def
        sample_breaker_def duration_minute_def)
  moreover have "d_now ?d' = 1005" by (simp add: sample_daemon_def)
  moreover have "cb_MaxBackoff sample_breaker = 600" by (simp add: sample_breaker_def)
  ultimately show ?thesis
    using circuit_block_bounded [OF _ _ _ _ refl refl, of sample_daemon sample_breaker ?xs "''main''"] by simp
qed

text \<open>
  C29: a closed circuit trips exactly when infrastructure failures of at least \<open>Threshold\<close> distinct
  revisions fall inside the window; repeated failures of one revision count once.
\<close>

theorem circuit_trips_exact:
  assumes cb: "cf_CircuitBreaker (d_cfg d) = Some cb" "circuits_ok cb d"
    and ev: "ev_Target ev = target" "target \<noteq> []" "c_Ref (ev_Candidate ev) \<noteq> []" "infra_failed ev"
    and c: "c = mget circuit_zero (ct_Circuits (d_controls d)) target" "ci_Backoff c = 0" "ci_Until c \<le> d_now d"
  shows "circuitBlocked (emit d ev) target \<longleftrightarrow>
    cb_Threshold cb \<le> int (card (if_Revision ` set (fresh_failures (d_now d - cb_Window cb) c) \<union> {event_revision ev}))"
proof -
  let ?fresh = "fresh_failures (d_now d - cb_Window cb) c"
  let ?c' = "note_failure d cb (event_revision ev) c"
  have v: "circuit_validate cb = None" using cb by (simp add: circuits_ok_def)
  have ok: "circuit_ok cb (d_now d) c"
    using cb circuit_ok_zero c by (auto simp: circuits_ok_def mget_def split: option.splits)
  have healthy: "\<not> probe_healthy ev c" using c by (simp add: probe_healthy_def split: option.splits)
  have len: "length (ci_Failures ?c') = card (if_Revision ` set ?fresh \<union> {event_revision ev})"
    using ok by (intro note_failure_count) (simp add: circuit_ok_def)
  have "mget circuit_zero (ct_Circuits (d_controls (emit d ev))) target = ?c'"
    using cb ev healthy c by (simp add: emit_controls observeInfrastructure_def Let_def)
  then have "circuitBlocked (emit d ev) target \<longleftrightarrow> d_now d < ci_Until ?c'"
    by (simp add: circuitBlocked_def)
  also have "\<dots> \<longleftrightarrow> cb_Threshold cb \<le> int (length (ci_Failures ?c'))"
    using c circuit_validate_None [OF v] double_backoff [OF v ok] by (auto simp: note_failure_def Let_def)
  finally show ?thesis unfolding len .
qed

lemma sample_circuits_ok: "circuits_ok sample_breaker sample_daemon"
  by (simp add: circuits_ok_def sample_daemon_def sample_config_def controls_zero_def circuit_validate_def
      sample_breaker_def duration_minute_def)

theorem circuit_trips_exact_witness:
  "\<not> circuitBlocked (emit sample_daemon (sample_infra_event ''a'')) ''main''"
proof -
  let ?c = "mget circuit_zero (ct_Circuits (d_controls sample_daemon)) ''main''"
  have "cf_CircuitBreaker (d_cfg sample_daemon) = Some sample_breaker" "?c = circuit_zero"
    by (simp_all add: sample_daemon_def sample_config_def controls_zero_def)
  moreover have "infra_failed (sample_infra_event ''a'')" "ev_Target (sample_infra_event ''a'') = ''main''"
    "c_Ref (ev_Candidate (sample_infra_event ''a'')) \<noteq> []"
    by (simp_all add: sample_infra_event_def infra_failed_def sample_candidate_def)
  ultimately show ?thesis
    using circuit_trips_exact [of sample_daemon sample_breaker "sample_infra_event ''a''" "''main''" ?c]
      sample_circuits_ok
    by (simp add: circuit_zero_def fresh_failures_def sample_breaker_def sample_daemon_def)
qed

text \<open>
  An open circuit backs off.  A failure while the target is still blocked changes neither the
  back-off nor its end; a failure after it has expired doubles the back-off, up to the maximum,
  and blocks again from now; a healthy result of the recorded probe run closes the circuit.
\<close>

theorem circuit_backoff:
  assumes cb: "circuits_ok cb d"
    and ev: "ev_Target ev = target" "target \<noteq> []" "c_Ref (ev_Candidate ev) \<noteq> []"
    and c: "c = mget circuit_zero (ct_Circuits (d_controls d)) target" "0 < ci_Backoff c"
    and c': "c' = mget circuit_zero (ct_Circuits (d_controls (emit d ev))) target"
  shows "(probe_healthy ev c \<longrightarrow> c' = circuit_zero \<and> \<not> circuitBlocked (emit d ev) target)
    \<and> (\<not> probe_healthy ev c \<and> infra_failed ev \<longrightarrow>
        (if circuitBlocked d target then ci_Backoff c' = ci_Backoff c \<and> ci_Until c' = ci_Until c
         else ci_Backoff c' = min (cb_MaxBackoff cb) (2 * ci_Backoff c)
              \<and> ci_Until c' = d_now d + ci_Backoff c'))
    \<and> (\<not> probe_healthy ev c \<and> \<not> infra_failed ev \<longrightarrow> c' = c)"
proof -
  have cfg: "cf_CircuitBreaker (d_cfg d) = Some cb" and v: "circuit_validate cb = None"
    and now: "0 \<le> d_now d"
    using cb by (simp_all add: circuits_ok_def)
  have ok: "circuit_ok cb (d_now d) c"
    using cb circuit_ok_zero c by (auto simp: circuits_ok_def mget_def split: option.splits)
  have two: "max (cb_Backoff cb) (i64 (2 * ci_Backoff c)) = 2 * ci_Backoff c"
    using double_backoff [OF v ok] ok c(2) by (auto simp: circuit_ok_def)
  show ?thesis
    using cfg ev c now two unfolding c' circuitBlocked_def
    by (auto simp: emit_controls observeInfrastructure_def note_failure_def Let_def circuit_zero_def)
qed

definition sample_tripped :: daemon where
  "sample_tripped = sample_daemon\<lparr>d_controls := controls_zero
     \<lparr>ct_Circuits := [(''main'', circuit_zero\<lparr>ci_Backoff := 30, ci_Until := 900\<rparr>)]\<rparr>\<rparr>"

theorem circuit_backoff_witness:
  "ci_Until (mget circuit_zero (ct_Circuits (d_controls (emit sample_tripped (sample_infra_event ''a'')))) ''main'') = 1060"
proof -
  let ?ev = "sample_infra_event ''a''"
  let ?c = "mget circuit_zero (ct_Circuits (d_controls sample_tripped)) ''main''"
  have c: "?c = circuit_zero\<lparr>ci_Backoff := 30, ci_Until := 900\<rparr>"
    by (simp add: sample_tripped_def mget_def)
  have "circuits_ok sample_breaker sample_tripped"
    using sample_circuits_ok
    by (simp add: circuits_ok_def sample_tripped_def circuit_ok_def sample_breaker_def circuit_zero_def
        sample_daemon_def)
  moreover have "ev_Target ?ev = ''main''" "c_Ref (ev_Candidate ?ev) \<noteq> []" "infra_failed ?ev"
    "\<not> probe_healthy ?ev ?c" "\<not> circuitBlocked sample_tripped ''main''"
    by (simp_all add: c sample_infra_event_def infra_failed_def sample_candidate_def probe_healthy_def
        circuitBlocked_def sample_tripped_def sample_daemon_def run_record_zero_def mget_def)
  moreover have "cb_MaxBackoff sample_breaker = 600" "d_now sample_tripped = 1000"
    by (simp_all add: sample_breaker_def sample_tripped_def sample_daemon_def)
  ultimately show ?thesis
    using circuit_backoff [of sample_breaker sample_tripped ?ev "''main''" ?c, OF _ _ _ _ refl _ refl] c
    by simp
qed

end
