(* ===== verification/Queue_Refs.thy ===== *)
theory Queue_Refs
  imports Queue_Controls "HOL-Library.Char_ord" "HOL-Library.List_Lexorder"
begin

text \<open>
  The candidate ref grammar and run identities: \<open>parseCandidateRef\<close>, \<open>discoverCandidates\<close> and
  \<open>checkIgnoredRefs\<close> of \<^verbatim>\<open>internal/queue/reconcile.go\<close>, \<open>newRunID\<close> and \<open>memberRunID\<close> of
  \<^verbatim>\<open>internal/queue/landing.go\<close>.
\<close>

section \<open>Candidate refs\<close>

definition candidatePrefix :: string where
  "candidatePrefix = ''refs/heads/for/''"

text \<open>The result is \<open>None\<close> for the source's \<open>ok == false\<close>, else target, user and topic.\<close>

definition parseCandidateRef :: "string \<Rightarrow> (string \<times> string \<times> string) option" where
  "parseCandidateRef ref =
     (case cut_prefix candidatePrefix ref of
        None \<Rightarrow> None
      | Some rest \<Rightarrow>
        (case str_cut CHR ''/'' rest of
           None \<Rightarrow> None
         | Some (target, remainder) \<Rightarrow>
           if target = [] then None
           else if remainder = [] then None
           else (case str_cut CHR ''/'' remainder of
               Some (user, topic) \<Rightarrow> if user = [] \<or> topic = [] then None else Some (target, user, topic)
             | None \<Rightarrow> Some (target, [], remainder))))"

definition candidate_at :: "string \<Rightarrow> string \<times> string \<Rightarrow> (string \<times> candidate) list" where
  "candidate_at target rs =
     (case rs of (ref, sha) \<Rightarrow>
      case parseCandidateRef ref of
        Some (t, user, topic) \<Rightarrow>
          if t = target
          then [(ref, candidate_zero\<lparr>c_Ref := ref, c_Target := target, c_User := user, c_Topic := topic, c_SHA := sha\<rparr>)]
          else []
      | None \<Rightarrow> [])"

definition discoverCandidates :: "string \<Rightarrow> (string, string) gomap \<Rightarrow> (string, candidate) gomap" where
  "discoverCandidates target refs = concat (map (candidate_at target) refs)"

text \<open>The loop of \<open>checkIgnoredRefs\<close> over the tick's refs; \<open>seen\<close> collects the ignored ones.\<close>

fun check_ignored :: "daemon \<Rightarrow> (string \<times> string) list \<Rightarrow> string list \<Rightarrow> string list \<times> daemon" where
  "check_ignored d [] seen = (seen, d)"
| "check_ignored d ((ref, sha) # refs) seen =
     (case parseCandidateRef ref of
        None \<Rightarrow> check_ignored d refs seen
      | Some (target, _, _) \<Rightarrow>
        if target \<in> tg_Name ` set (cf_Targets (d_cfg d)) then check_ignored d refs seen
        else if mget [] (d_ignoredRefs d) ref = sha then check_ignored d refs (ref # seen)
        else
         (let d = d\<lparr>d_ignoredRefs := mput ref sha (d_ignoredRefs d)\<rparr>;
              d = emit d ((event_zero EventIgnoredRef)
                    \<lparr>ev_At := d_now d, ev_Target := target,
                     ev_Candidate := candidate_zero\<lparr>c_Ref := ref, c_Target := target, c_SHA := sha\<rparr>,
                     ev_Detail := msg [''target '', go_quote target, '' is not configured'']\<rparr>) in
          check_ignored d refs (ref # seen)))"

definition checkIgnoredRefs :: "daemon \<Rightarrow> (string, string) gomap \<Rightarrow> daemon" where
  "checkIgnoredRefs d refs =
     (case check_ignored d refs [] of
        (seen, d) \<Rightarrow> d\<lparr>d_ignoredRefs := filter (\<lambda>(ref, _). ref \<in> set seen) (d_ignoredRefs d)\<rparr>)"

section \<open>Run identities\<close>

text \<open>\<open>runIDCounter.Add(1)\<close> on a \<open>uint64\<close>; the counter belongs to the process, so it is a field of
  the modelled daemon.\<close>

definition newRunID :: "daemon \<Rightarrow> go_time \<Rightarrow> string \<Rightarrow> string \<times> daemon" where
  "newRunID d t oid =
     (let oid = (if length oid > 12 then take 12 oid else oid);
          s = (d_runIDCounter d + 1) mod 2 ^ 64 in
      (msg [cf_formatRunIDTime (d_cfg d) t, ''-'', show_nat s, ''-'', oid], d\<lparr>d_runIDCounter := s\<rparr>))"

definition memberRunID :: "string \<Rightarrow> nat \<Rightarrow> string" where
  "memberRunID batchRunID pos =
     (if pos = 0 then batchRunID else msg [batchRunID, ''-m'', show_nat pos])"

section \<open>Lemmas\<close>

lemma parseCandidateRef_Some:
  "parseCandidateRef ref = Some (target, user, topic) \<Longrightarrow>
     target \<noteq> [] \<and> CHR ''/'' \<notin> set target \<and> topic \<noteq> []
     \<and> (if user = [] then CHR ''/'' \<notin> set topic \<and> ref = candidatePrefix @ target @ ''/'' @ topic
        else CHR ''/'' \<notin> set user \<and> ref = candidatePrefix @ target @ ''/'' @ user @ ''/'' @ topic)"
  by (auto simp: parseCandidateRef_def cut_prefix_Some str_cut_None split: option.splits if_splits
      dest!: str_cut_SomeD)

text \<open>
  the candidate ref grammar round-trips.  A ref built from a target, an optional user and a
  topic parses back to exactly these parts, and every ref that parses is the one its parts build;
  so a candidate belongs to exactly one target.
\<close>

theorem parseCandidateRef_roundtrip:
  "parseCandidateRef ref = Some (target, user, topic) \<longleftrightarrow>
     target \<noteq> [] \<and> CHR ''/'' \<notin> set target \<and> topic \<noteq> []
     \<and> (if user = [] then CHR ''/'' \<notin> set topic \<and> ref = candidatePrefix @ target @ ''/'' @ topic
        else CHR ''/'' \<notin> set user \<and> ref = candidatePrefix @ target @ ''/'' @ user @ ''/'' @ topic)"
proof
  assume "parseCandidateRef ref = Some (target, user, topic)"
  then show "target \<noteq> [] \<and> CHR ''/'' \<notin> set target \<and> topic \<noteq> []
     \<and> (if user = [] then CHR ''/'' \<notin> set topic \<and> ref = candidatePrefix @ target @ ''/'' @ topic
        else CHR ''/'' \<notin> set user \<and> ref = candidatePrefix @ target @ ''/'' @ user @ ''/'' @ topic)"
    by (rule parseCandidateRef_Some)
next
  assume r: "target \<noteq> [] \<and> CHR ''/'' \<notin> set target \<and> topic \<noteq> []
     \<and> (if user = [] then CHR ''/'' \<notin> set topic \<and> ref = candidatePrefix @ target @ ''/'' @ topic
        else CHR ''/'' \<notin> set user \<and> ref = candidatePrefix @ target @ ''/'' @ user @ ''/'' @ topic)"
  have "str_cut CHR ''/'' topic = None" if "CHR ''/'' \<notin> set topic" using that by (simp add: str_cut_None)
  with r show "parseCandidateRef ref = Some (target, user, topic)"
    by (cases "user = []") (simp_all add: parseCandidateRef_def)
qed

lemma discoverCandidates_mem:
  "(ref, c) \<in> set (discoverCandidates target refs) \<longleftrightarrow>
     (\<exists>sha user topic. (ref, sha) \<in> set refs \<and> parseCandidateRef ref = Some (target, user, topic)
       \<and> c = candidate_zero\<lparr>c_Ref := ref, c_Target := target, c_User := user, c_Topic := topic, c_SHA := sha\<rparr>)"
  by (force simp: discoverCandidates_def candidate_at_def split: option.splits if_splits prod.splits)

lemma discoverCandidates_keys: "map fst (discoverCandidates target refs) =
    filter (\<lambda>ref. \<exists>user topic. parseCandidateRef ref = Some (target, user, topic)) (map fst refs)"
  by (induction refs) (auto simp: discoverCandidates_def candidate_at_def split: option.splits if_splits)

lemma discoverCandidates_distinct:
  "distinct (map fst refs) \<Longrightarrow> distinct (map fst (discoverCandidates target refs))"
  by (simp add: discoverCandidates_keys)

text \<open>
  run identities do not collide.  As long as fewer than \<open>2^64\<close> runs have been started, two run
  IDs minted by one process differ whatever their times and objects, and so do the record IDs of
  any two members of the batches they name.  (The time format contains no dash.)
\<close>

theorem runID_unique:
  assumes id1: "newRunID d1 t1 oid1 = (id1, d1')" and id2: "newRunID d2 t2 oid2 = (id2, d2')"
    and counters: "d_runIDCounter d1 < d_runIDCounter d2" "d_runIDCounter d2 < 2 ^ 64 - 1"
    and time: "CHR ''-'' \<notin> set (cf_formatRunIDTime (d_cfg d1) t1)"
      "CHR ''-'' \<notin> set (cf_formatRunIDTime (d_cfg d2) t2)"
  shows "memberRunID id1 i \<noteq> memberRunID id2 j \<and> (i \<noteq> k \<longrightarrow> memberRunID id1 i \<noteq> memberRunID id1 k)"
proof
  let ?o1 = "if length oid1 > 12 then take 12 oid1 else oid1"
  let ?o2 = "if length oid2 > 12 then take 12 oid2 else oid2"
  have n1: "id1 = cf_formatRunIDTime (d_cfg d1) t1 @ CHR ''-'' # show_nat (d_runIDCounter d1 + 1) @ CHR ''-'' # ?o1"
    using id1 counters by (simp add: newRunID_def msg_def Let_def)
  have n2: "id2 = cf_formatRunIDTime (d_cfg d2) t2 @ CHR ''-'' # show_nat (d_runIDCounter d2 + 1) @ CHR ''-'' # ?o2"
    using id2 counters by (simp add: newRunID_def msg_def Let_def)
  define suffix1 where "suffix1 = (if i = 0 then [] else ''-m'' @ show_nat i)"
  define suffix2 where "suffix2 = (if j = 0 then [] else ''-m'' @ show_nat j)"
  have m: "memberRunID id1 i = id1 @ suffix1" "memberRunID id2 j = id2 @ suffix2"
    by (simp_all add: memberRunID_def msg_def suffix1_def suffix2_def)
  show "memberRunID id1 i \<noteq> memberRunID id2 j"
  proof
    assume "memberRunID id1 i = memberRunID id2 j"
    then have "str_cut CHR ''-'' (id1 @ suffix1) = str_cut CHR ''-'' (id2 @ suffix2)" using m by simp
    then have "show_nat (d_runIDCounter d1 + 1) @ CHR ''-'' # ?o1 @ suffix1
        = show_nat (d_runIDCounter d2 + 1) @ CHR ''-'' # ?o2 @ suffix2"
      using time unfolding n1 n2 by simp
    then have "str_cut CHR ''-'' (show_nat (d_runIDCounter d1 + 1) @ CHR ''-'' # ?o1 @ suffix1)
        = str_cut CHR ''-'' (show_nat (d_runIDCounter d2 + 1) @ CHR ''-'' # ?o2 @ suffix2)" by simp
    then have "show_nat (d_runIDCounter d1 + 1) = show_nat (d_runIDCounter d2 + 1)"
      by (simp only: str_cut_append [OF show_nat_no_dash] option.inject prod.inject)
    then have "d_runIDCounter d1 + 1 = d_runIDCounter d2 + 1" by (rule show_nat_inj)
    with counters show False by simp
  qed
  show "i \<noteq> k \<longrightarrow> memberRunID id1 i \<noteq> memberRunID id1 k"
    using show_nat_inj by (auto simp: memberRunID_def msg_def)
qed

theorem runID_unique_witness:
  "memberRunID (fst (newRunID sample_daemon 5 ''abc'')) 1 \<noteq>
   memberRunID (fst (newRunID (snd (newRunID sample_daemon 5 ''abc'')) 5 ''abc'')) 1"
proof -
  let ?d1 = "sample_daemon" and ?d2 = "snd (newRunID sample_daemon 5 ''abc'')"
  obtain id1 d1' id2 d2' where
    ids: "newRunID ?d1 5 ''abc'' = (id1, d1')" "newRunID ?d2 5 ''abc'' = (id2, d2')"
    by (meson surj_pair)
  have "d_runIDCounter ?d1 < d_runIDCounter ?d2" "d_runIDCounter ?d2 < 2 ^ 64 - 1"
    "CHR ''-'' \<notin> set (cf_formatRunIDTime (d_cfg ?d1) 5)" "CHR ''-'' \<notin> set (cf_formatRunIDTime (d_cfg ?d2) 5)"
    by (simp_all add: newRunID_def sample_daemon_def sample_config_def Let_def show_int_def show_nat_no_dash)
  from runID_unique [OF ids this] ids show ?thesis by simp
qed

end
