(* ===== verification/Queue_Parks.thy ===== *)
theory Queue_Parks
  imports Queue_Refs Core_Events
begin

text \<open>
  Queue bookkeeping: parking a revision and retrying it (\<^verbatim>\<open>landing.go\<close>, \<^verbatim>\<open>command.go\<close>,
  \<^verbatim>\<open>autoretry.go\<close>), first-in-first-out positions and the pruning of stale entries
  (\<open>syncBookkeeping\<close> and \<open>seedParksOnce\<close> of \<^verbatim>\<open>reconcile.go\<close>), the terminal transitions that
  precede a run object (\<^verbatim>\<open>landing.go\<close>) and the circuit's recovery probe (\<^verbatim>\<open>circuit.go\<close>).
\<close>

section \<open>Outcomes and parks\<close>

fun isRedOutcome :: "outcome \<Rightarrow> bool" where
  "isRedOutcome OutcomeRejected = True"
| "isRedOutcome OutcomeConflict = True"
| "isRedOutcome OutcomeError = True"
| "isRedOutcome OutcomeLanded = False"
| "isRedOutcome OutcomeSkipped = False"

fun eventKindForOutcome :: "outcome \<Rightarrow> event_kind" where
  "eventKindForOutcome OutcomeLanded = EventLanded"
| "eventKindForOutcome OutcomeRejected = EventRejected"
| "eventKindForOutcome OutcomeConflict = EventTrialConflict"
| "eventKindForOutcome OutcomeSkipped = EventSkipped"
| "eventKindForOutcome OutcomeError = EventError"

definition park :: "daemon \<Rightarrow> string \<Rightarrow> candidate \<Rightarrow> outcome \<Rightarrow> string \<Rightarrow> string \<Rightarrow> daemon" where
  "park d target cand outcome detail runID =
     d\<lparr>d_done := mput target
        (mput (c_Ref cand) \<lparr>pk_Version = c_Version cand, pk_SHA = c_SHA cand, pk_Outcome = outcome,
           pk_Reason = detail, pk_At = d_now d, pk_RunID = runID\<rparr> (mget [] (d_done d) target))
        (d_done d)\<rparr>"

definition clearParkAndRetry ::
  "daemon \<Rightarrow> string \<Rightarrow> string \<Rightarrow> string \<Rightarrow> string \<Rightarrow> bool \<times> daemon" where
  "clearParkAndRetry d target ref queuedDetail retryDetail =
     (case map_of (mget [] (d_done d) target) ref of
        None \<Rightarrow> (False, d)
      | Some entry \<Rightarrow>
         (let d = d\<lparr>d_done := mput target (mdel ref (mget [] (d_done d) target)) (d_done d)\<rparr>;
              now = d_now d;
              cand = candidate_zero\<lparr>c_Ref := ref, c_Target := target, c_SHA := pk_SHA entry\<rparr>;
              d = emit d ((event_zero EventQueued)\<lparr>ev_At := now, ev_Target := target,
                            ev_Candidate := cand, ev_Detail := queuedDetail\<rparr>);
              d = emit d ((event_zero EventRetryRequested)\<lparr>ev_At := now, ev_Target := target,
                            ev_Candidate := cand, ev_Detail := retryDetail\<rparr>) in
          (True, d)))"

definition autoRetryQueuedDetail :: string where
  "autoRetryQueuedDetail = ''auto-retry: park cleared (infra error)''"

definition autoRetryDetail :: string where
  "autoRetryDetail = ''automatic retry: infra error, once per SHA''"

definition maybeAutoRetry :: "daemon \<Rightarrow> string \<Rightarrow> candidate \<Rightarrow> outcome \<Rightarrow> daemon" where
  "maybeAutoRetry d target cand outcome =
     (if outcome \<noteq> OutcomeError \<or> \<not> cf_AutoRetryErrors (d_cfg d) then d
      else if d_draining d then d
      else
       (let m = mget [] (d_autoRetried d) target in
        if mget [] m (c_Ref cand) = c_SHA cand then d\<lparr>d_autoRetried := mput target m (d_autoRetried d)\<rparr>
        else
         (let d = d\<lparr>d_autoRetried := mput target (mput (c_Ref cand) (c_SHA cand) m) (d_autoRetried d)\<rparr> in
          snd (clearParkAndRetry d target (c_Ref cand) autoRetryQueuedDetail autoRetryDetail))))"

section \<open>Outcomes before a run exists\<close>

definition terminal_event ::
  "daemon \<Rightarrow> outcome \<Rightarrow> string \<Rightarrow> candidate \<Rightarrow> run_record \<Rightarrow> string \<Rightarrow> event" where
  "terminal_event d outcome target cand rec detail =
     (event_zero (eventKindForOutcome outcome))\<lparr>ev_At := d_now d, ev_Target := target,
        ev_Candidate := cand, ev_RunID := rr_RunID rec, ev_Record := Some rec, ev_Detail := detail\<rparr>"

definition rejectPreMerge :: "daemon \<Rightarrow> target_cfg \<Rightarrow> candidate \<Rightarrow> outcome \<Rightarrow> string \<Rightarrow> daemon" where
  "rejectPreMerge d t cand outcome detail =
     (let now = d_now d in
      case newRunID d now (c_SHA cand) of (runID, d) \<Rightarrow>
       (let rec = run_record_zero\<lparr>rr_RunID := runID, rr_Target := tg_Name t, rr_Candidate := cand,
              rr_Outcome := outcome, rr_Detail := detail, rr_StartedAt := now, rr_EndedAt := now\<rparr>;
            d = park d (tg_Name t) cand outcome detail runID;
            d = emit d (terminal_event d outcome (tg_Name t) cand rec detail) in
        maybeAutoRetry d (tg_Name t) cand outcome))"

definition skipPreMergePredicted :: "daemon \<Rightarrow> target_cfg \<Rightarrow> candidate \<Rightarrow> string \<Rightarrow> daemon" where
  "skipPreMergePredicted d t cand detail =
     (let now = d_now d in
      case newRunID d now (c_SHA cand) of (runID, d) \<Rightarrow>
       (let rec = run_record_zero\<lparr>rr_RunID := runID, rr_Target := tg_Name t, rr_Candidate := cand,
              rr_Outcome := OutcomeSkipped, rr_Detail := detail, rr_StartedAt := now, rr_EndedAt := now\<rparr> in
        emit d (terminal_event d OutcomeSkipped (tg_Name t) cand rec detail)))"

definition cancelDetail :: string where
  "cancelDetail = ''cancelled by operator''"

definition cancelWaiting :: "daemon \<Rightarrow> string \<Rightarrow> string \<Rightarrow> (string, string) gomap \<Rightarrow> daemon" where
  "cancelWaiting d target ref refs =
     (case map_of refs ref of
        None \<Rightarrow> d
      | Some sha \<Rightarrow>
         (let cand = candidate_zero\<lparr>c_Ref := ref, c_Target := target, c_SHA := sha\<rparr>;
              cand = (case parseCandidateRef ref of
                        Some (t, user, topic) \<Rightarrow>
                          if t = target then cand\<lparr>c_User := user, c_Topic := topic\<rparr> else cand
                      | None \<Rightarrow> cand);
              cand = (case map_of (d_external d) ref of
                        Some review \<Rightarrow> if c_Target review = target then review else cand
                      | None \<Rightarrow> cand) in
          if (case map_of (mget [] (d_done d) target) ref of
                Some entry \<Rightarrow> pk_SHA entry = sha \<and> pk_Version entry = c_Version cand
              | None \<Rightarrow> False)
          then d
          else
           (let now = d_now d in
            case newRunID d now sha of (runID, d) \<Rightarrow>
             (let rec = run_record_zero\<lparr>rr_RunID := runID, rr_Target := target, rr_Candidate := cand,
                    rr_Outcome := OutcomeRejected, rr_Detail := cancelDetail, rr_StartedAt := now,
                    rr_EndedAt := now\<rparr>;
                  d = park d target cand OutcomeRejected cancelDetail runID in
              emit d (terminal_event d OutcomeRejected target cand rec cancelDetail)))))"

section \<open>Seeding and bookkeeping\<close>

definition seed_park :: "string \<Rightarrow> park_seed \<Rightarrow> daemon \<Rightarrow> daemon" where
  "seed_park target s d =
     (if \<not> isRedOutcome (sd_Outcome s) then d
      else d\<lparr>d_done := mput target
        (mput (sd_Ref s) \<lparr>pk_Version = sd_Version s, pk_SHA = sd_SHA s, pk_Outcome = sd_Outcome s,
           pk_Reason = sd_Reason s, pk_At = sd_At s, pk_RunID = sd_RunID s\<rparr> (mget [] (d_done d) target))
        (d_done d)\<rparr>)"

definition seedParksOnce :: "daemon \<Rightarrow> string \<Rightarrow> daemon" where
  "seedParksOnce d target =
     (if mget False (d_seeded d) target then d
      else
       (let d = d\<lparr>d_seeded := mput target True (d_seeded d)\<rparr> in
        case cf_SeedParks (d_cfg d) of
          None \<Rightarrow> d
        | Some seeds \<Rightarrow> fold (seed_park target) (seeds target) d))"

text \<open>\<open>syncBookkeeping\<close>, in the order of its loops: vanished refs, stale parks, stale retry budgets,
  enqueue times, and finally the new refs in lexical order.\<close>

definition park_kept :: "(string, candidate) gomap \<Rightarrow> string \<times> park_entry \<Rightarrow> bool" where
  "park_kept cands e =
     (case map_of cands (fst e) of
        None \<Rightarrow> pk_Version (snd e) \<noteq> []
      | Some c \<Rightarrow> c_SHA c = pk_SHA (snd e) \<and> c_Version c = pk_Version (snd e))"

definition sync_vanished :: "string \<Rightarrow> (string, candidate) gomap \<Rightarrow> daemon \<Rightarrow> daemon" where
  "sync_vanished target cands d =
     (let order = mget [] (d_order d) target;
          gone = filter (\<lambda>ref. \<not> mhas cands ref) (map fst order);
          c = d_controls d in
      d\<lparr>d_order := mput target (filter (\<lambda>e. mhas cands (fst e)) order) (d_order d),
        d_schedulerDirty := d_schedulerDirty d \<or> gone \<noteq> [],
        d_controls := c\<lparr>ct_Enqueued := filter (\<lambda>e. fst e \<notin> set gone) (ct_Enqueued c),
                        ct_Priorities := filter (\<lambda>e. fst e \<notin> set gone) (ct_Priorities c),
                        ct_Scheduled := filter (\<lambda>e. fst e \<notin> set gone) (ct_Scheduled c)\<rparr>\<rparr>)"

definition sync_parks :: "string \<Rightarrow> (string, candidate) gomap \<Rightarrow> daemon \<Rightarrow> daemon" where
  "sync_parks target cands d =
     d\<lparr>d_done := mput target (filter (park_kept cands) (mget [] (d_done d) target)) (d_done d)\<rparr>"

definition sync_budgets :: "string \<Rightarrow> (string, candidate) gomap \<Rightarrow> daemon \<Rightarrow> daemon" where
  "sync_budgets target cands d =
     (case map_of (d_autoRetried d) target of
        None \<Rightarrow> d
      | Some m \<Rightarrow> d\<lparr>d_autoRetried := mput target
          (filter (\<lambda>(ref, sha). case map_of cands ref of Some c \<Rightarrow> c_SHA c = sha | None \<Rightarrow> False) m)
          (d_autoRetried d)\<rparr>)"

fun stamp_enqueued :: "string list \<Rightarrow> daemon \<Rightarrow> daemon" where
  "stamp_enqueued [] d = d"
| "stamp_enqueued (ref # refs) d =
     (let c = d_controls d in
      stamp_enqueued refs
       (if mget 0 (ct_Enqueued c) ref = 0
        then d\<lparr>d_controls := c\<lparr>ct_Enqueued := mput ref (d_now d) (ct_Enqueued c)\<rparr>, d_schedulerDirty := True\<rparr>
        else d))"

fun enqueue_new :: "string \<Rightarrow> (string, candidate) gomap \<Rightarrow> string list \<Rightarrow> daemon \<Rightarrow> daemon" where
  "enqueue_new target cands [] d = d"
| "enqueue_new target cands (ref # refs) d =
     (let c = d_controls d;
          d = d\<lparr>d_order := mput target (mput ref (d_seq d) (mget [] (d_order d) target)) (d_order d),
                d_controls := (if mget 0 (ct_Enqueued c) ref = 0
                  then c\<lparr>ct_Enqueued := mput ref (d_now d) (ct_Enqueued c)\<rparr> else c),
                d_seq := i64 (d_seq d + 1)\<rparr>;
          cand = mget candidate_zero cands ref;
          parked = (case map_of (mget [] (d_done d) target) ref of
                      Some e \<Rightarrow> pk_SHA e = c_SHA cand | None \<Rightarrow> False) in
      enqueue_new target cands refs
       (if parked then d
        else emit d ((event_zero EventQueued)\<lparr>ev_At := d_now d, ev_Target := target, ev_Candidate := cand\<rparr>)))"

definition syncBookkeeping :: "daemon \<Rightarrow> target_cfg \<Rightarrow> (string, candidate) gomap \<Rightarrow> daemon" where
  "syncBookkeeping d t cands =
     (let target = tg_Name t;
          d = sync_budgets target cands (sync_parks target cands (sync_vanished target cands d));
          newRefs = filter (\<lambda>ref. \<not> mhas (mget [] (d_order d) target) ref) (map fst cands) in
      enqueue_new target cands (sort newRefs) (stamp_enqueued (map fst cands) d))"

section \<open>The recovery probe\<close>

fun oldest_error ::
  "(string, candidate) gomap \<Rightarrow> (string, int) gomap \<Rightarrow> (string \<times> park_entry) list \<Rightarrow> string \<Rightarrow> string" where
  "oldest_error cands order [] chosen = chosen"
| "oldest_error cands order ((ref, entry) # rest) chosen =
     (if pk_Outcome entry \<noteq> OutcomeError \<or> \<not> mhas cands ref then oldest_error cands order rest chosen
      else oldest_error cands order rest
        (if chosen = [] \<or> mget 0 order ref < mget 0 order chosen then ref else chosen))"

definition prepareCircuitProbe :: "daemon \<Rightarrow> string \<Rightarrow> (string, candidate) gomap \<Rightarrow> daemon" where
  "prepareCircuitProbe d target cands =
     (if ci_Backoff (mget circuit_zero (ct_Circuits (d_controls d)) target) = 0
         \<or> circuitBlocked d target \<or> d_draining d
      then d
      else if mget [] (d_lanes d) target \<noteq> [] then d
      else
       (let chosen = oldest_error cands (mget [] (d_order d) target) (mget [] (d_done d) target) [] in
        if chosen \<noteq> []
        then snd (clearParkAndRetry d target chosen ''circuit recovery probe'' ''automatic infrastructure probe'')
        else d))"

section \<open>Frames\<close>

lemma park_frame [simp, frame_simps]:
  "d_admission (park d target cand outcome detail runID) = d_admission d"
  "d_controls (park d target cand outcome detail runID) = d_controls d"
  "d_schedulerDirty (park d target cand outcome detail runID) = d_schedulerDirty d"
  "d_external (park d target cand outcome detail runID) = d_external d"
  "d_git (park d target cand outcome detail runID) = d_git d"
  "d_cfg (park d target cand outcome detail runID) = d_cfg d"
  "d_slots (park d target cand outcome detail runID) = d_slots d"
  "d_now (park d target cand outcome detail runID) = d_now d"
  "d_order (park d target cand outcome detail runID) = d_order d"
  "d_seq (park d target cand outcome detail runID) = d_seq d"
  "d_autoRetried (park d target cand outcome detail runID) = d_autoRetried d"
  "d_ignoredRefs (park d target cand outcome detail runID) = d_ignoredRefs d"
  "d_lanes (park d target cand outcome detail runID) = d_lanes d"
  "d_urgentBurst (park d target cand outcome detail runID) = d_urgentBurst d"
  "d_batchRecovery (park d target cand outcome detail runID) = d_batchRecovery d"
  "d_batchFallback (park d target cand outcome detail runID) = d_batchFallback d"
  "d_seeded (park d target cand outcome detail runID) = d_seeded d"
  "d_landedPins (park d target cand outcome detail runID) = d_landedPins d"
  "d_trialReap (park d target cand outcome detail runID) = d_trialReap d"
  "d_tick (park d target cand outcome detail runID) = d_tick d"
  "d_drainReq (park d target cand outcome detail runID) = d_drainReq d"
  "d_drainReqDL (park d target cand outcome detail runID) = d_drainReqDL d"
  "d_draining (park d target cand outcome detail runID) = d_draining d"
  "d_drainSince (park d target cand outcome detail runID) = d_drainSince d"
  "d_drainDeadline (park d target cand outcome detail runID) = d_drainDeadline d"
  "d_runIDCounter (park d target cand outcome detail runID) = d_runIDCounter d"
  "d_io (park d target cand outcome detail runID) = d_io d"
  "d_stored (park d target cand outcome detail runID) = d_stored d"
  "d_remote (park d target cand outcome detail runID) = d_remote d"
  "d_pushes (park d target cand outcome detail runID) = d_pushes d"
  "d_pins (park d target cand outcome detail runID) = d_pins d"
  "d_events (park d target cand outcome detail runID) = d_events d"
  "d_jobs (park d target cand outcome detail runID) = d_jobs d"
  by (simp_all add: park_def)

lemma park_lookup [simp]:
  "map_of (mget [] (d_done (park d target cand outcome detail runID)) tg) ref =
     (if tg = target \<and> ref = c_Ref cand
      then Some \<lparr>pk_Version = c_Version cand, pk_SHA = c_SHA cand, pk_Outcome = outcome,
             pk_Reason = detail, pk_At = d_now d, pk_RunID = runID\<rparr>
      else map_of (mget [] (d_done d) tg) ref)"
  by (simp add: park_def)

lemma newRunID_frame [simp, frame_simps]:
  "d_admission (snd (newRunID d t oid)) = d_admission d"
  "d_controls (snd (newRunID d t oid)) = d_controls d"
  "d_schedulerDirty (snd (newRunID d t oid)) = d_schedulerDirty d"
  "d_external (snd (newRunID d t oid)) = d_external d" "d_git (snd (newRunID d t oid)) = d_git d"
  "d_cfg (snd (newRunID d t oid)) = d_cfg d" "d_slots (snd (newRunID d t oid)) = d_slots d"
  "d_now (snd (newRunID d t oid)) = d_now d" "d_order (snd (newRunID d t oid)) = d_order d"
  "d_done (snd (newRunID d t oid)) = d_done d" "d_seq (snd (newRunID d t oid)) = d_seq d"
  "d_autoRetried (snd (newRunID d t oid)) = d_autoRetried d"
  "d_ignoredRefs (snd (newRunID d t oid)) = d_ignoredRefs d"
  "d_lanes (snd (newRunID d t oid)) = d_lanes d"
  "d_urgentBurst (snd (newRunID d t oid)) = d_urgentBurst d"
  "d_batchRecovery (snd (newRunID d t oid)) = d_batchRecovery d"
  "d_batchFallback (snd (newRunID d t oid)) = d_batchFallback d"
  "d_seeded (snd (newRunID d t oid)) = d_seeded d"
  "d_landedPins (snd (newRunID d t oid)) = d_landedPins d"
  "d_trialReap (snd (newRunID d t oid)) = d_trialReap d"
  "d_tick (snd (newRunID d t oid)) = d_tick d"
  "d_drainReq (snd (newRunID d t oid)) = d_drainReq d"
  "d_drainReqDL (snd (newRunID d t oid)) = d_drainReqDL d"
  "d_draining (snd (newRunID d t oid)) = d_draining d"
  "d_drainSince (snd (newRunID d t oid)) = d_drainSince d"
  "d_drainDeadline (snd (newRunID d t oid)) = d_drainDeadline d"
  "d_io (snd (newRunID d t oid)) = d_io d" "d_stored (snd (newRunID d t oid)) = d_stored d"
  "d_remote (snd (newRunID d t oid)) = d_remote d"
  "d_pushes (snd (newRunID d t oid)) = d_pushes d" "d_pins (snd (newRunID d t oid)) = d_pins d"
  "d_events (snd (newRunID d t oid)) = d_events d" "d_jobs (snd (newRunID d t oid)) = d_jobs d"
  by (simp_all add: newRunID_def Let_def)

definition retry_events :: "daemon \<Rightarrow> string \<Rightarrow> string \<Rightarrow> string \<Rightarrow> string \<Rightarrow> string \<Rightarrow> event list" where
  "retry_events d target ref sha queuedDetail retryDetail =
     (let cand = candidate_zero\<lparr>c_Ref := ref, c_Target := target, c_SHA := sha\<rparr> in
      [(event_zero EventQueued)\<lparr>ev_At := d_now d, ev_Target := target, ev_Candidate := cand, ev_Detail := queuedDetail\<rparr>,
       (event_zero EventRetryRequested)\<lparr>ev_At := d_now d, ev_Target := target, ev_Candidate := cand, ev_Detail := retryDetail\<rparr>])"

lemma clearPark_frame [simp, frame_simps]:
  "d_admission (snd (clearParkAndRetry d target ref q r)) = d_admission d"
  "d_schedulerDirty (snd (clearParkAndRetry d target ref q r)) = d_schedulerDirty d"
  "d_external (snd (clearParkAndRetry d target ref q r)) = d_external d"
  "d_git (snd (clearParkAndRetry d target ref q r)) = d_git d"
  "d_cfg (snd (clearParkAndRetry d target ref q r)) = d_cfg d"
  "d_slots (snd (clearParkAndRetry d target ref q r)) = d_slots d"
  "d_now (snd (clearParkAndRetry d target ref q r)) = d_now d"
  "d_order (snd (clearParkAndRetry d target ref q r)) = d_order d"
  "d_seq (snd (clearParkAndRetry d target ref q r)) = d_seq d"
  "d_autoRetried (snd (clearParkAndRetry d target ref q r)) = d_autoRetried d"
  "d_ignoredRefs (snd (clearParkAndRetry d target ref q r)) = d_ignoredRefs d"
  "d_lanes (snd (clearParkAndRetry d target ref q r)) = d_lanes d"
  "d_urgentBurst (snd (clearParkAndRetry d target ref q r)) = d_urgentBurst d"
  "d_batchRecovery (snd (clearParkAndRetry d target ref q r)) = d_batchRecovery d"
  "d_batchFallback (snd (clearParkAndRetry d target ref q r)) = d_batchFallback d"
  "d_seeded (snd (clearParkAndRetry d target ref q r)) = d_seeded d"
  "d_landedPins (snd (clearParkAndRetry d target ref q r)) = d_landedPins d"
  "d_trialReap (snd (clearParkAndRetry d target ref q r)) = d_trialReap d"
  "d_tick (snd (clearParkAndRetry d target ref q r)) = d_tick d"
  "d_drainReq (snd (clearParkAndRetry d target ref q r)) = d_drainReq d"
  "d_drainReqDL (snd (clearParkAndRetry d target ref q r)) = d_drainReqDL d"
  "d_draining (snd (clearParkAndRetry d target ref q r)) = d_draining d"
  "d_drainSince (snd (clearParkAndRetry d target ref q r)) = d_drainSince d"
  "d_drainDeadline (snd (clearParkAndRetry d target ref q r)) = d_drainDeadline d"
  "d_runIDCounter (snd (clearParkAndRetry d target ref q r)) = d_runIDCounter d"
  "d_remote (snd (clearParkAndRetry d target ref q r)) = d_remote d"
  "d_pushes (snd (clearParkAndRetry d target ref q r)) = d_pushes d"
  "d_pins (snd (clearParkAndRetry d target ref q r)) = d_pins d"
  "d_jobs (snd (clearParkAndRetry d target ref q r)) = d_jobs d"
  by (simp_all add: clearParkAndRetry_def Let_def split: option.splits)

lemma clearPark_done:
  "d_done (snd (clearParkAndRetry d target ref q r)) =
     (if mhas (mget [] (d_done d) target) ref
      then mput target (mdel ref (mget [] (d_done d) target)) (d_done d) else d_done d)"
  by (simp add: clearParkAndRetry_def Let_def mhas_def split: option.splits)

lemma clearPark_events:
  "d_events (snd (clearParkAndRetry d target ref q r)) = d_events d @
     (case map_of (mget [] (d_done d) target) ref of None \<Rightarrow> []
      | Some e \<Rightarrow> retry_events d target ref (pk_SHA e) q r)"
  by (simp add: clearParkAndRetry_def retry_events_def Let_def split: option.splits)

lemma maybeAutoRetry_frame [simp, frame_simps]:
  "d_admission (maybeAutoRetry d target cand outcome) = d_admission d"
  "d_schedulerDirty (maybeAutoRetry d target cand outcome) = d_schedulerDirty d"
  "d_external (maybeAutoRetry d target cand outcome) = d_external d"
  "d_git (maybeAutoRetry d target cand outcome) = d_git d"
  "d_cfg (maybeAutoRetry d target cand outcome) = d_cfg d"
  "d_slots (maybeAutoRetry d target cand outcome) = d_slots d"
  "d_now (maybeAutoRetry d target cand outcome) = d_now d"
  "d_order (maybeAutoRetry d target cand outcome) = d_order d"
  "d_seq (maybeAutoRetry d target cand outcome) = d_seq d"
  "d_ignoredRefs (maybeAutoRetry d target cand outcome) = d_ignoredRefs d"
  "d_lanes (maybeAutoRetry d target cand outcome) = d_lanes d"
  "d_urgentBurst (maybeAutoRetry d target cand outcome) = d_urgentBurst d"
  "d_batchRecovery (maybeAutoRetry d target cand outcome) = d_batchRecovery d"
  "d_batchFallback (maybeAutoRetry d target cand outcome) = d_batchFallback d"
  "d_seeded (maybeAutoRetry d target cand outcome) = d_seeded d"
  "d_landedPins (maybeAutoRetry d target cand outcome) = d_landedPins d"
  "d_trialReap (maybeAutoRetry d target cand outcome) = d_trialReap d"
  "d_tick (maybeAutoRetry d target cand outcome) = d_tick d"
  "d_drainReq (maybeAutoRetry d target cand outcome) = d_drainReq d"
  "d_drainReqDL (maybeAutoRetry d target cand outcome) = d_drainReqDL d"
  "d_draining (maybeAutoRetry d target cand outcome) = d_draining d"
  "d_drainSince (maybeAutoRetry d target cand outcome) = d_drainSince d"
  "d_drainDeadline (maybeAutoRetry d target cand outcome) = d_drainDeadline d"
  "d_runIDCounter (maybeAutoRetry d target cand outcome) = d_runIDCounter d"
  "d_remote (maybeAutoRetry d target cand outcome) = d_remote d"
  "d_pushes (maybeAutoRetry d target cand outcome) = d_pushes d"
  "d_pins (maybeAutoRetry d target cand outcome) = d_pins d"
  "d_jobs (maybeAutoRetry d target cand outcome) = d_jobs d"
  by (simp_all add: maybeAutoRetry_def Let_def)

section \<open>Retrying\<close>

text \<open>
  \<open>clearParkAndRetry\<close> removes exactly the named park and announces it with a queued and a
  retry-requested event for the parked revision, both well-shaped; for a ref that is not parked it
  changes nothing.  Repeating it is therefore a no-op.
\<close>

theorem clearPark_exact:
  assumes "clearParkAndRetry d target ref q r = (cleared, d')"
  shows "cleared = mhas (mget [] (d_done d) target) ref
    \<and> (\<not> cleared \<longrightarrow> d' = d)
    \<and> (\<forall>tg x. map_of (mget [] (d_done d') tg) x =
          (if tg = target \<and> x = ref then None else map_of (mget [] (d_done d) tg) x))
    \<and> (\<exists>evs. d_events d' = d_events d @ evs \<and> list_all (\<lambda>ev. ValidateEvent ev = None) evs
          \<and> (cleared \<longrightarrow> map ev_Kind evs = [EventQueued, EventRetryRequested]
               \<and> list_all (\<lambda>ev. c_SHA (ev_Candidate ev) =
                    pk_SHA (the (map_of (mget [] (d_done d) target) ref))) evs))
    \<and> clearParkAndRetry d' target ref q r = (False, d')"
proof (cases "map_of (mget [] (d_done d) target) ref")
  case None
  with assms have "d' = d" "\<not> cleared" by (simp_all add: clearParkAndRetry_def)
  with None show ?thesis by (auto simp: clearParkAndRetry_def mhas_def intro: exI [of _ "[]"])
next
  case (Some e)
  have d': "d' = snd (clearParkAndRetry d target ref q r)" using assms by simp
  have done': "d_done d' = mput target (mdel ref (mget [] (d_done d) target)) (d_done d)"
    using Some unfolding d' clearPark_done by (simp add: mhas_def)
  have "cleared" using assms Some by (simp add: clearParkAndRetry_def Let_def)
  moreover have "d_events d' = d_events d @ retry_events d target ref (pk_SHA e) q r"
    using Some unfolding d' clearPark_events by simp
  moreover have "list_all (\<lambda>ev. ValidateEvent ev = None) (retry_events d target ref (pk_SHA e) q r)"
    by (simp add: retry_events_def Let_def ValidateEvent_run_ok carries_check_def)
  moreover have "clearParkAndRetry d' target ref q r = (False, d')"
    by (simp add: clearParkAndRetry_def done')
  ultimately show ?thesis
    using Some done' by (auto simp: mhas_def retry_events_def Let_def)
qed

definition sample_parked :: daemon where
  "sample_parked = park sample_daemon ''main'' (sample_candidate ''a'' ''s1'') OutcomeError ''infra'' ''run-1''"

theorem clearPark_exact_witness:
  "\<not> mhas (mget [] (d_done (snd (clearParkAndRetry sample_parked ''main'' ''refs/heads/for/main/a'' ''q'' ''r''))) ''main'')
      ''refs/heads/for/main/a''"
proof -
  obtain b d' where r: "clearParkAndRetry sample_parked ''main'' ''refs/heads/for/main/a'' ''q'' ''r'' = (b, d')"
    by (meson surj_pair)
  from clearPark_exact [OF r] r show ?thesis by (simp add: mhas_def)
qed

lemma rejectPreMerge_park:
  assumes "outcome \<noteq> OutcomeError \<or> \<not> cf_AutoRetryErrors (d_cfg d) \<or> d_draining d
    \<or> mget [] (mget [] (d_autoRetried d) (tg_Name t)) (c_Ref cand) = c_SHA cand"
  shows "\<exists>e. map_of (mget [] (d_done (rejectPreMerge d t cand outcome detail)) (tg_Name t)) (c_Ref cand) = Some e
    \<and> pk_SHA e = c_SHA cand \<and> pk_Outcome e = outcome \<and> pk_Reason e = detail"
  using assms by (auto simp: rejectPreMerge_def maybeAutoRetry_def Let_def split_beta)

lemma rejectPreMerge_retry:
  assumes "cf_AutoRetryErrors (d_cfg d)" "\<not> d_draining d"
    and "mget [] (mget [] (d_autoRetried d) (tg_Name t)) (c_Ref cand) \<noteq> c_SHA cand"
  shows "\<not> mhas (mget [] (d_done (rejectPreMerge d t cand OutcomeError detail)) (tg_Name t)) (c_Ref cand)"
  using assms
  by (simp add: rejectPreMerge_def maybeAutoRetry_def clearPark_done Let_def split_beta mhas_def)

lemma rejectPreMerge_budget:
  assumes "cf_AutoRetryErrors (d_cfg d)" "\<not> d_draining d"
  shows "mget [] (mget [] (d_autoRetried (rejectPreMerge d t cand OutcomeError detail)) (tg_Name t)) (c_Ref cand)
    = c_SHA cand"
  using assms by (simp add: rejectPreMerge_def maybeAutoRetry_def Let_def split_beta)

definition retries :: "event list \<Rightarrow> nat" where
  "retries evs = length (filter (\<lambda>ev. ev_Kind ev = EventRetryRequested) evs)"

lemma rejectPreMerge_retries:
  assumes "cf_AutoRetryErrors (d_cfg d)" "\<not> d_draining d"
  shows "retries (d_events (rejectPreMerge d t cand OutcomeError detail)) = retries (d_events d) +
    (if mget [] (mget [] (d_autoRetried d) (tg_Name t)) (c_Ref cand) = c_SHA cand then 0 else 1)"
  using assms
  by (simp add: rejectPreMerge_def maybeAutoRetry_def clearPark_events retries_def terminal_event_def
      retry_events_def Let_def split_beta)

lemma rejectPreMerge_frame [simp]:
  "d_cfg (rejectPreMerge d t cand outcome detail) = d_cfg d"
  "d_draining (rejectPreMerge d t cand outcome detail) = d_draining d"
  "d_lanes (rejectPreMerge d t cand outcome detail) = d_lanes d"
  "d_pushes (rejectPreMerge d t cand outcome detail) = d_pushes d"
  "d_remote (rejectPreMerge d t cand outcome detail) = d_remote d"
  "d_now (rejectPreMerge d t cand outcome detail) = d_now d"
  by (simp_all add: rejectPreMerge_def Let_def split_beta)



section \<open>First in, first out\<close>

lemma stamp_enqueued_frame [simp]:
  "d_order (stamp_enqueued refs d) = d_order d" "d_seq (stamp_enqueued refs d) = d_seq d"
  "d_done (stamp_enqueued refs d) = d_done d" "d_events (stamp_enqueued refs d) = d_events d"
  "d_autoRetried (stamp_enqueued refs d) = d_autoRetried d" "d_cfg (stamp_enqueued refs d) = d_cfg d"
  "d_now (stamp_enqueued refs d) = d_now d" "d_lanes (stamp_enqueued refs d) = d_lanes d"
  by (induction refs d rule: stamp_enqueued.induct) (simp_all add: Let_def)

lemma sync_stages [simp]:
  "d_seq (sync_vanished target cands d) = d_seq d" "d_seq (sync_parks target cands d) = d_seq d"
  "d_seq (sync_budgets target cands d) = d_seq d"
  "d_order (sync_parks target cands d) = d_order d" "d_order (sync_budgets target cands d) = d_order d"
  "d_done (sync_vanished target cands d) = d_done d" "d_done (sync_budgets target cands d) = d_done d"
  "mget [] (d_order (sync_vanished target cands d)) target =
     filter (\<lambda>e. mhas cands (fst e)) (mget [] (d_order d) target)"
  by (simp_all add: sync_vanished_def sync_parks_def sync_budgets_def Let_def split: option.splits)

lemma enqueue_new_numbers:
  assumes "distinct refs" "0 \<le> d_seq d" "d_seq d + int (length refs) < 2 ^ 63"
  shows "d_seq (enqueue_new target cands refs d) = d_seq d + int (length refs)
    \<and> (\<forall>ref. ref \<notin> set refs \<longrightarrow>
        map_of (mget [] (d_order (enqueue_new target cands refs d)) target) ref =
        map_of (mget [] (d_order d) target) ref)
    \<and> (\<forall>i < length refs.
        map_of (mget [] (d_order (enqueue_new target cands refs d)) target) (refs ! i) = Some (d_seq d + int i))"
  using assms
proof (induction refs arbitrary: d)
  case (Cons ref refs)
  define d1 where "d1 = (let c = d_controls d;
          d = d\<lparr>d_order := mput target (mput ref (d_seq d) (mget [] (d_order d) target)) (d_order d),
                d_controls := (if mget 0 (ct_Enqueued c) ref = 0
                  then c\<lparr>ct_Enqueued := mput ref (d_now d) (ct_Enqueued c)\<rparr> else c),
                d_seq := i64 (d_seq d + 1)\<rparr>;
          cand = mget candidate_zero cands ref;
          parked = (case map_of (mget [] (d_done d) target) ref of
                      Some e \<Rightarrow> pk_SHA e = c_SHA cand | None \<Rightarrow> False) in
       (if parked then d
        else emit d ((event_zero EventQueued)\<lparr>ev_At := d_now d, ev_Target := target, ev_Candidate := cand\<rparr>)))"
  have step: "enqueue_new target cands (ref # refs) d = enqueue_new target cands refs d1"
    by (simp add: d1_def Let_def)
  have "i64 (d_seq d + 1) = d_seq d + 1" using Cons.prems by (intro i64_id) auto
  then have d1: "d_seq d1 = d_seq d + 1"
    "mget [] (d_order d1) target = mput ref (d_seq d) (mget [] (d_order d) target)"
    by (simp_all add: d1_def Let_def)
  have "distinct refs" "0 \<le> d_seq d1" "d_seq d1 + int (length refs) < 2 ^ 63"
    using Cons.prems by (simp_all add: d1)
  from Cons.IH [OF this] Cons.prems(1) d1 show ?case
    unfolding step by (auto simp: nth_Cons split: nat.splits)
qed simp

text \<open>The numbers of one target's queue, before and after a bookkeeping pass.\<close>

lemma syncBookkeeping_numbers:
  assumes keys: "distinct (map fst cands)"
    and seq: "0 \<le> d_seq d" "d_seq d + int (length cands) < 2 ^ 63"
    and d': "d' = syncBookkeeping d t cands"
    and new: "new = sort (filter (\<lambda>ref. \<not> mhas (filter (\<lambda>e. mhas cands (fst e)) (mget [] (d_order d) (tg_Name t))) ref)
                 (map fst cands))"
  shows "d_seq d' = d_seq d + int (length new)"
    and "ref \<notin> set new \<Longrightarrow> map_of (mget [] (d_order d') (tg_Name t)) ref =
          (if mhas cands ref then map_of (mget [] (d_order d) (tg_Name t)) ref else None)"
    and "i < length new \<Longrightarrow> map_of (mget [] (d_order d') (tg_Name t)) (new ! i) = Some (d_seq d + int i)"
    and "distinct new" and "sorted new" and "set new = {ref. mhas cands ref \<and> \<not> mhas (mget [] (d_order d) (tg_Name t)) ref}"
proof -
  let ?T = "tg_Name t"
  let ?d1 = "stamp_enqueued (map fst cands) (sync_budgets ?T cands (sync_parks ?T cands (sync_vanished ?T cands d)))"
  have sync: "d' = enqueue_new ?T cands new ?d1"
    by (simp add: d' syncBookkeeping_def Let_def new)
  show dn: "distinct new" using keys by (simp add: new)
  have "length new \<le> length cands"
    unfolding new length_sort by (metis length_filter_le length_map)
  then have n: "d_seq ?d1 + int (length new) < 2 ^ 63" "0 \<le> d_seq ?d1" using seq by simp_all
  have o1: "mget [] (d_order ?d1) ?T = filter (\<lambda>e. mhas cands (fst e)) (mget [] (d_order d) ?T)" by simp
  note r = enqueue_new_numbers [OF dn n(2,1), of ?T cands, folded sync, unfolded o1]
  show "d_seq d' = d_seq d + int (length new)" using r by simp
  show "map_of (mget [] (d_order d') ?T) ref = (if mhas cands ref then map_of (mget [] (d_order d) ?T) ref else None)"
    if "ref \<notin> set new" using r that by (simp add: map_of_map_filter_fst)
  show "map_of (mget [] (d_order d') ?T) (new ! i) = Some (d_seq d + int i)" if "i < length new"
    using r that by simp
  show "sorted new" by (simp add: new)
  show "set new = {ref. mhas cands ref \<and> \<not> mhas (mget [] (d_order d) ?T) ref}"
    by (auto simp: new mhas_def map_of_map_filter_fst map_of_eq_None_iff image_iff)
qed

text \<open>
  queue positions are first come, first served.  After a bookkeeping pass exactly the present
  candidates have a position; one that was queued before keeps its number; every new arrival is
  numbered after all of them, and new arrivals of one pass in lexical order.
\<close>

theorem syncBookkeeping_fifo:
  assumes keys: "distinct (map fst cands)"
    and seq: "0 \<le> d_seq d" "d_seq d + int (length cands) < 2 ^ 63"
    and bound: "\<forall>ref n. map_of (mget [] (d_order d) (tg_Name t)) ref = Some n \<longrightarrow> n < d_seq d"
    and d': "d' = syncBookkeeping d t cands"
    and o: "old = mget [] (d_order d) (tg_Name t)" "pos = mget [] (d_order d') (tg_Name t)"
  shows "(\<forall>ref. mhas pos ref = mhas cands ref)
    \<and> (\<forall>ref. mhas cands ref \<and> mhas old ref \<longrightarrow> map_of pos ref = map_of old ref)
    \<and> (\<forall>r1 r2. mhas cands r1 \<and> mhas cands r2 \<and> mhas old r1 \<and> \<not> mhas old r2 \<longrightarrow> mget 0 pos r1 < mget 0 pos r2)
    \<and> (\<forall>r1 r2. mhas cands r1 \<and> mhas cands r2 \<and> \<not> mhas old r1 \<and> \<not> mhas old r2 \<and> r1 < r2
          \<longrightarrow> mget 0 pos r1 < mget 0 pos r2)
    \<and> (\<forall>ref n. map_of pos ref = Some n \<longrightarrow> n < d_seq d')"
proof -
  define new where "new = sort (filter (\<lambda>ref. \<not> mhas (filter (\<lambda>e. mhas cands (fst e)) old) ref) (map fst cands))"
  note N = syncBookkeeping_numbers [OF keys seq d' new_def [unfolded o(1)], folded o]
  have old: "map_of pos ref = (if mhas cands ref then map_of old ref else None)" if "ref \<notin> set new" for ref
    using N(2) [OF that] by simp
  have fresh: "\<exists>i < length new. ref = new ! i \<and> map_of pos ref = Some (d_seq d + int i)" if "ref \<in> set new" for ref
    using that N(3) by (metis in_set_conv_nth)
  have setn: "ref \<in> set new \<longleftrightarrow> mhas cands ref \<and> \<not> mhas old ref" for ref using N(6) by auto
  have dom: "mhas pos ref = mhas cands ref" for ref
    using old [of ref] fresh [of ref] setn [of ref] by (cases "ref \<in> set new") (auto simp: mhas_def)
  have keep: "map_of pos ref = map_of old ref" if "mhas cands ref" "mhas old ref" for ref
    using old [of ref] setn [of ref] that by simp
  have after: "mget 0 pos r1 < mget 0 pos r2" if r: "mhas cands r1" "mhas cands r2" "mhas old r1" "\<not> mhas old r2" for r1 r2
  proof -
    obtain n where n: "map_of old r1 = Some n" using r(3) by (auto simp: mhas_def)
    have "n < d_seq d" using bound n o by simp
    moreover have "mget 0 pos r1 = n" using keep [OF r(1,3)] n by (simp add: mget_def)
    moreover obtain i where "map_of pos r2 = Some (d_seq d + int i)" using fresh setn r by blast
    ultimately show ?thesis by (simp add: mget_def)
  qed
  have lexi: "mget 0 pos r1 < mget 0 pos r2"
    if r: "mhas cands r1" "mhas cands r2" "\<not> mhas old r1" "\<not> mhas old r2" "r1 < r2" for r1 r2
  proof -
    obtain i j where i: "i < length new" "r1 = new ! i" "map_of pos r1 = Some (d_seq d + int i)"
      and j: "j < length new" "r2 = new ! j" "map_of pos r2 = Some (d_seq d + int j)"
      using fresh setn r by metis
    have "i < j"
    proof (rule ccontr)
      assume "\<not> i < j"
      then have "new ! j \<le> new ! i" using N(5) i by (simp add: sorted_nth_mono)
      with i j r(5) show False by simp
    qed
    with i j show ?thesis by (simp add: mget_def)
  qed
  have bnd: "n < d_seq d'" if "map_of pos ref = Some n" for ref n
  proof (cases "ref \<in> set new")
    case True
    then show ?thesis using fresh [OF True] that N(1) by auto
  next
    case False
    with old [OF False] that have "map_of old ref = Some n" by (simp split: if_splits)
    then have "n < d_seq d" using bound o by blast
    then show ?thesis using N(1) by simp
  qed
  show ?thesis using dom keep after lexi bnd by blast
qed

theorem syncBookkeeping_fifo_witness:
  "mget 0 (mget [] (d_order (syncBookkeeping (sample_daemon\<lparr>d_order := [(''main'', [(''b'', 0)])], d_seq := 1\<rparr>)
      sample_target [(''a'', candidate_zero), (''b'', candidate_zero)])) ''main'') ''b''
   < mget 0 (mget [] (d_order (syncBookkeeping (sample_daemon\<lparr>d_order := [(''main'', [(''b'', 0)])], d_seq := 1\<rparr>)
      sample_target [(''a'', candidate_zero), (''b'', candidate_zero)])) ''main'') ''a''"
proof -
  let ?d = "sample_daemon\<lparr>d_order := [(''main'', [(''b'', 0)])], d_seq := 1\<rparr>"
  let ?cands = "[(''a'', candidate_zero), (''b'', candidate_zero)]"
  have name: "tg_Name sample_target = ''main''" by (simp add: sample_target_def target_zero_def)
  have "distinct (map fst ?cands)" "0 \<le> d_seq ?d" "d_seq ?d + int (length ?cands) < 2 ^ 63"
    "\<forall>ref n. map_of (mget [] (d_order ?d) (tg_Name sample_target)) ref = Some n \<longrightarrow> n < d_seq ?d"
    by (auto simp: name mget_def split: if_splits)
  note r = syncBookkeeping_fifo [OF this refl refl refl, unfolded name]
  have "mhas ?cands ''a''" "mhas ?cands ''b''" "mhas (mget [] (d_order ?d) ''main'') ''b''"
    "\<not> mhas (mget [] (d_order ?d) ''main'') ''a''"
    by (simp_all add: mhas_def mget_def)
  with r show ?thesis by blast
qed

section \<open>Parks are sticky\<close>

lemma enqueue_new_frame [simp]:
  "d_done (enqueue_new target cands refs d) = d_done d"
  "d_cfg (enqueue_new target cands refs d) = d_cfg d"
  "d_lanes (enqueue_new target cands refs d) = d_lanes d"
  "d_now (enqueue_new target cands refs d) = d_now d"
  by (induction refs arbitrary: d) (simp_all add: Let_def)

text \<open>
  a bookkeeping pass keeps a park exactly while it is about the current revision: the candidate
  is present with the parked SHA and metadata version, or it is a review that has gone missing.  It
  never adds a park and leaves other targets alone.
\<close>

theorem syncBookkeeping_parks:
  assumes "distinct (map fst (mget [] (d_done d) (tg_Name t)))"
  shows "map_of (mget [] (d_done (syncBookkeeping d t cands)) target) ref =
    (case map_of (mget [] (d_done d) target) ref of
       None \<Rightarrow> None
     | Some e \<Rightarrow> if target = tg_Name t \<and> \<not> (case map_of cands ref of
                       None \<Rightarrow> pk_Version e \<noteq> []
                     | Some c \<Rightarrow> c_SHA c = pk_SHA e \<and> c_Version c = pk_Version e)
                 then None else Some e)"
  using assms
  by (auto simp: syncBookkeeping_def sync_parks_def Let_def map_of_filter_distinct park_kept_def
      split: option.splits)

theorem syncBookkeeping_parks_witness:
  "map_of (mget [] (d_done (syncBookkeeping sample_parked sample_target
     [(''refs/heads/for/main/a'', sample_candidate ''a'' ''s2'')])) ''main'') ''refs/heads/for/main/a'' = None"
proof -
  have "distinct (map fst (mget [] (d_done sample_parked) (tg_Name sample_target)))"
    by (simp add: sample_parked_def park_def sample_daemon_def sample_target_def target_zero_def mget_def)
  from syncBookkeeping_parks [OF this, of "[(''refs/heads/for/main/a'', sample_candidate ''a'' ''s2'')]"
      "''main''" "''refs/heads/for/main/a''"]
  show ?thesis
    by (simp add: sample_parked_def sample_candidate_def sample_target_def target_zero_def split: option.splits)
qed

section \<open>The probe is the oldest infrastructure error\<close>

definition probe_eligible :: "(string, candidate) gomap \<Rightarrow> string \<times> park_entry \<Rightarrow> bool" where
  "probe_eligible cands e = (pk_Outcome (snd e) = OutcomeError \<and> mhas cands (fst e))"

lemma oldest_error_from:
  "oldest_error cands order es chosen \<in> insert chosen (fst ` set (filter (probe_eligible cands) es))"
  by (induction es arbitrary: chosen) (fastforce simp: probe_eligible_def split: if_splits)+

lemma oldest_error_le:
  "chosen \<noteq> [] \<Longrightarrow> [] \<notin> fst ` set es \<Longrightarrow>
     oldest_error cands order es chosen \<noteq> []
     \<and> mget 0 order (oldest_error cands order es chosen) \<le> mget 0 order chosen"
proof (induction es arbitrary: chosen)
  case (Cons e es)
  obtain ref entry where e: "e = (ref, entry)" by (cases e)
  with Cons.prems have "ref \<noteq> []" "[] \<notin> fst ` set es" by auto
  with Cons.IH [of chosen] Cons.IH [of ref] Cons.prems(1) show ?case by (force simp: e)
qed simp

lemma oldest_error_least:
  "[] \<notin> fst ` set es \<Longrightarrow> e \<in> set es \<Longrightarrow> probe_eligible cands e \<Longrightarrow>
     oldest_error cands order es chosen \<noteq> []
     \<and> mget 0 order (oldest_error cands order es chosen) \<le> mget 0 order (fst e)"
proof (induction es arbitrary: chosen)
  case (Cons x es)
  obtain ref entry where x: "x = (ref, entry)" by (cases x)
  have ne: "ref \<noteq> []" "[] \<notin> fst ` set es" using Cons.prems(1) x by auto
  show ?case
  proof (cases "x = e")
    case True
    let ?n = "if chosen = [] \<or> mget 0 order ref < mget 0 order chosen then ref else chosen"
    have "oldest_error cands order (x # es) chosen = oldest_error cands order es ?n"
      using Cons.prems(3) unfolding True [symmetric] x by (simp add: probe_eligible_def)
    moreover have "?n \<noteq> []" "mget 0 order ?n \<le> mget 0 order ref" using ne by auto
    ultimately show ?thesis using oldest_error_le [of ?n es cands order] ne True x by fastforce
  next
    case False
    then have "e \<in> set es" using Cons.prems(2) by simp
    from Cons.IH [OF ne(2) this Cons.prems(3)] show ?thesis by (simp add: x)
  qed
qed simp

text \<open>
  the circuit's recovery probe frees at most one park, and if any infrastructure error of a
  present candidate is parked it frees the one that has queued longest; red verdicts and operator
  cancellations stay parked.
\<close>

theorem circuit_probe_oldest:
  assumes "ci_Backoff (mget circuit_zero (ct_Circuits (d_controls d)) target) \<noteq> 0"
    and "\<not> circuitBlocked d target" "\<not> d_draining d" "mget [] (d_lanes d) target = []"
    and parks: "parks = mget [] (d_done d) target" "distinct (map fst parks)" "[] \<notin> fst ` set parks"
    and eligible: "e0 \<in> set parks" "probe_eligible cands e0"
  shows "\<exists>e \<in> set parks. probe_eligible cands e
    \<and> (\<forall>e' \<in> set parks. probe_eligible cands e' \<longrightarrow>
         mget 0 (mget [] (d_order d) target) (fst e) \<le> mget 0 (mget [] (d_order d) target) (fst e'))
    \<and> (\<forall>ref. map_of (mget [] (d_done (prepareCircuitProbe d target cands)) target) ref =
         (if ref = fst e then None else map_of parks ref))"
proof -
  let ?order = "mget [] (d_order d) target"
  let ?c = "oldest_error cands ?order parks []"
  have c: "?c \<noteq> []" using oldest_error_least [OF parks(3) eligible] by simp
  then obtain e where e: "e \<in> set parks" "probe_eligible cands e" "fst e = ?c"
    using oldest_error_from [of cands ?order parks "[]"] by auto
  have "mhas parks ?c" using e by (metis image_eqI mhas_iff set_map)
  then have "map_of (mget [] (d_done (prepareCircuitProbe d target cands)) target) ref =
      (if ref = ?c then None else map_of parks ref)" for ref
    using assms(1-4) c parks(1) by (simp add: prepareCircuitProbe_def clearPark_done)
  moreover have "mget 0 ?order (fst e) \<le> mget 0 ?order (fst e')"
    if "e' \<in> set parks" "probe_eligible cands e'" for e'
    using oldest_error_least [OF parks(3) that] e(3) by simp
  ultimately show ?thesis using e by auto
qed

definition sample_probe :: daemon where
  "sample_probe = sample_parked\<lparr>d_controls := d_controls sample_tripped\<rparr>"

theorem circuit_probe_oldest_witness:
  "\<not> mhas (mget [] (d_done (prepareCircuitProbe sample_probe ''main''
      [(''refs/heads/for/main/a'', sample_candidate ''a'' ''s1'')])) ''main'') ''refs/heads/for/main/a''"
proof -
  let ?cands = "[(''refs/heads/for/main/a'', sample_candidate ''a'' ''s1'')]"
  let ?parks = "mget [] (d_done sample_probe) ''main''"
  have parks: "?parks = [(''refs/heads/for/main/a'', \<lparr>pk_Version = [], pk_SHA = ''s1'',
      pk_Outcome = OutcomeError, pk_Reason = ''infra'', pk_At = 1000, pk_RunID = ''run-1''\<rparr>)]"
    by (simp add: sample_probe_def sample_parked_def park_def sample_daemon_def sample_candidate_def mget_def)
  have "ci_Backoff (mget circuit_zero (ct_Circuits (d_controls sample_probe)) ''main'') \<noteq> 0"
    "\<not> circuitBlocked sample_probe ''main''" "\<not> d_draining sample_probe" "mget [] (d_lanes sample_probe) ''main'' = []"
    by (simp_all add: sample_probe_def sample_parked_def sample_tripped_def circuitBlocked_def sample_daemon_def mget_def)
  moreover have "distinct (map fst ?parks)" "[] \<notin> fst ` set ?parks" "hd ?parks \<in> set ?parks"
    "probe_eligible ?cands (hd ?parks)"
    by (simp_all add: parks probe_eligible_def mhas_def)
  ultimately obtain e where "e \<in> set ?parks"
    "\<forall>ref. map_of (mget [] (d_done (prepareCircuitProbe sample_probe ''main'' ?cands)) ''main'') ref =
         (if ref = fst e then None else map_of ?parks ref)"
    using circuit_probe_oldest [OF _ _ _ _ refl, of sample_probe "''main''" "hd ?parks" ?cands] by blast
  then show ?thesis unfolding parks by (auto simp: mhas_def)
qed

end
