(* ===== verification/Queue_Pick.thy ===== *)
theory Queue_Pick
  imports Queue_Parks
begin

text \<open>
  Choosing what to test next: priority classes, ageing and inheritance through dependencies
  (\<^verbatim>\<open>internal/queue/scheduling.go\<close>) and the selection of runnable candidates (\<open>pickUpTo\<close>,
  \<open>pickHead\<close>, \<open>pickNext\<close> of \<^verbatim>\<open>internal/queue/reconcile.go\<close>).
\<close>

section \<open>Sorting with a comparison function\<close>

text \<open>
  \<open>sort.Slice\<close> with a comparison function \<open>lt\<close>.  The locale states what the comparisons of the
  source satisfy; under it the sorted slice is unique, so the algorithm does not matter.
\<close>

fun insert_by :: "('a \<Rightarrow> 'a \<Rightarrow> bool) \<Rightarrow> 'a \<Rightarrow> 'a list \<Rightarrow> 'a list" where
  "insert_by lt x [] = [x]"
| "insert_by lt x (y # ys) = (if lt y x then y # insert_by lt x ys else x # y # ys)"

definition sort_by :: "('a \<Rightarrow> 'a \<Rightarrow> bool) \<Rightarrow> 'a list \<Rightarrow> 'a list" where
  "sort_by lt xs = foldr (insert_by lt) xs []"

lemma set_insert_by [simp]: "set (insert_by lt x ys) = insert x (set ys)"
  by (induction ys) auto

lemma length_insert_by [simp]: "length (insert_by lt x ys) = Suc (length ys)"
  by (induction ys) auto

lemma distinct_insert_by [simp]: "distinct (insert_by lt x ys) \<longleftrightarrow> x \<notin> set ys \<and> distinct ys"
  by (induction ys) auto

lemma set_sort_by [simp]: "set (sort_by lt xs) = set xs"
  by (induction xs) (simp_all add: sort_by_def)

lemma length_sort_by [simp]: "length (sort_by lt xs) = length xs"
  by (induction xs) (simp_all add: sort_by_def)

lemma distinct_sort_by [simp]: "distinct (sort_by lt xs) = distinct xs"
proof (induction xs)
  case (Cons x xs)
  then show ?case using set_sort_by [of lt xs] by (simp add: sort_by_def)
qed (simp add: sort_by_def)

text \<open>Sorting by a comparison whose ties are an equivalence gives a list without inversions; a total comparison leaves no ties.\<close>

locale strict_weak =
  fixes lt :: "'a \<Rightarrow> 'a \<Rightarrow> bool"
  assumes irrefl: "\<not> lt x x"
    and trans: "lt x y \<Longrightarrow> lt y z \<Longrightarrow> lt x z"
    and cotrans: "lt x z \<Longrightarrow> lt x y \<or> lt y z"
begin

lemma insert_by_sorted: "sorted_wrt (\<lambda>a b. \<not> lt b a) ys \<Longrightarrow> sorted_wrt (\<lambda>a b. \<not> lt b a) (insert_by lt x ys)"
proof (induction ys)
  case (Cons y ys)
  show ?case
  proof (cases "lt y x")
    case True
    have "\<not> lt x y" using True trans irrefl by blast
    with Cons True show ?thesis by auto
  next
    case False
    have "\<not> lt z x" if "z \<in> set ys" for z using cotrans [of z x y] False Cons.prems that by auto
    with False Cons.prems show ?thesis by auto
  qed
qed simp

lemma sort_by_sorted: "sorted_wrt (\<lambda>a b. \<not> lt b a) (sort_by lt xs)"
  by (induction xs) (simp_all add: sort_by_def insert_by_sorted)

lemma find_sort_by_least:
  assumes "find P (sort_by lt xs) = Some x"
  shows "x \<in> set xs \<and> P x \<and> (\<forall>y \<in> set xs. P y \<longrightarrow> \<not> lt y x)"
proof -
  have "x \<in> set ys \<and> P x \<and> (\<forall>y \<in> set ys. P y \<longrightarrow> \<not> lt y x)" if "sorted_wrt (\<lambda>a b. \<not> lt b a) ys" "find P ys = Some x" for ys
    using that by (induction ys) (auto simp: irrefl split: if_splits)
  from this [OF sort_by_sorted assms] show ?thesis by simp
qed

end

locale strict_total =
  fixes lt :: "'a \<Rightarrow> 'a \<Rightarrow> bool"
  assumes irrefl: "\<not> lt x x"
    and trans: "lt x y \<Longrightarrow> lt y z \<Longrightarrow> lt x z"
    and total: "x \<noteq> y \<Longrightarrow> lt x y \<or> lt y x"

sublocale strict_total \<subseteq> weak: strict_weak lt
proof
  show "lt x y \<or> lt y z" if "lt x z" for x y z using that total [of x y] trans by blast
qed (use irrefl trans in blast)+

context strict_total
begin

lemma sort_by_strict: "distinct xs \<Longrightarrow> sorted_wrt lt (sort_by lt xs)"
proof -
  assume "distinct xs"
  then have "distinct (sort_by lt xs)" by simp
  moreover have "sorted_wrt lt ys" if "distinct ys" "sorted_wrt (\<lambda>a b. \<not> lt b a) ys" for ys
    using that
  proof (induction ys)
    case (Cons y ys)
    have "lt y z" if "z \<in> set ys" for z
      using that Cons.prems total [of y z] by auto
    with Cons show ?case by auto
  qed simp
  ultimately show ?thesis using weak.sort_by_sorted by blast
qed

end

section \<open>Priorities\<close>

definition PriorityRank :: "string \<Rightarrow> int \<times> bool" where
  "PriorityRank class =
     (if class = ''low'' then (0, True)
      else if class = [] \<or> class = ''normal'' then (1, True)
      else if class = ''high'' then (2, True)
      else if class = ''urgent'' then (3, True)
      else (0, False))"

definition ownPriority :: "daemon \<Rightarrow> candidate \<Rightarrow> go_time \<Rightarrow> int" where
  "ownPriority d c now =
     (let value = fst (PriorityRank (c_Priority c));
          value = (if c_Urgent c then 3 else value);
          value = (case map_of (ct_Priorities (d_controls d)) (c_Ref c) of
                     Some entry \<Rightarrow>
                       if rev_SHA (py_Revision entry) = c_SHA c \<and> rev_Version (py_Revision entry) = c_Version c
                       then fst (PriorityRank (py_Class entry)) else value
                   | None \<Rightarrow> value);
          since = mget 0 (ct_Enqueued (d_controls d)) (c_Ref c) in
      if since \<noteq> 0 \<and> value < 2
      then (let age = go_div (time_sub now since) (30 * duration_minute) in
            if 0 < age then min 2 (value + age) else value)
      else value)"

text \<open>
  The recursive closure \<open>rank\<close> of \<open>priorityAt\<close> threads the \<open>seen\<close> map; fuel bounds its depth
  (which is shown below to suffice).
\<close>

fun rank_at ::
  "nat \<Rightarrow> (candidate \<Rightarrow> int) \<Rightarrow> (string, candidate) gomap \<Rightarrow> string \<Rightarrow> string list \<Rightarrow> int \<times> string list"
and rank_children ::
  "nat \<Rightarrow> (candidate \<Rightarrow> int) \<Rightarrow> (string, candidate) gomap \<Rightarrow> string \<Rightarrow> (string \<times> candidate) list
   \<Rightarrow> int \<Rightarrow> string list \<Rightarrow> int \<times> string list" where
  "rank_at 0 own cands ref seen = (0, seen)"
| "rank_at (Suc fuel) own cands ref seen =
     (if ref \<in> set seen then (0, seen)
      else rank_children fuel own cands ref cands (own (mget candidate_zero cands ref)) (ref # seen))"
| "rank_children fuel own cands ref [] value seen = (value, seen)"
| "rank_children fuel own cands ref ((child, next) # rest) value seen =
     (if c_DependsOn next = ref
      then (case rank_at fuel own cands child seen of
              (childRank, seen') \<Rightarrow>
                rank_children fuel own cands ref rest (if childRank > value then childRank else value) seen')
      else rank_children fuel own cands ref rest value seen)"

definition priorityAt :: "daemon \<Rightarrow> string \<Rightarrow> (string, candidate) gomap \<Rightarrow> go_time \<Rightarrow> int" where
  "priorityAt d ref cands now =
     fst (rank_at (length cands + 2) (\<lambda>c. ownPriority d c now) cands ref [])"

definition urgent :: "daemon \<Rightarrow> string \<Rightarrow> (string, candidate) gomap \<Rightarrow> bool" where
  "urgent d ref cands = (priorityAt d ref cands 0 \<ge> 3)"

definition runPriority :: "daemon \<Rightarrow> run \<Rightarrow> int" where
  "runPriority d r =
     (let candidates = fold (\<lambda>m cs. mput (c_Ref (m_cand m)) (m_cand m) cs) (r_members r) (d_external d) in
      fold (\<lambda>m rank. max rank (priorityAt d (c_Ref (m_cand m)) candidates (d_now d))) (r_members r) 0)"

definition runUrgent :: "daemon \<Rightarrow> run \<Rightarrow> bool" where
  "runUrgent d r = (runPriority d r \<ge> 3)"

section \<open>Selection\<close>

definition pick_eligible ::
  "daemon \<Rightarrow> string \<Rightarrow> (string, bool) gomap \<Rightarrow> string \<times> candidate \<Rightarrow> bool" where
  "pick_eligible d target inFlight rc =
     (case rc of (ref, c) \<Rightarrow>
       c_AdmissionBlocked c = [] \<and> \<not> c_SkipChecks c
       \<and> \<not> (mhas (ct_Pauses (d_controls d)) target \<and> \<not> c_OverridePause c)
       \<and> \<not> (case map_of (mget [] (d_done d) target) ref of Some p \<Rightarrow> pk_SHA p = c_SHA c | None \<Rightarrow> False)
       \<and> \<not> mget False inFlight ref)"

definition pick_before :: "int \<Rightarrow> (string \<Rightarrow> int) \<Rightarrow> (string \<Rightarrow> int) \<Rightarrow> string \<Rightarrow> string \<Rightarrow> bool" where
  "pick_before burst rank order a b =
     (let ra = rank a; rb = rank b in
      if (ra = 3) \<noteq> (rb = 3) \<and> 3 \<le> burst then ra \<noteq> 3
      else if ra \<noteq> rb then rb < ra
      else if order a \<noteq> order b then order a < order b
      else a < b)"

definition dep_ready :: "(string, candidate) gomap \<Rightarrow> (string, bool) gomap \<Rightarrow> string list \<Rightarrow> string \<Rightarrow> bool" where
  "dep_ready cands inFlight selected ref =
     (let dep = c_DependsOn (mget candidate_zero cands ref) in
      dep = [] \<or> dep \<in> set selected \<or> mget False inFlight dep)"

text \<open>One pass of the selection loop: \<open>selected\<close> in the order of \<open>out\<close>, and the \<open>progress\<close> flag.\<close>

fun pick_pass ::
  "(string, candidate) gomap \<Rightarrow> (string, bool) gomap \<Rightarrow> int \<Rightarrow> string list \<Rightarrow> string list \<Rightarrow> bool
   \<Rightarrow> string list \<times> bool" where
  "pick_pass cands inFlight n [] selected progress = (selected, progress)"
| "pick_pass cands inFlight n (ref # refs) selected progress =
     (if ref \<in> set selected \<or> \<not> dep_ready cands inFlight selected ref
      then pick_pass cands inFlight n refs selected progress
      else if n \<ge> 0 \<and> int (length selected + 1) = n then (selected @ [ref], True)
      else pick_pass cands inFlight n refs (selected @ [ref]) True)"

fun pick_loop ::
  "nat \<Rightarrow> (string, candidate) gomap \<Rightarrow> (string, bool) gomap \<Rightarrow> int \<Rightarrow> string list \<Rightarrow> string list \<Rightarrow> string list" where
  "pick_loop 0 cands inFlight n refs selected = selected"
| "pick_loop (Suc fuel) cands inFlight n refs selected =
     (if length selected < length refs \<and> (n < 0 \<or> int (length selected) < n)
      then (case pick_pass cands inFlight n refs selected False of
              (selected', progress) \<Rightarrow>
                if progress then pick_loop fuel cands inFlight n refs selected' else selected')
      else selected)"

definition pick_refs :: "daemon \<Rightarrow> string \<Rightarrow> (string, candidate) gomap \<Rightarrow> (string, bool) gomap \<Rightarrow> string list" where
  "pick_refs d target cands inFlight =
     (let refs = map fst (filter (pick_eligible d target inFlight) cands);
          order = mget [] (d_order d) target in
      sort_by (pick_before (mget 0 (d_urgentBurst d) target)
                 (\<lambda>ref. priorityAt d ref cands (d_now d)) (mget 0 order)) refs)"

definition pickUpTo ::
  "daemon \<Rightarrow> string \<Rightarrow> (string, candidate) gomap \<Rightarrow> int \<Rightarrow> (string, bool) gomap \<Rightarrow> candidate list" where
  "pickUpTo d target cands n inFlight =
     (let refs = pick_refs d target cands inFlight in
      map (mget candidate_zero cands) (pick_loop (length refs + 1) cands inFlight n refs []))"

definition pickHead :: "daemon \<Rightarrow> string \<Rightarrow> (string, candidate) gomap \<Rightarrow> candidate option" where
  "pickHead d target cands = (case pickUpTo d target cands 1 [] of [] \<Rightarrow> None | c # _ \<Rightarrow> Some c)"

definition pickNext ::
  "daemon \<Rightarrow> string \<Rightarrow> (string, candidate) gomap \<Rightarrow> (string, bool) gomap \<Rightarrow> candidate option" where
  "pickNext d target cands inFlight =
     (case pickUpTo d target cands 1 inFlight of [] \<Rightarrow> None | c # _ \<Rightarrow> Some c)"

interpretation pick_order: strict_total "pick_before burst rank order" for burst rank order
proof
  show "\<not> pick_before burst rank order x x" for x by (simp add: pick_before_def)
  show "pick_before burst rank order x y \<Longrightarrow> pick_before burst rank order y z \<Longrightarrow> pick_before burst rank order x z"
    for x y z by (auto simp: pick_before_def Let_def split: if_splits)
  show "x \<noteq> y \<Longrightarrow> pick_before burst rank order x y \<or> pick_before burst rank order y x" for x y
    by (auto simp: pick_before_def Let_def)
qed

section \<open>Inherited priority\<close>

text \<open>The dependency edges \<open>rank\<close> follows, from a ref to the candidates that depend on it.\<close>

definition dependents :: "(string, candidate) gomap \<Rightarrow> (string \<times> string) set" where
  "dependents cands = {(ref, child). \<exists>c. (child, c) \<in> set cands \<and> c_DependsOn c = ref}"

lemma card_Diff_insert_less:
  assumes "finite U" "x \<in> U" "x \<notin> S" "card (U - S) < Suc n"
  shows "card (U - insert x S) < n"
proof -
  have "U - insert x S \<subset> U - S" using assms by auto
  then have "card (U - insert x S) < card (U - S)" using assms(1) by (simp add: psubset_card_mono)
  with assms(4) show ?thesis by simp
qed

lemma card_Diff_mono_less:
  assumes "finite U" "S \<subseteq> T" "card (U - S) < n"
  shows "card (U - T) < (n :: nat)"
proof -
  have "card (U - T) \<le> card (U - S)" using assms by (intro card_mono) auto
  with assms(3) show ?thesis by simp
qed

lemma rank_spec:
  fixes cands :: "(string, candidate) gomap"
  assumes U: "finite U" "fst ` set cands \<subseteq> U" and pos: "\<And>c. 0 \<le> own c"
  defines "w \<equiv> \<lambda>x. own (mget candidate_zero cands x)"
  defines "E \<equiv> dependents cands"
  shows "\<lbrakk>card (U - set seen) < fuel; ref \<in> U; rank_at fuel own cands ref seen = (v, seen')\<rbrakk> \<Longrightarrow>
     set seen \<subseteq> set seen' \<and> ref \<in> set seen' \<and> 0 \<le> v
     \<and> (\<forall>x \<in> set seen' - set seen. E `` {x} \<subseteq> set seen' \<and> w x \<le> v \<and> (ref, x) \<in> E\<^sup>*)
     \<and> (if ref \<in> set seen then v = 0 else v \<in> w ` (set seen' - set seen))"
   and "\<lbrakk>card (U - set seen) < fuel; ref \<in> U; set rest \<subseteq> set cands; 0 \<le> val;
      rank_children fuel own cands ref rest val seen = (v, seen')\<rbrakk> \<Longrightarrow>
     set seen \<subseteq> set seen' \<and> val \<le> v
     \<and> (\<forall>x \<in> set seen' - set seen. E `` {x} \<subseteq> set seen' \<and> w x \<le> v \<and> (ref, x) \<in> E\<^sup>*)
     \<and> (\<forall>(child, c) \<in> set rest. c_DependsOn c = ref \<longrightarrow> child \<in> set seen')
     \<and> v \<in> insert val (w ` (set seen' - set seen))"
  unfolding w_def E_def using U pos
proof (induction fuel own cands ref seen and fuel own cands ref rest val seen
       arbitrary: v seen' and v seen' rule: rank_at_rank_children.induct)
  case (1 own cands ref seen)
  then show ?case by simp
next
  case (2 fuel own cands ref seen)
  let ?E = "dependents cands" and ?w = "\<lambda>x. own (mget candidate_zero cands x)"
  show ?case
  proof (cases "ref \<in> set seen")
    case True
    then show ?thesis using "2.prems" by auto
  next
    case False
    have c: "card (U - set (ref # seen)) < fuel"
      using card_Diff_insert_less [of U ref "set seen" fuel] "2.prems" False by simp
    have ok: "set (ref # seen) \<subseteq> set seen'" and le: "?w ref \<le> v"
      and new: "\<forall>x \<in> set seen' - set (ref # seen). ?E `` {x} \<subseteq> set seen' \<and> ?w x \<le> v \<and> (ref, x) \<in> ?E\<^sup>*"
      and ch: "\<forall>(child, c) \<in> set cands. c_DependsOn c = ref \<longrightarrow> child \<in> set seen'"
      and v: "v \<in> insert (?w ref) (?w ` (set seen' - set (ref # seen)))"
      using "2.IH" [OF False c] "2.prems" False by auto
    have "?E `` {ref} \<subseteq> set seen'" using ch by (auto simp: dependents_def)
    with ok le new have all: "\<forall>x \<in> set seen' - set seen. ?E `` {x} \<subseteq> set seen' \<and> ?w x \<le> v \<and> (ref, x) \<in> ?E\<^sup>*"
      by auto
    have "0 \<le> v" using le "2.prems"(6) [of "mget candidate_zero cands ref"] by linarith
    moreover have "v \<in> ?w ` (set seen' - set seen)" using v ok False by auto
    ultimately show ?thesis using ok all False by auto
  qed
next
  case (3 fuel own cands ref val seen)
  then show ?case by auto
next
  case (4 fuel own cands ref child c rest val seen)
  let ?E = "dependents cands" and ?w = "\<lambda>x. own (mget candidate_zero cands x)"
  show ?case
  proof (cases "c_DependsOn c = ref")
    case False
    then show ?thesis using "4.IH"(3) [OF False] "4.prems" by auto
  next
    case True
    obtain cr s1 where r: "rank_at fuel own cands child seen = (cr, s1)" by (cases "rank_at fuel own cands child seen")
    have cU: "child \<in> U" using "4.prems" by force
    have e: "(ref, child) \<in> ?E" using "4.prems" True by (auto simp: dependents_def)
    have a: "set seen \<subseteq> set s1" "child \<in> set s1" "0 \<le> cr"
      and an: "\<And>x. x \<in> set s1 - set seen \<Longrightarrow> ?E `` {x} \<subseteq> set s1 \<and> ?w x \<le> cr \<and> (child, x) \<in> ?E\<^sup>*"
      and av: "if child \<in> set seen then cr = 0 else cr \<in> ?w ` (set s1 - set seen)"
      using "4.IH"(1) [OF True _ cU r] "4.prems" by auto
    let ?v1 = "if cr > val then cr else val"
    have c1: "card (U - set s1) < fuel" using card_Diff_mono_less [of U "set seen" "set s1" fuel] a "4.prems" by simp
    have r2: "rank_children fuel own cands ref rest ?v1 s1 = (v, seen')" using "4.prems" True r by simp
    have b: "set s1 \<subseteq> set seen'" "?v1 \<le> v"
      and bn: "\<And>x. x \<in> set seen' - set s1 \<Longrightarrow> ?E `` {x} \<subseteq> set seen' \<and> ?w x \<le> v \<and> (ref, x) \<in> ?E\<^sup>*"
      and bc: "\<forall>(child, c) \<in> set rest. c_DependsOn c = ref \<longrightarrow> child \<in> set seen'"
      and bv: "v \<in> insert ?v1 (?w ` (set seen' - set s1))"
      using "4.IH"(2) [OF True r [symmetric] c1 _ _ _ r2] "4.prems" by auto
    have new: "?E `` {x} \<subseteq> set seen' \<and> ?w x \<le> v \<and> (ref, x) \<in> ?E\<^sup>*" if x: "x \<in> set seen' - set seen" for x
    proof (cases "x \<in> set s1")
      case True
      then have "?E `` {x} \<subseteq> set s1" "?w x \<le> cr" "(child, x) \<in> ?E\<^sup>*" using an [of x] x by auto
      moreover have "cr \<le> v" using b(2) by (simp split: if_splits)
      ultimately show ?thesis using b(1) e by (auto intro: converse_rtrancl_into_rtrancl)
    next
      case False
      then show ?thesis using bn x by blast
    qed
    have "?v1 \<in> insert val (?w ` (set s1 - set seen))" using av a(3) "4.prems" by (auto split: if_splits)
    then have "v \<in> insert val (?w ` (set seen' - set seen))" using bv a(1) b(1) by auto
    moreover have "val \<le> v" using b(2) by (simp split: if_splits)
    ultimately show ?thesis using new a b bc by auto
  qed
qed

lemma ownPriority_nonneg: "0 \<le> ownPriority d c now"
  by (auto simp: ownPriority_def PriorityRank_def Let_def split: option.split)

lemma rtrancl_closed_subset:
  assumes "(a, b) \<in> E\<^sup>*" "a \<in> S" "\<And>x. x \<in> S \<Longrightarrow> E `` {x} \<subseteq> S"
  shows "b \<in> S"
  using assms by (induction rule: rtrancl_induct) auto

text \<open>
  \<open>priorityAt\<close> gives a candidate the highest own priority (class, urgency or ageing) among
  itself and all the candidates that depend on it, directly or transitively, however the dependency
  edges run: a prerequisite of an urgent change is scheduled as urgent, and the recursion ends even
  on cyclic dependencies.
\<close>

theorem priorityAt_inherits:
  "priorityAt d ref cands now =
     Max ((\<lambda>r. ownPriority d (mget candidate_zero cands r) now) ` {r. (ref, r) \<in> (dependents cands)\<^sup>*})"
proof -
  let ?w = "\<lambda>r. ownPriority d (mget candidate_zero cands r) now" and ?E = "dependents cands"
  let ?U = "insert ref (fst ` set cands)"
  obtain v seen where r: "rank_at (length cands + 2) (\<lambda>c. ownPriority d c now) cands ref [] = (v, seen)"
    by (cases "rank_at (length cands + 2) (\<lambda>c. ownPriority d c now) cands ref []")
  have "card (fst ` set cands) \<le> length cands"
    by (metis card_image_le card_length finite_set le_trans)
  then have c: "card (?U - set []) < length cands + 2" using card_insert_le_m1 [of "length cands + 1"]
    by (simp add: card_insert_if)
  have s: "ref \<in> set seen" "\<And>x. x \<in> set seen \<Longrightarrow> ?E `` {x} \<subseteq> set seen \<and> ?w x \<le> v \<and> (ref, x) \<in> ?E\<^sup>*"
    "v \<in> ?w ` set seen"
    using rank_spec(1) [of ?U cands "\<lambda>c. ownPriority d c now", OF _ _ ownPriority_nonneg c _ r] by auto
  have "x \<in> set seen" if "(ref, x) \<in> ?E\<^sup>*" for x
    using rtrancl_closed_subset [OF that s(1)] s(2) by blast
  then have e: "set seen = {r. (ref, r) \<in> ?E\<^sup>*}" using s(2) by blast
  have "v = Max (?w ` set seen)" by (rule Max_eqI [symmetric]) (use s in auto)
  then show ?thesis using r e by (simp add: priorityAt_def)
qed

section \<open>What is picked\<close>

definition sel_ok :: "(string, candidate) gomap \<Rightarrow> (string, bool) gomap \<Rightarrow> int \<Rightarrow> string list \<Rightarrow> string list \<Rightarrow> bool" where
  "sel_ok cands inFlight n refs sel \<longleftrightarrow> distinct sel \<and> set sel \<subseteq> set refs \<and> (0 \<le> n \<longrightarrow> int (length sel) \<le> n)
     \<and> (\<forall>i < length sel. dep_ready cands inFlight (take i sel) (sel ! i))"

definition sel_full :: "(string, candidate) gomap \<Rightarrow> (string, bool) gomap \<Rightarrow> int \<Rightarrow> string list \<Rightarrow> string list \<Rightarrow> bool" where
  "sel_full cands inFlight n refs sel \<longleftrightarrow> (n < 0 \<or> int (length sel) < n) \<longrightarrow>
     (\<forall>ref \<in> set refs. ref \<in> set sel \<or> \<not> dep_ready cands inFlight sel ref)"

lemma sel_ok_snoc:
  "sel_ok cands inFlight n refs sel \<Longrightarrow> ref \<in> set refs \<Longrightarrow> ref \<notin> set sel \<Longrightarrow>
   dep_ready cands inFlight sel ref \<Longrightarrow> n < 0 \<or> int (length sel) < n \<Longrightarrow> sel_ok cands inFlight n refs (sel @ [ref])"
  by (auto simp: sel_ok_def nth_append less_Suc_eq)

lemma pick_pass_ok:
  assumes "pick_pass cands inFlight n rest sel p = (sel', p')" "sel_ok cands inFlight n refs sel"
    "set rest \<subseteq> set refs" "n < 0 \<or> int (length sel) < n"
  shows "sel_ok cands inFlight n refs sel' \<and> (\<exists>ys. sel' = sel @ ys)
    \<and> (p' \<longleftrightarrow> p \<or> sel' \<noteq> sel)
    \<and> (sel' = sel \<longrightarrow> (\<forall>ref \<in> set rest. ref \<in> set sel \<or> \<not> dep_ready cands inFlight sel ref))"
  using assms
proof (induction cands inFlight n rest sel p rule: pick_pass.induct)
  case (1 cands inFlight n sel p)
  then show ?case by auto
next
  case (2 cands inFlight n ref rest sel p)
  show ?case
  proof (cases "ref \<in> set sel \<or> \<not> dep_ready cands inFlight sel ref")
    case True
    then show ?thesis using "2.IH"(1) [OF True] "2.prems" by auto
  next
    case False
    have ok: "sel_ok cands inFlight n refs (sel @ [ref])"
      using sel_ok_snoc [of cands inFlight n refs sel ref] "2.prems" False by auto
    show ?thesis
    proof (cases "n \<ge> 0 \<and> int (length sel + 1) = n")
      case full: True
      have "pick_pass cands inFlight n (ref # rest) sel p = (sel @ [ref], True)" using False full by auto
      then show ?thesis using ok "2.prems" by auto
    next
      case more: False
      have "pick_pass cands inFlight n rest (sel @ [ref]) True = (sel', p')" using False more "2.prems"(1) by auto
      moreover have "n < 0 \<or> int (length (sel @ [ref])) < n" using more "2.prems"(4) by auto
      ultimately show ?thesis using "2.IH"(2) [OF False more] ok "2.prems" by auto
    qed
  qed
qed

lemma sel_ok_length: "sel_ok cands inFlight n refs sel \<Longrightarrow> length sel \<le> card (set refs)"
  by (metis List.finite_set card_mono distinct_card sel_ok_def)

lemma pick_loop_ok:
  assumes "sel_ok cands inFlight n refs sel" "length refs < fuel + length sel" "distinct refs"
  shows "sel_ok cands inFlight n refs (pick_loop fuel cands inFlight n refs sel)
    \<and> sel_full cands inFlight n refs (pick_loop fuel cands inFlight n refs sel)"
  using assms
proof (induction fuel arbitrary: sel)
  case 0
  then show ?case using sel_ok_length [OF 0(1)] distinct_card [OF assms(3)] by simp
next
  case (Suc fuel)
  show ?case
  proof (cases "length sel < length refs \<and> (n < 0 \<or> int (length sel) < n)")
    case False
    have "set sel = set refs" if "\<not> length sel < length refs"
    proof -
      have "card (set refs) \<le> card (set sel)"
        using that Suc.prems(1) by (simp add: sel_ok_def distinct_card assms(3))
      then show ?thesis using Suc.prems(1) by (metis List.finite_set card_seteq sel_ok_def)
    qed
    with False have "sel_full cands inFlight n refs sel" by (auto simp: sel_full_def)
    then show ?thesis using False Suc.prems(1) by auto
  next
    case True
    obtain sel' p where p: "pick_pass cands inFlight n refs sel False = (sel', p)"
      by (cases "pick_pass cands inFlight n refs sel False")
    have ok: "sel_ok cands inFlight n refs sel'" "\<exists>ys. sel' = sel @ ys" "p \<longleftrightarrow> sel' \<noteq> sel"
      "sel' = sel \<longrightarrow> (\<forall>ref \<in> set refs. ref \<in> set sel \<or> \<not> dep_ready cands inFlight sel ref)"
      using pick_pass_ok [OF p Suc.prems(1)] True by auto
    show ?thesis
    proof (cases p)
      case False
      then have "sel_full cands inFlight n refs sel'" using ok by (auto simp: sel_full_def)
      then show ?thesis using False p True ok(1) by simp
    next
      case pt: True
      then have "length sel < length sel'" using ok by auto
      then show ?thesis using Suc.IH [OF ok(1)] Suc.prems(2,3) p pt True by simp
    qed
  qed
qed

text \<open>A candidate map keyed by ref.\<close>

definition keyed :: "(string, candidate) gomap \<Rightarrow> bool" where
  "keyed cands \<longleftrightarrow> distinct (map fst cands) \<and> (\<forall>(ref, c) \<in> set cands. c_Ref c = ref)"

lemma keyed_mget: "keyed cands \<Longrightarrow> (ref, c) \<in> set cands \<Longrightarrow> mget candidate_zero cands ref = c \<and> c_Ref c = ref"
  by (auto simp: keyed_def mget_def)

lemma set_pick_refs:
  "set (pick_refs d target cands inFlight) = {ref. \<exists>c. (ref, c) \<in> set cands \<and> pick_eligible d target inFlight (ref, c)}"
  by (force simp: pick_refs_def Let_def)

lemma distinct_pick_refs: "keyed cands \<Longrightarrow> distinct (pick_refs d target cands inFlight)"
  by (simp add: pick_refs_def Let_def keyed_def distinct_map_fst_filter)

lemma pick_refs_keyed:
  assumes "keyed cands" "ref \<in> set (pick_refs d target cands inFlight)"
  shows "c_Ref (mget candidate_zero cands ref) = ref \<and> (ref, mget candidate_zero cands ref) \<in> set cands
    \<and> pick_eligible d target inFlight (ref, mget candidate_zero cands ref)"
  using assms keyed_mget by (auto simp: set_pick_refs)

text \<open>
  C27: \<open>pickUpTo\<close> selects distinct candidates that are all eligible (admitted, not emergency, not
  held by a pause they do not override, not parked at their SHA, not in flight), at most \<open>n\<close> of them,
  each one after its prerequisite (earlier in the result or already in flight), and it never stops
  early: when fewer than \<open>n\<close> are returned, every eligible candidate left out still waits for its
  prerequisite.
\<close>

theorem pickUpTo_spec:
  fixes d :: daemon and target :: string and cands :: "(string, candidate) gomap" and n :: int
    and inFlight :: "(string, bool) gomap"
  assumes "keyed cands"
  defines "out \<equiv> pickUpTo d target cands n inFlight"
  shows "distinct (map c_Ref out)
    \<and> (\<forall>c \<in> set out. (c_Ref c, c) \<in> set cands \<and> pick_eligible d target inFlight (c_Ref c, c))
    \<and> (0 \<le> n \<longrightarrow> int (length out) \<le> n)
    \<and> (\<forall>i < length out. c_DependsOn (out ! i) = [] \<or> c_DependsOn (out ! i) \<in> c_Ref ` set (take i out)
         \<or> mget False inFlight (c_DependsOn (out ! i)))
    \<and> (n < 0 \<or> int (length out) < n \<longrightarrow>
         (\<forall>(ref, c) \<in> set cands. pick_eligible d target inFlight (ref, c) \<longrightarrow> c \<in> set out
            \<or> c_DependsOn c \<noteq> [] \<and> c_DependsOn c \<notin> c_Ref ` set out \<and> \<not> mget False inFlight (c_DependsOn c)))"
proof -
  let ?refs = "pick_refs d target cands inFlight" and ?g = "mget candidate_zero cands"
  define sel where "sel = pick_loop (length ?refs + 1) cands inFlight n ?refs []"
  have "sel_ok cands inFlight n ?refs sel \<and> sel_full cands inFlight n ?refs sel"
    unfolding sel_def by (rule pick_loop_ok) (use assms in \<open>auto simp: sel_ok_def distinct_pick_refs\<close>)
  then have ok: "sel_ok cands inFlight n ?refs sel" and full: "sel_full cands inFlight n ?refs sel" by auto
  have out: "out = map ?g sel" by (simp add: out_def pickUpTo_def sel_def Let_def)
  have sub: "set sel \<subseteq> set ?refs" using ok by (simp add: sel_ok_def)
  have refs: "map c_Ref out = sel"
    unfolding out map_map by (rule map_idI) (use pick_refs_keyed [OF assms(1)] sub in auto)
  have image: "c_Ref ` set (take i out) = set (take i sel)" for i
    by (metis refs take_map set_map)
  have all: "c_Ref ` set out = set sel" by (metis refs set_map)
  have 1: "distinct (map c_Ref out)" using ok refs by (simp add: sel_ok_def)
  have 2: "\<forall>c \<in> set out. (c_Ref c, c) \<in> set cands \<and> pick_eligible d target inFlight (c_Ref c, c)"
    unfolding out using pick_refs_keyed [OF assms(1)] sub by auto
  have 3: "0 \<le> n \<longrightarrow> int (length out) \<le> n" using ok out by (simp add: sel_ok_def)
  have 4: "\<forall>i < length out. c_DependsOn (out ! i) = [] \<or> c_DependsOn (out ! i) \<in> c_Ref ` set (take i out)
         \<or> mget False inFlight (c_DependsOn (out ! i))"
    unfolding image using ok out by (auto simp: sel_ok_def dep_ready_def Let_def)
  have 5: "c \<in> set out \<or> c_DependsOn c \<noteq> [] \<and> c_DependsOn c \<notin> c_Ref ` set out \<and> \<not> mget False inFlight (c_DependsOn c)"
    if "n < 0 \<or> int (length out) < n" "(ref, c) \<in> set cands" "pick_eligible d target inFlight (ref, c)" for ref c
  proof -
    have "ref \<in> set sel \<or> \<not> dep_ready cands inFlight sel ref"
      using full that out by (auto simp: sel_full_def set_pick_refs)
    moreover have "?g ref = c" using keyed_mget [OF assms(1) that(2)] by simp
    ultimately show ?thesis unfolding all using out by (auto simp: dep_ready_def Let_def)
  qed
  show ?thesis using 1 2 3 4 5 by blast
qed

text \<open>\<open>b\<close> depends on \<open>a\<close>: both are picked, \<open>a\<close> first.\<close>

definition sample_cands :: "(string, candidate) gomap" where
  "sample_cands = [(c_Ref (sample_candidate ''b'' ''s2''),
      (sample_candidate ''b'' ''s2'')\<lparr>c_DependsOn := c_Ref (sample_candidate ''a'' ''s1''), c_Urgent := True\<rparr>),
    (c_Ref (sample_candidate ''a'' ''s1''), sample_candidate ''a'' ''s1'')]"

theorem pickUpTo_spec_witness:
  "keyed sample_cands \<and> map c_SHA (pickUpTo sample_daemon ''main'' sample_cands 5 []) = [''s1'', ''s2'']
   \<and> distinct (map c_Ref (pickUpTo sample_daemon ''main'' sample_cands 5 []))"
proof -
  have k: "keyed sample_cands" by code_simp
  have "map c_SHA (pickUpTo sample_daemon ''main'' sample_cands 5 []) = [''s1'', ''s2'']" by code_simp
  then show ?thesis using k pickUpTo_spec [OF k, where d = sample_daemon and target = "''main''" and n = 5 and inFlight = "[]"] by blast
qed

lemma pickUpTo_one:
  "pickUpTo d target cands 1 inFlight =
     (case find (dep_ready cands inFlight []) (pick_refs d target cands inFlight) of
        None \<Rightarrow> [] | Some ref \<Rightarrow> [mget candidate_zero cands ref])"
proof -
  have p: "pick_pass cands inFlight 1 refs [] False =
      (case find (dep_ready cands inFlight []) refs of None \<Rightarrow> ([], False) | Some ref \<Rightarrow> ([ref], True))" for refs
    by (induction refs) auto
  show ?thesis
    by (cases "pick_refs d target cands inFlight") (auto simp: pickUpTo_def Let_def p split: option.splits)
qed

lemma find_sorted_least:
  assumes "sorted_wrt R xs" "find P xs = Some x" "y \<in> set xs" "P y"
  shows "x = y \<or> R x y"
  using assms by (induction xs) (auto split: if_splits)

text \<open>
  \<open>pickNext\<close> returns a candidate exactly when some eligible candidate has its prerequisite in
  flight or has none, and it returns the first of these in queue order: before every other one by the
  comparison of inherited priority, arrival order and ref, where after three urgent runs in a row one
  non-urgent candidate goes first.
\<close>

theorem pickNext_first:
  fixes d :: daemon and target :: string and cands :: "(string, candidate) gomap"
    and inFlight :: "(string, bool) gomap"
  assumes "keyed cands"
  defines "ready \<equiv> \<lambda>c. (c_Ref c, c) \<in> set cands \<and> pick_eligible d target inFlight (c_Ref c, c)
             \<and> (c_DependsOn c = [] \<or> mget False inFlight (c_DependsOn c))"
    and "before \<equiv> pick_before (mget 0 (d_urgentBurst d) target) (\<lambda>ref. priorityAt d ref cands (d_now d))
             (mget 0 (mget [] (d_order d) target))"
  shows "case pickNext d target cands inFlight of
           None \<Rightarrow> (\<forall>c. \<not> ready c)
         | Some c \<Rightarrow> ready c \<and> (\<forall>c'. ready c' \<and> c' \<noteq> c \<longrightarrow> before (c_Ref c) (c_Ref c'))"
proof -
  let ?refs = "pick_refs d target cands inFlight" and ?g = "mget candidate_zero cands"
  have inref: "c_Ref c \<in> set ?refs \<and> dep_ready cands inFlight [] (c_Ref c) \<and> ?g (c_Ref c) = c" if "ready c" for c
  proof -
    have "?g (c_Ref c) = c" using keyed_mget [OF assms(1)] that unfolding ready_def by blast
    moreover have "c_Ref c \<in> set ?refs" using that unfolding ready_def set_pick_refs by blast
    ultimately show ?thesis using that by (simp add: ready_def dep_ready_def Let_def)
  qed
  have conv: "ready (?g ref) \<and> c_Ref (?g ref) = ref" if "ref \<in> set ?refs" "dep_ready cands inFlight [] ref" for ref
    using pick_refs_keyed [OF assms(1) that(1)] that(2) by (auto simp: ready_def dep_ready_def Let_def)
  have sorted: "sorted_wrt before ?refs"
    unfolding pick_refs_def Let_def before_def
    by (rule pick_order.sort_by_strict) (use assms(1) in \<open>simp add: keyed_def distinct_map_fst_filter\<close>)
  show ?thesis
  proof (cases "find (dep_ready cands inFlight []) ?refs")
    case None
    then have "\<not> ready c" for c using inref by (auto simp: find_None_iff)
    then show ?thesis using None by (simp add: pickNext_def pickUpTo_one)
  next
    case (Some ref)
    then have m: "ref \<in> set ?refs" "dep_ready cands inFlight [] ref" by (auto simp: find_Some_iff)
    have "before ref (c_Ref c')" if "ready c'" "c' \<noteq> ?g ref" for c'
      using find_sorted_least [OF sorted Some, of "c_Ref c'"] inref [OF that(1)] that(2) by auto
    then show ?thesis using Some conv [OF m] by (simp add: pickNext_def pickUpTo_one)
  qed
qed

theorem pickNext_first_witness:
  "keyed sample_cands \<and> map_option c_SHA (pickNext sample_daemon ''main'' sample_cands []) = Some ''s1''"
proof -
  have k: "keyed sample_cands" by code_simp
  obtain c where c: "pickNext sample_daemon ''main'' sample_cands [] = Some c"
  proof (cases "pickNext sample_daemon ''main'' sample_cands []")
    case None
    moreover have "pickNext sample_daemon ''main'' sample_cands [] \<noteq> None" by code_simp
    ultimately show ?thesis by simp
  qed
  have "(c_Ref c, c) \<in> set sample_cands" "c_DependsOn c = []"
    using pickNext_first [OF k, where d = sample_daemon and target = "''main''" and inFlight = "[]"] c by auto
  then have "c_SHA c = ''s1''" by (auto simp: sample_cands_def sample_candidate_def)
  then show ?thesis using k c by simp
qed

end
