(* ===== verification/Queue_Governor.thy ===== *)
theory Queue_Governor
  imports Queue_Pick
begin

text \<open>
  Adaptive admission (\<^verbatim>\<open>internal/queue/adaptive.go\<close>): a per-target concurrency limit that grows by
  one after clean landings and is halved by failed or invalidated work; and the drain state machine
  (\<^verbatim>\<open>internal/queue/drain.go\<close>).  Seconds are exact rationals where the code has \<open>float64\<close>.
\<close>

section \<open>The governor\<close>

definition schedulingCeiling :: "target_cfg \<Rightarrow> int" where
  "schedulingCeiling t = (if tg_Mode t = ''batch'' then max 1 (tg_MaxBatch t) else max 1 (tg_Window t))"

text \<open>\<open>governor\<close> reads the fields of \<open>t.Adaptive\<close>, which its callers have checked not to be nil; the
  argument \<open>a\<close> is what the pointer refers to.\<close>

definition governor_of :: "daemon \<Rightarrow> target_cfg \<Rightarrow> adaptive_scheduling \<Rightarrow> governor" where
  "governor_of d t a =
     (let g = mget governor_zero (ct_Governors (d_controls d)) (tg_Name t);
          g = (if gv_Limit g = 0
               then g\<lparr>gv_Limit := max 1 (ad_Start a), gv_Reason := ''starting conservatively''\<rparr> else g) in
      g\<lparr>gv_Limit := min (schedulingCeiling t) (max 1 (gv_Limit g))\<rparr>)"

definition adaptiveLimit :: "daemon \<Rightarrow> target_cfg \<Rightarrow> int \<times> daemon" where
  "adaptiveLimit d t =
     (let ceiling = schedulingCeiling t;
          (limit, d) =
            (case tg_Adaptive t of
               None \<Rightarrow> (ceiling, d)
             | Some a \<Rightarrow>
                 (let g = governor_of d t a;
                      pressure = Saturated (d_slots d);
                      (pressure, d) =
                        (case cf_ExecutionPressure (d_cfg d) of
                           None \<Rightarrow> (pressure, d)
                         | Some ep \<Rightarrow> (pressure \<or> ep (Suc (d_io d)), d\<lparr>d_io := Suc (d_io d)\<rparr>)) in
                  if pressure then (min (gv_Limit g) (max 1 (ad_Start a)), d)
                  else (gv_Limit g, d))) in
      (limit, d\<lparr>d_admission := mput (tg_Name t) limit (d_admission d)\<rparr>))"

record scheduling =
  sc_Admission :: int
  sc_CapacityLimited :: bool
  sc_Mode :: string
  sc_Limit :: int
  sc_Ceiling :: int
  sc_Clean :: int
  sc_Landed :: int
  sc_Retried :: int
  sc_Failed :: int
  sc_Invalidated :: int
  sc_UsefulSeconds :: rat
  sc_WastedSeconds :: rat
  sc_Reason :: string
  sc_At :: go_time

definition schedulingSnapshot :: "daemon \<Rightarrow> target_cfg \<Rightarrow> scheduling option" where
  "schedulingSnapshot d t =
     (case tg_Adaptive t of
        None \<Rightarrow> None
      | Some a \<Rightarrow>
          (let g = governor_of d t a;
               admission = mget 0 (d_admission d) (tg_Name t);
               admission = (if admission = 0 then gv_Limit g else admission);
               admission = min admission (gv_Limit g) in
           Some \<lparr>sc_Admission = admission, sc_CapacityLimited = (admission < gv_Limit g),
             sc_Mode = tg_Mode t, sc_Limit = gv_Limit g, sc_Ceiling = schedulingCeiling t,
             sc_Clean = gv_Clean g, sc_Landed = gv_Landed g, sc_Retried = gv_Retried g,
             sc_Failed = gv_Failed g, sc_Invalidated = gv_Invalidated g,
             sc_UsefulSeconds = gv_UsefulSeconds g, sc_WastedSeconds = gv_WastedSeconds g,
             sc_Reason = gv_Reason g, sc_At = gv_At g\<rparr>))"

text \<open>The loop over \<open>r.results\<close>: seconds spent and wasted, whether a test was retried, and whether
  anything ran.\<close>

record run_cost =
  rc_spent :: rat
  rc_wasted :: rat
  rc_retried :: bool
  rc_executed :: bool

definition result_cost :: "check_result \<Rightarrow> rat" where
  "result_cost result =
     (let cost = duration_seconds (cr_Duration result);
          cpu = i64 (cr_UserCPU result + cr_SysCPU result) in
      if 0 < cpu then duration_seconds cpu else cost)"

definition add_cost :: "check_result \<Rightarrow> run_cost \<Rightarrow> run_cost" where
  "add_cost result rc =
     (if cr_Reused result then rc
      else (let executed = (rc_executed rc \<or> cr_Status result \<noteq> CheckSkipped);
                cost = result_cost result in
            rc\<lparr>rc_executed := executed,
               rc_spent := rc_spent rc + max 0 cost,
               rc_wasted := (if cr_VerificationID result = [] then rc_wasted rc + max 0 cost else rc_wasted rc),
               rc_retried := (rc_retried rc \<or> 1 < length (cr_TestAttempts result))\<rparr>))"

definition run_costs :: "run \<Rightarrow> run_cost" where
  "run_costs r =
     (let rc = fold (\<lambda>(_, result). add_cost result) (r_results r)
                 \<lparr>rc_spent = 0, rc_wasted = 0, rc_retried = False, rc_executed = False\<rparr> in
      rc\<lparr>rc_wasted := rc_wasted rc + r_abandonedSeconds r\<rparr>)"

text \<open>The \<open>switch\<close>; \<open>None\<close> where it returns.\<close>

definition governor_update ::
  "target_cfg \<Rightarrow> adaptive_scheduling \<Rightarrow> run \<Rightarrow> outcome \<Rightarrow> run_cost \<Rightarrow> governor \<Rightarrow> governor option" where
  "governor_update t a r oc rc g =
     (case oc of
        OutcomeLanded \<Rightarrow>
          (let g = g\<lparr>gv_Landed := i64 (gv_Landed g + int (length (r_members r))),
                     gv_UsefulSeconds := gv_UsefulSeconds g + rc_spent rc\<rparr> in
           Some (if rc_retried rc
                 then g\<lparr>gv_Retried := i64 (gv_Retried g + 1), gv_Clean := 0,
                        gv_Reason := ''retry recovered; holding concurrency''\<rparr>
                 else if rc_executed rc
                 then (let g = g\<lparr>gv_Clean := i64 (gv_Clean g + 1), gv_Reason := ''clean landing''\<rparr> in
                       if gv_Clean g \<ge> max 1 (ad_Successes a)
                       then g\<lparr>gv_Limit := min (schedulingCeiling t) (gv_Limit g + 1), gv_Clean := 0,
                              gv_Reason := ''clean landings increased concurrency''\<rparr>
                       else g)
                 else g\<lparr>gv_Reason := ''reused evidence; holding concurrency''\<rparr>))
      | OutcomeSkipped \<Rightarrow>
          Some (g\<lparr>gv_Invalidated := i64 (gv_Invalidated g + 1),
                  gv_WastedSeconds := gv_WastedSeconds g + rc_wasted rc, gv_Clean := 0,
                  gv_Limit := max 1 (go_div (gv_Limit g) 2),
                  gv_Reason := ''invalidated work reduced concurrency''\<rparr>)
      | OutcomeConflict \<Rightarrow> None
      | _ \<Rightarrow>
          (if r_verdict r \<noteq> verdictRejected \<and> r_verdict r \<noteq> verdictErrored then None
           else Some (g\<lparr>gv_Failed := i64 (gv_Failed g + 1),
                        gv_WastedSeconds := gv_WastedSeconds g + rc_wasted rc, gv_Clean := 0,
                        gv_Limit := max 1 (go_div (gv_Limit g) 2),
                        gv_Reason := ''failed validation reduced concurrency''\<rparr>)))"

definition feedback_id :: "run \<Rightarrow> outcome \<Rightarrow> string" where
  "feedback_id r oc = r_runID r @ ''/'' @ show_int (outcome_int oc)"

definition governorFeedback :: "daemon \<Rightarrow> target_cfg \<Rightarrow> run \<Rightarrow> outcome \<Rightarrow> daemon" where
  "governorFeedback d t r oc =
     (case tg_Adaptive t of
        None \<Rightarrow> d
      | Some a \<Rightarrow>
          if r_emergencyReason r \<noteq> [] then d
          else
           (let g = governor_of d t a in
            if feedback_id r oc \<in> set (gv_Recent g) then d
            else
             (let rc = run_costs r in
              if oc = OutcomeSkipped \<and> rc_wasted rc = 0 then d
              else (case governor_update t a r oc rc g of
                      None \<Rightarrow> d
                    | Some g \<Rightarrow>
                       (let recent = gv_Recent g @ [feedback_id r oc];
                            g = g\<lparr>gv_At := d_now d,
                                  gv_Recent := (if 128 < length recent then last_n 128 recent else recent)\<rparr>;
                            next = clone (d_controls d);
                            next = next\<lparr>ct_Governors := mput (tg_Name t) g (ct_Governors next)\<rparr> in
                        snd (saveControls d next))))))"

section \<open>Drain\<close>

datatype lifecycle_phase = LifecycleRunning | LifecycleDraining | LifecycleDrained

definition Drain :: "go_time \<Rightarrow> daemon \<Rightarrow> daemon" where
  "Drain deadline d =
     (let d = d\<lparr>d_drainReq := True\<rparr> in
      if deadline \<noteq> 0 \<and> (d_drainReqDL d = 0 \<or> deadline < d_drainReqDL d)
      then d\<lparr>d_drainReqDL := deadline\<rparr> else d)"

definition syncDrainRequest :: "daemon \<Rightarrow> daemon" where
  "syncDrainRequest d =
     (if \<not> d_drainReq d then d
      else
       (let d = (if \<not> d_draining d then d\<lparr>d_draining := True, d_drainSince := d_now d\<rparr> else d);
            dl = d_drainReqDL d in
        if dl \<noteq> 0 \<and> (d_drainDeadline d = 0 \<or> dl < d_drainDeadline d)
        then d\<lparr>d_drainDeadline := dl\<rparr> else d))"

definition activeRuns :: "daemon \<Rightarrow> nat" where
  "activeRuns d = fold (\<lambda>(_, runs) n. n + length runs) (d_lanes d) 0"

definition activeChecks :: "daemon \<Rightarrow> nat" where
  "activeChecks d =
     fold (\<lambda>(_, runs) n. fold (\<lambda>r n. n + length (r_inflight r)) runs n) (d_lanes d) 0"

definition drainComplete :: "daemon \<Rightarrow> bool" where
  "drainComplete d = (d_draining d \<and> activeRuns d = 0)"

definition lifecycle :: "daemon \<Rightarrow> lifecycle_phase" where
  "lifecycle d =
     (if \<not> d_draining d then LifecycleRunning
      else if activeRuns d = 0 then LifecycleDrained else LifecycleDraining)"

section \<open>Additive increase, multiplicative decrease\<close>

lemma schedulingCeiling_pos: "1 \<le> schedulingCeiling t"
  by (simp add: schedulingCeiling_def)

lemma governor_of_limit: "1 \<le> gv_Limit (governor_of d t a) \<and> gv_Limit (governor_of d t a) \<le> schedulingCeiling t"
  using schedulingCeiling_pos [of t] by (auto simp: governor_of_def Let_def)

lemma halved: "1 \<le> l \<Longrightarrow> max 1 (go_div l 2) = max 1 (l div 2) \<and> max 1 (l div 2) \<le> (l :: int)"
  by (simp add: go_div_nonneg)

lemma governor_update_limit:
  assumes "governor_update t a r oc rc g = Some g'" "1 \<le> gv_Limit g" "gv_Limit g \<le> schedulingCeiling t"
  shows "1 \<le> gv_Limit g' \<and> gv_Limit g' \<le> schedulingCeiling t \<and> gv_Recent g' = gv_Recent g"
  using assms schedulingCeiling_pos [of t] halved [of "gv_Limit g"]
  by (auto simp: governor_update_def Let_def split: outcome.splits if_splits)

text \<open>A feedback is either ignored or stores one updated governor.\<close>

lemma governorFeedback_cases:
  assumes "tg_Adaptive t = Some a"
  obtains (ignored) "governorFeedback d t r oc = d"
  | (stored) g "next" where "r_emergencyReason r = []" "feedback_id r oc \<notin> set (gv_Recent (governor_of d t a))"
      "governor_update t a r oc (run_costs r) (governor_of d t a) = Some g"
      "governorFeedback d t r oc = snd (saveControls d next)"
      "ct_Governors next = mput (tg_Name t)
         (g\<lparr>gv_At := d_now d, gv_Recent := last_n 128 (gv_Recent g @ [feedback_id r oc])\<rparr>)
         (ct_Governors (clone (d_controls d)))"
proof (cases "r_emergencyReason r \<noteq> [] \<or> feedback_id r oc \<in> set (gv_Recent (governor_of d t a))
    \<or> oc = OutcomeSkipped \<and> rc_wasted (run_costs r) = 0")
  case True
  then show ?thesis using assms ignored by (auto simp: governorFeedback_def Let_def)
next
  case nosk: False
  show ?thesis
  proof (cases "governor_update t a r oc (run_costs r) (governor_of d t a)")
    case None
    then show ?thesis using assms nosk ignored by (auto simp: governorFeedback_def Let_def)
  next
    case (Some g)
    have l: "last_n 128 (xs @ [x]) = xs @ [x]" if "\<not> 128 < Suc (length xs)" for xs and x :: string
      using that by (simp add: last_n_def)
    have "governorFeedback d t r oc = snd (saveControls d ((clone (d_controls d))\<lparr>ct_Governors := mput (tg_Name t)
         (g\<lparr>gv_At := d_now d, gv_Recent := last_n 128 (gv_Recent g @ [feedback_id r oc])\<rparr>)
         (ct_Governors (clone (d_controls d)))\<rparr>))"
      using assms nosk Some l by (auto simp: governorFeedback_def Let_def)
    then show ?thesis using nosk Some by (intro stored) auto
  qed
qed

lemma clone_Governors [simp]: "map_of (ct_Governors (clone c)) = map_of (ct_Governors c)"
  by (simp add: clone_def clone_entries_def)

text \<open>What a stored governor satisfies.\<close>

definition governor_ok :: "target_cfg \<Rightarrow> daemon \<Rightarrow> bool" where
  "governor_ok t d \<longleftrightarrow> (\<forall>g. map_of (ct_Governors (d_controls d)) (tg_Name t) = Some g \<longrightarrow>
     1 \<le> gv_Limit g \<and> gv_Limit g \<le> schedulingCeiling t \<and> length (gv_Recent g) \<le> 128 \<and> distinct (gv_Recent g))"

lemma governor_of_Recent:
  "gv_Recent (governor_of d t a) = gv_Recent (mget governor_zero (ct_Governors (d_controls d)) (tg_Name t))"
  by (simp add: governor_of_def Let_def)

lemma governorFeedback_ok:
  assumes "governor_ok t d"
  shows "governor_ok t (governorFeedback d t r oc)"
proof (cases "tg_Adaptive t")
  case None
  then show ?thesis using assms by (simp add: governorFeedback_def)
next
  case (Some a)
  then show ?thesis
  proof (cases rule: governorFeedback_cases [of t a d r oc])
    case ignored
    then show ?thesis using assms by simp
  next
    case (stored g "next")
    note u = governor_update_limit [OF stored(3)] governor_of_limit [of d t a]
    have "distinct (gv_Recent (governor_of d t a))"
      using assms by (auto simp: governor_of_Recent governor_ok_def mget_def governor_zero_def split: option.splits)
    then have "distinct (gv_Recent g @ [feedback_id r oc])" using u stored(2) by simp
    then show ?thesis using u by (auto simp: governor_ok_def stored(4,5) distinct_last_n)
  qed
qed

interpretation governor_sys: invariant_system "\<lambda>(r, oc) d. governorFeedback d t r oc" "governor_ok t" for t
  by unfold_locales (auto simp: governorFeedback_ok split: prod.splits)

text \<open>
  the concurrency limit of an adaptive target follows additive increase and multiplicative
  decrease.  Fresh feedback on a run that is not an emergency landing leaves the limit alone when tests
  were retried or nothing was executed, raises it by one (up to the ceiling) once enough clean
  landings in a row have accumulated, halves it (never below one) for checked rejections, errors and
  invalidated work, and ignores conflicts and rejections that no check caused.
\<close>

theorem governor_aimd:
  assumes "tg_Adaptive t = Some a" "r_emergencyReason r = []"
    and "feedback_id r oc \<notin> set (gv_Recent (governor_of d t a))"
    and "oc = OutcomeSkipped \<longrightarrow> rc_wasted (run_costs r) \<noteq> 0"
  shows "gv_Limit (governor_of (governorFeedback d t r oc) t a) =
    (let l = gv_Limit (governor_of d t a); rc = run_costs r in
     case oc of
       OutcomeLanded \<Rightarrow>
         if \<not> rc_retried rc \<and> rc_executed rc
            \<and> max 1 (ad_Successes a) \<le> i64 (gv_Clean (governor_of d t a) + 1)
         then min (schedulingCeiling t) (l + 1) else l
     | OutcomeConflict \<Rightarrow> l
     | OutcomeSkipped \<Rightarrow> max 1 (l div 2)
     | _ \<Rightarrow> if r_verdict r \<in> {verdictRejected, verdictErrored} then max 1 (l div 2) else l)"
proof -
  let ?g = "governor_of d t a"
  have lim: "1 \<le> gv_Limit ?g" "gv_Limit ?g \<le> schedulingCeiling t" using governor_of_limit by auto
  show ?thesis
  proof (cases "governor_update t a r oc (run_costs r) ?g")
    case None
    then have "governorFeedback d t r oc = d" using assms by (auto simp: governorFeedback_def Let_def)
    then show ?thesis using None
      by (auto simp: governor_update_def Let_def split: outcome.splits if_splits)
  next
    case (Some g)
    have "gv_Limit (governor_of (governorFeedback d t r oc) t a) = min (schedulingCeiling t) (max 1 (gv_Limit g))"
      using governor_update_limit [OF Some lim] assms Some
      by (auto simp: governorFeedback_def Let_def governor_of_def [of "snd _"])
    then have e: "gv_Limit (governor_of (governorFeedback d t r oc) t a) = gv_Limit g"
      using governor_update_limit [OF Some lim] by simp
    show ?thesis unfolding e using Some halved [OF lim(1)]
      by (cases oc) (auto simp: governor_update_def Let_def split: if_splits)
  qed
qed

definition sample_adaptive :: target_cfg where
  "sample_adaptive = sample_target\<lparr>tg_Mode := ''batch'', tg_MaxBatch := 8,
     tg_Adaptive := Some \<lparr>ad_Start = 6, ad_Successes = 2\<rparr>\<rparr>"

theorem governor_aimd_witness:
  "gv_Limit (governor_of (governorFeedback sample_daemon sample_adaptive
      (run_zero\<lparr>r_runID := ''r1'', r_verdict := verdictRejected\<rparr>) OutcomeRejected) sample_adaptive
      \<lparr>ad_Start = 6, ad_Successes = 2\<rparr>) = 3"
proof -
  have "gv_Limit (governor_of sample_daemon sample_adaptive \<lparr>ad_Start = 6, ad_Successes = 2\<rparr>) = 6" by code_simp
  moreover have "feedback_id (run_zero\<lparr>r_runID := ''r1'', r_verdict := verdictRejected\<rparr>) OutcomeRejected
      \<notin> set (gv_Recent (governor_of sample_daemon sample_adaptive \<lparr>ad_Start = 6, ad_Successes = 2\<rparr>))" by code_simp
  ultimately show ?thesis
    using governor_aimd [of sample_adaptive "\<lparr>ad_Start = 6, ad_Successes = 2\<rparr>"
        "run_zero\<lparr>r_runID := ''r1'', r_verdict := verdictRejected\<rparr>" OutcomeRejected sample_daemon]
    by (simp add: sample_adaptive_def run_zero_def)
qed

text \<open>
  After any sequence of feedback the stored governor keeps its limit between one and the
  target's ceiling and remembers at most 128 distinct feedback ids, and reporting the same outcome of the
  same run again changes nothing: a restart that replays an event never counts it twice.
\<close>

theorem governorFeedback_once:
  fixes t :: target_cfg and d :: daemon and history :: "(run \<times> outcome) list"
  assumes "governor_ok t d"
  defines "d' \<equiv> fold (\<lambda>(r, oc) d. governorFeedback d t r oc) history d"
  shows "governor_ok t d'
    \<and> governorFeedback (governorFeedback d' t r oc) t r oc = governorFeedback d' t r oc"
proof -
  have "governorFeedback (governorFeedback d' t r oc) t r oc = governorFeedback d' t r oc"
  proof (cases "tg_Adaptive t")
    case None
    then show ?thesis by (simp add: governorFeedback_def)
  next
    case (Some a)
    then show ?thesis
    proof (cases rule: governorFeedback_cases [of t a d' r oc])
      case (stored g "next")
      have "feedback_id r oc \<in> set (gv_Recent (governor_of (governorFeedback d' t r oc) t a))"
        by (simp add: governor_of_Recent stored(4,5) last_n_snoc)
      then show ?thesis using Some stored(1) by (simp add: governorFeedback_def [of "governorFeedback d' t r oc"] Let_def)
    qed simp
  qed
  moreover have "governor_ok t d'" unfolding d'_def by (rule governor_sys.run_inv [OF assms(1)])
  ultimately show ?thesis by blast
qed

theorem governorFeedback_once_witness:
  "governor_ok sample_adaptive sample_daemon
   \<and> governor_ok sample_adaptive (governorFeedback sample_daemon sample_adaptive
       (run_zero\<lparr>r_verdict := verdictRejected\<rparr>) OutcomeRejected)"
proof -
  have k: "governor_ok sample_adaptive sample_daemon"
    by (simp add: governor_ok_def sample_daemon_def controls_zero_def)
  then show ?thesis
    using governorFeedback_once [OF k, where history = "[(run_zero\<lparr>r_verdict := verdictRejected\<rparr>, OutcomeRejected)]"]
    by simp
qed

section \<open>A drain is never withdrawn\<close>

datatype drain_op = DrainRequest go_time | DrainSync go_time

text \<open>\<open>DrainSync now\<close> is the start of a reconcile pass at the time \<open>now\<close>.\<close>

fun drain_step :: "drain_op \<Rightarrow> daemon \<Rightarrow> daemon" where
  "drain_step (DrainRequest dl) d = Drain dl d"
| "drain_step (DrainSync now) d = syncDrainRequest (d\<lparr>d_now := now\<rparr>)"

definition drain_le :: "daemon \<Rightarrow> daemon \<Rightarrow> bool" where
  "drain_le d d' \<longleftrightarrow> (d_drainReq d \<longrightarrow> d_drainReq d')
     \<and> (d_draining d \<longrightarrow> d_draining d' \<and> d_drainSince d' = d_drainSince d)
     \<and> (d_drainReqDL d \<noteq> 0 \<longrightarrow> d_drainReqDL d' \<noteq> 0 \<and> d_drainReqDL d' \<le> d_drainReqDL d)
     \<and> (d_drainDeadline d \<noteq> 0 \<longrightarrow> d_drainDeadline d' \<noteq> 0 \<and> d_drainDeadline d' \<le> d_drainDeadline d)
     \<and> d_lanes d' = d_lanes d"

lemma drain_step_le: "drain_le d (drain_step x d)"
  by (cases x) (auto simp: drain_le_def Drain_def syncDrainRequest_def Let_def)

interpretation drain_sys: monotone_system drain_step drain_le
  by unfold_locales (auto simp: drain_step_le, auto simp: drain_le_def)

text \<open>
  once a drain was requested with some deadline, the next reconcile pass puts the daemon in
  the draining state with a deadline no later than the requested one, and no sequence of later
  requests and passes resumes admission, moves the start of the drain or postpones the deadline.
\<close>

theorem drain_irrevocable:
  fixes dl :: go_time and d :: daemon and ops :: "drain_op list"
  assumes "dl \<noteq> 0"
  defines "d1 \<equiv> syncDrainRequest (Drain dl d)"
  defines "d2 \<equiv> fold drain_step ops d1"
  shows "d_draining d2 \<and> d_drainSince d2 = d_drainSince d1
    \<and> d_drainDeadline d2 \<noteq> 0 \<and> d_drainDeadline d2 \<le> dl \<and> lifecycle d2 \<noteq> LifecycleRunning
    \<and> drainComplete d2 = (\<forall>(_, runs) \<in> set (d_lanes d). runs = [])"
proof -
  have le: "drain_le d1 d2" unfolding d2_def by (rule drain_sys.run_le)
  have 1: "d_draining d1" "d_drainDeadline d1 \<noteq> 0" "d_drainDeadline d1 \<le> dl" "d_lanes d1 = d_lanes d"
    using assms(1) by (auto simp: d1_def Drain_def syncDrainRequest_def Let_def)
  have "fold (\<lambda>(_, runs) n. n + length runs) ls m = 0 \<longleftrightarrow> m = 0 \<and> (\<forall>(_, runs) \<in> set ls. runs = [])"
    for ls :: "(string, lane) gomap" and m by (induction ls arbitrary: m) auto
  then have "activeRuns d2 = 0 \<longleftrightarrow> (\<forall>(_, runs) \<in> set (d_lanes d). runs = [])"
    using le 1(4) by (simp add: activeRuns_def drain_le_def)
  then show ?thesis using le 1 by (auto simp: drain_le_def lifecycle_def drainComplete_def)
qed

theorem drain_irrevocable_witness:
  "d_drainDeadline (fold drain_step [DrainRequest 9000, DrainSync 1200] (syncDrainRequest (Drain 5000 sample_daemon))) \<le> 5000"
  using drain_irrevocable [where dl = 5000 and d = sample_daemon and ops = "[DrainRequest 9000, DrainSync 1200]"] by simp

end
