(* ===== verification/Queue_Checks.thy ===== *)
theory Queue_Checks
  imports Queue_Governor
begin

text \<open>
  The check engine of a run (\<^verbatim>\<open>internal/queue/checkrun.go\<close>, and \<open>prepareEmergency\<close> and \<open>nodeGreen\<close>
  of \<^verbatim>\<open>internal/queue/controls.go\<close>): consuming worker results, deciding the verdict, starting ready
  nodes within the run's and the daemon's limits.  The operations take the daemon and the run and
  return both, updated.  A worker is the environment: it fills \<open>cif_result\<close> once.
\<close>

section \<open>Verdict of a node, emergency waivers\<close>

definition nodeGreen :: "run \<Rightarrow> check_result \<Rightarrow> bool" where
  "nodeGreen r result =
     (NodeGreen result \<or> (r_emergencyReason r \<noteq> [] \<and> cr_Err result = None \<and> cr_Status result = CheckWaived))"

definition revisions_match :: "revision list \<Rightarrow> run_member list \<Rightarrow> bool" where
  "revisions_match revs members =
     (length revs = length members
      \<and> list_all2 (\<lambda>v m. rev_Ref v = c_Ref (m_cand m) \<and> rev_SHA v = c_SHA (m_cand m)
                        \<and> rev_Version v = c_Version (m_cand m)) revs members)"

fun waive_checks ::
  "bool \<Rightarrow> string \<Rightarrow> int \<Rightarrow> check_cfg list \<Rightarrow> (string, check_result) gomap \<Rightarrow> (string, check_result) gomap" where
  "waive_checks receiptPolicy reason i [] results = results"
| "waive_checks receiptPolicy reason i (c # cs) results =
     (if receiptNodeName (ck_Name c) \<noteq> None \<or> (imageNodeName (ck_Name c) \<noteq> None \<and> receiptPolicy)
      then waive_checks receiptPolicy reason (i + 1) cs results
      else waive_checks receiptPolicy reason (i + 1) cs
             (mput (ck_Name c)
                (check_result_zero\<lparr>cr_Name := ck_Name c, cr_Seq := i + 1, cr_Command := ck_Command c,
                   cr_Status := CheckWaived, cr_Output := msg [''Operator bypass: '', reason]\<rparr>) results))"

definition prepareEmergency :: "daemon \<Rightarrow> run \<Rightarrow> run" where
  "prepareEmergency d r =
     (if r_controlPrepared r then r
      else case map_of (ct_Emergency (d_controls d)) (r_target r) of
        None \<Rightarrow> r
      | Some cmd \<Rightarrow>
          if \<not> revisions_match (cmd_Revisions cmd) (r_members r) then r
          else
           (let r = r\<lparr>r_controlPrepared := True\<rparr>;
                reason = msg [cmd_Actor cmd, '': '', cmd_Reason cmd] in
            if cmd_Kind cmd = CommandMergePaused
            then r\<lparr>r_overridePause := True, r_pauseOverrideReason := reason\<rparr>
            else r\<lparr>r_emergencyReason := reason, r_overridePause := cmd_OverridePause cmd,
                   r_results := waive_checks (cf_ReceiptNotes (d_cfg d) \<noteq> None) reason 0 (r_checks r) (r_results r)\<rparr>))"

section \<open>Consuming results\<close>

definition append_output :: "string \<Rightarrow> check_result \<Rightarrow> check_result" where
  "append_output text res =
     res\<lparr>cr_Output := msg [cr_Output res, if cr_Output res \<noteq> [] then [CHR 0x0A] else [], text]\<rparr>"

definition consume_image :: "string \<Rightarrow> run \<Rightarrow> check_result \<Rightarrow> run \<times> check_result" where
  "consume_image name r res =
     (case imageNodeName name of
        None \<Rightarrow> (r, res)
      | Some imgName \<Rightarrow>
          if cr_Err res \<noteq> None then (r, res)
          else (case cr_Status res of
                  CheckPassed \<Rightarrow>
                    (case validImageRef (cr_Image res) of
                       Inl err \<Rightarrow> (r, append_output (msg [''gauntlet: '', err])
                                      (res\<lparr>cr_Status := CheckFailed, cr_Image := []\<rparr>))
                     | Inr ref \<Rightarrow> (r\<lparr>r_imageRefs := mput imgName ref (r_imageRefs r)\<rparr>, res\<lparr>cr_Image := ref\<rparr>))
                | CheckSkipped \<Rightarrow>
                    (r, append_output ''gauntlet: an image build cannot report skipped''
                          (res\<lparr>cr_Status := CheckFailed\<rparr>))
                | _ \<Rightarrow> (r, res)))"

definition consume_receipt :: "daemon \<Rightarrow> string \<Rightarrow> run \<Rightarrow> check_result \<Rightarrow> run \<times> check_result" where
  "consume_receipt d name r res =
     (case receiptNodeName name of
        None \<Rightarrow> (r, res)
      | Some rcpName \<Rightarrow>
          if cr_Err res \<noteq> None then (r, res)
          else
           (let (r, res) =
              (case cr_Status res of
                 CheckPassed \<Rightarrow>
                   (let maxBytes = (case cf_ReceiptNotes (d_cfg d) of None \<Rightarrow> 0 | Some n \<Rightarrow> rn_MaxBytes n) in
                    case validReceipt (cr_Receipt res) maxBytes of
                      Inl err \<Rightarrow> (r, append_output (msg [''gauntlet: '', err]) (res\<lparr>cr_Status := CheckFailed\<rparr>))
                    | Inr payload \<Rightarrow> (r\<lparr>r_receiptPayload := Some payload, r_receiptProducer := rcpName\<rparr>, res))
               | CheckSkipped \<Rightarrow>
                   (r, append_output ''gauntlet: a receipt cannot report skipped'' (res\<lparr>cr_Status := CheckFailed\<rparr>))
               | _ \<Rightarrow> (r, res)) in
            (r, res\<lparr>cr_Receipt := None\<rparr>)))"

definition head_cand :: "run \<Rightarrow> candidate" where
  "head_cand r = m_cand (hd (r_members r))"

definition consume_one :: "daemon \<Rightarrow> target_cfg \<Rightarrow> run \<Rightarrow> string \<Rightarrow> daemon \<times> run" where
  "consume_one d t r name =
     (case map_of (r_inflight r) name of
        None \<Rightarrow> (d, r)
      | Some fl \<Rightarrow>
          (case cif_result fl of
             None \<Rightarrow> (d, r)
           | Some res \<Rightarrow>
               (let res = res\<lparr>cr_Waited := cif_waited fl\<rparr>;
                    (r, res) = consume_image name r res;
                    (r, res) = consume_receipt d name r res;
                    r = r\<lparr>r_inflight := mdel name (r_inflight r), r_results := mput name res (r_results r)\<rparr> in
                (emit d ((event_zero EventCheckFinished)\<lparr>ev_At := d_now d, ev_Target := tg_Name t,
                    ev_Candidate := head_cand r, ev_RunID := r_runID r, ev_CheckName := cr_Name res,
                    ev_Check := Some res\<rparr>), r))))"

fun consume_results :: "target_cfg \<Rightarrow> check_cfg list \<Rightarrow> daemon \<Rightarrow> run \<Rightarrow> daemon \<times> run" where
  "consume_results t [] d r = (d, r)"
| "consume_results t (c # cs) d r =
     (case consume_one d t r (ck_Name c) of (d, r) \<Rightarrow> consume_results t cs d r)"

section \<open>Cancelling and recording\<close>

definition abandoned :: "daemon \<Rightarrow> run \<Rightarrow> string \<times> check_in_flight \<Rightarrow> rat" where
  "abandoned d r ni =
     (case ni of (name, fl) \<Rightarrow>
        let reusable = list_ex (\<lambda>c. ck_Name c = name \<and> (case ck_Inputs c of None \<Rightarrow> False | Some xs \<Rightarrow> xs \<noteq> [])) (r_checks r) in
        if \<not> reusable \<and> cif_start fl \<noteq> 0
        then max 0 (duration_seconds (time_sub (d_now d) (cif_start fl))) else 0)"

definition cancelRun :: "daemon \<Rightarrow> run \<Rightarrow> run" where
  "cancelRun d r =
     r\<lparr>r_abandonedSeconds := fold (\<lambda>ni s. s + abandoned d r ni) (r_inflight r) (r_abandonedSeconds r),
       r_inflight := []\<rparr>"

definition dep_green :: "run \<Rightarrow> string \<Rightarrow> bool" where
  "dep_green r dep = (case map_of (r_results r) dep of None \<Rightarrow> False | Some res \<Rightarrow> nodeGreen r res)"

fun check_rows :: "run \<Rightarrow> int \<Rightarrow> check_cfg list \<Rightarrow> check_result list" where
  "check_rows r i [] = []"
| "check_rows r i (c # cs) =
     (case map_of (r_results r) (ck_Name c) of
        Some res \<Rightarrow> res\<lparr>cr_Seq := i + 1\<rparr> # check_rows r (i + 1) cs
      | None \<Rightarrow>
          if r_culprit r = [] then check_rows r (i + 1) cs
          else (let blockedBy = filter (\<lambda>dep. \<not> dep_green r dep) (ck_After c);
                    blockedBy = (if blockedBy = [] then [r_culprit r] else blockedBy) in
                check_result_zero\<lparr>cr_Name := ck_Name c, cr_Seq := i + 1, cr_Status := CheckBlocked,
                  cr_BlockedBy := blockedBy\<rparr> # check_rows r (i + 1) cs))"

definition materializeChecks :: "run \<Rightarrow> run" where
  "materializeChecks r =
     (if r_materialized r then r
      else (let out = check_rows r 0 (r_checks r) in
            r\<lparr>r_materialized := True,
              r_members := map (\<lambda>m. m\<lparr>m_rec := (m_rec m)\<lparr>rr_Checks := out\<rparr>\<rparr>) (r_members r)\<rparr>))"

section \<open>Starting a check\<close>

definition has_inputs :: "check_cfg \<Rightarrow> bool" where
  "has_inputs c = (case ck_Inputs c of None \<Rightarrow> False | Some xs \<Rightarrow> xs \<noteq> [])"

definition is_remote :: "daemon \<Rightarrow> string \<Rightarrow> bool" where
  "is_remote d executor = (case cf_RemoteExecutorProfile (d_cfg d) of None \<Rightarrow> False | Some f \<Rightarrow> f executor)"

text \<open>\<open>filepath.Join\<close> on components that are already clean.\<close>

definition check_log_path :: "daemon \<Rightarrow> run \<Rightarrow> int \<Rightarrow> string \<Rightarrow> string" where
  "check_log_path d r idx name =
     (if cf_LogDir (d_cfg d) = [] then []
      else str_join ''/'' [cf_LogDir (d_cfg d), r_runID r,
             msg [show_int (idx + 1), ''-'', SanitizeName name, ''.log.zst'']])"

definition make_job :: "daemon \<Rightarrow> run \<Rightarrow> int \<Rightarrow> check_cfg \<Rightarrow> check_job" where
  "make_job d r idx check =
     (let remote = is_remote d (ck_Executor check);
          job = check_job_zero\<lparr>j_HistoryMtimes := cf_HistoryMtimes (d_cfg d),
            j_TestResults := ck_TestResults check,
            j_RetryCommand := (case ck_RetryCommand check of None \<Rightarrow> [] | Some xs \<Rightarrow> xs),
            j_GitDir := cf_SourceGitDir (d_cfg d), j_RunID := r_runID r, j_Target := r_target r,
            j_Name := ck_Name check, j_Command := ck_Command check, j_Executor := ck_Executor check,
            j_Dir := r_dir r, j_Image := mget [] (r_imageRefs r) (ck_Image check),
            j_BaseSHA := r_baseOID r, j_MergeSHA := r_chainTip r, j_Candidate := head_cand r,
            j_Clean := False\<rparr>;
          job = (if remote
                 then job\<lparr>j_ServiceSpecs := cf_marshalServices (d_cfg d) (r_services r),
                          j_ServiceNeeds := ck_Needs check,
                          j_Priority := [''low'', ''normal'', ''high'', ''urgent''] ! nat (runPriority d r)\<rparr>
                 else job);
          job = job\<lparr>j_Candidates := map m_cand (r_members r)\<rparr>;
          job = (if imageNodeName (ck_Name check) \<noteq> None then job\<lparr>j_ImageBuild := True\<rparr> else job);
          job = (if receiptNodeName (ck_Name check) \<noteq> None
                 then job\<lparr>j_ReceiptCapture := True,
                          j_ReceiptMaxBytes := (case cf_ReceiptNotes (d_cfg d) of None \<Rightarrow> 0 | Some n \<Rightarrow> rn_MaxBytes n)\<rparr>
                 else job) in
      job\<lparr>j_LogPath := check_log_path d r idx (ck_Name check)\<rparr>)"

definition dependency_keys :: "daemon \<Rightarrow> run \<Rightarrow> check_cfg \<Rightarrow> string list" where
  "dependency_keys d r check =
     r_verificationGraphKey r
     # map (\<lambda>name. let key = cr_VerificationID (mget check_result_zero (r_results r) name) in
                   if key = [] then cf_nodeKey (d_cfg d) name (r_chainTip r) else key) (ck_After check)"

definition startCheck :: "daemon \<Rightarrow> run \<Rightarrow> int \<Rightarrow> check_cfg \<Rightarrow> daemon \<times> run" where
  "startCheck d r idx check =
     (let d = markCircuitProbe d r;
          job = make_job d r idx check;
          start = d_now d;
          (waited, r) = (case map_of (r_readyAt r) (ck_Name check) of
                           None \<Rightarrow> (0, r)
                         | Some at0 \<Rightarrow> (time_sub start at0, r\<lparr>r_readyAt := mdel (ck_Name check) (r_readyAt r)\<rparr>));
          sources = map (\<lambda>m. c_SHA (m_cand m)) (r_members r);
          (sources, deps, r) =
            (if has_inputs check
             then (let r = (if r_verificationGraphKey r = []
                            then r\<lparr>r_verificationGraphKey :=
                                   cf_graphKey (d_cfg d) (r_checks r) (r_maxParallel r) (r_isolated r)\<rparr>
                            else r) in
                   (sources @ [r_chainTip r], dependency_keys d r check, r))
             else (sources, [], r));
          d = d\<lparr>d_io := Suc (d_io d)\<rparr>;
          d = d\<lparr>d_jobs := d_jobs d @ [\<lparr>wj_job = job, wj_check = check, wj_tree = r_chainTree r,
                 wj_services = r_services r, wj_isolated = r_isolated r,
                 wj_remote = is_remote d (ck_Executor check), wj_deps = deps,
                 wj_sourceErr = g_RetainSources (d_git d) (d_io d) sources\<rparr>]\<rparr>;
          r = r\<lparr>r_inflight := mput (ck_Name check)
                 \<lparr>cif_name = ck_Name check, cif_result = None, cif_start = start, cif_waited = waited\<rparr>
                 (r_inflight r)\<rparr> in
      (emit d ((event_zero EventCheckStarted)\<lparr>ev_At := d_now d, ev_Target := r_target r,
          ev_Candidate := head_cand r, ev_RunID := r_runID r, ev_CheckName := ck_Name check\<rparr>), r))"

section \<open>One pass over a run\<close>

text \<open>The scheduler step: \<open>slotDenied\<close> and the remaining \<open>capacity\<close> are loop variables.\<close>

fun start_ready :: "int \<Rightarrow> check_cfg list \<Rightarrow> int \<Rightarrow> bool \<Rightarrow> daemon \<Rightarrow> run \<Rightarrow> daemon \<times> run" where
  "start_ready i [] capacity slotDenied d r = (d, r)"
| "start_ready i (c # cs) capacity slotDenied d r =
     (if capacity \<le> 0 then (d, r)
      else if mhas (r_results r) (ck_Name c) \<or> mhas (r_inflight r) (ck_Name c)
              \<or> \<not> list_all (dep_green r) (ck_After c)
      then start_ready (i + 1) cs capacity slotDenied d r
      else
       (let (got, slots) = (if slotDenied then (False, d_slots d)
                            else TryAcquirePriority (runUrgent d r) (d_slots d)) in
        if \<not> got
        then (let r = (if mhas (r_readyAt r) (ck_Name c) then r
                       else r\<lparr>r_readyAt := mput (ck_Name c) (d_now d) (r_readyAt r)\<rparr>) in
              start_ready (i + 1) cs (capacity - 1) True d r)
        else (case startCheck (d\<lparr>d_slots := slots\<rparr>) r i c of
                (d, r) \<Rightarrow> start_ready (i + 1) cs (capacity - 1) False d r)))"

definition worker_recovery :: string where
  "worker_recovery = ''worker recovery: ''"

text \<open>\<open>Inl\<close> where the pass ends because the executions could not be kept.\<close>

definition keep_executions :: "daemon \<Rightarrow> run \<Rightarrow> daemon + daemon" where
  "keep_executions d r =
     (let remoteGraph = list_ex (\<lambda>c. is_remote d (ck_Executor c)) (r_checks r) in
      case cf_KeepExecutions (d_cfg d) of
        None \<Rightarrow> Inr d
      | Some keep \<Rightarrow>
          if \<not> remoteGraph then Inr d
          else (let d = d\<lparr>d_io := Suc (d_io d)\<rparr> in
                case keep (d_io d) (r_runID r) (r_chainTip r) of
                  Some err \<Rightarrow> Inl (d\<lparr>d_controls := (d_controls d)\<lparr>ct_LastError := msg [worker_recovery, err]\<rparr>\<rparr>)
                | None \<Rightarrow>
                    Inr (if cut_prefix worker_recovery (ct_LastError (d_controls d)) \<noteq> None
                         then d\<lparr>d_controls := (d_controls d)\<lparr>ct_LastError := []\<rparr>\<rparr> else d)))"

fun first_red :: "run \<Rightarrow> check_cfg list \<Rightarrow> string option" where
  "first_red r [] = None"
| "first_red r (c # cs) =
     (case map_of (r_results r) (ck_Name c) of
        Some res \<Rightarrow> if nodeGreen r res then first_red r cs else Some (ck_Name c)
      | None \<Rightarrow> first_red r cs)"

definition find_culprit :: "daemon \<Rightarrow> run \<Rightarrow> run" where
  "find_culprit d r =
     (if r_culprit r \<noteq> [] then r
      else case first_red r (r_checks r) of
        None \<Rightarrow> r
      | Some name \<Rightarrow> cancelRun d (r\<lparr>r_culprit := name\<rparr>))"

definition conclude_red :: "run \<Rightarrow> run" where
  "conclude_red r =
     (if r_inflight r = []
      then (let r = materializeChecks r in
            r\<lparr>r_verdict := (if cr_Err (mget check_result_zero (r_results r) (r_culprit r)) \<noteq> None
                            then verdictErrored else verdictRejected)\<rparr>)
      else r)"

definition conclude_green :: "daemon \<Rightarrow> run \<Rightarrow> daemon \<times> run" where
  "conclude_green d r =
     (if length (r_results r) = length (r_checks r) \<and> r_inflight r = []
      then (let r = (materializeChecks r)\<lparr>r_verdict := verdictGreen\<rparr> in
            if cf_TrialRefs (d_cfg d) \<and> \<not> r_verifiedEmitted r
            then (let r = r\<lparr>r_verifiedEmitted := True\<rparr>;
                      detail = (if r_emergencyReason r \<noteq> []
                                then msg [''EMERGENCY: checks waived; '', r_emergencyReason r] else []) in
                  (emit d ((event_zero EventVerified)\<lparr>ev_At := d_now d, ev_Target := r_target r,
                      ev_Detail := detail, ev_Candidate := head_cand r, ev_RunID := r_runID r,
                      ev_MergeSHA := r_chainTip r\<rparr>), r))
            else (d, r))
      else (d, r))"

definition advanceChecks :: "daemon \<Rightarrow> target_cfg \<Rightarrow> run \<Rightarrow> daemon \<times> run" where
  "advanceChecks d t r =
     (case keep_executions d r of
        Inl d \<Rightarrow> (d, r)
      | Inr d \<Rightarrow>
          if r_verdict r \<noteq> verdictNone then (d, r)
          else
           (let (d, r) = consume_results t (r_checks r) d r;
                r = find_culprit d r in
            if r_culprit r \<noteq> [] then (d, conclude_red r)
            else
             (let (d, r) = start_ready 0 (r_checks r) (r_maxParallel r - int (length (r_inflight r))) False d r in
              conclude_green d r)))"

section \<open>Frames\<close>

text \<open>What each step leaves of the run alone.\<close>

lemma consume_image_frame [simp]:
  "r_checks (fst (consume_image name r res)) = r_checks r"
  "r_culprit (fst (consume_image name r res)) = r_culprit r"
  "r_verdict (fst (consume_image name r res)) = r_verdict r"
  "r_emergencyReason (fst (consume_image name r res)) = r_emergencyReason r"
  "r_maxParallel (fst (consume_image name r res)) = r_maxParallel r"
  "r_members (fst (consume_image name r res)) = r_members r"
  "r_inflight (fst (consume_image name r res)) = r_inflight r"
  "r_results (fst (consume_image name r res)) = r_results r"
  "r_runID (fst (consume_image name r res)) = r_runID r"
  "r_target (fst (consume_image name r res)) = r_target r"
  "r_chainTip (fst (consume_image name r res)) = r_chainTip r"
  "r_baseOID (fst (consume_image name r res)) = r_baseOID r"
  "r_materialized (fst (consume_image name r res)) = r_materialized r"
  "r_readyAt (fst (consume_image name r res)) = r_readyAt r"
  by (auto simp: consume_image_def split: option.splits check_status.splits sum.splits)

lemma consume_receipt_frame [simp]:
  "r_checks (fst (consume_receipt d name r res)) = r_checks r"
  "r_culprit (fst (consume_receipt d name r res)) = r_culprit r"
  "r_verdict (fst (consume_receipt d name r res)) = r_verdict r"
  "r_emergencyReason (fst (consume_receipt d name r res)) = r_emergencyReason r"
  "r_maxParallel (fst (consume_receipt d name r res)) = r_maxParallel r"
  "r_members (fst (consume_receipt d name r res)) = r_members r"
  "r_inflight (fst (consume_receipt d name r res)) = r_inflight r"
  "r_results (fst (consume_receipt d name r res)) = r_results r"
  "r_runID (fst (consume_receipt d name r res)) = r_runID r"
  "r_target (fst (consume_receipt d name r res)) = r_target r"
  "r_chainTip (fst (consume_receipt d name r res)) = r_chainTip r"
  "r_baseOID (fst (consume_receipt d name r res)) = r_baseOID r"
  "r_materialized (fst (consume_receipt d name r res)) = r_materialized r"
  "r_readyAt (fst (consume_receipt d name r res)) = r_readyAt r"
  by (auto simp: consume_receipt_def Let_def split: option.splits check_status.splits sum.splits)

lemma consume_one_frame [simp]:
  "r_checks (snd (consume_one d t r name)) = r_checks r"
  "r_culprit (snd (consume_one d t r name)) = r_culprit r"
  "r_verdict (snd (consume_one d t r name)) = r_verdict r"
  "r_emergencyReason (snd (consume_one d t r name)) = r_emergencyReason r"
  "r_maxParallel (snd (consume_one d t r name)) = r_maxParallel r"
  "r_members (snd (consume_one d t r name)) = r_members r"
  "r_runID (snd (consume_one d t r name)) = r_runID r"
  "r_target (snd (consume_one d t r name)) = r_target r"
  "r_chainTip (snd (consume_one d t r name)) = r_chainTip r"
  "r_baseOID (snd (consume_one d t r name)) = r_baseOID r"
  "r_materialized (snd (consume_one d t r name)) = r_materialized r"
  "r_readyAt (snd (consume_one d t r name)) = r_readyAt r"
  by (auto simp: consume_one_def Let_def split_beta split: option.split)

lemma consume_results_frame [simp]:
  "r_checks (snd (consume_results t cs d r)) = r_checks r"
  "r_culprit (snd (consume_results t cs d r)) = r_culprit r"
  "r_verdict (snd (consume_results t cs d r)) = r_verdict r"
  "r_emergencyReason (snd (consume_results t cs d r)) = r_emergencyReason r"
  "r_maxParallel (snd (consume_results t cs d r)) = r_maxParallel r"
  "r_members (snd (consume_results t cs d r)) = r_members r"
  "r_runID (snd (consume_results t cs d r)) = r_runID r"
  "r_target (snd (consume_results t cs d r)) = r_target r"
  "r_chainTip (snd (consume_results t cs d r)) = r_chainTip r"
  "r_baseOID (snd (consume_results t cs d r)) = r_baseOID r"
  "r_materialized (snd (consume_results t cs d r)) = r_materialized r"
  "r_readyAt (snd (consume_results t cs d r)) = r_readyAt r"
  by (induction cs arbitrary: d r) (simp_all add: split_beta)

lemma cancelRun_frame [simp]:
  "r_checks (cancelRun d r) = r_checks r" "r_culprit (cancelRun d r) = r_culprit r"
  "r_verdict (cancelRun d r) = r_verdict r"
  "r_emergencyReason (cancelRun d r) = r_emergencyReason r"
  "r_maxParallel (cancelRun d r) = r_maxParallel r" "r_members (cancelRun d r) = r_members r"
  "r_results (cancelRun d r) = r_results r" "r_runID (cancelRun d r) = r_runID r"
  "r_target (cancelRun d r) = r_target r" "r_chainTip (cancelRun d r) = r_chainTip r"
  "r_baseOID (cancelRun d r) = r_baseOID r" "r_materialized (cancelRun d r) = r_materialized r"
  "r_readyAt (cancelRun d r) = r_readyAt r"
  by (simp_all add: cancelRun_def)

lemma find_culprit_frame [simp]:
  "r_checks (find_culprit d r) = r_checks r" "r_verdict (find_culprit d r) = r_verdict r"
  "r_emergencyReason (find_culprit d r) = r_emergencyReason r"
  "r_maxParallel (find_culprit d r) = r_maxParallel r"
  "r_members (find_culprit d r) = r_members r" "r_results (find_culprit d r) = r_results r"
  "r_runID (find_culprit d r) = r_runID r" "r_target (find_culprit d r) = r_target r"
  "r_chainTip (find_culprit d r) = r_chainTip r" "r_baseOID (find_culprit d r) = r_baseOID r"
  "r_materialized (find_culprit d r) = r_materialized r"
  "r_readyAt (find_culprit d r) = r_readyAt r"
  by (auto simp: find_culprit_def split: option.split)

lemma materializeChecks_frame [simp]:
  "r_checks (materializeChecks r) = r_checks r" "r_culprit (materializeChecks r) = r_culprit r"
  "r_verdict (materializeChecks r) = r_verdict r"
  "r_emergencyReason (materializeChecks r) = r_emergencyReason r"
  "r_maxParallel (materializeChecks r) = r_maxParallel r"
  "r_inflight (materializeChecks r) = r_inflight r"
  "r_results (materializeChecks r) = r_results r" "r_runID (materializeChecks r) = r_runID r"
  "r_target (materializeChecks r) = r_target r" "r_chainTip (materializeChecks r) = r_chainTip r"
  "r_baseOID (materializeChecks r) = r_baseOID r" "r_readyAt (materializeChecks r) = r_readyAt r"
  by (auto simp: materializeChecks_def Let_def)

lemma startCheck_frame [simp]:
  "r_checks (snd (startCheck d r i c)) = r_checks r"
  "r_culprit (snd (startCheck d r i c)) = r_culprit r"
  "r_verdict (snd (startCheck d r i c)) = r_verdict r"
  "r_emergencyReason (snd (startCheck d r i c)) = r_emergencyReason r"
  "r_maxParallel (snd (startCheck d r i c)) = r_maxParallel r"
  "r_members (snd (startCheck d r i c)) = r_members r"
  "r_results (snd (startCheck d r i c)) = r_results r"
  "r_runID (snd (startCheck d r i c)) = r_runID r"
  "r_target (snd (startCheck d r i c)) = r_target r"
  "r_chainTip (snd (startCheck d r i c)) = r_chainTip r"
  "r_baseOID (snd (startCheck d r i c)) = r_baseOID r"
  "r_materialized (snd (startCheck d r i c)) = r_materialized r"
  by (auto simp: startCheck_def Let_def split_beta split: option.split)

lemma start_ready_frame [simp]:
  "r_checks (snd (start_ready i cs cap den d r)) = r_checks r"
  "r_culprit (snd (start_ready i cs cap den d r)) = r_culprit r"
  "r_verdict (snd (start_ready i cs cap den d r)) = r_verdict r"
  "r_emergencyReason (snd (start_ready i cs cap den d r)) = r_emergencyReason r"
  "r_maxParallel (snd (start_ready i cs cap den d r)) = r_maxParallel r"
  "r_members (snd (start_ready i cs cap den d r)) = r_members r"
  "r_results (snd (start_ready i cs cap den d r)) = r_results r"
  "r_runID (snd (start_ready i cs cap den d r)) = r_runID r"
  "r_target (snd (start_ready i cs cap den d r)) = r_target r"
  "r_chainTip (snd (start_ready i cs cap den d r)) = r_chainTip r"
  "r_baseOID (snd (start_ready i cs cap den d r)) = r_baseOID r"
  "r_materialized (snd (start_ready i cs cap den d r)) = r_materialized r"
  by (induction cs arbitrary: i cap den d r) (auto simp: Let_def split_beta)

lemma startCheck_inflight [simp]:
  "r_inflight (snd (startCheck d r i c)) = mput (ck_Name c)
     \<lparr>cif_name = ck_Name c, cif_result = None, cif_start = d_now (markCircuitProbe d r),
      cif_waited = (case map_of (r_readyAt r) (ck_Name c) of None \<Rightarrow> 0 | Some at0 \<Rightarrow> time_sub (d_now (markCircuitProbe d r)) at0)\<rparr>
     (r_inflight r)"
  by (auto simp: startCheck_def Let_def split_beta split: option.split)

lemma imageRefs_frame [simp]:
  "r_imageRefs (fst (consume_receipt d name r res)) = r_imageRefs r"
  "r_imageRefs (cancelRun d r) = r_imageRefs r"
  "r_imageRefs (find_culprit d r) = r_imageRefs r"
  "r_imageRefs (materializeChecks r) = r_imageRefs r"
  "r_imageRefs (snd (startCheck d r i c)) = r_imageRefs r"
  "r_imageRefs (snd (start_ready i cs cap den d r)) = r_imageRefs r"
proof -
  show "r_imageRefs (fst (consume_receipt d name r res)) = r_imageRefs r"
    by (auto simp: consume_receipt_def Let_def split: option.splits check_status.splits sum.splits)
  show "r_imageRefs (cancelRun d r) = r_imageRefs r" by (simp add: cancelRun_def)
  show "r_imageRefs (find_culprit d r) = r_imageRefs r"
    by (auto simp: find_culprit_def cancelRun_def split: option.split)
  show "r_imageRefs (materializeChecks r) = r_imageRefs r" by (simp add: materializeChecks_def Let_def)
  have *: "r_imageRefs (snd (startCheck d r i c)) = r_imageRefs r" for d r i c
    by (auto simp: startCheck_def Let_def split_beta split: option.split)
  show "r_imageRefs (snd (startCheck d r i c)) = r_imageRefs r" by (rule *)
  show "r_imageRefs (snd (start_ready i cs cap den d r)) = r_imageRefs r"
    by (induction cs arbitrary: i cap den d r) (auto simp: Let_def split_beta *)
qed

section \<open>The invariant of a run\<close>

text \<open>Names are distinct and not empty; results and in-flight checks are disjoint sets of nodes; a
  green image build has its validated reference on record.\<close>

definition images_ok :: "run \<Rightarrow> bool" where
  "images_ok r \<longleftrightarrow> (\<forall>name img res. imageNodeName name = Some img \<and> map_of (r_results r) name = Some res \<and> NodeGreen res
     \<longrightarrow> (\<exists>ref. map_of (r_imageRefs r) img = Some ref \<and> (localImageIDPattern ref \<or> digestRefPattern ref)))"

definition run_ok :: "run \<Rightarrow> bool" where
  "run_ok r \<longleftrightarrow> distinct (map ck_Name (r_checks r)) \<and> [] \<notin> ck_Name ` set (r_checks r)
     \<and> distinct (map fst (r_results r)) \<and> fst ` set (r_results r) \<subseteq> ck_Name ` set (r_checks r)
     \<and> distinct (map fst (r_inflight r)) \<and> fst ` set (r_inflight r) \<subseteq> ck_Name ` set (r_checks r)
     \<and> images_ok r"

lemma images_okD:
  "images_ok r \<Longrightarrow> imageNodeName name = Some img \<Longrightarrow> map_of (r_results r) name = Some res \<Longrightarrow> NodeGreen res \<Longrightarrow>
   \<exists>ref. map_of (r_imageRefs r) img = Some ref \<and> (localImageIDPattern ref \<or> digestRefPattern ref)"
  unfolding images_ok_def by meson

lemma keys_mput [simp]: "fst ` set (mput k v m) = insert k (fst ` set m)"
  by (simp add: dom_map_of_conv_image_fst [symmetric])

lemma keys_mdel [simp]: "fst ` set (mdel k m) = fst ` set m - {k}"
  by (auto simp: dom_map_of_conv_image_fst [symmetric])

lemma distinct_mput [simp]: "distinct (map fst (mput k v m)) = distinct (map fst m)"
proof (induction m)
  case (Cons a m)
  have "k \<noteq> fst a \<Longrightarrow> (fst a \<in> fst ` set (mput k v m)) = (fst a \<in> fst ` set m)" by simp
  with Cons show ?case by (cases a) (auto simp del: keys_mput)
qed simp

lemma distinct_mdel [simp]: "distinct (map fst m) \<Longrightarrow> distinct (map fst (mdel k m))"
  by (rule distinct_delete)

lemma mhas_keys: "mhas m k \<longleftrightarrow> k \<in> fst ` set m"
  by (simp add: mhas_iff)

lemma key_in: "map_of m k = Some v \<Longrightarrow> k \<in> fst ` set m"
  by (metis domI dom_map_of_conv_image_fst)

lemma validImageRef_pattern: "validImageRef raw = Inr ref \<Longrightarrow> localImageIDPattern ref \<or> digestRefPattern ref"
  by (auto simp: validImageRef_def Let_def split: if_splits)

lemma consume_image_ok:
  assumes "imageNodeName name = Some img" "NodeGreen (snd (consume_image name r res))"
  shows "\<exists>ref. map_of (r_imageRefs (fst (consume_image name r res))) img = Some ref
     \<and> (localImageIDPattern ref \<or> digestRefPattern ref)"
  using assms validImageRef_pattern
  by (auto simp: consume_image_def NodeGreen_def append_output_def
        split: option.splits check_status.splits sum.splits if_splits)

lemma consume_image_refs:
  "r_imageRefs (fst (consume_image name r res)) = r_imageRefs r \<or>
   (\<exists>img ref. imageNodeName name = Some img \<and> (localImageIDPattern ref \<or> digestRefPattern ref)
      \<and> r_imageRefs (fst (consume_image name r res)) = mput img ref (r_imageRefs r))"
  using validImageRef_pattern
  by (auto simp: consume_image_def split: option.splits check_status.splits sum.splits)

lemma consume_receipt_green: "NodeGreen (snd (consume_receipt d name r res)) \<Longrightarrow> NodeGreen res"
  by (auto simp: consume_receipt_def NodeGreen_def append_output_def Let_def
        split: option.splits check_status.splits sum.splits if_splits)

lemma consume_one_cases:
  obtains (idle) "consume_one d t r name = (d, r)"
      "\<And>fl. map_of (r_inflight r) name = Some fl \<Longrightarrow> cif_result fl = None"
  | (taken) fl raw res1 res2 where "map_of (r_inflight r) name = Some fl" "cif_result fl = Some raw"
      "res1 = snd (consume_image name r (raw\<lparr>cr_Waited := cif_waited fl\<rparr>))"
      "res2 = snd (consume_receipt d name (fst (consume_image name r (raw\<lparr>cr_Waited := cif_waited fl\<rparr>))) res1)"
      "r_inflight (snd (consume_one d t r name)) = mdel name (r_inflight r)"
      "r_results (snd (consume_one d t r name)) = mput name res2 (r_results r)"
      "r_imageRefs (snd (consume_one d t r name)) = r_imageRefs (fst (consume_image name r (raw\<lparr>cr_Waited := cif_waited fl\<rparr>)))"
proof (cases "map_of (r_inflight r) name")
  case None
  then show ?thesis by (intro idle) (auto simp: consume_one_def)
next
  case (Some fl)
  show ?thesis
  proof (cases "cif_result fl")
    case None
    then show ?thesis using Some by (intro idle) (auto simp: consume_one_def)
  next
    case raw: (Some raw)
    show ?thesis using Some raw
      by (intro taken [OF Some raw refl refl]) (auto simp: consume_one_def Let_def split_beta)
  qed
qed

lemma consume_one_ok:
  assumes "run_ok r"
  shows "run_ok (snd (consume_one d t r name))"
proof (cases rule: consume_one_cases [of d t r name])
  case idle
  then show ?thesis using assms by simp
next
  case (taken fl raw res1 res2)
  let ?r = "snd (consume_one d t r name)"
  have k: "name \<in> fst ` set (r_inflight r)" using taken(1) by (rule key_in)
  have img: "images_ok ?r"
    unfolding images_ok_def
  proof (intro allI impI, elim conjE)
    fix n img res
    assume n: "imageNodeName n = Some img" and res: "map_of (r_results ?r) n = Some res" and g: "NodeGreen res"
    show "\<exists>ref. map_of (r_imageRefs ?r) img = Some ref \<and> (localImageIDPattern ref \<or> digestRefPattern ref)"
    proof (cases "n = name")
      case True
      then have "NodeGreen res1" using res g taken(4,6) consume_receipt_green by (auto split: if_splits)
      then show ?thesis unfolding taken(7) using consume_image_ok [of name img r] n True taken(3) by simp
    next
      case False
      then have "map_of (r_results r) n = Some res" using res taken(6) by simp
      then obtain ref where "map_of (r_imageRefs r) img = Some ref" "localImageIDPattern ref \<or> digestRefPattern ref"
        using images_okD [of r n img res] assms n g by (auto simp: run_ok_def)
      then show ?thesis unfolding taken(7) using consume_image_refs [of name r "raw\<lparr>cr_Waited := cif_waited fl\<rparr>"] by auto
    qed
  qed
  have "fst ` set (r_inflight r) \<subseteq> ck_Name ` set (r_checks r)" using assms by (simp add: run_ok_def)
  then have "name \<in> ck_Name ` set (r_checks r)" using k by blast
  then show ?thesis using assms img by (auto simp: run_ok_def taken(5,6) simp del: set_map)
qed

lemma consume_results_ok: "run_ok r \<Longrightarrow> run_ok (snd (consume_results t cs d r))"
  by (induction cs arbitrary: d r) (simp_all add: split_beta consume_one_ok)

lemma find_culprit_ok: "run_ok r \<Longrightarrow> run_ok (find_culprit d r)"
  by (auto simp: run_ok_def find_culprit_def cancelRun_def images_ok_def split: option.split)

lemma startCheck_ok:
  "run_ok r \<Longrightarrow> c \<in> set (r_checks r) \<Longrightarrow> ck_Name c \<notin> fst ` set (r_results r) \<Longrightarrow> run_ok (snd (startCheck d r i c))"
  by (auto simp: run_ok_def images_ok_def simp del: set_map)

lemma run_ok_readyAt [simp]: "run_ok (r\<lparr>r_readyAt := x\<rparr>) = run_ok r"
  by (simp add: run_ok_def images_ok_def)

lemma start_ready_ok: "run_ok r \<Longrightarrow> set cs \<subseteq> set (r_checks r) \<Longrightarrow> run_ok (snd (start_ready i cs cap den d r))"
proof (induction cs arbitrary: i cap den d r)
  case (Cons c cs)
  have "run_ok (snd (startCheck d' r i c))" if "\<not> mhas (r_results r) (ck_Name c)" for d'
    using Cons.prems that by (intro startCheck_ok) (auto simp: mhas_keys)
  with Cons show ?case by (auto simp: Let_def split_beta)
qed simp

lemma run_ok_conclude [simp]: "run_ok (r\<lparr>r_verdict := v\<rparr>) = run_ok r" "run_ok (r\<lparr>r_verifiedEmitted := b\<rparr>) = run_ok r"
  "run_ok (materializeChecks r) = run_ok r"
  by (auto simp: run_ok_def images_ok_def)

lemma conclude_ok: "run_ok r \<Longrightarrow> run_ok (conclude_red r)" "run_ok r \<Longrightarrow> run_ok (snd (conclude_green d r))"
  by (auto simp: conclude_red_def conclude_green_def Let_def)

lemma advanceChecks_ok: "run_ok r \<Longrightarrow> run_ok (snd (advanceChecks d t r))"
  by (auto simp: advanceChecks_def Let_def split_beta conclude_ok start_ready_ok find_culprit_ok consume_results_ok
        split: sum.splits)

section \<open>Red results decide the verdict\<close>

lemma first_red_None: "first_red r cs = None \<longleftrightarrow>
    (\<forall>c \<in> set cs. \<forall>res. map_of (r_results r) (ck_Name c) = Some res \<longrightarrow> nodeGreen r res)"
  by (induction cs) (auto split: option.splits)

lemma first_red_Some: "first_red r cs = Some name \<Longrightarrow> \<exists>c res. c \<in> set cs \<and> ck_Name c = name
    \<and> map_of (r_results r) name = Some res \<and> \<not> nodeGreen r res"
  by (induction cs) (auto split: option.splits if_splits)

lemma first_red_split:
  "first_red r cs = Some name \<Longrightarrow>
   \<exists>pre c post res. cs = pre @ c # post \<and> ck_Name c = name \<and> map_of (r_results r) (ck_Name c) = Some res
      \<and> \<not> nodeGreen r res \<and> (\<forall>b \<in> set pre. \<forall>res. map_of (r_results r) (ck_Name b) = Some res \<longrightarrow> nodeGreen r res)"
proof (induction cs)
  case (Cons c cs)
  show ?case
  proof (cases "\<exists>res. map_of (r_results r) (ck_Name c) = Some res \<and> \<not> nodeGreen r res")
    case True
    then show ?thesis using Cons.prems by (intro exI [of _ "[]"]) auto
  next
    case False
    then have "first_red r cs = Some name" using Cons.prems by (auto split: option.splits)
    then obtain pre b post res where "cs = pre @ b # post" "ck_Name b = name"
      "map_of (r_results r) (ck_Name b) = Some res" "\<not> nodeGreen r res"
      "\<forall>b \<in> set pre. \<forall>res. map_of (r_results r) (ck_Name b) = Some res \<longrightarrow> nodeGreen r res"
      using Cons.IH by blast
    then show ?thesis using False
      by (intro exI [of _ "c # pre"] exI [of _ b] exI [of _ post] exI [of _ res]) auto
  qed
qed simp

lemma nodeGreen_cong: "r_emergencyReason r' = r_emergencyReason r \<Longrightarrow> nodeGreen r' res = nodeGreen r res"
  by (simp add: nodeGreen_def)

lemma find_culprit_cases:
  assumes "run_ok r" "r_culprit r = []"
  shows "if r_culprit (find_culprit d r) = []
     then find_culprit d r = r \<and> (\<forall>name res. map_of (r_results r) name = Some res \<longrightarrow> nodeGreen r res)
     else (\<exists>res. map_of (r_results r) (r_culprit (find_culprit d r)) = Some res \<and> \<not> nodeGreen r res)
        \<and> first_red r (r_checks r) = Some (r_culprit (find_culprit d r)) \<and> r_inflight (find_culprit d r) = []"
proof (cases "first_red r (r_checks r)")
  case None
  have "nodeGreen r res" if "map_of (r_results r) name = Some res" for name res
  proof -
    have "name \<in> ck_Name ` set (r_checks r)" using assms(1) key_in [OF that] unfolding run_ok_def by blast
    then show ?thesis using None that by (auto simp: first_red_None)
  qed
  then show ?thesis using None assms by (simp add: find_culprit_def)
next
  case (Some name)
  then have "name \<noteq> []" using first_red_Some [OF Some] assms(1) by (force simp: run_ok_def)
  then show ?thesis using Some assms first_red_Some [OF Some] by (auto simp: find_culprit_def cancelRun_def)
qed

lemma length_eq_all_keys:
  assumes "run_ok r" "length (r_results r) = length (r_checks r)"
  shows "fst ` set (r_results r) = ck_Name ` set (r_checks r)"
proof (rule card_seteq)
  have "card (ck_Name ` set (r_checks r)) = length (r_checks r)"
    using assms(1) by (metis distinct_card length_map run_ok_def set_map)
  moreover have "card (fst ` set (r_results r)) = length (r_results r)"
    using assms(1) by (metis distinct_card length_map run_ok_def set_map)
  ultimately show "card (ck_Name ` set (r_checks r)) \<le> card (fst ` set (r_results r))" using assms(2) by simp
qed (use assms(1) in \<open>auto simp: run_ok_def\<close>)

text \<open>The rows \<open>materializeChecks\<close> writes.\<close>

lemma check_rows_all:
  "(\<forall>c \<in> set cs. mhas (r_results r) (ck_Name c)) \<Longrightarrow> length (check_rows r i cs) = length cs
   \<and> (\<forall>k < length cs. check_rows r i cs ! k =
        (mget check_result_zero (r_results r) (ck_Name (cs ! k)))\<lparr>cr_Seq := i + int k + 1\<rparr>)"
proof (induction cs arbitrary: i)
  case (Cons c cs)
  then obtain res where res: "map_of (r_results r) (ck_Name c) = Some res" by (auto simp: mhas_def)
  then have rows: "check_rows r i (c # cs) = res\<lparr>cr_Seq := i + 1\<rparr> # check_rows r (i + 1) cs" by simp
  show ?case unfolding rows using Cons.IH [of "i + 1"] Cons.prems mget_Some [OF res]
    by (auto simp: nth_Cons' add.assoc of_nat_diff)
qed simp

definition run_live :: "run \<Rightarrow> bool" where
  "run_live r \<longleftrightarrow> run_ok r \<and> (r_verdict r = verdictNone \<longrightarrow> r_culprit r = [] \<and> \<not> r_materialized r)"

lemma conclude_green_run:
  "r_results (snd (conclude_green d r)) = r_results r" "r_inflight (snd (conclude_green d r)) = r_inflight r"
  "r_culprit (snd (conclude_green d r)) = r_culprit r" "r_checks (snd (conclude_green d r)) = r_checks r"
  "r_verdict (snd (conclude_green d r)) =
     (if length (r_results r) = length (r_checks r) \<and> r_inflight r = [] then verdictGreen else r_verdict r)"
  "r_members (snd (conclude_green d r)) =
     (if length (r_results r) = length (r_checks r) \<and> r_inflight r = [] then r_members (materializeChecks r) else r_members r)"
  "r_materialized (snd (conclude_green d r)) =
     (if length (r_results r) = length (r_checks r) \<and> r_inflight r = [] then True else r_materialized r)"
  by (auto simp: conclude_green_def Let_def materializeChecks_def)

lemma conclude_red_run:
  assumes "r_inflight r = []"
  shows "r_results (conclude_red r) = r_results r" "r_inflight (conclude_red r) = []"
    "r_culprit (conclude_red r) = r_culprit r" "r_checks (conclude_red r) = r_checks r"
    "r_members (conclude_red r) = r_members (materializeChecks r)"
    "r_verdict (conclude_red r) = (if cr_Err (mget check_result_zero (r_results r) (r_culprit r)) \<noteq> None
                            then verdictErrored else verdictRejected)"
  using assms by (auto simp: conclude_red_def Let_def materializeChecks_def)

text \<open>A pass over a run without verdict either stops at once (executions not kept), ends red, or goes
  on to start checks; \<open>r1\<close> is the run after the results were consumed.\<close>

lemma advanceChecks_cases:
  assumes "run_live r" "r_verdict r = verdictNone"
  obtains (stopped) d1 where "keep_executions d r = Inl d1" "advanceChecks d t r = (d1, r)"
  | (red) d1 r1 where "run_ok r1" "r_culprit r1 \<noteq> []" "r_inflight r1 = []"
      "first_red r1 (r_checks r) = Some (r_culprit r1)"
      "r_results r1 = r_results (snd (consume_results t (r_checks r) d1 r))"
      "r_checks r1 = r_checks r" "r_members r1 = r_members r" "\<not> r_materialized r1"
      "r_emergencyReason r1 = r_emergencyReason r"
      "snd (advanceChecks d t r) = conclude_red r1" "d_jobs (fst (advanceChecks d t r)) = d_jobs (fst (consume_results t (r_checks r) d1 r))"
      "keep_executions d r = Inr d1"
  | (going) d0 d1 r1 where "keep_executions d r = Inr d0" "(d1, r1) = consume_results t (r_checks r) d0 r"
      "run_ok r1" "r_culprit r1 = []"
      "\<And>name res. map_of (r_results r1) name = Some res \<Longrightarrow> nodeGreen r1 res"
      "advanceChecks d t r = (case start_ready 0 (r_checks r) (r_maxParallel r - int (length (r_inflight r1))) False d1 r1 of
           (d2, r2) \<Rightarrow> conclude_green d2 r2)"
proof (cases "keep_executions d r")
  case (Inl d1)
  then show ?thesis by (intro stopped [of d1]) (simp_all add: advanceChecks_def)
next
  case (Inr d0)
  obtain d1 r1 where c: "consume_results t (r_checks r) d0 r = (d1, r1)" by (cases "consume_results t (r_checks r) d0 r")
  then have snd: "r1 = snd (consume_results t (r_checks r) d0 r)" by simp
  have ok: "run_ok r1" unfolding snd using assms by (simp add: run_live_def consume_results_ok)
  have st: "r_checks r1 = r_checks r" "r_culprit r1 = []" "r_members r1 = r_members r" "\<not> r_materialized r1"
    "r_emergencyReason r1 = r_emergencyReason r" "r_maxParallel r1 = r_maxParallel r"
    unfolding snd using assms by (simp_all add: run_live_def)
  note fc = find_culprit_cases [OF ok st(2), of d1]
  show ?thesis
  proof (cases "r_culprit (find_culprit d1 r1) = []")
    case True
    then have "find_culprit d1 r1 = r1" using fc by simp
    then show ?thesis using fc True Inr c st ok assms(2)
      by (intro going [OF Inr c [symmetric] ok st(2)]) (auto simp: advanceChecks_def Let_def)
  next
    case False
    have ok2: "run_ok (find_culprit d1 r1)" using ok by (rule find_culprit_ok)
    have fr: "first_red (find_culprit d1 r1) cs = first_red r1 cs" for cs
      by (induction cs) (auto simp: nodeGreen_def split: option.split)
    have adv: "advanceChecks d t r = (d1, conclude_red (find_culprit d1 r1))"
      using False Inr c assms(2) by (simp add: advanceChecks_def Let_def)
    show ?thesis
      by (rule red [OF ok2 False, of d0]) (use fc False adv Inr c st in \<open>auto simp: fr\<close>)
  qed
qed

lemma advanceChecks_live:
  assumes "run_live r"
  shows "run_live (snd (advanceChecks d t r))"
proof (cases "r_verdict r = verdictNone")
  case False
  then show ?thesis using assms by (auto simp: advanceChecks_def split: sum.splits)
next
  case True
  have ok: "run_ok (snd (advanceChecks d t r))" using assms by (simp add: run_live_def advanceChecks_ok)
  show ?thesis using assms True
  proof (cases rule: advanceChecks_cases [where d = d and t = t])
    case (red d1 r1)
    then show ?thesis using ok conclude_red_run(6) [OF red(3)] by (simp add: run_live_def)
  next
    case (going d0 d1 r1)
    have "r_culprit r1 = [] \<and> \<not> r_materialized r1"
      using going(2) assms True by (metis consume_results_frame(2) consume_results_frame(11) run_live_def snd_conv)
    then show ?thesis using ok going(6) by (auto simp: run_live_def split_beta conclude_green_run)
  qed (simp add: assms)
qed

section \<open>What the verdict means\<close>

lemma advanceChecks_means:
  assumes "run_live r" "r_verdict r = verdictNone" "r_verdict r' \<noteq> verdictNone" "advanceChecks d t r = (d', r')"
  shows "r_inflight r' = [] \<and>
    (if r_verdict r' = verdictGreen
     then (\<forall>c \<in> set (r_checks r). \<exists>res. map_of (r_results r') (ck_Name c) = Some res \<and> nodeGreen r res)
        \<and> (\<forall>m \<in> set (r_members r'). length (rr_Checks (m_rec m)) = length (r_checks r)
             \<and> (\<forall>k < length (r_checks r). nodeGreen r (rr_Checks (m_rec m) ! k)
                  \<and> cr_Seq (rr_Checks (m_rec m) ! k) = int k + 1))
     else (\<exists>pre c post res. r_checks r = pre @ c # post \<and> ck_Name c = r_culprit r'
        \<and> map_of (r_results r') (ck_Name c) = Some res \<and> \<not> nodeGreen r res
        \<and> (\<forall>b \<in> set pre. \<forall>res. map_of (r_results r') (ck_Name b) = Some res \<longrightarrow> nodeGreen r res)
        \<and> (r_verdict r' = verdictErrored \<longleftrightarrow> cr_Err res \<noteq> None)))"
  using assms(1,2)
proof (cases rule: advanceChecks_cases [where d = d and t = t])
  case (stopped d1)
  then show ?thesis using assms by simp
next
  case (red d1 r1)
  have r': "r' = conclude_red r1" using red(10) assms(4) by simp
  note run = conclude_red_run [OF red(3)]
  have ng: "nodeGreen r1 = nodeGreen r" using red(9) by (simp add: nodeGreen_def fun_eq_iff)
  obtain pre c post res where w: "r_checks r = pre @ c # post" "ck_Name c = r_culprit r1"
    "map_of (r_results r1) (ck_Name c) = Some res" "\<not> nodeGreen r res"
    "\<forall>b \<in> set pre. \<forall>res. map_of (r_results r1) (ck_Name b) = Some res \<longrightarrow> nodeGreen r res"
    using first_red_split [OF red(4)] ng by metis
  have v: "r_verdict r' \<noteq> verdictGreen" "r_verdict r' = verdictErrored \<longleftrightarrow> cr_Err res \<noteq> None"
    unfolding r' run using w by (simp_all add: mget_Some)
  have "\<exists>pre c post res. r_checks r = pre @ c # post \<and> ck_Name c = r_culprit r'
        \<and> map_of (r_results r') (ck_Name c) = Some res \<and> \<not> nodeGreen r res
        \<and> (\<forall>b \<in> set pre. \<forall>res. map_of (r_results r') (ck_Name b) = Some res \<longrightarrow> nodeGreen r res)
        \<and> (r_verdict r' = verdictErrored \<longleftrightarrow> cr_Err res \<noteq> None)"
    unfolding v(2) unfolding r' run using w by (intro exI [of _ pre] exI [of _ c] exI [of _ post] exI [of _ res]) simp
  then show ?thesis using v(1) run(2) r' by simp
next
  case (going d0 d1 r1)
  let ?s = "start_ready 0 (r_checks r) (r_maxParallel r - int (length (r_inflight r1))) False d1 r1"
  have "snd (advanceChecks d t r) = snd (conclude_green (fst ?s) (snd ?s))" unfolding going(6) by (simp add: split_beta)
  then have r': "r' = snd (conclude_green (fst ?s) (snd ?s))" using assms(4) by simp
  have same: "r_results (snd ?s) = r_results r1" "r_checks (snd ?s) = r_checks r" "r_verdict (snd ?s) = verdictNone"
    "\<not> r_materialized (snd ?s)" "r_members (snd ?s) = r_members r" "nodeGreen r1 = nodeGreen r" "r_checks r1 = r_checks r"
    using consume_results_frame [of t "r_checks r" d0 r] going(2) [symmetric] assms(1,2)
    by (auto simp: run_live_def nodeGreen_def fun_eq_iff)
  have full: "length (r_results r1) = length (r_checks r)" "r_inflight (snd ?s) = []"
    using assms(3) same by (auto simp: r' conclude_green_run split: if_splits)
  have keys: "fst ` set (r_results r1) = ck_Name ` set (r_checks r)"
    using length_eq_all_keys [OF going(3)] full same(7) by simp
  have all: "\<exists>res. map_of (r_results r1) (ck_Name c) = Some res \<and> nodeGreen r res" if "c \<in> set (r_checks r)" for c
  proof -
    have "ck_Name c \<in> fst ` set (r_results r1)" using keys that by simp
    then obtain res where "map_of (r_results r1) (ck_Name c) = Some res"
      by (metis dom_map_of_conv_image_fst domD)
    then show ?thesis using going(5) same(6) by auto
  qed
  have rows: "length (check_rows (snd ?s) 0 (r_checks r)) = length (r_checks r)
    \<and> (\<forall>k < length (r_checks r). check_rows (snd ?s) 0 (r_checks r) ! k =
        (mget check_result_zero (r_results r1) (ck_Name (r_checks r ! k)))\<lparr>cr_Seq := int k + 1\<rparr>)"
    using check_rows_all [of "r_checks r" "snd ?s" 0] all same(1) by (auto simp: mhas_def)
  have "nodeGreen r (check_rows (snd ?s) 0 (r_checks r) ! k) \<and> cr_Seq (check_rows (snd ?s) 0 (r_checks r) ! k) = int k + 1"
    if k: "k < length (r_checks r)" for k
  proof -
    obtain res where "map_of (r_results r1) (ck_Name (r_checks r ! k)) = Some res" "nodeGreen r res"
      using all [OF nth_mem [OF k]] by blast
    then show ?thesis using rows k by (auto simp: mget_Some nodeGreen_def NodeGreen_def)
  qed
  then show ?thesis using full all rows same assms(3)
    by (auto simp: r' conclude_green_run materializeChecks_def Let_def)
qed

text \<open>
  C24: a run is called green only when every node of its graph has a green result (passed,
  skipped, or waived under an emergency authorization), nothing is in flight, and every member's record then
  lists exactly one row per node in spec order.  It is called red only when the recorded culprit is the
  first node in spec order with a red result: errored if that result carries an executor error, rejected
  otherwise.
\<close>

theorem advanceChecks_verdict:
  assumes "run_live r" "r_verdict r = verdictNone" "r_verdict r' \<noteq> verdictNone" "advanceChecks d t r = (d', r')"
  shows "r_inflight r' = [] \<and>
    (if r_verdict r' = verdictGreen
     then (\<forall>c \<in> set (r_checks r). \<exists>res. map_of (r_results r') (ck_Name c) = Some res \<and> nodeGreen r res)
        \<and> (\<forall>m \<in> set (r_members r'). length (rr_Checks (m_rec m)) = length (r_checks r)
             \<and> (\<forall>k < length (r_checks r). nodeGreen r (rr_Checks (m_rec m) ! k)
                  \<and> cr_Seq (rr_Checks (m_rec m) ! k) = int k + 1))
     else (\<exists>pre c post res. r_checks r = pre @ c # post \<and> ck_Name c = r_culprit r'
        \<and> map_of (r_results r') (ck_Name c) = Some res \<and> \<not> nodeGreen r res
        \<and> (\<forall>b \<in> set pre. \<forall>res. map_of (r_results r') (ck_Name b) = Some res \<longrightarrow> nodeGreen r res)
        \<and> (r_verdict r' = verdictErrored \<longleftrightarrow> cr_Err res \<noteq> None)))"
  by (rule advanceChecks_means [OF assms])

section \<open>What is started\<close>

lemma markCircuitProbe_frame [simp, frame_simps]:
  "d_admission (markCircuitProbe d r) = d_admission d"
  "d_schedulerDirty (markCircuitProbe d r) = d_schedulerDirty d"
  "d_external (markCircuitProbe d r) = d_external d" "d_git (markCircuitProbe d r) = d_git d"
  "d_cfg (markCircuitProbe d r) = d_cfg d" "d_slots (markCircuitProbe d r) = d_slots d"
  "d_now (markCircuitProbe d r) = d_now d" "d_order (markCircuitProbe d r) = d_order d"
  "d_done (markCircuitProbe d r) = d_done d" "d_seq (markCircuitProbe d r) = d_seq d"
  "d_autoRetried (markCircuitProbe d r) = d_autoRetried d"
  "d_ignoredRefs (markCircuitProbe d r) = d_ignoredRefs d"
  "d_lanes (markCircuitProbe d r) = d_lanes d"
  "d_urgentBurst (markCircuitProbe d r) = d_urgentBurst d"
  "d_batchRecovery (markCircuitProbe d r) = d_batchRecovery d"
  "d_batchFallback (markCircuitProbe d r) = d_batchFallback d"
  "d_seeded (markCircuitProbe d r) = d_seeded d"
  "d_landedPins (markCircuitProbe d r) = d_landedPins d"
  "d_trialReap (markCircuitProbe d r) = d_trialReap d" "d_tick (markCircuitProbe d r) = d_tick d"
  "d_drainReq (markCircuitProbe d r) = d_drainReq d"
  "d_drainReqDL (markCircuitProbe d r) = d_drainReqDL d"
  "d_draining (markCircuitProbe d r) = d_draining d"
  "d_drainSince (markCircuitProbe d r) = d_drainSince d"
  "d_drainDeadline (markCircuitProbe d r) = d_drainDeadline d"
  "d_runIDCounter (markCircuitProbe d r) = d_runIDCounter d"
  "d_remote (markCircuitProbe d r) = d_remote d" "d_pushes (markCircuitProbe d r) = d_pushes d"
  "d_pins (markCircuitProbe d r) = d_pins d" "d_events (markCircuitProbe d r) = d_events d"
  "d_jobs (markCircuitProbe d r) = d_jobs d"
  by (auto simp: markCircuitProbe_def Let_def)

lemma startCheck_jobs:
  "\<exists>wj. d_jobs (fst (startCheck d r i c)) = d_jobs d @ [wj] \<and> wj_check wj = c \<and> j_MergeSHA (wj_job wj) = r_chainTip r
     \<and> j_Name (wj_job wj) = ck_Name c \<and> j_Image (wj_job wj) = mget [] (r_imageRefs r) (ck_Image c)
     \<and> wj_tree wj = r_chainTree r"
  by (auto simp: startCheck_def Let_def split_beta make_job_def split: option.split)

lemma chainTree_frame [simp]: "r_chainTree (snd (startCheck d r i c)) = r_chainTree r"
  "r_chainTree (snd (start_ready i cs cap den d r)) = r_chainTree r"
  "r_chainTree (snd (consume_results t cs d r)) = r_chainTree r"
proof -
  have *: "r_chainTree (snd (startCheck d r i c)) = r_chainTree r" for d r i c
    by (auto simp: startCheck_def Let_def split_beta split: option.split)
  show "r_chainTree (snd (startCheck d r i c)) = r_chainTree r" by (rule *)
  show "r_chainTree (snd (start_ready i cs cap den d r)) = r_chainTree r"
    by (induction cs arbitrary: i cap den d r) (auto simp: Let_def split_beta *)
  have "r_chainTree (fst (consume_image name r res)) = r_chainTree r" for r name res
    by (auto simp: consume_image_def split: option.splits check_status.splits sum.splits)
  moreover have "r_chainTree (fst (consume_receipt d name r res)) = r_chainTree r" for d r name res
    by (auto simp: consume_receipt_def Let_def split: option.splits check_status.splits sum.splits)
  ultimately have "r_chainTree (snd (consume_one d t r name)) = r_chainTree r" for d r name
    by (auto simp: consume_one_def Let_def split_beta split: option.split)
  then show "r_chainTree (snd (consume_results t cs d r)) = r_chainTree r"
    by (induction cs arbitrary: d r) (simp_all add: split_beta)
qed

text \<open>A started check was ready: not started before and with green prerequisites.\<close>

definition started_ok :: "run \<Rightarrow> worker_job \<Rightarrow> bool" where
  "started_ok r wj \<longleftrightarrow> wj_check wj \<in> set (r_checks r) \<and> j_MergeSHA (wj_job wj) = r_chainTip r
     \<and> wj_tree wj = r_chainTree r
     \<and> ck_Name (wj_check wj) \<notin> fst ` set (r_results r) \<union> fst ` set (r_inflight r)
     \<and> (\<forall>dep \<in> set (ck_After (wj_check wj)). dep_green r dep)
     \<and> j_Image (wj_job wj) = mget [] (r_imageRefs r) (ck_Image (wj_check wj))"

lemma length_mput_le: "length (mput k v m) \<le> Suc (length m)"
  by (induction m) auto

lemma dep_green_frame [simp]: "dep_green (snd (startCheck d r i c)) = dep_green r"
  "dep_green (r\<lparr>r_readyAt := x\<rparr>) = dep_green r"
  by (auto simp: dep_green_def nodeGreen_def fun_eq_iff split: option.split)

lemma start_ready_jobs:
  assumes "set cs \<subseteq> set (r_checks r)"
  shows "int (length (r_inflight (snd (start_ready i cs cap den d r)))) \<le> int (length (r_inflight r)) + max 0 cap
     \<and> (\<exists>new. d_jobs (fst (start_ready i cs cap den d r)) = d_jobs d @ new \<and> (\<forall>wj \<in> set new. started_ok r wj))"
  using assms
proof (induction cs arbitrary: i cap den d r)
  case (Cons c cs)
  let ?skip = "mhas (r_results r) (ck_Name c) \<or> mhas (r_inflight r) (ck_Name c) \<or> \<not> list_all (dep_green r) (ck_After c)"
  show ?case
  proof (cases "cap \<le> 0")
    case True
    then show ?thesis by simp
  next
    case cap: False
    show ?thesis
    proof (cases ?skip)
      case True
      then have "start_ready i (c # cs) cap den d r = start_ready (i + 1) cs cap den d r" using cap by auto
      then show ?thesis using Cons.IH [of r "i + 1" cap den d] Cons.prems by simp
    next
      case ready: False
      let ?acq = "if den then (False, d_slots d) else TryAcquirePriority (runUrgent d r) (d_slots d)"
      show ?thesis
      proof (cases "fst ?acq")
        case False
        let ?r = "if mhas (r_readyAt r) (ck_Name c) then r else r\<lparr>r_readyAt := mput (ck_Name c) (d_now d) (r_readyAt r)\<rparr>"
        have step: "start_ready i (c # cs) cap den d r = start_ready (i + 1) cs (cap - 1) True d ?r"
          using cap ready False by (simp add: Let_def split_beta)
        have so: "started_ok ?r = started_ok r" by (auto simp: started_ok_def fun_eq_iff)
        show ?thesis unfolding step using Cons.IH [of ?r "i + 1" "cap - 1" True d] Cons.prems cap so by auto
      next
        case True
        let ?s = "startCheck (d\<lparr>d_slots := snd ?acq\<rparr>) r i c"
        have step: "start_ready i (c # cs) cap den d r = start_ready (i + 1) cs (cap - 1) False (fst ?s) (snd ?s)"
          using cap ready True by (simp add: Let_def split_beta)
        obtain wj where wj: "d_jobs (fst ?s) = d_jobs d @ [wj]" "started_ok r wj"
          using startCheck_jobs [of "d\<lparr>d_slots := snd ?acq\<rparr>" r i c] Cons.prems ready
          by (auto simp: started_ok_def mhas_keys list_all_iff)
        have more: "started_ok r w" if "started_ok (snd ?s) w" for w
          using that by (auto simp: started_ok_def)
        obtain new where new: "d_jobs (fst (start_ready (i + 1) cs (cap - 1) False (fst ?s) (snd ?s))) = d_jobs (fst ?s) @ new"
          "\<forall>w \<in> set new. started_ok (snd ?s) w"
          and len: "int (length (r_inflight (snd (start_ready (i + 1) cs (cap - 1) False (fst ?s) (snd ?s)))))
            \<le> int (length (r_inflight (snd ?s))) + max 0 (cap - 1)"
          using Cons.IH [of "snd ?s" "i + 1" "cap - 1" False "fst ?s"] Cons.prems by auto
        have "length (r_inflight (snd ?s)) \<le> Suc (length (r_inflight r))" by (simp add: length_mput_le)
        then show ?thesis unfolding step using len new wj more cap by (intro conjI exI [of _ "wj # new"]) auto
      qed
    qed
  qed
qed simp

lemma consume_results_jobs: "d_jobs (fst (consume_results t cs d r)) = d_jobs d"
proof -
  have "d_jobs (fst (consume_one d t r name)) = d_jobs d" for d r name
    by (auto simp: consume_one_def Let_def split_beta split: option.split)
  then show ?thesis by (induction cs arbitrary: d r) (simp_all add: split_beta)
qed

lemma consume_one_le: "length (r_inflight (snd (consume_one d t r name))) \<le> length (r_inflight r)"
  by (cases rule: consume_one_cases [of d t r name]) (simp_all add: length_delete_le)

lemma consume_results_le: "length (r_inflight (snd (consume_results t cs d r))) \<le> length (r_inflight r)"
proof (induction cs arbitrary: d r)
  case (Cons c cs)
  show ?case using Cons [of "fst (consume_one d t r (ck_Name c))" "snd (consume_one d t r (ck_Name c))"]
      consume_one_le [of d t r "ck_Name c"] by (simp add: split_beta)
qed simp

lemma keep_executions_jobs: "keep_executions d r = Inr d' \<Longrightarrow> d_jobs d' = d_jobs d" "keep_executions d r = Inl d' \<Longrightarrow> d_jobs d' = d_jobs d"
  by (auto simp: keep_executions_def Let_def split: option.splits if_splits)

lemma conclude_green_jobs: "d_jobs (fst (conclude_green d r)) = d_jobs d"
  by (simp add: conclude_green_def Let_def)


section \<open>A run concludes\<close>

lemma start_ready_keeps: "r_inflight r \<noteq> [] \<Longrightarrow> r_inflight (snd (start_ready i cs cap den d r)) \<noteq> []"
proof (induction cs arbitrary: i cap den d r)
  case (Cons c cs)
  have "mput k v m \<noteq> []" for k v and m :: "(string, check_in_flight) gomap" by (cases m) auto
  then show ?case using Cons by (auto simp: Let_def split_beta)
qed simp

lemma start_ready_progress:
  assumes "0 < cap" "d_slots d = None" "\<exists>c \<in> set cs. \<not> mhas (r_results r) (ck_Name c) \<and> list_all (dep_green r) (ck_After c)"
  shows "r_inflight (snd (start_ready i cs cap False d r)) \<noteq> []"
  using assms
proof (induction cs arbitrary: i d r)
  case (Cons c cs)
  show ?case
  proof (cases "r_inflight r = []")
    case False
    then show ?thesis by (rule start_ready_keeps)
  next
    case True
    have ne: "mput k v m \<noteq> []" for k v and m :: "(string, check_in_flight) gomap" by (cases m) auto
    show ?thesis
    proof (cases "mhas (r_results r) (ck_Name c) \<or> \<not> list_all (dep_green r) (ck_After c)")
      case True
      then show ?thesis using Cons by auto
    next
      case False
      let ?s = "startCheck (d\<lparr>d_slots := None\<rparr>) r i c"
      have "r_inflight (snd ?s) \<noteq> []" by (simp add: ne)
      moreover have "start_ready i (c # cs) cap False d r = start_ready (i + 1) cs (cap - 1) False (fst ?s) (snd ?s)"
        using False Cons.prems(1,2) True by (simp add: split_beta TryAcquirePriority_def)
      ultimately show ?thesis by (metis start_ready_keeps)
    qed
  qed
qed simp

text \<open>In an acyclic graph some unfinished node has only finished prerequisites.\<close>

lemma ready_node_exists:
  assumes "nodes_wf nodes" "c \<in> set nodes" "ck_Name c \<notin> D"
  shows "\<exists>c \<in> set nodes. ck_Name c \<notin> D \<and> set (ck_After c) \<subseteq> D"
proof -
  let ?S = "{n \<in> ck_Name ` set nodes. n \<notin> D}"
  have "node_rel nodes \<subseteq> ck_Name ` set nodes \<times> ck_Name ` set nodes"
    using assms(1) by (auto simp: node_rel_def nodes_wf_def list_all_iff)
  then have "finite (node_rel nodes)" by (rule finite_subset) simp
  then have wf: "wf ((node_rel nodes)\<inverse>)" using assms(1) by (simp add: finite_acyclic_wf_converse nodes_wf_def)
  have "ck_Name c \<in> ?S" using assms(2,3) by simp
  then obtain n where n: "n \<in> ?S" "\<And>y. (y, n) \<in> (node_rel nodes)\<inverse> \<Longrightarrow> y \<notin> ?S"
    by (rule wfE_min [OF wf]) blast
  then obtain b where b: "b \<in> set nodes" "ck_Name b = n" by blast
  have "set (ck_After b) \<subseteq> D"
  proof
    fix x assume x: "x \<in> set (ck_After b)"
    then have "(n, x) \<in> node_rel nodes" "x \<in> ck_Name ` set nodes"
      using b assms(1) by (auto simp: node_rel_def nodes_wf_def list_all_iff)
    then show "x \<in> D" using n(2) by auto
  qed
  with b n(1) show ?thesis by auto
qed

text \<open>One round of a run's life: every worker in flight answers with \<open>exec\<close> of its node, then the
  daemon makes a pass.\<close>

definition answer_all :: "(string \<Rightarrow> check_result) \<Rightarrow> run \<Rightarrow> run" where
  "answer_all exec r =
     r\<lparr>r_inflight := map (\<lambda>(name, fl). (name, if cif_result fl = None then fl\<lparr>cif_result := Some (exec name)\<rparr> else fl))
                     (r_inflight r)\<rparr>"

definition check_round :: "(string \<Rightarrow> check_result) \<Rightarrow> target_cfg \<Rightarrow> daemon \<times> run \<Rightarrow> daemon \<times> run" where
  "check_round exec t dr = (case dr of (d, r) \<Rightarrow> advanceChecks d t (answer_all exec r))"

definition answered :: "run \<Rightarrow> bool" where
  "answered r \<longleftrightarrow> (\<forall>name fl. map_of (r_inflight r) name = Some fl \<longrightarrow> cif_result fl \<noteq> None)"

lemma answeredD: "answered r \<Longrightarrow> map_of (r_inflight r) name = Some fl \<Longrightarrow> cif_result fl \<noteq> None"
  by (simp add: answered_def)

lemma answer_all_answered: "answered (answer_all exec r)"
proof -
  have "map_of (map (\<lambda>(name, fl). (name, if cif_result fl = None then fl\<lparr>cif_result := Some (exec name)\<rparr> else fl)) m) name
      = Some fl \<Longrightarrow> cif_result fl \<noteq> None" for m name and fl :: check_in_flight
    by (induction m) (auto split: if_splits)
  then show ?thesis unfolding answered_def answer_all_def by simp
qed

lemma answer_all_fields [simp]:
  "r_checks (answer_all exec r) = r_checks r" "r_results (answer_all exec r) = r_results r"
  "r_verdict (answer_all exec r) = r_verdict r" "r_maxParallel (answer_all exec r) = r_maxParallel r"
  "map fst (r_inflight (answer_all exec r)) = map fst (r_inflight r)"
  "fst ` set (r_inflight (answer_all exec r)) = fst ` set (r_inflight r)"
  by (auto simp: answer_all_def image_image split_beta)

lemma answer_all_live: "run_live (answer_all exec r) = run_live r"
proof -
  have "images_ok (answer_all exec r) = images_ok r" by (simp add: images_ok_def answer_all_def)
  then show ?thesis using answer_all_fields(5) [of exec r] answer_all_fields(6) [of exec r]
    by (simp add: run_live_def run_ok_def) (simp add: answer_all_def)
qed

lemma consume_one_answered:
  assumes "answered r"
  shows "r_inflight (snd (consume_one d t r name)) = mdel name (r_inflight r)"
    "fst ` set (r_results (snd (consume_one d t r name))) = fst ` set (r_results r) \<union> (fst ` set (r_inflight r) \<inter> {name})"
  subgoal
  proof (cases rule: consume_one_cases [of d t r name])
    case idle
    then have "map_of (r_inflight r) name = None" using answeredD [OF assms] by (metis option.exhaust)
    then show ?thesis using idle(1) by (simp add: map_of_eq_None_iff delete_id)
  qed
  subgoal
  proof (cases rule: consume_one_cases [of d t r name])
    case idle
    then have "map_of (r_inflight r) name = None" using answeredD [OF assms] by (metis option.exhaust)
    then show ?thesis using idle(1) by (auto simp: map_of_eq_None_iff)
  next
    case (taken fl raw res1 res2)
    then show ?thesis using key_in [OF taken(1)] by auto
  qed
  done

lemma consume_results_answered:
  assumes "answered r"
  shows "fst ` set (r_inflight (snd (consume_results t cs d r))) = fst ` set (r_inflight r) - ck_Name ` set cs
     \<and> fst ` set (r_results (snd (consume_results t cs d r))) = fst ` set (r_results r) \<union> (fst ` set (r_inflight r) \<inter> ck_Name ` set cs)"
  using assms
proof (induction cs arbitrary: d r)
  case (Cons c cs)
  let ?o = "consume_one d t r (ck_Name c)"
  note o = consume_one_answered [OF Cons.prems, where d = d and t = t and name = "ck_Name c"]
  have "answered (snd ?o)" using Cons.prems by (auto simp: o(1) answered_def split: if_splits)
  then show ?case using Cons.IH [of "snd ?o" "fst ?o"] o by (auto simp: split_beta simp del: set_map)
qed simp

lemma slots_frame: "keep_executions d r = Inr d' \<Longrightarrow> d_slots d' = d_slots d"
  "d_slots (fst (consume_results t cs d r)) = d_slots d"
proof -
  show "keep_executions d r = Inr d' \<Longrightarrow> d_slots d' = d_slots d"
    by (auto simp: keep_executions_def Let_def split: option.splits if_splits)
  have "d_slots (fst (consume_one d t r name)) = d_slots d" for d r name
    by (auto simp: consume_one_def Let_def split_beta split: option.split)
  then show "d_slots (fst (consume_results t cs d r)) = d_slots d"
    by (induction cs arbitrary: d r) (simp_all add: split_beta)
qed

lemma start_ready_fresh:
  "fst ` set (r_inflight r) \<inter> fst ` set (r_results r) = {} \<Longrightarrow>
   fst ` set (r_inflight (snd (start_ready i cs cap den d r))) \<inter> fst ` set (r_results r) = {}"
proof (induction cs arbitrary: i cap den d r)
  case (Cons c cs)
  have step: "fst ` set (r_inflight (snd (startCheck d' r i c))) \<inter> fst ` set (r_results r) = {}"
    if "\<not> mhas (r_results r) (ck_Name c)" for d'
    using that Cons.prems by (auto simp: mhas_keys)
  show ?case
    using Cons.IH [of "snd (startCheck d' r i c)" for d'] step Cons.IH [of r] Cons.IH [of "r\<lparr>r_readyAt := x\<rparr>" for x] Cons.prems
    by (simp add: Let_def split_beta)
qed simp

text \<open>A round of an open run ends it, or leaves something unfinished in flight and everything that was in
  flight among the results.\<close>

lemma round_progress:
  assumes "run_live r" "r_verdict r = verdictNone" "nodes_wf (r_checks r)" "1 \<le> r_maxParallel r"
    "d_slots d = None" "cf_KeepExecutions (d_cfg d) = None" "check_round exec t (d, r) = (d', r')" "r_verdict r' = verdictNone"
  shows "r_inflight r' \<noteq> [] \<and> fst ` set (r_results r') = fst ` set (r_results r) \<union> fst ` set (r_inflight r)
    \<and> fst ` set (r_inflight r') \<inter> fst ` set (r_results r') = {}"
proof -
  let ?a = "answer_all exec r"
  have live: "run_live ?a" and v: "r_verdict ?a = verdictNone" using assms by (simp_all add: answer_all_live)
  have adv: "advanceChecks d t ?a = (d', r')" using assms(7) by (simp add: check_round_def)
  show ?thesis using live v
  proof (cases rule: advanceChecks_cases [where d = d and t = t])
    case (stopped d1)
    then show ?thesis using assms(6) by (simp add: keep_executions_def Let_def)
  next
    case (red d1 r1)
    then show ?thesis using adv assms(8) conclude_red_run(6) [OF red(3)] by (simp split: if_splits)
  next
    case (going d0 d1 r1)
    have r1: "r1 = snd (consume_results t (r_checks r) d0 ?a)" and d1: "d1 = fst (consume_results t (r_checks r) d0 ?a)"
      using going(2) [symmetric] by simp_all
    have sub: "fst ` set (r_inflight r) \<subseteq> ck_Name ` set (r_checks r)" using assms(1) by (simp add: run_live_def run_ok_def)
    have keys: "fst ` set (r_inflight r1) = {}" "fst ` set (r_results r1) = fst ` set (r_results r) \<union> fst ` set (r_inflight r)"
      using consume_results_answered [OF answer_all_answered [of exec r], of t "r_checks r" d0] sub unfolding r1 by auto
    let ?s = "start_ready 0 (r_checks r) (r_maxParallel r) False d1 r1"
    have "advanceChecks d t ?a = conclude_green (fst ?s) (snd ?s)" unfolding going(6) using keys(1) by (simp add: split_beta)
    then have r': "r' = snd (conclude_green (fst ?s) (snd ?s))" using adv by (metis snd_conv)
    have chk: "r_checks r1 = r_checks r" "r_verdict r1 = verdictNone" using v by (simp_all add: r1)
    have slots: "d_slots d1 = None" using slots_frame(1) [OF going(1)] assms(5) by (simp add: d1 slots_frame(2))
    have "r_inflight (snd ?s) \<noteq> []"
    proof
      assume e: "r_inflight (snd ?s) = []"
      then have "length (r_results r1) \<noteq> length (r_checks r)"
        using assms(8) by (auto simp: r' conclude_green_run chk split: if_splits)
      moreover have "card (fst ` set (r_results r1)) = length (r_results r1)"
        "card (ck_Name ` set (r_checks r)) = length (r_checks r)"
        using going(3) chk by (metis distinct_card length_map run_ok_def set_map)+
      ultimately have "fst ` set (r_results r1) \<noteq> ck_Name ` set (r_checks r)" by auto
      moreover have "fst ` set (r_results r1) \<subseteq> ck_Name ` set (r_checks r)" using going(3) chk by (simp add: run_ok_def)
      ultimately obtain c where "c \<in> set (r_checks r)" "ck_Name c \<notin> fst ` set (r_results r1)" by blast
      from ready_node_exists [OF assms(3) this] obtain b where b: "b \<in> set (r_checks r)"
        "ck_Name b \<notin> fst ` set (r_results r1)" "set (ck_After b) \<subseteq> fst ` set (r_results r1)" by blast
      have "dep_green r1 dep" if "dep \<in> set (ck_After b)" for dep
      proof -
        have "dep \<in> fst ` set (r_results r1)" using b(3) that by blast
        then obtain res where "map_of (r_results r1) dep = Some res" by (metis dom_map_of_conv_image_fst domD)
        then show ?thesis using going(5) by (simp add: dep_green_def)
      qed
      then have "\<exists>c \<in> set (r_checks r). \<not> mhas (r_results r1) (ck_Name c) \<and> list_all (dep_green r1) (ck_After c)"
        using b by (auto simp: mhas_keys list_all_iff)
      from start_ready_progress [OF _ slots this, of "r_maxParallel r" 0] assms(4) e show False by simp
    qed
    moreover have "fst ` set (r_inflight (snd ?s)) \<inter> fst ` set (r_results r1) = {}"
      using start_ready_fresh [of r1] keys(1) by simp
    ultimately show ?thesis using keys(2) by (simp add: r' conclude_green_run)
  qed
qed

lemma run_ok_inflight: "run_ok r \<Longrightarrow> x \<in> fst ` set (r_inflight r) \<Longrightarrow> x \<in> ck_Name ` set (r_checks r)"
  unfolding run_ok_def by blast

lemma startCheck_daemon: "d_slots (fst (startCheck d r i c)) = d_slots d" "d_cfg (fst (startCheck d r i c)) = d_cfg d"
  by (auto simp: startCheck_def Let_def split_beta split: option.split)

lemma start_ready_daemon:
  "d_cfg (fst (start_ready i cs cap den d r)) = d_cfg d"
  "d_slots d = None \<Longrightarrow> d_slots (fst (start_ready i cs cap den d r)) = None"
  by (induction cs arbitrary: i cap den d r)
    (auto simp: Let_def split_beta startCheck_daemon TryAcquirePriority_def)

lemma consume_results_cfg: "d_cfg (fst (consume_results t cs d r)) = d_cfg d"
proof -
  have "d_cfg (fst (consume_one d t r name)) = d_cfg d" for d r name
    by (auto simp: consume_one_def Let_def split_beta split: option.split)
  then show ?thesis by (induction cs arbitrary: d r) (simp_all add: split_beta)
qed

definition round_ready :: "daemon \<times> run \<Rightarrow> bool" where
  "round_ready dr \<longleftrightarrow> (case dr of (d, r) \<Rightarrow> run_live r \<and> nodes_wf (r_checks r) \<and> 1 \<le> r_maxParallel r
     \<and> d_slots d = None \<and> cf_KeepExecutions (d_cfg d) = None)"

lemma round_ready_step:
  assumes "round_ready (d, r)"
  shows "round_ready (check_round exec t (d, r)) \<and> r_checks (snd (check_round exec t (d, r))) = r_checks r"
proof -
  have k: "keep_executions d r' = Inr d" for r' using assms by (simp add: round_ready_def keep_executions_def)
  have f: "r_checks (conclude_red x) = r_checks x" "r_maxParallel (conclude_red x) = r_maxParallel x"
    "r_checks (snd (conclude_green e x)) = r_checks x" "r_maxParallel (snd (conclude_green e x)) = r_maxParallel x"
    "d_slots (fst (conclude_green e x)) = d_slots e" "d_cfg (fst (conclude_green e x)) = d_cfg e" for x e
    by (auto simp: conclude_red_def conclude_green_def Let_def)
  have "run_live (snd (check_round exec t (d, r)))"
    using assms by (simp add: check_round_def round_ready_def advanceChecks_live answer_all_live)
  then show ?thesis using assms
    by (auto simp: check_round_def round_ready_def advanceChecks_def k Let_def split_beta f
          start_ready_daemon consume_results_cfg slots_frame)
qed

lemma concludes_within:
  assumes "round_ready (d, r)" "r_verdict r = verdictNone" "r_inflight r \<noteq> []"
    "fst ` set (r_inflight r) \<inter> fst ` set (r_results r) = {}"
    "card (ck_Name ` set (r_checks r) - fst ` set (r_results r)) \<le> k"
  shows "\<exists>n \<le> k. r_verdict (snd ((check_round exec t ^^ n) (d, r))) \<noteq> verdictNone"
  using assms
proof (induction k arbitrary: d r)
  case 0
  then have e: "ck_Name ` set (r_checks r) - fst ` set (r_results r) = {}" by simp
  obtain x where x: "x \<in> fst ` set (r_inflight r)" using 0(3) by (cases "r_inflight r") auto
  have "run_ok r" using 0(1) by (simp add: round_ready_def run_live_def)
  from run_ok_inflight [OF this x] have "x \<in> ck_Name ` set (r_checks r) - fst ` set (r_results r)" using x 0(4) by blast
  then show ?case unfolding e by simp
next
  case (Suc k)
  obtain d' r' where c: "check_round exec t (d, r) = (d', r')" by (cases "check_round exec t (d, r)")
  show ?case
  proof (cases "r_verdict r' = verdictNone")
    case False
    then show ?thesis using c by (intro exI [of _ 1]) simp
  next
    case True
    have pr: "r_inflight r' \<noteq> []" "fst ` set (r_results r') = fst ` set (r_results r) \<union> fst ` set (r_inflight r)"
      "fst ` set (r_inflight r') \<inter> fst ` set (r_results r') = {}"
    proof -
      have "r_inflight r' \<noteq> [] \<and> fst ` set (r_results r') = fst ` set (r_results r) \<union> fst ` set (r_inflight r)
        \<and> fst ` set (r_inflight r') \<inter> fst ` set (r_results r') = {}"
        by (rule round_progress [of r d exec t d' r']) (use Suc.prems(1,2) c True in \<open>simp_all add: round_ready_def\<close>)
      then show "r_inflight r' \<noteq> []" "fst ` set (r_results r') = fst ` set (r_results r) \<union> fst ` set (r_inflight r)"
        "fst ` set (r_inflight r') \<inter> fst ` set (r_results r') = {}" by blast+
    qed
    have st: "round_ready (d', r')" "r_checks r' = r_checks r" using round_ready_step [OF Suc.prems(1), of exec t] c by auto
    obtain x where x: "x \<in> fst ` set (r_inflight r)" using Suc.prems(3) by (cases "r_inflight r") auto
    have "x \<in> ck_Name ` set (r_checks r) - fst ` set (r_results r)" "x \<in> fst ` set (r_results r')"
      using x run_ok_inflight [OF _ x] Suc.prems(1,4) pr(2) by (auto simp: round_ready_def run_live_def)
    then have "ck_Name ` set (r_checks r) - fst ` set (r_results r') \<subset> ck_Name ` set (r_checks r) - fst ` set (r_results r)"
      using pr(2) by blast
    then have "card (ck_Name ` set (r_checks r') - fst ` set (r_results r')) \<le> k"
      using Suc.prems(5) st(2) by (metis List.finite_set finite_Diff finite_imageI less_Suc_eq_le order_less_le_trans psubset_card_mono)
    then obtain n where "n \<le> k" "r_verdict (snd ((check_round exec t ^^ n) (d', r'))) \<noteq> verdictNone"
      using Suc.IH [OF st(1) True pr(1,3)] by blast
    then show ?thesis using c by (intro exI [of _ "Suc n"]) (simp add: funpow_swap1)
  qed
qed


section \<open>Emergency waivers\<close>

definition revision_of :: "candidate \<Rightarrow> revision" where
  "revision_of c = \<lparr>rev_Ref = c_Ref c, rev_SHA = c_SHA c, rev_Version = c_Version c\<rparr>"

lemma revisions_match_iff: "revisions_match revs members \<longleftrightarrow> revs = map (\<lambda>m. revision_of (m_cand m)) members"
proof -
  have "list_all2 (\<lambda>v m. rev_Ref v = c_Ref (m_cand m) \<and> rev_SHA v = c_SHA (m_cand m) \<and> rev_Version v = c_Version (m_cand m)) revs members
      \<longleftrightarrow> revs = map (\<lambda>m. revision_of (m_cand m)) members"
    by (induction revs members rule: list_induct2') (auto simp: revision_of_def)
  then show ?thesis by (auto simp: revisions_match_def)
qed

definition waivable :: "bool \<Rightarrow> string \<Rightarrow> bool" where
  "waivable receiptPolicy name = (receiptNodeName name = None \<and> \<not> (imageNodeName name \<noteq> None \<and> receiptPolicy))"

lemma waive_checks_step:
  "waive_checks rp reason i (c # cs) results = waive_checks rp reason (i + 1) cs
     (if waivable rp (ck_Name c) then mput (ck_Name c)
        (check_result_zero\<lparr>cr_Name := ck_Name c, cr_Seq := i + 1, cr_Command := ck_Command c,
                   cr_Status := CheckWaived, cr_Output := msg [''Operator bypass: '', reason]\<rparr>) results else results)"
  unfolding waivable_def by auto

lemma waive_checks_other:
  "\<not> (name \<in> ck_Name ` set cs \<and> waivable rp name) \<Longrightarrow> map_of (waive_checks rp reason i cs results) name = map_of results name"
proof (induction cs arbitrary: i results)
  case (Cons c cs)
  then have "\<not> (name \<in> ck_Name ` set cs \<and> waivable rp name)" by auto
  then show ?case unfolding waive_checks_step using Cons.IH Cons.prems by auto
qed simp

lemma waive_checks_waived:
  "name \<in> ck_Name ` set cs \<Longrightarrow> waivable rp name \<Longrightarrow>
   \<exists>res. map_of (waive_checks rp reason i cs results) name = Some res \<and> cr_Status res = CheckWaived \<and> cr_Err res = None"
proof (induction cs arbitrary: i results)
  case (Cons c cs)
  show ?case
  proof (cases "name \<in> ck_Name ` set cs")
    case True
    then show ?thesis unfolding waive_checks_step using Cons.IH Cons.prems by blast
  next
    case False
    then have "name = ck_Name c" using Cons.prems by auto
    then show ?thesis unfolding waive_checks_step using False Cons.prems(2) by (simp add: waive_checks_other)
  qed
qed simp

text \<open>
  an emergency authorization changes a run only when the target's pending emergency command lists
  exactly the run's members, each at its ref, SHA and version, in order.  It then waives checks only
  for a merge-anyway command, and never the nodes that produce the landing receipt or, when receipts are
  published, the images they may need; every other result stays as it was, and a waived result counts as
  green only in the run that carries the authorization.
\<close>

theorem prepareEmergency_exact:
  assumes "prepareEmergency d r \<noteq> r"
  shows "\<exists>cmd. map_of (ct_Emergency (d_controls d)) (r_target r) = Some cmd \<and> \<not> r_controlPrepared r
    \<and> cmd_Revisions cmd = map (\<lambda>m. revision_of (m_cand m)) (r_members r)
    \<and> r_overridePause (prepareEmergency d r) = (cmd_Kind cmd = CommandMergePaused \<or> cmd_OverridePause cmd)
    \<and> (\<forall>name. if cmd_Kind cmd \<noteq> CommandMergePaused \<and> name \<in> ck_Name ` set (r_checks r)
                 \<and> receiptNodeName name = None \<and> \<not> (imageNodeName name \<noteq> None \<and> cf_ReceiptNotes (d_cfg d) \<noteq> None)
              then (\<exists>res. map_of (r_results (prepareEmergency d r)) name = Some res
                      \<and> cr_Status res = CheckWaived \<and> cr_Err res = None)
              else map_of (r_results (prepareEmergency d r)) name = map_of (r_results r) name)
    \<and> (\<forall>r' res. cr_Status res = CheckWaived \<longrightarrow> nodeGreen r' res = (r_emergencyReason r' \<noteq> [] \<and> cr_Err res = None))"
proof -
  obtain cmd where cmd: "map_of (ct_Emergency (d_controls d)) (r_target r) = Some cmd"
    and np: "\<not> r_controlPrepared r" and m: "revisions_match (cmd_Revisions cmd) (r_members r)"
    using assms by (auto simp: prepareEmergency_def Let_def split: option.splits if_splits)
  let ?rp = "cf_ReceiptNotes (d_cfg d) \<noteq> None" and ?reason = "msg [cmd_Actor cmd, '': '', cmd_Reason cmd]"
  have res: "r_results (prepareEmergency d r) = (if cmd_Kind cmd = CommandMergePaused then r_results r
      else waive_checks ?rp ?reason 0 (r_checks r) (r_results r))"
    and ov: "r_overridePause (prepareEmergency d r) = (cmd_Kind cmd = CommandMergePaused \<or> cmd_OverridePause cmd)"
    using cmd np m by (auto simp: prepareEmergency_def Let_def)
  have row: "if cmd_Kind cmd \<noteq> CommandMergePaused \<and> name \<in> ck_Name ` set (r_checks r) \<and> waivable ?rp name
      then \<exists>res. map_of (r_results (prepareEmergency d r)) name = Some res \<and> cr_Status res = CheckWaived \<and> cr_Err res = None
      else map_of (r_results (prepareEmergency d r)) name = map_of (r_results r) name" for name
    unfolding res using waive_checks_waived [of name "r_checks r" ?rp ?reason 0 "r_results r"]
      waive_checks_other [of name "r_checks r" ?rp ?reason 0 "r_results r"] by (simp del: set_map)
  have g: "nodeGreen r' res = (r_emergencyReason r' \<noteq> [] \<and> cr_Err res = None)" if "cr_Status res = CheckWaived" for r' res
    using that by (auto simp: nodeGreen_def NodeGreen_def)
  have rev: "cmd_Revisions cmd = map (\<lambda>m. revision_of (m_cand m)) (r_members r)" using m by (simp add: revisions_match_iff)
  show ?thesis using cmd np rev ov row [unfolded waivable_def] g by blast
qed

section \<open>Instances\<close>

text \<open>A run of \<open>sample_image_spec\<close>: an image build, two checks and a receipt.\<close>

definition sample_run :: run where
  "sample_run = run_zero\<lparr>r_target := ''main'', r_runID := ''run1'', r_chainTip := ''tip'', r_chainTree := ''tree'',
     r_baseOID := ''base'', r_members := [\<lparr>m_cand = sample_candidate ''a'' ''s1'', m_mergeOID = ''tip'', m_rec = run_record_zero\<rparr>],
     r_checks := buildRunNodes sample_image_spec, r_maxParallel := 2\<rparr>"

lemma sample_run_live: "run_live sample_run" "r_verdict sample_run = verdictNone" "nodes_wf (r_checks sample_run)"
proof -
  have "list_all (\<lambda>c. ck_Name c \<noteq> []) (buildRunNodes sample_image_spec)" by code_simp
  then have "[] \<notin> ck_Name ` set (buildRunNodes sample_image_spec)" by (auto simp: list_all_iff)
  moreover have wf: "nodes_wf (buildRunNodes sample_image_spec)"
    by (rule buildRunNodes_graph) code_simp
  ultimately show "run_live sample_run" "nodes_wf (r_checks sample_run)"
    by (auto simp: run_live_def run_ok_def images_ok_def sample_run_def run_zero_def nodes_wf_def)
  show "r_verdict sample_run = verdictNone" by (simp add: sample_run_def run_zero_def)
qed

definition pass_result :: "string \<Rightarrow> check_result" where
  "pass_result name = check_result_zero\<lparr>cr_Name := name, cr_Status := CheckPassed\<rparr>"

text \<open>A failed check: the run turns red with that culprit.\<close>

definition failing_run :: run where
  "failing_run = sample_run\<lparr>r_inflight := [(''build'', \<lparr>cif_name = ''build'',
     cif_result = Some (check_result_zero\<lparr>cr_Name := ''build''\<rparr>), cif_start = 10, cif_waited = 0\<rparr>)]\<rparr>"

lemma failing_run_live: "run_live failing_run" "r_verdict failing_run = verdictNone"
proof -
  have "''build'' \<in> ck_Name ` set (r_checks sample_run)" by code_simp
  then show "run_live failing_run" "r_verdict failing_run = verdictNone"
    using sample_run_live by (auto simp: run_live_def run_ok_def images_ok_def failing_run_def sample_run_def run_zero_def)
qed

theorem advanceChecks_verdict_witness:
  "r_verdict (snd (advanceChecks sample_daemon sample_target failing_run)) = verdictRejected
   \<and> r_inflight (snd (advanceChecks sample_daemon sample_target failing_run)) = []"
proof -
  have v: "r_verdict (snd (advanceChecks sample_daemon sample_target failing_run)) = verdictRejected" by code_simp
  then have "r_verdict (snd (advanceChecks sample_daemon sample_target failing_run)) \<noteq> verdictNone" by simp
  from advanceChecks_verdict [OF failing_run_live this prod.collapse [symmetric]] v show ?thesis by blast
qed



definition emergency_daemon :: daemon where
  "emergency_daemon = sample_daemon\<lparr>d_controls := controls_zero\<lparr>ct_Emergency :=
     [(''main'', \<lparr>cmd_Priority = [], cmd_Preempt = False, cmd_Before = [], cmd_After = [], cmd_PlanToken = [],
        cmd_Principal = None, cmd_RequestID = [], cmd_Actor = ''ops'', cmd_Reason = ''outage'', cmd_OverridePause = False,
        cmd_Revisions = [revision_of (sample_candidate ''a'' ''s1'')], cmd_Kind = CommandMergeAnyway,
        cmd_Target = ''main'', cmd_Ref = []\<rparr>)]\<rparr>\<rparr>"

theorem prepareEmergency_exact_witness:
  "map fst (r_results (prepareEmergency emergency_daemon sample_run)) = [''image:ci'', ''build'', ''test'']
   \<and> map_of (r_results (prepareEmergency emergency_daemon sample_run)) ''receipt:proof'' = None"
proof -
  have keys: "map fst (r_results (prepareEmergency emergency_daemon sample_run)) = [''image:ci'', ''build'', ''test'']" by code_simp
  then have ne: "prepareEmergency emergency_daemon sample_run \<noteq> sample_run" by (auto simp: sample_run_def run_zero_def)
  have "map_of (r_results (prepareEmergency emergency_daemon sample_run)) name = map_of (r_results sample_run) name"
    if "receiptNodeName name \<noteq> None" for name
    using prepareEmergency_exact [OF ne] that by metis
  moreover have "receiptNodeName ''receipt:proof'' \<noteq> None" by code_simp
  ultimately show ?thesis using keys by (simp add: sample_run_def run_zero_def)
qed

end
