(* ===== verification/Queue_Policy.thy ===== *)
theory Queue_Policy
  imports Queue_Checks
begin

text \<open>
  Policy decisions and their audit (\<^verbatim>\<open>internal/queue/policy.go\<close>) and the checkpointed trial commits
  (\<^verbatim>\<open>internal/queue/prepared.go\<close>).  The policy engine, the review source and the git repository are
  parameters; a \<open>Feedback\<close> call to the review source has no effect on the queue and is left out.
\<close>

section \<open>Facts\<close>

definition policyCandidate :: "candidate \<Rightarrow> json_object" where
  "policyCandidate c =
     [(''ref'', JStr (c_Ref c)), (''sha'', JStr (c_SHA c)), (''version'', JStr (c_Version c)),
      (''source'', JStr (c_Source c)), (''source_base'', JStr (c_SourceBase c)),
      (''depends_on'', JStr (c_DependsOn c)), (''requester'', JStr (c_Requester c)),
      (''urgent'', JBool (c_Urgent c)), (''priority'', JStr (c_Priority c)), (''preempt'', JBool (c_Preempt c))]"

definition policyMembers :: "candidate list \<Rightarrow> json_object list" where
  "policyMembers members = map policyCandidate members"

definition policy_status :: "check_result \<Rightarrow> string" where
  "policy_status check =
     (if cr_Err check \<noteq> None then ''error''
      else case cr_Status check of
        CheckFailed \<Rightarrow> ''failed'' | CheckPassed \<Rightarrow> ''passed'' | CheckSkipped \<Rightarrow> ''skipped''
      | CheckBlocked \<Rightarrow> ''blocked'' | CheckWaived \<Rightarrow> ''waived'')"

definition policyChecks :: "check_result list \<Rightarrow> json_object list" where
  "policyChecks checks = map (\<lambda>c. [(''name'', JStr (cr_Name c)), (''status'', JStr (policy_status c))]) checks"

section \<open>The audit\<close>

text \<open>The backwards search for the last entry of the same ref and phase.\<close>

definition last_audit :: "string \<Rightarrow> string \<Rightarrow> policy_audit list \<Rightarrow> policy_audit option" where
  "last_audit ref phase audits = find (\<lambda>p. au_Ref p = ref \<and> au_Phase p = phase) (rev audits)"

definition audit_entry ::
  "daemon \<Rightarrow> string \<Rightarrow> string \<Rightarrow> string \<Rightarrow> policy_input \<Rightarrow> decision \<Rightarrow> go_error \<Rightarrow> policy_audit" where
  "audit_entry d ref sha phase input dec err =
     \<lparr>au_At = d_now d, au_Target = pi_Target input, au_Phase = phase, au_Ref = ref, au_SHA = sha,
      au_InputHash = po_Hash (cf_Policy (d_cfg d)) input, au_Decision = dec,
      au_Version = po_Version (cf_Policy (d_cfg d)), au_Error = (case err of None \<Rightarrow> [] | Some e \<Rightarrow> e)\<rparr>"

definition audit_changed :: "policy_audit list \<Rightarrow> policy_audit \<Rightarrow> bool" where
  "audit_changed audits audit =
     (case last_audit (au_Ref audit) (au_Phase audit) audits of
        None \<Rightarrow> True
      | Some previous \<Rightarrow> au_InputHash previous \<noteq> au_InputHash audit
          \<or> au_Version previous \<noteq> au_Version audit \<or> au_Error previous \<noteq> au_Error audit)"

definition recordPolicyDecision ::
  "daemon \<Rightarrow> string \<Rightarrow> string \<Rightarrow> string \<Rightarrow> policy_input \<Rightarrow> decision \<Rightarrow> go_error \<Rightarrow> bool \<times> daemon" where
  "recordPolicyDecision d ref sha phase input dec err =
     (let audit = audit_entry d ref sha phase input dec err in
      if \<not> audit_changed (ct_PolicyAudit (d_controls d)) audit then (True, d)
      else
       (let next = clone (d_controls d);
            audits = ct_PolicyAudit next @ [audit];
            next = next\<lparr>ct_PolicyAudit := (if 500 < length audits then last_n 500 audits else audits)\<rparr> in
        saveControls d next))"

section \<open>Decisions\<close>

text \<open>\<open>input\<close> and \<open>factsErr\<close> from whichever source of facts applies.\<close>

definition path_facts :: "daemon \<Rightarrow> candidate \<Rightarrow> string \<Rightarrow> policy_input \<Rightarrow> (policy_input \<times> go_error) \<times> daemon" where
  "path_facts d c base input =
     (case g_ChangedPaths (d_git d) of
        None \<Rightarrow> ((input, None), d)
      | Some ChangedPaths \<Rightarrow>
          ((case ChangedPaths (Suc (d_io d)) base (c_SHA c) of
              Inl e \<Rightarrow> (input, Some e)
            | Inr paths \<Rightarrow> (input\<lparr>pi_Paths := paths, pi_PathsAvailable := True\<rparr>, None)),
           d\<lparr>d_io := Suc (d_io d)\<rparr>))"

definition custom_facts :: "daemon \<Rightarrow> candidate \<Rightarrow> string \<Rightarrow> policy_input \<Rightarrow> (policy_input \<times> go_error) \<times> daemon" where
  "custom_facts d c base input =
     (case Option.bind (cf_Reviews (d_cfg d)) rs_PolicyFacts of
        None \<Rightarrow> path_facts d c base input
      | Some PolicyFacts \<Rightarrow>
          if c_Source c = [] then path_facts d c base input
          else ((case PolicyFacts (Suc (d_io d)) c of
                   Inl e \<Rightarrow> (input\<lparr>pi_Forge := []\<rparr>, Some e)
                 | Inr (forge, paths) \<Rightarrow>
                     ((case paths of
                         None \<Rightarrow> input\<lparr>pi_Forge := forge\<rparr>
                       | Some ps \<Rightarrow> input\<lparr>pi_Forge := forge, pi_Paths := ps, pi_PathsAvailable := True\<rparr>), None)),
                d\<lparr>d_io := Suc (d_io d)\<rparr>))"

definition default_facts :: "daemon \<Rightarrow> candidate \<Rightarrow> string \<Rightarrow> policy_input \<Rightarrow> (policy_input \<times> go_error) \<times> daemon" where
  "default_facts d c base input =
     (if po_HasCustom (cf_Policy (d_cfg d)) ''submission'' then custom_facts d c base input else ((input, None), d))"

definition policy_facts ::
  "daemon \<Rightarrow> candidate \<Rightarrow> string \<Rightarrow> policy_input option \<Rightarrow> (policy_input \<times> go_error) \<times> daemon" where
  "policy_facts d c base prepared =
     (let input = policy_input_zero\<lparr>pi_SchemaVersion := 1\<rparr> in
      case prepared of
        Some p \<Rightarrow> ((p, None), d)
      | None \<Rightarrow>
          (case Option.bind (cf_Reviews (d_cfg d)) rs_PolicyInput of
             None \<Rightarrow> default_facts d c base input
           | Some PolicyInput \<Rightarrow>
               if c_Source c = [] then default_facts d c base input
               else ((case PolicyInput (Suc (d_io d)) c of
                        Inl e \<Rightarrow> (policy_input_zero, Some e)
                      | Inr p \<Rightarrow> (p, None)),
                     d\<lparr>d_io := Suc (d_io d)\<rparr>)))"

definition policy_request ::
  "daemon \<Rightarrow> target_cfg \<Rightarrow> candidate \<Rightarrow> string \<Rightarrow> candidate list \<Rightarrow> check_result list \<Rightarrow> string \<Rightarrow> bool \<Rightarrow> bool
   \<Rightarrow> policy_input \<Rightarrow> policy_input" where
  "policy_request d t c base members checks phase skipChecks overridePause input =
     (let input = input\<lparr>pi_Phase := phase, pi_Target := tg_Name t, pi_Branch := tg_Branch t, pi_BaseSHA := base,
            pi_Candidate := policyCandidate c, pi_Stack := policyMembers members, pi_Checks := policyChecks checks\<rparr>;
          sharedFacts = (Option.bind (cf_Reviews (d_cfg d)) rs_PolicyInput \<noteq> None);
          input = (if \<not> sharedFacts \<and> c_Source c \<noteq> [] \<and> \<not> po_HasCustom (cf_Policy (d_cfg d)) ''submission''
                   then input\<lparr>pi_AdapterValidated := True\<rparr> else input) in
      input\<lparr>pi_Emergency := \<lparr>pe_SkipChecks = skipChecks, pe_OverridePause = overridePause\<rparr>\<rparr>)"

definition evaluatePolicy ::
  "daemon \<Rightarrow> target_cfg \<Rightarrow> candidate \<Rightarrow> string \<Rightarrow> candidate list \<Rightarrow> check_result list \<Rightarrow> string \<Rightarrow> bool \<Rightarrow> bool
   \<Rightarrow> policy_input option \<Rightarrow> go_error \<times> daemon" where
  "evaluatePolicy d t c base members checks phase skipChecks overridePause prepared =
     (let ((input, factsErr), d) = policy_facts d c base prepared;
          input = policy_request d t c base members checks phase skipChecks overridePause input;
          d = d\<lparr>d_io := Suc (d_io d)\<rparr>;
          (dec, err) = po_Decide (cf_Policy (d_cfg d)) (d_io d) ''submission'' input;
          (dec, err) = (case factsErr of
                          None \<Rightarrow> (dec, err)
                        | Some e \<Rightarrow> (dec\<lparr>de_Allow := False\<rparr>, Some (msg [''policy facts unavailable: '', e])));
          (recorded, d) = recordPolicyDecision d (c_Ref c) (c_SHA c) phase input dec err in
      if \<not> recorded then (Some ''cannot persist policy audit'', d)
      else case err of
        Some e \<Rightarrow> (Some e, d)
      | None \<Rightarrow> if \<not> de_Allow dec then (Some (msg [''policy denied: '', Reason dec]), d) else (None, d))"

definition executionPolicy ::
  "daemon \<Rightarrow> target_cfg \<Rightarrow> string \<Rightarrow> string \<Rightarrow> candidate list \<Rightarrow> check_spec \<Rightarrow> go_error \<times> daemon" where
  "executionPolicy d t base sha members spec =
     (let input = policy_input_zero\<lparr>pi_SchemaVersion := 1, pi_Phase := ''execution'', pi_Target := tg_Name t,
            pi_Branch := tg_Branch t, pi_BaseSHA := base, pi_Stack := policyMembers members, pi_Execution := Some spec\<rparr>;
          d = d\<lparr>d_io := Suc (d_io d)\<rparr>;
          (dec, err) = po_Decide (cf_Policy (d_cfg d)) (d_io d) ''execution'' input;
          (recorded, d) = recordPolicyDecision d (tg_Name t) sha ''execution'' input dec err in
      if \<not> recorded then (Some ''cannot persist execution policy audit'', d)
      else case err of
        Some e \<Rightarrow> (Some (msg [''execution policy: '', e]), d)
      | None \<Rightarrow> if \<not> de_Allow dec then (Some (msg [''execution policy: '', Reason dec]), d) else (None, d))"

definition set_last_error :: "string \<Rightarrow> daemon \<Rightarrow> daemon" where
  "set_last_error e d = d\<lparr>d_controls := (d_controls d)\<lparr>ct_LastError := e\<rparr>\<rparr>"

definition command_input :: "daemon \<Rightarrow> command \<Rightarrow> policy_input" where
  "command_input d cmd =
     policy_input_zero\<lparr>pi_SchemaVersion := 1, pi_Phase := ''command'',
       pi_Principal := (case cmd_Principal cmd of None \<Rightarrow> principal_zero | Some p \<Rightarrow> p),
       pi_Target := cmd_Target cmd,
       pi_Command := \<lparr>pc_Priority = cmd_Priority cmd, pc_Preempt = cmd_Preempt cmd, pc_Before = cmd_Before cmd,
         pc_After = cmd_After cmd, pc_Kind = cmd_Kind cmd, pc_ID = cmd_RequestID cmd, pc_Reason = cmd_Reason cmd,
         pc_Count = 0, pc_Urgent = False\<rparr>,
       pi_Settings := \<lparr>ps_Approvals = 0, ps_RequiredChecks = [], ps_ResolvedConversations = False,
         ps_EmergencyEnabled = cf_AllowEmergency (d_cfg d)\<rparr>,
       pi_Emergency := \<lparr>pe_SkipChecks = (cmd_Kind cmd = CommandMergeAnyway), pe_OverridePause = cmd_OverridePause cmd\<rparr>\<rparr>"

text \<open>A command from GitHub is decided on the review source's own facts; \<open>Inl\<close> where it is refused.\<close>

definition command_facts :: "daemon \<Rightarrow> command \<Rightarrow> daemon + policy_input \<times> daemon" where
  "command_facts d cmd =
     (let input = command_input d cmd in
      case (Option.bind (cf_Reviews (d_cfg d)) rs_PolicyInput, cmd_Revisions cmd) of
        (Some PolicyInput, v # _) \<Rightarrow>
          if pr_Source (pi_Principal input) \<noteq> ''github'' then Inr (input, d)
          else (case map_of (d_external d) (rev_Ref v) of
                  None \<Rightarrow> Inl (set_last_error ''command revision unavailable'' d)
                | Some candidate \<Rightarrow>
                    (let d = d\<lparr>d_io := Suc (d_io d)\<rparr> in
                     case PolicyInput (d_io d) candidate of
                       Inl e \<Rightarrow> Inl (set_last_error e d)
                     | Inr p \<Rightarrow> Inr (p\<lparr>pi_Phase := ''command''\<rparr>, d)))
      | _ \<Rightarrow> Inr (input, d))"

definition authorizeCommand :: "daemon \<Rightarrow> command \<Rightarrow> bool \<times> daemon" where
  "authorizeCommand d cmd =
     (case command_facts d cmd of
        Inl d \<Rightarrow> (False, d)
      | Inr (input, d) \<Rightarrow>
         (let input = input\<lparr>pi_Command := (pi_Command input)\<lparr>pc_Priority := cmd_Priority cmd,
                pc_Preempt := cmd_Preempt cmd, pc_Before := cmd_Before cmd, pc_After := cmd_After cmd\<rparr>\<rparr>;
              d = d\<lparr>d_io := Suc (d_io d)\<rparr>;
              (dec, err) = po_Decide (cf_Policy (d_cfg d)) (d_io d) ''command'' input;
              (recorded, d) = recordPolicyDecision d (msg [cmd_Target cmd, '':'', cmd_Ref cmd]) []
                                (msg [''command:'', cmd_Kind cmd]) input dec err in
          if \<not> recorded then (False, set_last_error ''cannot persist command policy audit'' d)
          else case err of
            Some e \<Rightarrow> (False, set_last_error (msg [''command policy: '', e]) d)
          | None \<Rightarrow> if \<not> de_Allow dec then (False, set_last_error (msg [''command policy: '', Reason dec]) d)
                    else (True, d)))"

section \<open>Admission\<close>

text \<open>The walk from a candidate to its prerequisites; the fuel exceeds the number of candidates, and
  \<open>seen\<close> makes each of them appear once.\<close>

fun stack_walk :: "nat \<Rightarrow> (string, candidate) gomap \<Rightarrow> string list \<Rightarrow> string \<Rightarrow> candidate list \<Rightarrow> candidate list" where
  "stack_walk 0 all seen parent members = members"
| "stack_walk (Suc fuel) all seen parent members =
     (if parent = [] then members
      else case map_of all parent of
        None \<Rightarrow> members
      | Some p \<Rightarrow> if parent \<in> set seen then members
                  else stack_walk fuel all (parent # seen) (c_DependsOn p) (p # members))"

definition stack_of :: "(string, candidate) gomap \<Rightarrow> candidate \<Rightarrow> candidate list" where
  "stack_of all c = stack_walk (length all + 1) all [c_Ref c] (c_DependsOn c) [c]"

definition emergency_selected :: "command \<Rightarrow> string \<Rightarrow> candidate \<Rightarrow> bool" where
  "emergency_selected cmd ref c =
     list_ex (\<lambda>v. rev_Ref v = ref \<and> rev_SHA v = c_SHA c \<and> rev_Version v = c_Version c) (cmd_Revisions cmd)"

fun admit ::
  "target_cfg \<Rightarrow> (string, candidate) gomap \<Rightarrow> string \<Rightarrow> (string, candidate) gomap \<Rightarrow> daemon \<Rightarrow> (string, candidate) gomap
   \<Rightarrow> daemon \<times> (string, candidate) gomap" where
  "admit t all base [] d cands = (d, cands)"
| "admit t all base ((ref, c) # rest) d cands =
     (let (skip, override) =
            (case map_of (ct_Emergency (d_controls d)) (tg_Name t) of
               None \<Rightarrow> (False, False)
             | Some cmd \<Rightarrow> (emergency_selected cmd ref c \<and> cmd_Kind cmd = CommandMergeAnyway, cmd_OverridePause cmd));
          (err, d) = evaluatePolicy d t c base (stack_of all c) [] ''admission'' skip override None in
      case err of
        None \<Rightarrow> admit t all base rest d cands
      | Some e \<Rightarrow> admit t all base rest (set_last_error (trim_space e) d) (mdel ref cands))"

definition policyAdmission ::
  "daemon \<Rightarrow> target_cfg \<Rightarrow> (string, candidate) gomap \<Rightarrow> string \<Rightarrow> daemon \<times> (string, candidate) gomap" where
  "policyAdmission d t cands base = admit t cands base cands d cands"

section \<open>Prepared trials\<close>

definition duration_day :: go_duration where
  "duration_day = 24 * 60 * duration_minute"

definition preparedKey :: "daemon \<Rightarrow> string \<Rightarrow> string \<Rightarrow> candidate \<Rightarrow> string list \<Rightarrow> string" where
  "preparedKey d target base c grp =
     (if cf_ControlPath (d_cfg d) = [] \<or> cf_VerificationContext (d_cfg d) = [] then []
      else cf_preparedKey (d_cfg d) target base c grp)"

definition recallPrepared :: "daemon \<Rightarrow> string \<Rightarrow> string \<Rightarrow> prepared_entry \<times> daemon" where
  "recallPrepared d key tree =
     (let entry = mget prepared_zero (ct_Prepared (d_controls d)) key in
      if key = [] \<or> pp_RunID entry = [] \<or> pp_Tree entry \<noteq> tree \<or> time_sub (d_now d) (pp_At entry) > duration_day
      then (prepared_zero, d)
      else (let d = d\<lparr>d_io := Suc (d_io d)\<rparr> in
            case g_IsAncestor (d_git d) (d_io d) (pp_Commit entry) (pp_Commit entry) of
              Inr True \<Rightarrow> (entry, d)
            | _ \<Rightarrow> (prepared_zero, d)))"

definition preparedActive :: "daemon \<Rightarrow> string \<Rightarrow> bool" where
  "preparedActive d runID = list_ex (\<lambda>(_, runs). list_ex (\<lambda>r. r_runID r = runID) runs) (d_lanes d)"

fun oldest_prepared ::
  "(string \<Rightarrow> bool) \<Rightarrow> (string, prepared_entry) gomap \<Rightarrow> string \<times> go_time \<Rightarrow> string \<times> go_time" where
  "oldest_prepared keep [] acc = acc"
| "oldest_prepared keep ((identity, old) # rest) (oldest, at0) =
     (if keep (pp_RunID old) then oldest_prepared keep rest (oldest, at0)
      else if oldest = [] \<or> pp_At old < at0 then oldest_prepared keep rest (identity, pp_At old)
      else oldest_prepared keep rest (oldest, at0))"

text \<open>The loop \<open>for len(next.Prepared) >= 2048\<close>; \<open>Inl\<close> where every entry is in use.\<close>

definition prepared_capacity :: nat where
  "prepared_capacity = 2048"

function evict_prepared ::
  "(string \<Rightarrow> bool) \<Rightarrow> (string, prepared_entry) gomap \<Rightarrow> nat + (string, prepared_entry) gomap" where
  "evict_prepared keep m =
     (if length m < prepared_capacity then Inr m
      else (case oldest_prepared keep m ([], 0) of
              (oldest, _) \<Rightarrow>
                if oldest = [] then Inl (length m)
                else if length (mdel oldest m) < length m then evict_prepared keep (mdel oldest m)
                else Inl (length m)))"
  by pat_completeness auto
termination by (relation "measure (\<lambda>(keep, m). length m)") auto

definition rememberPrepared :: "daemon \<Rightarrow> string \<Rightarrow> prepared_entry \<Rightarrow> bool \<times> daemon" where
  "rememberPrepared d key entry =
     (if key = [] then (True, d)
      else
       (let d = d\<lparr>d_io := Suc (d_io d)\<rparr> in
        case g_RetainSources (d_git d) (d_io d) [pp_Commit entry] of
          Some e \<Rightarrow> (False, set_last_error (msg [''retain prepared commit: '', e]) d)
        | None \<Rightarrow>
           (let next = clone (d_controls d);
                keep = (\<lambda>id. id = pp_RunID entry \<or> preparedActive d id);
                m = filter (\<lambda>(_, old). \<not> (\<not> keep (pp_RunID old) \<and> time_sub (d_now d) (pp_At old) > duration_day))
                      (ct_Prepared next);
                m = mdel key m in
            case evict_prepared keep m of
              Inl n \<Rightarrow> (False, set_last_error (msg [''prepared trial capacity reached ('', show_int (int n), '')'']) d)
            | Inr m \<Rightarrow> saveControls d (next\<lparr>ct_Prepared := mput key entry m\<rparr>))))"

definition forgetPrepared :: "daemon \<Rightarrow> string \<Rightarrow> daemon" where
  "forgetPrepared d runID =
     (if runID = [] then d
      else (let m = ct_Prepared (d_controls d) in
            if list_ex (\<lambda>(_, e). pp_RunID e = runID) m
            then d\<lparr>d_controls := (d_controls d)\<lparr>ct_Prepared := filter (\<lambda>(_, e). pp_RunID e \<noteq> runID) m\<rparr>,
                   d_schedulerDirty := True\<rparr>
            else d))"

definition prunePrepared :: "daemon \<Rightarrow> daemon" where
  "prunePrepared d =
     (let m = ct_Prepared (d_controls d);
          stale = (\<lambda>e. \<not> preparedActive d (pp_RunID e) \<and> time_sub (d_now d) (pp_At e) > duration_day) in
      if list_ex (\<lambda>(_, e). stale e) m
      then d\<lparr>d_controls := (d_controls d)\<lparr>ct_Prepared := filter (\<lambda>(_, e). \<not> stale e) m\<rparr>, d_schedulerDirty := True\<rparr>
      else d)"

section \<open>Policy fails closed\<close>

lemma policy_facts_frame: "\<exists>n. snd (policy_facts d c base prepared) = d\<lparr>d_io := n\<rparr>"
proof -
  have refl: "\<exists>n. d = d\<lparr>d_io := n\<rparr>" by (rule exI [of _ "d_io d"]) simp
  have 1: "\<exists>n. snd (path_facts d c base input) = d\<lparr>d_io := n\<rparr>" for input
    using refl by (auto simp: path_facts_def split: option.split)
  have 2: "\<exists>n. snd (custom_facts d c base input) = d\<lparr>d_io := n\<rparr>" for input
    using 1 by (auto simp: custom_facts_def split: option.split)
  have 3: "\<exists>n. snd (default_facts d c base input) = d\<lparr>d_io := n\<rparr>" for input
    using refl 2 by (simp add: default_facts_def)
  show ?thesis using refl 3 by (auto simp: policy_facts_def Let_def split: option.split)
qed

lemma last_audit_snoc: "last_audit (au_Ref a) (au_Phase a) (xs @ [a]) = Some a"
  by (simp add: last_audit_def)

lemma suffix_snoc_last: "suffix q (xs @ [a]) \<Longrightarrow> q \<noteq> [] \<Longrightarrow> \<exists>ys. q = ys @ [a]"
  by (auto simp: suffix_def append_eq_append_conv2 Cons_eq_append_conv append_eq_Cons_conv)

lemma clone_PolicyAudit [simp]: "ct_PolicyAudit (clone c) = ct_PolicyAudit c"
  by (simp add: clone_def)

lemma audit_entry_fields [simp]:
  "au_Ref (audit_entry d ref sha phase input dec err) = ref" "au_Phase (audit_entry d ref sha phase input dec err) = phase"
  "au_InputHash (audit_entry d ref sha phase input dec err) = po_Hash (cf_Policy (d_cfg d)) input"
  "au_Error (audit_entry d ref sha phase input dec err) = (case err of None \<Rightarrow> [] | Some e \<Rightarrow> e)"
  by (simp_all add: audit_entry_def)

lemma saveControls_policy_suffix:
  "saveControls d next = (ok, d') \<Longrightarrow> suffix (ct_PolicyAudit (d_controls d')) (ct_PolicyAudit next)"
  by (elim saveControls_cases) (auto simp: trimmed_def)

lemma recordPolicyDecision_recorded:
  assumes "recordPolicyDecision d ref sha phase input dec err = (True, d')"
  shows "ct_PolicyAudit (d_controls d') = [] \<or> (\<exists>a. last_audit ref phase (ct_PolicyAudit (d_controls d')) = Some a
     \<and> au_InputHash a = po_Hash (cf_Policy (d_cfg d)) input \<and> au_Error a = (case err of None \<Rightarrow> [] | Some e \<Rightarrow> e))"
proof -
  define audit where "audit = audit_entry d ref sha phase input dec err"
  have f: "au_Ref audit = ref" "au_Phase audit = phase" "au_InputHash audit = po_Hash (cf_Policy (d_cfg d)) input"
    "au_Error audit = (case err of None \<Rightarrow> [] | Some e \<Rightarrow> e)" by (simp_all add: audit_def)
  let ?all = "ct_PolicyAudit (d_controls d) @ [audit]"
  let ?cut = "if 500 < length ?all then last_n 500 ?all else ?all"
  show ?thesis
  proof (cases "audit_changed (ct_PolicyAudit (d_controls d)) audit")
    case False
    then have "d' = d" using assms by (simp add: recordPolicyDecision_def audit_def)
    then show ?thesis using False f by (auto simp: audit_changed_def split: option.splits)
  next
    case True
    then have "saveControls d ((clone (d_controls d))\<lparr>ct_PolicyAudit := ?cut\<rparr>) = (True, d')"
      using assms unfolding recordPolicyDecision_def audit_def [symmetric] Let_def clone_PolicyAudit by (simp only: if_False simp_thms)
    then have "suffix (ct_PolicyAudit (d_controls d')) ?cut" using saveControls_policy_suffix by fastforce
    then obtain q where q: "ct_PolicyAudit (d_controls d') = q" "suffix q ?cut" by blast
    have "suffix ?cut ?all" by (simp add: last_n_def suffix_drop)
    with q(2) have all: "suffix q ?all" by (rule suffix_order.trans)
    show ?thesis
    proof (cases "q = []")
      case False
      then obtain ys where "q = ys @ [audit]" using suffix_snoc_last [OF all] by blast
      then have "last_audit ref phase q = Some audit" using last_audit_snoc [of audit ys] f by simp
      then show ?thesis using q(1) f by simp
    qed (simp add: q)
  qed
qed

lemma evaluatePolicy_allows:
  assumes "evaluatePolicy d t c base members checks phase skip override prepared = (None, d')"
  shows "\<exists>n inp dec. po_Decide (cf_Policy (d_cfg d)) n ''submission'' inp = (dec, None) \<and> de_Allow dec
    \<and> pi_Phase inp = phase \<and> pi_Target inp = tg_Name t \<and> pi_Branch inp = tg_Branch t \<and> pi_BaseSHA inp = base
    \<and> pi_Candidate inp = policyCandidate c \<and> pi_Stack inp = map policyCandidate members
    \<and> pi_Checks inp = policyChecks checks
    \<and> pi_Emergency inp = \<lparr>pe_SkipChecks = skip, pe_OverridePause = override\<rparr>
    \<and> (ct_PolicyAudit (d_controls d') = [] \<or>
       (\<exists>a. last_audit (c_Ref c) phase (ct_PolicyAudit (d_controls d')) = Some a
          \<and> au_InputHash a = po_Hash (cf_Policy (d_cfg d)) inp \<and> au_Error a = []))"
proof -
  obtain n where n: "snd (policy_facts d c base prepared) = d\<lparr>d_io := n\<rparr>" using policy_facts_frame by blast
  obtain inp0 fe where facts: "policy_facts d c base prepared = ((inp0, fe), d\<lparr>d_io := n\<rparr>)"
    using n by (metis prod.collapse)
  define inp where "inp = policy_request (d\<lparr>d_io := n\<rparr>) t c base members checks phase skip override inp0"
  obtain dec err where dec: "po_Decide (cf_Policy (d_cfg d)) (Suc n) ''submission'' inp = (dec, err)"
    by (cases "po_Decide (cf_Policy (d_cfg d)) (Suc n) ''submission'' inp")
  obtain ok d2 where r: "recordPolicyDecision (d\<lparr>d_io := Suc n\<rparr>) (c_Ref c) (c_SHA c) phase inp dec err = (ok, d2)"
    by (cases "recordPolicyDecision (d\<lparr>d_io := Suc n\<rparr>) (c_Ref c) (c_SHA c) phase inp dec err")
  have fe: "fe = None"
  proof (rule ccontr)
    assume "fe \<noteq> None"
    then obtain e where "fe = Some e" by blast
    then show False using assms dec
      by (simp add: evaluatePolicy_def facts inp_def [symmetric] Let_def split_beta split: if_splits)
  qed
  have ev: "evaluatePolicy d t c base members checks phase skip override prepared =
      (if \<not> ok then (Some ''cannot persist policy audit'', d2)
       else case err of Some e \<Rightarrow> (Some e, d2)
         | None \<Rightarrow> if \<not> de_Allow dec then (Some (msg [''policy denied: '', Reason dec]), d2) else (None, d2))"
    using dec r by (simp add: evaluatePolicy_def facts fe inp_def [symmetric])
  have none: "ok" "err = None" "de_Allow dec" "d' = d2"
    using assms unfolding ev by (simp_all split: if_splits option.splits)
  have fields: "pi_Phase inp = phase" "pi_Target inp = tg_Name t" "pi_Branch inp = tg_Branch t" "pi_BaseSHA inp = base"
    "pi_Candidate inp = policyCandidate c" "pi_Stack inp = map policyCandidate members" "pi_Checks inp = policyChecks checks"
    "pi_Emergency inp = \<lparr>pe_SkipChecks = skip, pe_OverridePause = override\<rparr>"
    by (simp_all add: inp_def policy_request_def policyMembers_def Let_def)
  have "recordPolicyDecision (d\<lparr>d_io := Suc n\<rparr>) (c_Ref c) (c_SHA c) phase inp dec None = (True, d')"
    using r none by simp
  from recordPolicyDecision_recorded [OF this] have audit: "ct_PolicyAudit (d_controls d') = [] \<or>
       (\<exists>a. last_audit (c_Ref c) phase (ct_PolicyAudit (d_controls d')) = Some a
          \<and> au_InputHash a = po_Hash (cf_Policy (d_cfg d)) inp \<and> au_Error a = [])" by auto
  have "po_Decide (cf_Policy (d_cfg d)) (Suc n) ''submission'' inp = (dec, None)" using dec none by simp
  then show ?thesis using none(3) fields audit by blast
qed



section \<open>The prepared trials\<close>

declare evict_prepared.simps [simp del]

lemma oldest_prepared_key:
  "oldest_prepared keep m acc = (k, a) \<Longrightarrow> k = fst acc \<or> (\<exists>e. (k, e) \<in> set m \<and> \<not> keep (pp_RunID e))"
proof (induction keep m acc rule: oldest_prepared.induct)
  case (2 keep identity old rest oldest at0)
  then show ?case by (auto split: if_splits)
qed auto

lemma length_mdel_key: "k \<in> fst ` set m \<Longrightarrow> length (mdel k m) < length m"
proof (induction m)
  case (Cons a m)
  have "length (mdel k m) \<le> length m" for m :: "('a \<times> 'b) list" by (rule length_delete_le)
  with Cons show ?case by (cases a) (auto simp: le_imp_less_Suc)
qed simp

text \<open>The extra test of \<open>evict_prepared\<close> never fails: the entry to drop is in the map.\<close>

lemma evict_prepared_step:
  "evict_prepared keep m =
     (if length m < prepared_capacity then Inr m
      else let oldest = fst (oldest_prepared keep m ([], 0)) in
           if oldest = [] then Inl (length m) else evict_prepared keep (mdel oldest m))"
proof -
  have "length (mdel k m) < length m" if "oldest_prepared keep m ([], 0) = (k, a)" "k \<noteq> []" for k a
    using oldest_prepared_key [OF that(1)] that(2) by (intro length_mdel_key) force
  then show ?thesis
    by (cases "oldest_prepared keep m ([], 0)") (simp add: evict_prepared.simps [of keep m] Let_def)
qed

lemma evict_prepared_small: "length m < prepared_capacity \<Longrightarrow> evict_prepared keep m = Inr m"
  by (simp add: evict_prepared_step [of keep m])

lemma evict_prepared_ok:
  assumes "evict_prepared keep m = Inr m'" "distinct (map fst m)"
  shows "length m' < prepared_capacity \<and> distinct (map fst m')
    \<and> (\<forall>k e. map_of m' k = Some e \<longrightarrow> map_of m k = Some e)
    \<and> (\<forall>k e. map_of m k = Some e \<and> keep (pp_RunID e) \<longrightarrow> map_of m' k = Some e)"
  using assms
proof (induction keep m rule: evict_prepared.induct)
  case (1 keep m)
  show ?case
  proof (cases "length m < prepared_capacity")
    case True
    then have "m' = m" using "1.prems"(1) by (simp add: evict_prepared_step [of keep m])
    then show ?thesis using True "1.prems"(2) by simp
  next
    case False
    obtain k a where o: "oldest_prepared keep m ([], 0) = (k, a)" by (cases "oldest_prepared keep m ([], 0)")
    have k: "k \<noteq> []" and ev: "evict_prepared keep (mdel k m) = Inr m'"
      using "1.prems"(1) False o by (auto simp: evict_prepared_step [of keep m] Let_def split: if_splits)
    obtain e where e: "(k, e) \<in> set m" "\<not> keep (pp_RunID e)" using oldest_prepared_key [OF o] k by auto
    then have mk: "map_of m k = Some e" using "1.prems"(2) by simp
    have lt: "length (mdel k m) < length m" using e by (intro length_mdel_key) force
    have dm: "distinct (map fst (mdel k m))" using "1.prems"(2) by simp
    have IH: "length m' < prepared_capacity" "distinct (map fst m')"
      "\<And>i x. map_of m' i = Some x \<Longrightarrow> map_of (mdel k m) i = Some x"
      "\<And>i x. map_of (mdel k m) i = Some x \<Longrightarrow> keep (pp_RunID x) \<Longrightarrow> map_of m' i = Some x"
      using "1.IH" [OF False o [symmetric] k lt ev dm] by blast+
    have look: "map_of (mdel k m) i = (if i = k then None else map_of m i)" for i by simp
    have "map_of m i = Some x" if "map_of m' i = Some x" for i x
      using IH(3) [OF that] unfolding look by (simp split: if_splits)
    moreover have "map_of m' i = Some x" if "map_of m i = Some x" "keep (pp_RunID x)" for i x
      using IH(4) [of i x] that mk e(2) unfolding look by (cases "i = k") simp_all
    ultimately show ?thesis using IH(1,2) by blast
  qed
qed

lemma rememberPrepared_cases:
  assumes "rememberPrepared d key entry = (True, d')" "key \<noteq> []"
  obtains m where "evict_prepared (\<lambda>id. id = pp_RunID entry \<or> preparedActive d id)
      (mdel key (filter (\<lambda>(_, old). \<not> (\<not> (pp_RunID old = pp_RunID entry \<or> preparedActive d (pp_RunID old))
           \<and> time_sub (d_now d) (pp_At old) > duration_day)) (ct_Prepared (d_controls d)))) = Inr m"
    "ct_Prepared (d_controls d') = mput key entry m" "d_now d' = d_now d" "d_git d' = d_git d"
proof -
  have a: "preparedActive (d\<lparr>d_io := Suc (d_io d)\<rparr>) = preparedActive d" by (simp add: preparedActive_def fun_eq_iff)
  have c: "ct_Prepared (clone (d_controls d)) = ct_Prepared (d_controls d)" by (simp add: clone_def)
  let ?d = "d\<lparr>d_io := Suc (d_io d)\<rparr>"
  let ?m = "mdel key (filter (\<lambda>(_, old). \<not> (\<not> (pp_RunID old = pp_RunID entry \<or> preparedActive d (pp_RunID old))
           \<and> time_sub (d_now d) (pp_At old) > duration_day)) (ct_Prepared (d_controls d)))"
  let ?keep = "\<lambda>id. id = pp_RunID entry \<or> preparedActive d id"
  have rem: "rememberPrepared d key entry =
      (case g_RetainSources (d_git d) (Suc (d_io d)) [pp_Commit entry] of
         Some e \<Rightarrow> (False, set_last_error (msg [''retain prepared commit: '', e]) ?d)
       | None \<Rightarrow> (case evict_prepared ?keep ?m of
           Inl n \<Rightarrow> (False, set_last_error (msg [''prepared trial capacity reached ('', show_int (int n), '')'']) ?d)
         | Inr m \<Rightarrow> saveControls ?d ((clone (d_controls d))\<lparr>ct_Prepared := mput key entry m\<rparr>)))"
    using assms(2) by (simp add: rememberPrepared_def Let_def a c split: option.split sum.split)
  have "g_RetainSources (d_git d) (Suc (d_io d)) [pp_Commit entry] = None"
    using assms(1) unfolding rem by (cases "g_RetainSources (d_git d) (Suc (d_io d)) [pp_Commit entry]") simp_all
  then obtain m where m: "evict_prepared ?keep ?m = Inr m"
    "saveControls ?d ((clone (d_controls d))\<lparr>ct_Prepared := mput key entry m\<rparr>) = (True, d')"
    using assms(1) unfolding rem by (cases "evict_prepared ?keep ?m") simp_all
  have d': "d' = snd (saveControls ?d ((clone (d_controls d))\<lparr>ct_Prepared := mput key entry m\<rparr>))" using m(2) by simp
  show ?thesis by (rule that [OF m(1)]) (simp_all add: d')
qed

text \<open>
  when \<open>rememberPrepared\<close> reports success, the entry is on record under its key and at most 2048
  trials are kept; trials of runs still in a lane and of the same run are never dropped; nothing is
  invented.  Recalling the key for the same tree within a day returns the entry as long as git still has
  its commit.
\<close>

theorem rememberPrepared_roundtrip:
  assumes "rememberPrepared d key entry = (True, d')" "key \<noteq> []" "distinct (map fst (ct_Prepared (d_controls d)))"
  shows "length (ct_Prepared (d_controls d')) \<le> 2048
    \<and> (\<forall>k e. k \<noteq> key \<and> map_of (ct_Prepared (d_controls d)) k = Some e
         \<and> (pp_RunID e = pp_RunID entry \<or> preparedActive d (pp_RunID e)) \<longrightarrow> map_of (ct_Prepared (d_controls d')) k = Some e)
    \<and> (\<forall>k e. k \<noteq> key \<and> map_of (ct_Prepared (d_controls d')) k = Some e \<longrightarrow> map_of (ct_Prepared (d_controls d)) k = Some e)
    \<and> (pp_RunID entry \<noteq> [] \<and> time_sub (d_now d) (pp_At entry) \<le> duration_day
         \<and> (\<forall>n. g_IsAncestor (d_git d) n (pp_Commit entry) (pp_Commit entry) = Inr True)
       \<longrightarrow> fst (recallPrepared d' key (pp_Tree entry)) = entry)"
proof -
  let ?keep = "\<lambda>id. id = pp_RunID entry \<or> preparedActive d id"
  let ?live = "\<lambda>(k :: string, old). \<not> (\<not> ?keep (pp_RunID old) \<and> time_sub (d_now d) (pp_At old) > duration_day)"
  let ?m0 = "ct_Prepared (d_controls d)"
  obtain m where ev: "evict_prepared ?keep (mdel key (filter ?live ?m0)) = Inr m"
    and d': "ct_Prepared (d_controls d') = mput key entry m" "d_now d' = d_now d" "d_git d' = d_git d"
    using rememberPrepared_cases [OF assms(1,2)] by blast
  have dist: "distinct (map fst (mdel key (filter ?live ?m0)))" using assms(3) by (simp add: distinct_map_fst_filter)
  note ok = evict_prepared_ok [OF ev dist]
  have look: "map_of (mdel key (filter ?live ?m0)) k = (if k = key then None else
      case map_of ?m0 k of None \<Rightarrow> None | Some e \<Rightarrow> if ?live (k, e) then Some e else None)" for k
    using map_of_filter_distinct [OF assms(3), of ?live k] by (simp split: option.split)
  have 1: "length (mput key entry m) \<le> 2048"
    using ok length_mput_le [of key entry m] by (simp add: prepared_capacity_def)
  have 2: "map_of m k = Some e" if "k \<noteq> key" "map_of ?m0 k = Some e" "?keep (pp_RunID e)" for k e
  proof -
    have "map_of (mdel key (filter ?live ?m0)) k = Some e" unfolding look using that by auto
    then show ?thesis using ok that(3) by blast
  qed
  have 3: "map_of ?m0 k = Some e" if "map_of m k = Some e" for k e
  proof -
    have "map_of (mdel key (filter ?live ?m0)) k = Some e" using ok that by blast
    then show ?thesis unfolding look by (simp split: if_splits option.splits)
  qed
  have 4: "fst (recallPrepared d' key (pp_Tree entry)) = entry"
    if "pp_RunID entry \<noteq> []" "time_sub (d_now d) (pp_At entry) \<le> duration_day"
      "\<forall>n. g_IsAncestor (d_git d) n (pp_Commit entry) (pp_Commit entry) = Inr True"
    using that assms(2) d' by (simp add: recallPrepared_def Let_def)
  have put: "map_of (ct_Prepared (d_controls d')) k = map_of m k" if "k \<noteq> key" for k using that d'(1) by simp
  have c1: "length (ct_Prepared (d_controls d')) \<le> 2048" unfolding d'(1) by (rule 1)
  have c2: "map_of (ct_Prepared (d_controls d')) k = Some e"
    if "k \<noteq> key \<and> map_of ?m0 k = Some e \<and> ?keep (pp_RunID e)" for k e
    using that put [of k] 2 [of k e] by simp
  have c3: "map_of ?m0 k = Some e" if "k \<noteq> key \<and> map_of (ct_Prepared (d_controls d')) k = Some e" for k e
    using that put [of k] 3 [of k e] by simp
  show ?thesis by (intro conjI allI impI c1; (rule c2 c3 4; blast)?)
qed

theorem rememberPrepared_roundtrip_witness:
  "length (ct_Prepared (d_controls (snd (rememberPrepared sample_daemon ''key''
      \<lparr>pp_RunID = ''r1'', pp_Commit = ''c1'', pp_Tree = ''t1'', pp_At = 900\<rparr>)))) \<le> 2048
   \<and> fst (rememberPrepared sample_daemon ''key'' \<lparr>pp_RunID = ''r1'', pp_Commit = ''c1'', pp_Tree = ''t1'', pp_At = 900\<rparr>)"
proof -
  let ?r = "rememberPrepared sample_daemon ''key'' \<lparr>pp_RunID = ''r1'', pp_Commit = ''c1'', pp_Tree = ''t1'', pp_At = 900\<rparr>"
  have ok: "fst ?r"
    by (simp add: rememberPrepared_def sample_daemon_def sample_git_def controls_zero_def clone_def clone_entries_def
        evict_prepared_small prepared_capacity_def saveControls_def trim_controls.simps storageLimit_def sample_config_def Let_def)
  have dist: "distinct (map fst (ct_Prepared (d_controls sample_daemon)))" by (simp add: sample_daemon_def controls_zero_def)
  have "?r = (True, snd ?r)" using ok by (metis (full_types) prod.collapse)
  from rememberPrepared_roundtrip [OF this _ dist] show ?thesis using ok by simp
qed

end
