(* ===== verification/Queue_Landing.thy ===== *)
theory Queue_Landing
  imports Queue_Policy
begin

text \<open>
  Concluding a run (\<^verbatim>\<open>internal/queue/landing.go\<close>, \<^verbatim>\<open>internal/queue/trialref.go\<close>,
  \<^verbatim>\<open>internal/queue/linear.go\<close>): the landing push and the deletion of the members' slots, the other
  terminal outcomes, trial refs and recovery of landings a crash interrupted.  A concluded run leaves its
  lane, so these operations return the daemon only; the members' records are in the events they emit.
\<close>

section \<open>The remote\<close>

text \<open>
  The contract of \<open>GitRepo.CASUpdate\<close>: another writer may change the remote first (\<open>g_interfere\<close>); then
  the ref is swapped if it still has the expected value (an empty name stands for a missing ref), a push
  of the value it already has is a no-op, and anything else is stale.  \<open>g_casFault\<close> lets the transport
  fail before or after the update took effect.
\<close>

definition casUpdate :: "daemon \<Rightarrow> string \<Rightarrow> string \<Rightarrow> string \<Rightarrow> git_error option \<times> daemon" where
  "casUpdate d ref old new =
     (let d = d\<lparr>d_io := Suc (d_io d)\<rparr>;
          remote = g_interfere (d_git d) (d_io d) (d_remote d);
          d = d\<lparr>d_remote := remote\<rparr>;
          cur = mget [] remote ref in
      case g_casFault (d_git d) (d_io d) of
        CasLost e \<Rightarrow> (Some (ErrOther e), d)
      | fault \<Rightarrow>
          (let report = (case fault of CasAmbiguous e \<Rightarrow> Some (ErrOther e) | _ \<Rightarrow> None) in
           if cur = old
           then (report, d\<lparr>d_remote := (if new = [] then mdel ref remote else mput ref new remote),
                           d_pushes := d_pushes d @ [\<lparr>ps_ref = ref, ps_old = old, ps_new = new\<rparr>]\<rparr>)
           else if new \<noteq> [] \<and> cur = new then (report, d)
           else (Some ErrCASStale, d)))"

definition unpin :: "daemon \<Rightarrow> string \<Rightarrow> daemon" where
  "unpin d oid = d\<lparr>d_io := Suc (d_io d), d_pins := removeAll oid (d_pins d)\<rparr>"

section \<open>Trial refs\<close>

definition trialRefName :: "daemon \<Rightarrow> string \<Rightarrow> string" where
  "trialRefName d runID = msg [cf_TrialRefPrefix (d_cfg d), ''/'', runID]"

definition createTrialRef :: "daemon \<Rightarrow> string \<Rightarrow> string \<Rightarrow> (string + string) \<times> daemon" where
  "createTrialRef d runID mergeOID =
     (let ref = trialRefName d runID in
      case casUpdate d ref [] mergeOID of
        (None, d) \<Rightarrow> (Inr ref, d)
      | (Some ErrCASStale, d) \<Rightarrow>
          (Inl (msg [''trial ref '', ref, '' already exists at a different SHA (operational collision)'']), d)
      | (Some e, d) \<Rightarrow> (Inl (git_error_string e), d))"

definition deleteTrialRefNow :: "daemon \<Rightarrow> run \<Rightarrow> daemon \<times> run" where
  "deleteTrialRefNow d r =
     (if r_trialRef r = [] then (d, r)
      else (let d = snd (casUpdate d (r_trialRef r) (r_chainTip r) []) in
            (d\<lparr>d_trialReap := mdel (r_trialRef r) (d_trialReap d)\<rparr>, r\<lparr>r_trialRef := []\<rparr>)))"

definition scheduleTrialReap :: "daemon \<Rightarrow> string \<Rightarrow> string \<Rightarrow> daemon" where
  "scheduleTrialReap d ref mergeOID =
     (if ref = [] then d
      else if cf_TrialRefRetention (d_cfg d) \<le> 0 then snd (casUpdate d ref mergeOID [])
      else d\<lparr>d_trialReap := mput ref \<lparr>tr_sha = mergeOID, tr_at = d_now d + cf_TrialRefRetention (d_cfg d)\<rparr> (d_trialReap d)\<rparr>)"

fun reap_trials :: "go_time \<Rightarrow> (string, trial_reap_entry) gomap \<Rightarrow> daemon \<Rightarrow> daemon" where
  "reap_trials now [] d = d"
| "reap_trials now ((ref, e) # rest) d =
     (if now < tr_at e then reap_trials now rest d
      else (case casUpdate d ref (tr_sha e) [] of
              (err, d) \<Rightarrow>
                reap_trials now rest
                  (if err = None \<or> err = Some ErrCASStale then d\<lparr>d_trialReap := mdel ref (d_trialReap d)\<rparr> else d)))"

definition reapTrialRefs :: "daemon \<Rightarrow> daemon" where
  "reapTrialRefs d = reap_trials (d_now d) (d_trialReap d) d"

section \<open>Terminal outcomes\<close>

definition clearEmergency :: "daemon \<Rightarrow> string \<Rightarrow> string \<Rightarrow> daemon" where
  "clearEmergency d target reason =
     (let next = clone (d_controls d);
          next = next\<lparr>ct_Emergency := mdel target (ct_Emergency next), ct_LastError := reason\<rparr> in
      snd (saveControls d next))"

definition finalizeRun :: "daemon \<Rightarrow> run \<Rightarrow> daemon" where
  "finalizeRun d r =
     (let d = (if r_members r \<noteq> [] \<and> rr_Outcome (m_rec (hd (r_members r))) \<noteq> OutcomeSkipped
               then forgetPrepared d (r_runID r) else d);
          d = (if mhas (d_landedPins d) (r_chainTip r) then d else unpin d (r_chainTip r)) in
      if r_trialRef r \<noteq> [] then scheduleTrialReap d (r_trialRef r) (r_chainTip r) else d)"

definition member_detail :: "run \<Rightarrow> string \<Rightarrow> string" where
  "member_detail r detail =
     (let memberDetail = (if r_emergencyReason r \<noteq> []
                          then msg [''EMERGENCY: checks bypassed; '', r_emergencyReason r, ''; '', detail] else detail) in
      if r_pauseOverrideReason r \<noteq> []
      then msg [''PAUSE OVERRIDE: '', r_pauseOverrideReason r, ''; '', memberDetail] else memberDetail)"

definition close_member :: "daemon \<Rightarrow> outcome \<Rightarrow> string \<Rightarrow> run_member \<Rightarrow> run_member" where
  "close_member d outcome detail m =
     m\<lparr>m_rec := (m_rec m)\<lparr>rr_Outcome := outcome, rr_Detail := detail, rr_EndedAt := d_now d\<rparr>\<rparr>"

fun park_members :: "string \<Rightarrow> outcome \<Rightarrow> string \<Rightarrow> run_member list \<Rightarrow> daemon \<Rightarrow> daemon" where
  "park_members target outcome detail [] d = d"
| "park_members target outcome detail (m # ms) d =
     park_members target outcome detail ms (park d target (m_cand m) outcome detail (rr_RunID (m_rec m)))"

fun emit_members :: "string \<Rightarrow> outcome \<Rightarrow> string \<Rightarrow> bool \<Rightarrow> run_member list \<Rightarrow> daemon \<Rightarrow> daemon" where
  "emit_members target outcome detail parked [] d = d"
| "emit_members target outcome detail parked (m # ms) d =
     (let d = emit d (terminal_event d outcome target (m_cand m) (m_rec m) detail);
          d = (if parked then maybeAutoRetry d target (m_cand m) outcome else d) in
      emit_members target outcome detail parked ms d)"

definition finishRun :: "daemon \<Rightarrow> target_cfg \<Rightarrow> run \<Rightarrow> outcome \<Rightarrow> string \<Rightarrow> bool \<Rightarrow> daemon" where
  "finishRun d t r outcome detail parked =
     (let d = (if (r_emergencyReason r \<noteq> [] \<or> r_pauseOverrideReason r \<noteq> [])
                  \<and> outcome \<noteq> OutcomeSkipped \<and> outcome \<noteq> OutcomeLanded
               then clearEmergency d (tg_Name t) (msg [''emergency stopped: '', detail]) else d);
          r = materializeChecks r;
          d = governorFeedback d t r outcome;
          r = r\<lparr>r_members := map (close_member d outcome (member_detail r detail)) (r_members r)\<rparr>;
          d = (if parked then park_members (tg_Name t) outcome detail (r_members r) d else d);
          d = finalizeRun d r in
      emit_members (tg_Name t) outcome detail parked (r_members r) d)"

definition rejectRun ::
  "daemon \<Rightarrow> target_cfg \<Rightarrow> candidate \<Rightarrow> string \<Rightarrow> string \<Rightarrow> string \<Rightarrow> trial_merge \<Rightarrow> outcome \<Rightarrow> string \<Rightarrow> daemon" where
  "rejectRun d t cand runID baseOID mergeOID trial outcome detail =
     (let d = forgetPrepared d runID;
          d = unpin d mergeOID;
          now = d_now d;
          rec = run_record_zero\<lparr>rr_RunID := runID, rr_Target := tg_Name t, rr_Candidate := cand,
                  rr_BaseOID := baseOID, rr_MergeSHA := mergeOID, rr_Trial := trial, rr_Outcome := outcome,
                  rr_Detail := detail, rr_StartedAt := now, rr_EndedAt := now\<rparr>;
          d = park d (tg_Name t) cand outcome detail runID;
          d = emit d (terminal_event d outcome (tg_Name t) cand rec detail) in
      maybeAutoRetry d (tg_Name t) cand outcome)"

section \<open>Landing\<close>

definition stampReceiptRecords :: "receipt_notes \<Rightarrow> run \<Rightarrow> run" where
  "stampReceiptRecords notes r =
     r\<lparr>r_members := map (\<lambda>m. m\<lparr>m_rec := (m_rec m)\<lparr>rr_ReceiptRef := rn_Ref notes,
          rr_ReceiptBlob := r_receiptBlobSHA r, rr_ReceiptPublished := r_receiptPublished r\<rparr>\<rparr>) (r_members r)\<rparr>"

text \<open>Why a landing stops before the push: outcome, detail and whether the members are parked.\<close>

type_synonym land_stop = "outcome \<times> string \<times> bool"

definition review_changed :: "string \<Rightarrow> land_stop" where
  "review_changed e = (OutcomeSkipped, msg [''review changed before land: '', e], False)"

fun validate_members :: "review_source \<Rightarrow> bool \<Rightarrow> run_member list \<Rightarrow> daemon \<Rightarrow> go_error \<times> daemon" where
  "validate_members rs emergency [] d = (None, d)"
| "validate_members rs emergency (m # ms) d =
     (if c_Source (m_cand m) = [] then validate_members rs emergency ms d
      else
       (let d = d\<lparr>d_io := Suc (d_io d)\<rparr>;
            err = (if emergency
                   then (case rs_ValidateEmergency rs of
                           Some vld \<Rightarrow> vld (d_io d) (m_cand m)
                         | None \<Rightarrow> Some ''forge does not support honest emergency validation'')
                   else rs_Validate rs (d_io d) (m_cand m)) in
        case err of Some e \<Rightarrow> (Some e, d) | None \<Rightarrow> validate_members rs emergency ms d))"

definition fresh_inputs ::
  "daemon \<Rightarrow> review_source \<Rightarrow> run \<Rightarrow> (string + (string, policy_input) gomap option) \<times> daemon" where
  "fresh_inputs d rs r =
     (let reviewMembers = filter (\<lambda>c. c_Source c \<noteq> []) (map m_cand (r_members r)) in
      case rs_ValidatePolicyInputs rs of
        None \<Rightarrow> (Inr None, d)
      | Some vld \<Rightarrow>
          if reviewMembers = [] then (Inr None, d)
          else (vld (Suc (d_io d)) reviewMembers (r_emergencyReason r \<noteq> []), d\<lparr>d_io := Suc (d_io d)\<rparr>))"

definition review_gate :: "daemon \<Rightarrow> run \<Rightarrow> (land_stop + (string, policy_input) gomap option) \<times> daemon" where
  "review_gate d r =
     (case cf_Reviews (d_cfg d) of
        None \<Rightarrow> (Inr None, d)
      | Some rs \<Rightarrow>
          (case fresh_inputs d rs r of
             (Inl e, d) \<Rightarrow> (Inl (review_changed e), d)
           | (Inr (Some inputs), d) \<Rightarrow> (Inr (Some inputs), d)
           | (Inr None, d) \<Rightarrow>
               (case validate_members rs (r_emergencyReason r \<noteq> []) (r_members r) d of
                  (Some e, d) \<Rightarrow> (Inl (review_changed e), d)
                | (None, d) \<Rightarrow> (Inr None, d))))"

fun policy_gate ::
  "target_cfg \<Rightarrow> run \<Rightarrow> (string, policy_input) gomap option \<Rightarrow> run_member list \<Rightarrow> daemon \<Rightarrow> land_stop option \<times> daemon" where
  "policy_gate t r fresh [] d = (None, d)"
| "policy_gate t r fresh (m # ms) d =
     (let c = m_cand m;
          prepared = (case fresh of
                        Some inputs \<Rightarrow> if c_Source c \<noteq> [] then map_of inputs (c_Ref c) else None
                      | None \<Rightarrow> None) in
      if fresh \<noteq> None \<and> c_Source c \<noteq> [] \<and> prepared = None
      then (Some (OutcomeSkipped, msg [''fresh policy snapshot missing for '', c_Ref c], False), d)
      else (case evaluatePolicy d t c (r_baseOID r) (map m_cand (r_members r)) (rr_Checks (m_rec m)) ''landing''
                   (r_emergencyReason r \<noteq> []) (r_overridePause r) prepared of
              (Some e, d) \<Rightarrow> (Some (OutcomeRejected, msg [''landing policy: '', e], True), d)
            | (None, d) \<Rightarrow> policy_gate t r fresh ms d))"

definition receipt_gate :: "daemon \<Rightarrow> run \<Rightarrow> (land_stop + run) \<times> daemon" where
  "receipt_gate d r =
     (case cf_ReceiptNotes (d_cfg d) of
        None \<Rightarrow> (Inr r, d)
      | Some notes \<Rightarrow>
          (let d = d\<lparr>d_io := Suc (d_io d)\<rparr> in
           case g_PublishNote (d_git d) (d_io d) (rn_Ref notes) (r_chainTip r) (r_receiptPayload r) of
             Inl err \<Rightarrow>
               (Inl (OutcomeError,
                  (case err of
                     ErrNoteConflict e \<Rightarrow>
                       msg [''publish receipt note: invariant violation (a different receipt already exists for this tested SHA): '', e]
                   | e \<Rightarrow> msg [''publish receipt note: '', git_error_string e]), True), d)
           | Inr res \<Rightarrow>
               (Inr (stampReceiptRecords notes (r\<lparr>r_receiptBlobSHA := np_NoteBlobSHA res,
                       r_receiptPublished := (if np_Published res then ''published'' else ''already-present'')\<rparr>)), d)))"

text \<open>One member of a landed chain: its slot is deleted (or the forge told), and its landing reported.\<close>

definition delete_slot :: "daemon \<Rightarrow> candidate \<Rightarrow> string \<Rightarrow> git_error option \<times> daemon" where
  "delete_slot d c mergeSHA =
     (if c_Source c = [] then casUpdate d (c_Ref c) (c_SHA c) []
      else (let d = d\<lparr>d_io := Suc (d_io d)\<rparr> in
            case cf_Reviews (d_cfg d) of
              None \<Rightarrow> (Some (ErrOther ''no review source''), d)
            | Some rs \<Rightarrow> (rs_Landed rs (d_io d) c mergeSHA, d)))"

definition slot_detail :: "git_error option \<Rightarrow> string" where
  "slot_detail err =
     (case err of
        None \<Rightarrow> []
      | Some ErrCASStale \<Rightarrow> ''candidate re-pushed before slot delete; slot survives at new SHA and re-queues''
      | Some e \<Rightarrow> msg [''land: delete slot: '', git_error_string e])"

definition landed_urgent :: "daemon \<Rightarrow> candidate \<Rightarrow> bool" where
  "landed_urgent d c =
     (case map_of (ct_Priorities (d_controls d)) (c_Ref c) of
        Some e \<Rightarrow> if rev_SHA (py_Revision e) = c_SHA c \<and> rev_Version (py_Revision e) = c_Version c
                  then py_Class e = ''urgent'' else c_Urgent c
      | None \<Rightarrow> c_Urgent c)"

definition land_member :: "target_cfg \<Rightarrow> run \<Rightarrow> run_member \<Rightarrow> daemon \<Rightarrow> run_member \<times> daemon" where
  "land_member t r m d =
     (let (delErr, d) = delete_slot d (m_cand m) (m_mergeOID m);
          detail = slot_detail delErr;
          burst = (if landed_urgent d (m_cand m) then mget 0 (d_urgentBurst d) (tg_Name t) + 1 else 0);
          d = d\<lparr>d_urgentBurst := mput (tg_Name t) burst (d_urgentBurst d)\<rparr>;
          m = close_member d OutcomeLanded (member_detail r detail) m in
      (m, emit d (terminal_event d OutcomeLanded (tg_Name t) (m_cand m) (m_rec m) (rr_Detail (m_rec m)))))"

fun land_members :: "target_cfg \<Rightarrow> run \<Rightarrow> run_member list \<Rightarrow> daemon \<Rightarrow> run_member list \<times> daemon" where
  "land_members t r [] d = ([], d)"
| "land_members t r (m # ms) d =
     (case land_member t r m d of (m, d) \<Rightarrow>
        case land_members t r ms d of (ms, d) \<Rightarrow> (m # ms, d))"

definition push_failed :: "daemon \<Rightarrow> target_cfg \<Rightarrow> run \<Rightarrow> git_error \<Rightarrow> daemon" where
  "push_failed d t r err =
     (case err of
        ErrCASStale \<Rightarrow> finishRun d t r OutcomeSkipped ''target moved before land; slot kept, retried next tick'' False
      | e \<Rightarrow>
          (let d = d\<lparr>d_landedPins := mput (r_chainTip r) (targetRefName t) (d_landedPins d)\<rparr> in
           finishRun d t r OutcomeSkipped
             (msg [''land: push target: '', git_error_string e, ''; slot kept, retried next tick'']) False))"

definition push_done :: "daemon \<Rightarrow> target_cfg \<Rightarrow> run \<Rightarrow> daemon" where
  "push_done d t r =
     (let d = d\<lparr>d_landedPins := mput (r_chainTip r) (targetRefName t) (d_landedPins d)\<rparr>;
          d = governorFeedback d t r OutcomeLanded;
          d = d\<lparr>d_batchFallback := mdel (tg_Name t) (d_batchFallback d), d_batchRecovery := mdel (tg_Name t) (d_batchRecovery d)\<rparr>;
          (ms, d) = land_members t r (r_members r) d;
          r = r\<lparr>r_members := ms\<rparr>;
          d = (if r_controlPrepared r then clearEmergency d (tg_Name t) [] else d);
          (d, r) = deleteTrialRefNow d r in
      finalizeRun d r)"

definition stop_landing :: "daemon \<Rightarrow> target_cfg \<Rightarrow> run \<Rightarrow> land_stop \<Rightarrow> daemon" where
  "stop_landing d t r stop = (case stop of (outcome, detail, parked) \<Rightarrow> finishRun d t r outcome detail parked)"

definition landRun :: "daemon \<Rightarrow> target_cfg \<Rightarrow> run \<Rightarrow> daemon" where
  "landRun d t r =
     (if mhas (ct_Pauses (d_controls d)) (tg_Name t) \<and> \<not> r_overridePause r then d
      else case review_gate d r of
        (Inl stop, d) \<Rightarrow> stop_landing d t r stop
      | (Inr fresh, d) \<Rightarrow>
          (case policy_gate t r fresh (r_members r) d of
             (Some stop, d) \<Rightarrow> stop_landing d t r stop
           | (None, d) \<Rightarrow>
               (case receipt_gate d r of
                  (Inl stop, d) \<Rightarrow> stop_landing d t r stop
                | (Inr r, d) \<Rightarrow>
                    (case casUpdate d (targetRefName t) (r_baseOID r) (r_chainTip r) of
                       (Some err, d) \<Rightarrow> push_failed d t r err
                     | (None, d) \<Rightarrow> push_done d t r))))"

section \<open>Recovery\<close>

definition linearTarget :: "daemon \<Rightarrow> string \<Rightarrow> bool" where
  "linearTarget d name =
     (case find (\<lambda>t. tg_Name t = name) (cf_Targets (d_cfg d)) of None \<Rightarrow> False | Some t \<Rightarrow> tg_Landing t = ''squash'')"

definition landing_version :: "candidate \<Rightarrow> string" where
  "landing_version c = (if c_Source c \<noteq> [] then ''*'' else c_Version c)"

definition candidateLanded :: "daemon \<Rightarrow> target_cfg \<Rightarrow> candidate \<Rightarrow> string \<Rightarrow> (string + bool) \<times> daemon" where
  "candidateLanded d t c tip =
     (if tg_Landing t \<noteq> ''squash''
      then (let d = d\<lparr>d_io := Suc (d_io d)\<rparr> in (g_IsAncestor (d_git d) (d_io d) (c_SHA c) tip, d))
      else case g_Linear (d_git d) of
        None \<Rightarrow> (Inl ''git backend does not support linear landings'', d)
      | Some g \<Rightarrow>
          (let d = d\<lparr>d_io := Suc (d_io d)\<rparr> in
           case lg_FindLanding g (d_io d) tip (c_Ref c) (c_SHA c) (landing_version c) of
             Inl e \<Rightarrow> (Inl e, d)
           | Inr sha \<Rightarrow>
               if sha = [] \<and> c_Source c = []
               then (let d = d\<lparr>d_io := Suc (d_io d)\<rparr> in (g_IsAncestor (d_git d) (d_io d) (c_SHA c) tip, d))
               else (Inr (sha \<noteq> []), d)))"

definition find_landing :: "daemon \<Rightarrow> target_cfg \<Rightarrow> candidate \<Rightarrow> string \<Rightarrow> string \<times> daemon" where
  "find_landing d t c tip =
     (let d = d\<lparr>d_io := Suc (d_io d)\<rparr>;
          mergeSHA = (case g_FindLandingMerge (d_git d) (d_io d) tip (c_SHA c) of Inl _ \<Rightarrow> [] | Inr s \<Rightarrow> s) in
      if tg_Landing t = ''squash''
      then (let d = d\<lparr>d_io := Suc (d_io d)\<rparr> in
            ((case g_Linear (d_git d) of
                None \<Rightarrow> []
              | Some g \<Rightarrow> (case lg_FindLanding g (d_io d) tip (c_Ref c) (c_SHA c) (landing_version c) of
                            Inl _ \<Rightarrow> [] | Inr s \<Rightarrow> s)), d))
      else (mergeSHA, d))"

definition recoverLanded :: "daemon \<Rightarrow> target_cfg \<Rightarrow> candidate \<Rightarrow> string \<Rightarrow> daemon" where
  "recoverLanded d t cand targetTip =
     (let (mergeSHA, d) = find_landing d t cand targetTip;
          (delErr, d) = delete_slot d cand mergeSHA in
      if delErr \<noteq> None \<and> delErr \<noteq> Some ErrCASStale then d
      else
       (let now = d_now d;
            (runID, d) = newRunID d now (c_SHA cand);
            detail = (if tg_Landing t = ''squash'' then ''candidate already recorded in target history; checks not re-run''
                      else ''candidate already ancestor of target; checks not re-run'');
            rec = run_record_zero\<lparr>rr_RunID := runID, rr_Target := tg_Name t, rr_Candidate := cand, rr_MergeSHA := mergeSHA,
                    rr_Outcome := OutcomeLanded, rr_Detail := detail, rr_StartedAt := now, rr_EndedAt := now,
                    rr_Recovered := True\<rparr> in
        emit d (terminal_event d OutcomeLanded (tg_Name t) cand rec detail)))"

section \<open>What the operations leave alone\<close>

lemma casUpdate_frame [simp]:
  "d_git (snd (casUpdate d ref old new)) = d_git d" "d_cfg (snd (casUpdate d ref old new)) = d_cfg d"
  "d_now (snd (casUpdate d ref old new)) = d_now d" "d_done (snd (casUpdate d ref old new)) = d_done d"
  "d_lanes (snd (casUpdate d ref old new)) = d_lanes d"
  "d_draining (snd (casUpdate d ref old new)) = d_draining d"
  "d_pins (snd (casUpdate d ref old new)) = d_pins d"
  "d_landedPins (snd (casUpdate d ref old new)) = d_landedPins d"
  "d_events (snd (casUpdate d ref old new)) = d_events d"
  by (simp_all add: casUpdate_def Let_def split: cas_fault.splits)

lemma unpin_frame [simp]:
  "d_git (unpin d oid) = d_git d" "d_cfg (unpin d oid) = d_cfg d" "d_now (unpin d oid) = d_now d"
  "d_done (unpin d oid) = d_done d" "d_lanes (unpin d oid) = d_lanes d"
  "d_draining (unpin d oid) = d_draining d" "d_pushes (unpin d oid) = d_pushes d"
  "d_landedPins (unpin d oid) = d_landedPins d" "d_events (unpin d oid) = d_events d"
  "d_remote (unpin d oid) = d_remote d"
  by (simp_all add: unpin_def)

lemma deleteTrialRefNow_frame [simp]:
  "d_git (fst (deleteTrialRefNow d r)) = d_git d" "d_cfg (fst (deleteTrialRefNow d r)) = d_cfg d"
  "d_now (fst (deleteTrialRefNow d r)) = d_now d" "d_done (fst (deleteTrialRefNow d r)) = d_done d"
  "d_lanes (fst (deleteTrialRefNow d r)) = d_lanes d"
  "d_draining (fst (deleteTrialRefNow d r)) = d_draining d"
  "d_pins (fst (deleteTrialRefNow d r)) = d_pins d"
  "d_landedPins (fst (deleteTrialRefNow d r)) = d_landedPins d"
  "d_events (fst (deleteTrialRefNow d r)) = d_events d"
  by (simp_all add: deleteTrialRefNow_def Let_def)

lemma scheduleTrialReap_frame [simp]:
  "d_git (scheduleTrialReap d ref oid) = d_git d" "d_cfg (scheduleTrialReap d ref oid) = d_cfg d"
  "d_now (scheduleTrialReap d ref oid) = d_now d" "d_done (scheduleTrialReap d ref oid) = d_done d"
  "d_lanes (scheduleTrialReap d ref oid) = d_lanes d"
  "d_draining (scheduleTrialReap d ref oid) = d_draining d"
  "d_pins (scheduleTrialReap d ref oid) = d_pins d"
  "d_landedPins (scheduleTrialReap d ref oid) = d_landedPins d"
  "d_events (scheduleTrialReap d ref oid) = d_events d"
  by (simp_all add: scheduleTrialReap_def)

lemma clearEmergency_frame [simp]:
  "d_git (clearEmergency d target reason) = d_git d" "d_cfg (clearEmergency d target reason) = d_cfg d"
  "d_now (clearEmergency d target reason) = d_now d" "d_done (clearEmergency d target reason) = d_done d"
  "d_lanes (clearEmergency d target reason) = d_lanes d"
  "d_draining (clearEmergency d target reason) = d_draining d"
  "d_pushes (clearEmergency d target reason) = d_pushes d"
  "d_pins (clearEmergency d target reason) = d_pins d"
  "d_landedPins (clearEmergency d target reason) = d_landedPins d"
  "d_events (clearEmergency d target reason) = d_events d"
  "d_remote (clearEmergency d target reason) = d_remote d"
  by (simp_all add: clearEmergency_def Let_def)

lemma governorFeedback_frame [simp]:
  "d_git (governorFeedback d t r oc) = d_git d" "d_cfg (governorFeedback d t r oc) = d_cfg d"
  "d_now (governorFeedback d t r oc) = d_now d" "d_done (governorFeedback d t r oc) = d_done d"
  "d_lanes (governorFeedback d t r oc) = d_lanes d" "d_draining (governorFeedback d t r oc) = d_draining d"
  "d_pushes (governorFeedback d t r oc) = d_pushes d" "d_pins (governorFeedback d t r oc) = d_pins d"
  "d_landedPins (governorFeedback d t r oc) = d_landedPins d"
  "d_events (governorFeedback d t r oc) = d_events d" "d_remote (governorFeedback d t r oc) = d_remote d"
  by (simp_all add: governorFeedback_def Let_def split: option.split)

lemma forgetPrepared_frame [simp]:
  "d_git (forgetPrepared d runID) = d_git d" "d_cfg (forgetPrepared d runID) = d_cfg d"
  "d_now (forgetPrepared d runID) = d_now d" "d_done (forgetPrepared d runID) = d_done d"
  "d_lanes (forgetPrepared d runID) = d_lanes d" "d_draining (forgetPrepared d runID) = d_draining d"
  "d_pushes (forgetPrepared d runID) = d_pushes d" "d_pins (forgetPrepared d runID) = d_pins d"
  "d_landedPins (forgetPrepared d runID) = d_landedPins d" "d_events (forgetPrepared d runID) = d_events d"
  "d_remote (forgetPrepared d runID) = d_remote d"
  by (simp_all add: forgetPrepared_def Let_def)

lemma finalizeRun_frame [simp]:
  "d_git (finalizeRun d r) = d_git d" "d_cfg (finalizeRun d r) = d_cfg d"
  "d_now (finalizeRun d r) = d_now d" "d_done (finalizeRun d r) = d_done d"
  "d_lanes (finalizeRun d r) = d_lanes d" "d_draining (finalizeRun d r) = d_draining d"
  "d_landedPins (finalizeRun d r) = d_landedPins d" "d_events (finalizeRun d r) = d_events d"
  by (simp_all add: finalizeRun_def Let_def)

lemma recordPolicyDecision_frame [simp]:
  "d_git (snd (recordPolicyDecision d ref sha phase input dec err)) = d_git d"
  "d_cfg (snd (recordPolicyDecision d ref sha phase input dec err)) = d_cfg d"
  "d_now (snd (recordPolicyDecision d ref sha phase input dec err)) = d_now d"
  "d_done (snd (recordPolicyDecision d ref sha phase input dec err)) = d_done d"
  "d_lanes (snd (recordPolicyDecision d ref sha phase input dec err)) = d_lanes d"
  "d_draining (snd (recordPolicyDecision d ref sha phase input dec err)) = d_draining d"
  "d_pushes (snd (recordPolicyDecision d ref sha phase input dec err)) = d_pushes d"
  "d_pins (snd (recordPolicyDecision d ref sha phase input dec err)) = d_pins d"
  "d_landedPins (snd (recordPolicyDecision d ref sha phase input dec err)) = d_landedPins d"
  "d_events (snd (recordPolicyDecision d ref sha phase input dec err)) = d_events d"
  "d_remote (snd (recordPolicyDecision d ref sha phase input dec err)) = d_remote d"
  by (simp_all add: recordPolicyDecision_def Let_def)

lemma evaluatePolicy_shape:
  "\<exists>n ref sha ph i dec e. snd (evaluatePolicy d t c base members checks phase skip override prepared) =
     snd (recordPolicyDecision (d\<lparr>d_io := n\<rparr>) ref sha ph i dec e)"
proof -
  have tail: "snd (if a then (x, D) else case e of Some e \<Rightarrow> (Some e, D) | None \<Rightarrow> if b then (y, D) else (None, D)) = D"
    for a b and x y e :: go_error and D :: daemon
    by (simp split: option.split)
  obtain n where n: "snd (policy_facts d c base prepared) = d\<lparr>d_io := n\<rparr>" using policy_facts_frame by blast
  have upd: "(d\<lparr>d_io := n\<rparr>)\<lparr>d_io := k\<rparr> = d\<lparr>d_io := k\<rparr>" for k by simp
  show ?thesis unfolding evaluatePolicy_def Let_def split_beta n tail upd by blast
qed

lemma evaluatePolicy_frame [simp]:
  "d_git (snd (evaluatePolicy d t c base members checks phase skip override prepared)) = d_git d"
  "d_cfg (snd (evaluatePolicy d t c base members checks phase skip override prepared)) = d_cfg d"
  "d_now (snd (evaluatePolicy d t c base members checks phase skip override prepared)) = d_now d"
  "d_done (snd (evaluatePolicy d t c base members checks phase skip override prepared)) = d_done d"
  "d_lanes (snd (evaluatePolicy d t c base members checks phase skip override prepared)) = d_lanes d"
  "d_draining (snd (evaluatePolicy d t c base members checks phase skip override prepared)) = d_draining d"
  "d_pushes (snd (evaluatePolicy d t c base members checks phase skip override prepared)) = d_pushes d"
  "d_pins (snd (evaluatePolicy d t c base members checks phase skip override prepared)) = d_pins d"
  "d_landedPins (snd (evaluatePolicy d t c base members checks phase skip override prepared)) = d_landedPins d"
  "d_events (snd (evaluatePolicy d t c base members checks phase skip override prepared)) = d_events d"
  "d_remote (snd (evaluatePolicy d t c base members checks phase skip override prepared)) = d_remote d"
  using evaluatePolicy_shape [of d t c base members checks phase skip override prepared] by auto

lemma park_members_frame [simp]:
  "d_git (park_members target oc detail ms d) = d_git d"
  "d_cfg (park_members target oc detail ms d) = d_cfg d"
  "d_now (park_members target oc detail ms d) = d_now d"
  "d_lanes (park_members target oc detail ms d) = d_lanes d"
  "d_draining (park_members target oc detail ms d) = d_draining d"
  "d_pushes (park_members target oc detail ms d) = d_pushes d"
  "d_pins (park_members target oc detail ms d) = d_pins d"
  "d_landedPins (park_members target oc detail ms d) = d_landedPins d"
  "d_events (park_members target oc detail ms d) = d_events d"
  "d_remote (park_members target oc detail ms d) = d_remote d"
  by (induction ms arbitrary: d) simp_all

lemma emit_members_frame [simp]:
  "d_git (emit_members target oc detail parked ms d) = d_git d"
  "d_cfg (emit_members target oc detail parked ms d) = d_cfg d"
  "d_now (emit_members target oc detail parked ms d) = d_now d"
  "d_lanes (emit_members target oc detail parked ms d) = d_lanes d"
  "d_draining (emit_members target oc detail parked ms d) = d_draining d"
  "d_pushes (emit_members target oc detail parked ms d) = d_pushes d"
  "d_pins (emit_members target oc detail parked ms d) = d_pins d"
  "d_landedPins (emit_members target oc detail parked ms d) = d_landedPins d"
  "d_remote (emit_members target oc detail parked ms d) = d_remote d"
  by (induction ms arbitrary: d) (simp_all add: Let_def)

lemma finishRun_frame [simp]:
  "d_git (finishRun d t r oc detail parked) = d_git d" "d_cfg (finishRun d t r oc detail parked) = d_cfg d"
  "d_now (finishRun d t r oc detail parked) = d_now d"
  "d_lanes (finishRun d t r oc detail parked) = d_lanes d"
  "d_draining (finishRun d t r oc detail parked) = d_draining d"
  "d_landedPins (finishRun d t r oc detail parked) = d_landedPins d"
  by (simp_all add: finishRun_def Let_def)

lemma validate_members_frame [simp]:
  "d_git (snd (validate_members rs em ms d)) = d_git d"
  "d_cfg (snd (validate_members rs em ms d)) = d_cfg d"
  "d_now (snd (validate_members rs em ms d)) = d_now d"
  "d_done (snd (validate_members rs em ms d)) = d_done d"
  "d_lanes (snd (validate_members rs em ms d)) = d_lanes d"
  "d_draining (snd (validate_members rs em ms d)) = d_draining d"
  "d_pushes (snd (validate_members rs em ms d)) = d_pushes d"
  "d_pins (snd (validate_members rs em ms d)) = d_pins d"
  "d_landedPins (snd (validate_members rs em ms d)) = d_landedPins d"
  "d_events (snd (validate_members rs em ms d)) = d_events d"
  "d_remote (snd (validate_members rs em ms d)) = d_remote d"
  by (induction ms arbitrary: d) (auto simp: Let_def split: option.split)

lemma fresh_inputs_frame [simp]:
  "d_git (snd (fresh_inputs d rs r)) = d_git d" "d_cfg (snd (fresh_inputs d rs r)) = d_cfg d"
  "d_now (snd (fresh_inputs d rs r)) = d_now d" "d_done (snd (fresh_inputs d rs r)) = d_done d"
  "d_lanes (snd (fresh_inputs d rs r)) = d_lanes d" "d_draining (snd (fresh_inputs d rs r)) = d_draining d"
  "d_pushes (snd (fresh_inputs d rs r)) = d_pushes d" "d_pins (snd (fresh_inputs d rs r)) = d_pins d"
  "d_landedPins (snd (fresh_inputs d rs r)) = d_landedPins d"
  "d_events (snd (fresh_inputs d rs r)) = d_events d" "d_remote (snd (fresh_inputs d rs r)) = d_remote d"
  by (simp_all add: fresh_inputs_def Let_def split: option.split)

lemma review_gate_frame [simp]:
  "d_git (snd (review_gate d r)) = d_git d" "d_cfg (snd (review_gate d r)) = d_cfg d"
  "d_now (snd (review_gate d r)) = d_now d" "d_done (snd (review_gate d r)) = d_done d"
  "d_lanes (snd (review_gate d r)) = d_lanes d" "d_draining (snd (review_gate d r)) = d_draining d"
  "d_pushes (snd (review_gate d r)) = d_pushes d" "d_pins (snd (review_gate d r)) = d_pins d"
  "d_landedPins (snd (review_gate d r)) = d_landedPins d" "d_events (snd (review_gate d r)) = d_events d"
  "d_remote (snd (review_gate d r)) = d_remote d"
  using fresh_inputs_frame [of d "the (cf_Reviews (d_cfg d))" r] validate_members_frame [of "the (cf_Reviews (d_cfg d))"]
  by (simp_all add: review_gate_def split_beta split: option.split sum.split)

lemma policy_gate_frame [simp]:
  "d_git (snd (policy_gate t r fresh ms d)) = d_git d" "d_cfg (snd (policy_gate t r fresh ms d)) = d_cfg d"
  "d_now (snd (policy_gate t r fresh ms d)) = d_now d"
  "d_done (snd (policy_gate t r fresh ms d)) = d_done d"
  "d_lanes (snd (policy_gate t r fresh ms d)) = d_lanes d"
  "d_draining (snd (policy_gate t r fresh ms d)) = d_draining d"
  "d_pushes (snd (policy_gate t r fresh ms d)) = d_pushes d"
  "d_pins (snd (policy_gate t r fresh ms d)) = d_pins d"
  "d_landedPins (snd (policy_gate t r fresh ms d)) = d_landedPins d"
  "d_events (snd (policy_gate t r fresh ms d)) = d_events d"
  "d_remote (snd (policy_gate t r fresh ms d)) = d_remote d"
  by (induction ms arbitrary: d) (auto simp: Let_def split_beta split: option.split)

lemma receipt_gate_frame [simp]:
  "d_git (snd (receipt_gate d r)) = d_git d" "d_cfg (snd (receipt_gate d r)) = d_cfg d"
  "d_now (snd (receipt_gate d r)) = d_now d" "d_done (snd (receipt_gate d r)) = d_done d"
  "d_lanes (snd (receipt_gate d r)) = d_lanes d" "d_draining (snd (receipt_gate d r)) = d_draining d"
  "d_pushes (snd (receipt_gate d r)) = d_pushes d" "d_pins (snd (receipt_gate d r)) = d_pins d"
  "d_landedPins (snd (receipt_gate d r)) = d_landedPins d" "d_events (snd (receipt_gate d r)) = d_events d"
  "d_remote (snd (receipt_gate d r)) = d_remote d"
  by (auto simp: receipt_gate_def Let_def split: option.split sum.split)

lemma delete_slot_frame [simp]:
  "d_git (snd (delete_slot d c sha)) = d_git d" "d_cfg (snd (delete_slot d c sha)) = d_cfg d"
  "d_now (snd (delete_slot d c sha)) = d_now d" "d_done (snd (delete_slot d c sha)) = d_done d"
  "d_lanes (snd (delete_slot d c sha)) = d_lanes d" "d_draining (snd (delete_slot d c sha)) = d_draining d"
  "d_pins (snd (delete_slot d c sha)) = d_pins d"
  "d_landedPins (snd (delete_slot d c sha)) = d_landedPins d"
  "d_events (snd (delete_slot d c sha)) = d_events d"
  by (simp_all add: delete_slot_def Let_def split: option.split)

lemma land_members_frame [simp]:
  "d_git (snd (land_members t r ms d)) = d_git d" "d_cfg (snd (land_members t r ms d)) = d_cfg d"
  "d_now (snd (land_members t r ms d)) = d_now d" "d_done (snd (land_members t r ms d)) = d_done d"
  "d_lanes (snd (land_members t r ms d)) = d_lanes d"
  "d_draining (snd (land_members t r ms d)) = d_draining d"
  "d_pins (snd (land_members t r ms d)) = d_pins d"
  "d_landedPins (snd (land_members t r ms d)) = d_landedPins d"
  by (induction ms arbitrary: d) (simp_all add: land_member_def Let_def split_beta)


section \<open>What is pushed\<close>

definition grows :: "('a \<Rightarrow> bool) \<Rightarrow> 'a list \<Rightarrow> 'a list \<Rightarrow> bool" where
  "grows P xs ys = (\<exists>zs. ys = xs @ zs \<and> list_all P zs)"

lemma grows_refl [simp]: "grows P xs xs"
  by (simp add: grows_def)

lemma grows_trans: "grows P xs ys \<Longrightarrow> grows P ys zs \<Longrightarrow> grows P xs zs"
  by (auto simp: grows_def)

lemma grows_mono: "grows P xs ys \<Longrightarrow> (\<And>x. P x \<Longrightarrow> Q x) \<Longrightarrow> grows Q xs ys"
  by (auto simp: grows_def elim!: list.pred_mono_strong)

lemma casUpdate_pushes:
  "P \<lparr>ps_ref = ref, ps_old = old, ps_new = new\<rparr> \<Longrightarrow> grows P (d_pushes d) (d_pushes (snd (casUpdate d ref old new)))"
  by (auto simp: casUpdate_def grows_def Let_def split: cas_fault.splits)

lemma casUpdate_applied: "casUpdate d ref old new = (None, d') \<Longrightarrow> mget [] (d_remote d') ref = new"
  by (auto simp: casUpdate_def Let_def split: cas_fault.splits if_splits)

lemma casUpdate_stale: "casUpdate d ref old new = (Some ErrCASStale, d') \<Longrightarrow> d_pushes d' = d_pushes d"
  by (auto simp: casUpdate_def Let_def split: cas_fault.splits if_splits)

definition trial_drop :: "run \<Rightarrow> ref_push \<Rightarrow> bool" where
  "trial_drop r p = (r_trialRef r \<noteq> [] \<and> p = \<lparr>ps_ref = r_trialRef r, ps_old = r_chainTip r, ps_new = []\<rparr>)"

definition slot_drop :: "run \<Rightarrow> ref_push \<Rightarrow> bool" where
  "slot_drop r p = (\<exists>c \<in> m_cand ` set (r_members r). c_Source c = [] \<and> p = \<lparr>ps_ref = c_Ref c, ps_old = c_SHA c, ps_new = []\<rparr>)"

definition target_push :: "target_cfg \<Rightarrow> run \<Rightarrow> ref_push" where
  "target_push t r = \<lparr>ps_ref = targetRefName t, ps_old = r_baseOID r, ps_new = r_chainTip r\<rparr>"

lemma trial_drop_pushes:
  "r_trialRef r \<noteq> [] \<Longrightarrow> grows (trial_drop r) (d_pushes d) (d_pushes (snd (casUpdate d (r_trialRef r) (r_chainTip r) [])))"
  by (rule casUpdate_pushes) (simp add: trial_drop_def)

lemma finalizeRun_pushes: "grows (trial_drop r) (d_pushes d) (d_pushes (finalizeRun d r))"
proof -
  have t: "r_trialRef r \<noteq> [] \<Longrightarrow> grows (trial_drop r) (d_pushes D) (d_pushes (scheduleTrialReap D (r_trialRef r) (r_chainTip r)))" for D
    using trial_drop_pushes [of r D] by (simp add: scheduleTrialReap_def)
  show ?thesis
    using t [of "forgetPrepared d (r_runID r)"] t [of "unpin (forgetPrepared d (r_runID r)) (r_chainTip r)"]
      t [of d] t [of "unpin d (r_chainTip r)"]
    by (simp add: finalizeRun_def Let_def)
qed

lemma deleteTrialRefNow_pushes: "grows (trial_drop r) (d_pushes d) (d_pushes (fst (deleteTrialRefNow d r)))"
  using trial_drop_pushes [of r d] by (simp add: deleteTrialRefNow_def Let_def)

lemma finalizeRun_pins: "mhas (d_landedPins d) (r_chainTip r) \<Longrightarrow> d_pins (finalizeRun d r) = d_pins d"
  by (simp add: finalizeRun_def Let_def)

lemma materializeChecks_trialRef [simp]: "r_trialRef (materializeChecks r) = r_trialRef r"
  by (simp add: materializeChecks_def Let_def)

lemma finishRun_pushes: "grows (trial_drop r) (d_pushes d) (d_pushes (finishRun d t r oc detail parked))"
proof -
  have same: "trial_drop ((materializeChecks r)\<lparr>r_members := ms\<rparr>) = trial_drop r" for ms
    by (simp add: trial_drop_def fun_eq_iff)
  have f: "d_pushes D = d_pushes d \<Longrightarrow>
      grows (trial_drop r) (d_pushes d) (d_pushes (finalizeRun D ((materializeChecks r)\<lparr>r_members := ms\<rparr>)))" for ms D
    using finalizeRun_pushes [of "(materializeChecks r)\<lparr>r_members := ms\<rparr>" D] by (simp only: same)
  show ?thesis unfolding finishRun_def Let_def emit_members_frame by (rule f) simp
qed

lemma delete_slot_pushes:
  "m \<in> set (r_members r) \<Longrightarrow> grows (slot_drop r) (d_pushes d) (d_pushes (snd (delete_slot d (m_cand m) sha)))"
  by (auto simp: delete_slot_def slot_drop_def Let_def split: option.split intro!: casUpdate_pushes)

lemma land_members_pushes:
  "set ms \<subseteq> set (r_members r) \<Longrightarrow> grows (slot_drop r) (d_pushes d) (d_pushes (snd (land_members t r ms d)))"
proof (induction ms arbitrary: d)
  case (Cons m ms)
  let ?d = "snd (land_member t r m d)"
  have "grows (slot_drop r) (d_pushes d) (d_pushes ?d)"
    using delete_slot_pushes [of m r d] Cons.prems by (simp add: land_member_def Let_def split_beta)
  moreover have "grows (slot_drop r) (d_pushes ?d) (d_pushes (snd (land_members t r ms ?d)))"
    using Cons by simp
  ultimately show ?case using grows_trans by (fastforce simp: split_beta)
qed simp

section \<open>What is reported\<close>

definition member_ids :: "run \<Rightarrow> (candidate \<times> string) list" where
  "member_ids r = map (\<lambda>m. (m_cand m, rr_RunID (m_rec m))) (r_members r)"

text \<open>The events from \<open>xs\<close> to \<open>ys\<close> are well-shaped and hold exactly one terminal event per member, in order.\<close>

definition reports :: "event_kind \<Rightarrow> (candidate \<times> string) list \<Rightarrow> event list \<Rightarrow> event list \<Rightarrow> bool" where
  "reports k ids xs ys =
     (\<exists>evs. ys = xs @ evs \<and> list_all (\<lambda>e. ValidateEvent e = None) evs
        \<and> map (\<lambda>e. (ev_Kind e, ev_Candidate e, ev_RunID e)) (filter (\<lambda>e. TerminalKind (ev_Kind e)) evs)
            = map (\<lambda>(c, runID). (k, c, runID)) ids)"

lemma reports_Nil [simp]: "reports k [] xs xs"
  by (simp add: reports_def)

lemma reports_append: "reports k ids xs ys \<Longrightarrow> reports k ids' ys zs \<Longrightarrow> reports k (ids @ ids') xs zs"
  by (fastforce simp: reports_def)

lemma eventKind_terminal [simp]: "TerminalKind (eventKindForOutcome oc)" "\<not> DeployKind (eventKindForOutcome oc)"
  "\<not> carries_check (eventKindForOutcome oc)"
  by (cases oc; simp add: carries_check_def)+

lemma terminal_event_valid [simp]: "ValidateEvent (terminal_event d oc target c rec detail) = None"
  using eventKind_terminal [of oc]
  by (intro ValidateEvent_run_ok) (simp_all del: TerminalKind.simps DeployKind.simps add: terminal_event_def)

lemma terminal_event_fields [simp]:
  "ev_Kind (terminal_event d oc target c rec detail) = eventKindForOutcome oc"
  "ev_Candidate (terminal_event d oc target c rec detail) = c"
  "ev_RunID (terminal_event d oc target c rec detail) = rr_RunID rec"
  by (simp_all add: terminal_event_def)

declare TerminalKind.simps [simp del] DeployKind.simps [simp del]

lemma emit_terminal_reports:
  "reports (eventKindForOutcome oc) [(c, rr_RunID rec)] (d_events d) (d_events (emit d (terminal_event d' oc target c rec detail)))"
  by (simp add: reports_def)

lemma maybeAutoRetry_reports: "reports k [] (d_events d) (d_events (maybeAutoRetry d target c oc))"
proof -
  have "reports k [] xs (xs @ retry_events D target ref sha q rd)" for xs D ref sha q rd
    by (simp add: reports_def retry_events_def Let_def ValidateEvent_run_ok carries_check_def TerminalKind.simps DeployKind.simps)
  then show ?thesis by (simp add: maybeAutoRetry_def clearPark_events Let_def split: option.split)
qed

lemma emit_members_reports:
  "reports (eventKindForOutcome oc) (map (\<lambda>m. (m_cand m, rr_RunID (m_rec m))) ms) (d_events d)
     (d_events (emit_members target oc detail parked ms d))"
proof (induction ms arbitrary: d)
  case (Cons m ms)
  let ?d = "emit d (terminal_event d oc target (m_cand m) (m_rec m) detail)"
  let ?d' = "if parked then maybeAutoRetry ?d target (m_cand m) oc else ?d"
  have retry: "reports (eventKindForOutcome oc) [] (d_events ?d) (d_events ?d')"
    using maybeAutoRetry_reports [of "eventKindForOutcome oc" ?d] by simp
  have "reports (eventKindForOutcome oc) ([(m_cand m, rr_RunID (m_rec m))] @ []) (d_events d) (d_events ?d')"
    by (rule reports_append [OF emit_terminal_reports retry])
  from reports_append [OF this Cons.IH [of ?d']] show ?case by (simp add: Let_def)
qed simp

lemma close_member_ids: "map (\<lambda>m. (m_cand m, rr_RunID (m_rec m))) (map (close_member d oc detail) ms) = map (\<lambda>m. (m_cand m, rr_RunID (m_rec m))) ms"
  by (simp add: close_member_def)

lemma materializeChecks_ids [simp]: "member_ids (materializeChecks r) = member_ids r"
  by (simp add: member_ids_def materializeChecks_def Let_def)

lemma finishRun_reports:
  "reports (eventKindForOutcome oc) (member_ids r) (d_events d) (d_events (finishRun d t r oc detail parked))"
proof -
  let ?r = "materializeChecks r"
  have "reports (eventKindForOutcome oc) (member_ids r) (d_events d) (d_events (emit_members (tg_Name t) oc detail parked
      (map (close_member D oc det) (r_members ?r)) E))" if "d_events E = d_events d" for D E det
    using emit_members_reports [of oc "map (close_member D oc det) (r_members ?r)" E "tg_Name t" detail parked] that
      materializeChecks_ids [of r] by (simp only: close_member_ids member_ids_def)
  then show ?thesis unfolding finishRun_def Let_def by simp
qed

lemma land_members_reports:
  "reports EventLanded (map (\<lambda>m. (m_cand m, rr_RunID (m_rec m))) ms) (d_events d) (d_events (snd (land_members t r ms d)))"
proof (induction ms arbitrary: d)
  case (Cons m ms)
  let ?d = "snd (land_member t r m d)"
  have "reports EventLanded [(m_cand m, rr_RunID (m_rec m))] (d_events d) (d_events ?d)"
    using emit_terminal_reports [of OutcomeLanded]
    by (simp add: land_member_def Let_def split_beta reports_def close_member_def)
  from reports_append [OF this Cons.IH [of ?d]] show ?case by (simp add: split_beta)
qed simp

lemma emit_members_parks: "\<not> parked \<Longrightarrow> d_done (emit_members target oc detail parked ms d) = d_done d"
  by (induction ms arbitrary: d) (simp_all add: Let_def)

lemma finishRun_unparked: "d_done (finishRun d t r oc detail False) = d_done d"
  by (simp add: finishRun_def Let_def emit_members_parks)

lemma finishRun_pins:
  "mhas (d_landedPins d) (r_chainTip r) \<Longrightarrow> d_pins (finishRun d t r oc detail parked) = d_pins d"
  unfolding finishRun_def Let_def by (simp add: finalizeRun_pins)

section \<open>The gates of a landing\<close>

definition validated :: "review_source \<Rightarrow> bool \<Rightarrow> candidate \<Rightarrow> bool" where
  "validated rs emergency c =
     (\<exists>n. if emergency then \<exists>v. rs_ValidateEmergency rs = Some v \<and> v n c = None else rs_Validate rs n c = None)"

definition review_confirmed :: "daemon \<Rightarrow> run \<Rightarrow> bool" where
  "review_confirmed d r =
     (\<forall>rs. cf_Reviews (d_cfg d) = Some rs \<longrightarrow>
        (\<exists>v n inputs. rs_ValidatePolicyInputs rs = Some v
            \<and> v n (filter (\<lambda>c. c_Source c \<noteq> []) (map m_cand (r_members r))) (r_emergencyReason r \<noteq> []) = Inr (Some inputs))
      \<or> (\<forall>m \<in> set (r_members r). c_Source (m_cand m) \<noteq> [] \<longrightarrow> validated rs (r_emergencyReason r \<noteq> []) (m_cand m)))"

definition landing_allowed :: "daemon \<Rightarrow> target_cfg \<Rightarrow> run \<Rightarrow> run_member \<Rightarrow> bool" where
  "landing_allowed d t r m =
     (\<exists>n inp dec. po_Decide (cf_Policy (d_cfg d)) n ''submission'' inp = (dec, None) \<and> de_Allow dec
        \<and> pi_Phase inp = ''landing'' \<and> pi_Target inp = tg_Name t \<and> pi_BaseSHA inp = r_baseOID r
        \<and> pi_Candidate inp = policyCandidate (m_cand m) \<and> pi_Stack inp = map policyCandidate (map m_cand (r_members r))
        \<and> pi_Checks inp = policyChecks (rr_Checks (m_rec m))
        \<and> pi_Emergency inp = \<lparr>pe_SkipChecks = r_emergencyReason r \<noteq> [], pe_OverridePause = r_overridePause r\<rparr>)"

definition receipt_confirmed :: "daemon \<Rightarrow> run \<Rightarrow> bool" where
  "receipt_confirmed d r =
     (\<forall>notes. cf_ReceiptNotes (d_cfg d) = Some notes \<longrightarrow>
        (\<exists>n res. g_PublishNote (d_git d) n (rn_Ref notes) (r_chainTip r) (r_receiptPayload r) = Inr res))"

definition landing_gates :: "daemon \<Rightarrow> target_cfg \<Rightarrow> run \<Rightarrow> bool" where
  "landing_gates d t r =
     ((mhas (ct_Pauses (d_controls d)) (tg_Name t) \<longrightarrow> r_overridePause r) \<and> review_confirmed d r
      \<and> (\<forall>m \<in> set (r_members r). landing_allowed d t r m) \<and> receipt_confirmed d r)"

lemma validate_members_ok:
  "validate_members rs em ms d = (None, d') \<Longrightarrow> m \<in> set ms \<Longrightarrow> c_Source (m_cand m) \<noteq> [] \<Longrightarrow> validated rs em (m_cand m)"
  by (cases em; induction ms arbitrary: d; auto simp: validated_def Let_def split: if_splits option.splits)

lemma review_gate_ok: "review_gate d r = (Inr fresh, d') \<Longrightarrow> review_confirmed d r"
proof (cases "cf_Reviews (d_cfg d)")
  case (Some rs)
  assume g: "review_gate d r = (Inr fresh, d')"
  obtain res d1 where f: "fresh_inputs d rs r = (res, d1)" by (cases "fresh_inputs d rs r")
  have v: "\<exists>v n. rs_ValidatePolicyInputs rs = Some v
      \<and> v n (filter (\<lambda>c. c_Source c \<noteq> []) (map m_cand (r_members r))) (r_emergencyReason r \<noteq> []) = Inr (Some i)"
    if "res = Inr (Some i)" for i
    using f that by (auto simp: fresh_inputs_def Let_def split: option.splits if_splits)
  have "fst (validate_members rs (r_emergencyReason r \<noteq> []) (r_members r) d1) = None" if "res = Inr None"
    using g Some f that by (simp add: review_gate_def split_beta split: option.splits)
  then have n: "res = Inr None \<Longrightarrow> m \<in> set (r_members r) \<Longrightarrow> c_Source (m_cand m) \<noteq> [] \<Longrightarrow>
      validated rs (r_emergencyReason r \<noteq> []) (m_cand m)" for m
    using validate_members_ok by (metis prod.collapse)
  have "\<exists>x. res = Inr x" using g Some f by (cases res) (simp_all add: review_gate_def)
  then consider i where "res = Inr (Some i)" | "res = Inr None" by (metis option.exhaust)
  then show ?thesis
  proof cases
    case (1 i)
    show ?thesis using v [OF 1] Some by (auto simp: review_confirmed_def)
  next
    case 2
    show ?thesis using n [OF 2] Some by (simp add: review_confirmed_def)
  qed
qed (simp add: review_confirmed_def)

lemma policy_gate_ok:
  "policy_gate t r fresh ms d = (None, d') \<Longrightarrow> m \<in> set ms \<Longrightarrow> landing_allowed d t r m"
proof (induction ms arbitrary: d)
  case (Cons m0 ms)
  let ?prep = "case fresh of Some inputs \<Rightarrow> if c_Source (m_cand m0) \<noteq> [] then map_of inputs (c_Ref (m_cand m0)) else None
      | None \<Rightarrow> None"
  let ?e = "evaluatePolicy d t (m_cand m0) (r_baseOID r) (map m_cand (r_members r)) (rr_Checks (m_rec m0)) ''landing''
      (r_emergencyReason r \<noteq> []) (r_overridePause r) ?prep"
  obtain err d1 where e: "?e = (err, d1)" by (cases ?e)
  have none: "err = None" "policy_gate t r fresh ms d1 = (None, d')"
    using Cons.prems(1) e by (auto simp: Let_def split: if_splits option.splits)
  have cfg: "d_cfg d1 = d_cfg d" using e by (metis evaluatePolicy_frame(2) snd_conv)
  have head: "landing_allowed d t r m0"
    using evaluatePolicy_allows [OF e [unfolded none(1)]] unfolding landing_allowed_def by blast
  have "landing_allowed d1 t r m" if "m \<in> set ms" using Cons.IH [OF none(2) that] .
  then show ?case using head Cons.prems(2) cfg by (auto simp: landing_allowed_def)
qed simp

definition quiet :: "daemon \<Rightarrow> daemon \<Rightarrow> bool" where
  "quiet d d' =
     (d_git d' = d_git d \<and> d_cfg d' = d_cfg d \<and> d_done d' = d_done d \<and> d_pushes d' = d_pushes d \<and> d_pins d' = d_pins d
      \<and> d_landedPins d' = d_landedPins d \<and> d_events d' = d_events d \<and> d_lanes d' = d_lanes d)"

lemma quiet_gates:
  "quiet d (snd (review_gate d r))" "quiet d (snd (policy_gate t r fresh ms d))" "quiet d (snd (receipt_gate d r))"
  by (simp_all add: quiet_def)

lemma quiet_trans: "quiet d d' \<Longrightarrow> quiet d' d'' \<Longrightarrow> quiet d d''"
  by (simp add: quiet_def)

definition stamped :: "run \<Rightarrow> run \<Rightarrow> bool" where
  "stamped r r' = (r_chainTip r' = r_chainTip r \<and> r_baseOID r' = r_baseOID r \<and> r_trialRef r' = r_trialRef r \<and> member_ids r' = member_ids r)"

lemma stamped_drops:
  assumes "stamped r r'"
  shows "trial_drop r' = trial_drop r" "slot_drop r' = slot_drop r"
proof -
  have "m_cand ` set (r_members x) = fst ` set (member_ids x)" for x by (simp add: member_ids_def image_image)
  then show "slot_drop r' = slot_drop r" using assms by (simp add: slot_drop_def fun_eq_iff stamped_def)
qed (use assms in \<open>simp add: trial_drop_def fun_eq_iff stamped_def\<close>)

lemma receipt_gate_ok:
  assumes "receipt_gate d r = (Inr r', d')"
  shows "receipt_confirmed d r" "stamped r r'"
  using assms
  by (auto simp: receipt_gate_def receipt_confirmed_def stamped_def stampReceiptRecords_def member_ids_def Let_def
      split: option.splits sum.splits)

lemma gate_stops:
  "review_gate d r = (Inl stop, d') \<Longrightarrow> fst stop = OutcomeSkipped \<and> \<not> snd (snd stop)"
  "policy_gate t r fresh ms d = (Some stop, d') \<Longrightarrow>
     fst stop = OutcomeSkipped \<and> \<not> snd (snd stop) \<or> fst stop = OutcomeRejected \<and> snd (snd stop)"
  "receipt_gate d r = (Inl stop, d') \<Longrightarrow> fst stop = OutcomeError \<and> snd (snd stop)"
proof -
  show "review_gate d r = (Inl stop, d') \<Longrightarrow> fst stop = OutcomeSkipped \<and> \<not> snd (snd stop)"
    by (auto simp: review_gate_def review_changed_def split_beta split: option.splits sum.splits)
  show "policy_gate t r fresh ms d = (Some stop, d') \<Longrightarrow>
     fst stop = OutcomeSkipped \<and> \<not> snd (snd stop) \<or> fst stop = OutcomeRejected \<and> snd (snd stop)"
    by (induction ms arbitrary: d) (auto simp: Let_def split_beta split: if_splits option.splits)
  show "receipt_gate d r = (Inl stop, d') \<Longrightarrow> fst stop = OutcomeError \<and> snd (snd stop)"
    by (auto simp: receipt_gate_def Let_def split: option.splits sum.splits)
qed

lemma landRun_cases:
  obtains (paused) "mhas (ct_Pauses (d_controls d)) (tg_Name t)" "\<not> r_overridePause r" "landRun d t r = d"
  | (stopped) d1 oc detail parked where "quiet d d1" "landRun d t r = finishRun d1 t r oc detail parked"
      "oc = OutcomeSkipped \<and> \<not> parked \<or> (oc = OutcomeRejected \<or> oc = OutcomeError) \<and> parked"
  | (pushed) d1 r1 err d2 where "quiet d d1" "stamped r r1" "landing_gates d t r"
      "casUpdate d1 (targetRefName t) (r_baseOID r) (r_chainTip r) = (err, d2)"
      "landRun d t r = (case err of None \<Rightarrow> push_done d2 t r1 | Some e \<Rightarrow> push_failed d2 t r1 e)"
proof (cases "mhas (ct_Pauses (d_controls d)) (tg_Name t) \<and> \<not> r_overridePause r")
  case True
  then show ?thesis using paused by (simp add: landRun_def)
next
  case open_target: False
  obtain rev0 d1 where rg: "review_gate d r = (rev0, d1)" by (cases "review_gate d r")
  have q1: "quiet d d1" using quiet_gates(1) [of d r] rg by simp
  show ?thesis
  proof (cases rev0)
    case (Inl stop)
    show ?thesis using stopped [OF q1, of "fst stop" "fst (snd stop)" "snd (snd stop)"] gate_stops(1) [of d r stop d1] Inl rg open_target
      by (auto simp: landRun_def stop_landing_def split_beta)
  next
    case (Inr fresh)
    obtain pol d2 where pg: "policy_gate t r fresh (r_members r) d1 = (pol, d2)"
      by (cases "policy_gate t r fresh (r_members r) d1")
    have q2: "quiet d d2" using quiet_trans [OF q1] quiet_gates(2) [of d1 t r fresh "r_members r"] pg by simp
    show ?thesis
    proof (cases pol)
      case (Some stop)
      show ?thesis
        using stopped [OF q2, of "fst stop" "fst (snd stop)" "snd (snd stop)"] gate_stops(2) [of t r fresh "r_members r" d1 stop d2]
          Inr Some rg pg open_target by (auto simp: landRun_def stop_landing_def split_beta)
    next
      case None
      obtain rec d3 where cg: "receipt_gate d2 r = (rec, d3)" by (cases "receipt_gate d2 r")
      have q3: "quiet d d3" using quiet_trans [OF q2] quiet_gates(3) [of d2 r] cg by simp
      show ?thesis
      proof (cases rec)
        case (Inl stop)
        show ?thesis using stopped [OF q3, of "fst stop" "fst (snd stop)" "snd (snd stop)"] gate_stops(3) [of d2 r stop d3]
          Inl \<open>rev0 = Inr fresh\<close> None rg pg cg open_target by (auto simp: landRun_def stop_landing_def split_beta)
      next
        case (Inr r1)
        note ok = receipt_gate_ok [OF cg [unfolded Inr]]
        have cfg: "d_cfg d1 = d_cfg d" "d_cfg d2 = d_cfg d" "d_git d2 = d_git d" using q1 q2 by (simp_all add: quiet_def)
        have gates: "landing_gates d t r"
          unfolding landing_gates_def
          using open_target review_gate_ok [OF rg [unfolded \<open>rev0 = Inr fresh\<close>]]
            policy_gate_ok [OF pg [unfolded None]] ok(1) cfg
          by (auto simp: landing_allowed_def receipt_confirmed_def)
        obtain err d4 where cas: "casUpdate d3 (targetRefName t) (r_baseOID r) (r_chainTip r) = (err, d4)"
          by (cases "casUpdate d3 (targetRefName t) (r_baseOID r) (r_chainTip r)")
        show ?thesis
          using pushed [OF q3 ok(2) gates cas] \<open>rev0 = Inr fresh\<close> None Inr rg pg cg cas ok(2) open_target
          by (auto simp: landRun_def stamped_def split: option.split)
      qed
    qed
  qed
qed

lemma push_failed_shape:
  "\<exists>detail. push_failed d t r e = finishRun (if e = ErrCASStale then d
     else d\<lparr>d_landedPins := mput (r_chainTip r) (targetRefName t) (d_landedPins d)\<rparr>) t r OutcomeSkipped detail False"
  by (cases e) (auto simp: push_failed_def)

lemma push_failed_state:
  "grows (trial_drop r) (d_pushes d) (d_pushes (push_failed d t r e))"
  "reports EventSkipped (member_ids r) (d_events d) (d_events (push_failed d t r e))"
  "d_done (push_failed d t r e) = d_done d"
  "e \<noteq> ErrCASStale \<Longrightarrow> d_pins (push_failed d t r e) = d_pins d
     \<and> d_landedPins (push_failed d t r e) = mput (r_chainTip r) (targetRefName t) (d_landedPins d)"
proof -
  let ?d = "if e = ErrCASStale then d else d\<lparr>d_landedPins := mput (r_chainTip r) (targetRefName t) (d_landedPins d)\<rparr>"
  obtain detail where p: "push_failed d t r e = finishRun ?d t r OutcomeSkipped detail False"
    using push_failed_shape by blast
  have same: "d_pushes ?d = d_pushes d" "d_events ?d = d_events d" "d_done ?d = d_done d" by simp_all
  show "grows (trial_drop r) (d_pushes d) (d_pushes (push_failed d t r e))"
    using finishRun_pushes [of r ?d t OutcomeSkipped detail False] unfolding p same .
  show "reports EventSkipped (member_ids r) (d_events d) (d_events (push_failed d t r e))"
    using finishRun_reports [of OutcomeSkipped r ?d t detail False] unfolding p same by simp
  show "d_done (push_failed d t r e) = d_done d" unfolding p finishRun_unparked same ..
  show "e \<noteq> ErrCASStale \<Longrightarrow> d_pins (push_failed d t r e) = d_pins d
     \<and> d_landedPins (push_failed d t r e) = mput (r_chainTip r) (targetRefName t) (d_landedPins d)"
    using finishRun_pins [of ?d r t OutcomeSkipped detail False] unfolding p by simp
qed

lemma push_done_state:
  "grows (\<lambda>p. trial_drop r p \<or> slot_drop r p) (d_pushes d) (d_pushes (push_done d t r))"
  "reports EventLanded (member_ids r) (d_events d) (d_events (push_done d t r))"
  "d_done (push_done d t r) = d_done d" "d_pins (push_done d t r) = d_pins d"
  "d_landedPins (push_done d t r) = mput (r_chainTip r) (targetRefName t) (d_landedPins d)"
proof -
  let ?pin = "mput (r_chainTip r) (targetRefName t) (d_landedPins d)"
  define d1 where "d1 = (governorFeedback (d\<lparr>d_landedPins := ?pin\<rparr>) t r OutcomeLanded)"
  define d2 where "d2 = d1\<lparr>d_batchFallback := mdel (tg_Name t) (d_batchFallback d1), d_batchRecovery := mdel (tg_Name t) (d_batchRecovery d1)\<rparr>"
  define ms where "ms = fst (land_members t r (r_members r) d2)"
  define d3 where "d3 = snd (land_members t r (r_members r) d2)"
  define d4 where "d4 = (if r_controlPrepared r then clearEmergency d3 (tg_Name t) [] else d3)"
  let ?r = "r\<lparr>r_members := ms\<rparr>"
  let ?x = "deleteTrialRefNow d4 ?r"
  have p: "push_done d t r = finalizeRun (fst ?x) (snd ?x)"
    unfolding push_done_def Let_def d1_def [symmetric] d2_def [symmetric] split_beta ms_def [symmetric] d3_def [symmetric]
    by (simp add: d4_def)
  have r: "r_trialRef (snd ?x) = []" "r_chainTip (snd ?x) = r_chainTip r" by (simp_all add: deleteTrialRefNow_def Let_def)
  have nt: "\<not> trial_drop (snd ?x) p" for p using r by (simp add: trial_drop_def)
  have d4: "d_pushes d4 = d_pushes d3" "d_events d4 = d_events d3" "d_done d4 = d_done d" "d_pins d4 = d_pins d" "d_landedPins d4 = ?pin"
    "d_pushes d2 = d_pushes d" "d_events d2 = d_events d"
    by (simp_all add: d4_def d3_def d2_def d1_def)
  have td: "trial_drop ?r = trial_drop r" by (simp add: trial_drop_def fun_eq_iff)
  have 1: "grows (\<lambda>p. trial_drop r p \<or> slot_drop r p) (d_pushes d) (d_pushes d4)"
    using land_members_pushes [of "r_members r" r d2 t] unfolding d4 d3_def by (auto elim: grows_mono)
  have 2: "grows (\<lambda>p. trial_drop r p \<or> slot_drop r p) (d_pushes d4) (d_pushes (fst ?x))"
    using deleteTrialRefNow_pushes [of ?r d4] unfolding td by (rule grows_mono) simp
  have 3: "grows (\<lambda>p. trial_drop r p \<or> slot_drop r p) (d_pushes (fst ?x)) (d_pushes (finalizeRun (fst ?x) (snd ?x)))"
    using finalizeRun_pushes [of "snd ?x" "fst ?x"] by (rule grows_mono) (simp add: nt)
  show "grows (\<lambda>p. trial_drop r p \<or> slot_drop r p) (d_pushes d) (d_pushes (push_done d t r))"
    unfolding p by (rule grows_trans [OF grows_trans [OF 1 2] 3])
  show "reports EventLanded (member_ids r) (d_events d) (d_events (push_done d t r))"
    using land_members_reports [of "r_members r" d2 t r] by (simp add: p d4 d3_def [symmetric] member_ids_def)
  show "d_done (push_done d t r) = d_done d" "d_landedPins (push_done d t r) = ?pin" by (simp_all add: p d4)
  show "d_pins (push_done d t r) = d_pins d" unfolding p using r d4 by (subst finalizeRun_pins) simp_all
qed

text \<open>
  C4: landing is gated.  Whatever \<open>landRun\<close> writes to the remote is one of three things: the removal of
  the run's own trial ref at the tested commit, the target ref advanced from the base the run was tested
  on to exactly the tested chain tip, or the removal of a member's slot at the member's SHA; and the last
  two happen only when the target is not paused (or the run overrides the pause), the forge confirmed
  the reviews, the policy engine allowed every member's landing with the check results of the run, and a
  receipt that is required was published for the tested commit.
\<close>

theorem landRun_gated:
  "grows (\<lambda>p. trial_drop r p \<or> landing_gates d t r \<and> (p = target_push t r \<or> slot_drop r p))
     (d_pushes d) (d_pushes (landRun d t r))"
  (is "grows ?P _ _")
proof (cases rule: landRun_cases [of d t r])
  case (stopped d1 oc detail parked)
  then show ?thesis
    using finishRun_pushes [of r d1 t oc detail parked] by (auto simp: quiet_def elim: grows_mono)
next
  case (pushed d1 r1 err d2)
  have d1: "d_pushes d1 = d_pushes d" using pushed(1) by (simp add: quiet_def)
  have d2: "d2 = snd (casUpdate d1 (targetRefName t) (r_baseOID r) (r_chainTip r))" using pushed(4) by simp
  have "?P \<lparr>ps_ref = targetRefName t, ps_old = r_baseOID r, ps_new = r_chainTip r\<rparr>"
    using pushed(3) by (simp add: target_push_def)
  from casUpdate_pushes [of ?P, OF this, of d1] have 1: "grows ?P (d_pushes d) (d_pushes d2)" unfolding d1 d2 .
  have 2: "grows ?P (d_pushes d2) (d_pushes (push_done d2 t r1))"
    using push_done_state(1) [of r1 d2 t, unfolded stamped_drops [OF pushed(2)]] by (rule grows_mono) (use pushed(3) in auto)
  have 3: "grows ?P (d_pushes d2) (d_pushes (push_failed d2 t r1 e))" for e
    using push_failed_state(1) [of r1 d2 t e, unfolded stamped_drops [OF pushed(2)]] by (rule grows_mono) simp
  show ?thesis using grows_trans [OF 1 2] grows_trans [OF 1 3] unfolding pushed(5) by (simp split: option.split)
qed simp



end
