(* ===== verification/Queue_Lane.thy ===== *)
theory Queue_Lane
  imports Queue_Landing "HOL-Library.Multiset"
begin

text \<open>
  A target's lane (\<^verbatim>\<open>internal/queue/reconcile.go\<close>, from \<open>runInvalidated\<close> to \<open>invalidateSuffix\<close>, and
  \<open>finishBatchRed\<close>): invalidating moved runs, advancing checks, the red bubble and the landing of the green
  prefix.  The lane is the target's entry of \<open>d_lanes\<close>, which the operations replace as they truncate it.
\<close>

section \<open>Operations\<close>

definition set_lane :: "daemon \<Rightarrow> string \<Rightarrow> run list \<Rightarrow> daemon" where
  "set_lane d target runs = d\<lparr>d_lanes := mput target runs (d_lanes d)\<rparr>"

definition member_moved :: "(string, candidate) gomap \<Rightarrow> run_member \<Rightarrow> bool" where
  "member_moved cands m =
     (case map_of cands (c_Ref (m_cand m)) of
        None \<Rightarrow> True
      | Some cur \<Rightarrow> c_SHA cur \<noteq> c_SHA (m_cand m) \<or> c_Version cur \<noteq> c_Version (m_cand m))"

definition runInvalidated :: "run \<Rightarrow> nat \<Rightarrow> string \<Rightarrow> (string, candidate) gomap \<Rightarrow> string option" where
  "runInvalidated r laneIndex targetTip cands =
     (case find (member_moved cands) (r_members r) of
        Some m \<Rightarrow> Some (msg [''candidate ref '', c_Ref (m_cand m), '' moved or vanished mid-run (Invariant 5)''])
      | None \<Rightarrow>
          if laneIndex = 0 \<and> targetTip \<noteq> r_baseOID r
          then Some (msg [''target '', r_target r, '' moved mid-run (Invariant 5)'']) else None)"

definition runRejectOutcome :: "run \<Rightarrow> outcome \<times> string" where
  "runRejectOutcome r =
     (let res = mget check_result_zero (r_results r) (r_culprit r) in
      case cr_Err res of
        Some e \<Rightarrow> (OutcomeError, msg [''check '', go_quote (cr_Name res), '': '', e])
      | None \<Rightarrow> (OutcomeRejected, msg [''check '', go_quote (cr_Name res), '' failed'']))"

fun skip_runs :: "target_cfg \<Rightarrow> string \<Rightarrow> run list \<Rightarrow> daemon \<Rightarrow> daemon" where
  "skip_runs t reason [] d = d"
| "skip_runs t reason (r # rs) d = skip_runs t reason rs (finishRun d t (cancelRun d r) OutcomeSkipped reason False)"

definition invalidateSuffix :: "daemon \<Rightarrow> target_cfg \<Rightarrow> nat \<Rightarrow> string \<Rightarrow> daemon" where
  "invalidateSuffix d t i reason =
     (let runs = mget [] (d_lanes d) (tg_Name t) in
      set_lane (skip_runs t reason (drop i runs) d) (tg_Name t) (take i runs))"

definition suspect_limit :: "run \<Rightarrow> int \<Rightarrow> string \<Rightarrow> int" where
  "suspect_limit r limit ref =
     fold (\<lambda>(i, m) limit. if c_Ref (m_cand m) = ref then min limit (max 1 (int i)) else limit)
       (enumerate 0 (r_members r)) limit"

definition recovery_limit :: "run \<Rightarrow> int" where
  "recovery_limit r =
     fold (\<lambda>(_, res) limit. fold (\<lambda>ref limit. suspect_limit r limit ref) (cr_SuspectedRefs res) limit)
       (r_results r) (max 1 (int (length (r_members r) div 2)))"

fun emit_skips :: "string \<Rightarrow> string \<Rightarrow> run_member list \<Rightarrow> daemon \<Rightarrow> daemon" where
  "emit_skips target detail [] d = d"
| "emit_skips target detail (m # ms) d =
     emit_skips target detail ms (emit d (terminal_event d OutcomeSkipped target (m_cand m) (m_rec m) detail))"

definition finishBatchRed :: "daemon \<Rightarrow> target_cfg \<Rightarrow> run \<Rightarrow> daemon" where
  "finishBatchRed d t r =
     (let d = governorFeedback d t r OutcomeRejected;
          checkName = (if r_culprit r \<noteq> [] then r_culprit r else ''?'');
          detail = msg [''batch '', r_batchID r, '' red on check '', go_quote checkName,
                        ''; attribution unconfirmed; checking smaller groups''];
          d = (if r_pauseOverrideReason r \<noteq> []
               then clearEmergency d (tg_Name t) (msg [''pause override stopped: '', detail]) else d);
          detail' = (if r_emergencyReason r \<noteq> []
                     then msg [''EMERGENCY: checks waived; required provenance failed; '', r_emergencyReason r, ''; '', detail]
                     else detail);
          d = (if r_emergencyReason r \<noteq> []
               then clearEmergency d (tg_Name t) (msg [''emergency stopped: '', detail']) else d);
          r = r\<lparr>r_members := map (close_member d OutcomeSkipped detail') (r_members r)\<rparr>;
          d = finalizeRun d r;
          d = emit_skips (tg_Name t) detail' (r_members r) d in
      if tg_OnBatchRed t = ''bisect''
      then d\<lparr>d_batchRecovery := mput (tg_Name t) (recovery_limit r) (d_batchRecovery d)\<rparr>
      else d\<lparr>d_batchFallback := mput (tg_Name t) True (d_batchFallback d)\<rparr>)"

definition mark_override :: "run \<Rightarrow> run" where
  "mark_override r =
     fold (\<lambda>m r. if c_OverridePause (m_cand m)
                  then (let r = r\<lparr>r_overridePause := True\<rparr> in
                        if c_SkipChecks (m_cand m) then r
                        else r\<lparr>r_pauseOverrideReason := msg [c_Requester (m_cand m), '': '', c_RequestReason (m_cand m)]\<rparr>)
                  else r) (r_members r) r"

fun first_invalid :: "nat \<Rightarrow> string \<Rightarrow> (string, candidate) gomap \<Rightarrow> run list \<Rightarrow> (nat \<times> string) option" where
  "first_invalid i targetTip cands [] = None"
| "first_invalid i targetTip cands (r # rs) =
     (case runInvalidated r i targetTip cands of
        Some reason \<Rightarrow> Some (i, reason)
      | None \<Rightarrow> first_invalid (Suc i) targetTip cands rs)"

fun advance_runs :: "target_cfg \<Rightarrow> run list \<Rightarrow> daemon \<Rightarrow> run list \<times> daemon" where
  "advance_runs t [] d = ([], d)"
| "advance_runs t (r # rs) d =
     (case advanceChecks d t (prepareEmergency d (mark_override r)) of (d, r) \<Rightarrow>
        case advance_runs t rs d of (rs, d) \<Rightarrow> (r # rs, d))"

definition is_red :: "run \<Rightarrow> bool" where
  "is_red r = (r_verdict r = verdictRejected \<or> r_verdict r = verdictErrored)"

fun first_red_run :: "nat \<Rightarrow> run list \<Rightarrow> nat option" where
  "first_red_run i [] = None"
| "first_red_run i (r # rs) = (if is_red r then Some i else first_red_run (Suc i) rs)"

definition finish_red :: "daemon \<Rightarrow> target_cfg \<Rightarrow> run list \<Rightarrow> nat \<Rightarrow> daemon" where
  "finish_red d t runs i =
     (let r = runs ! i in
      if 1 < length (r_members r) then finishBatchRed d t r
      else if i = 0 then (case runRejectOutcome r of (oc, detail) \<Rightarrow> finishRun d t r oc detail True)
      else (let head = head_cand (hd runs) in
            finishRun d t r OutcomeSkipped
              (msg [''red on predicted base (behind '', c_Topic head, ''@'', c_SHA head, ''); re-queuing for retest'']) False))"

fun land_prefix :: "target_cfg \<Rightarrow> run list \<Rightarrow> bool \<Rightarrow> daemon \<Rightarrow> bool \<times> daemon" where
  "land_prefix t [] concluded d = (concluded, d)"
| "land_prefix t (r # rs) concluded d =
     (if r_verdict r = verdictGreen then land_prefix t rs True (set_lane (landRun d t r) (tg_Name t) rs)
      else (concluded, d))"

definition advanceLane :: "daemon \<Rightarrow> target_cfg \<Rightarrow> string \<Rightarrow> (string, candidate) gomap \<Rightarrow> bool \<times> daemon" where
  "advanceLane d t targetTip cands =
     (let runs = mget [] (d_lanes d) (tg_Name t) in
      case first_invalid 0 targetTip cands runs of
        Some (i, reason) \<Rightarrow> (True, invalidateSuffix d t i reason)
      | None \<Rightarrow>
          (let (runs, d) = advance_runs t runs d;
               d = set_lane d (tg_Name t) runs in
           case first_red_run 0 runs of
             Some i \<Rightarrow>
               (let d = finish_red d t runs i;
                    d = invalidateSuffix d t (Suc i) ''pipeline bubble'' in
                (True, set_lane d (tg_Name t) (take i runs)))
           | None \<Rightarrow>
               if ct_Uncertain (d_controls d) \<or> circuitBlocked d (tg_Name t) then (False, d)
               else land_prefix t runs False d))"

section \<open>What a pass over the checks leaves alone\<close>

lemma keep_executions_frame:
  assumes "keep_executions d r = Inr d' \<or> keep_executions d r = Inl d'"
  shows "quiet d d'" "d_remote d' = d_remote d" "d_now d' = d_now d" "d_draining d' = d_draining d"
  using assms by (auto simp: keep_executions_def quiet_def Let_def split: option.splits if_splits)

lemma consume_one_daemon [simp]:
  "d_git (fst (consume_one d t r name)) = d_git d" "d_cfg (fst (consume_one d t r name)) = d_cfg d"
  "d_now (fst (consume_one d t r name)) = d_now d" "d_done (fst (consume_one d t r name)) = d_done d"
  "d_lanes (fst (consume_one d t r name)) = d_lanes d"
  "d_draining (fst (consume_one d t r name)) = d_draining d"
  "d_pushes (fst (consume_one d t r name)) = d_pushes d" "d_pins (fst (consume_one d t r name)) = d_pins d"
  "d_landedPins (fst (consume_one d t r name)) = d_landedPins d"
  "d_remote (fst (consume_one d t r name)) = d_remote d"
  by (simp_all add: consume_one_def Let_def split_beta split: option.split)

lemma consume_results_daemon [simp]:
  "d_git (fst (consume_results t cs d r)) = d_git d" "d_cfg (fst (consume_results t cs d r)) = d_cfg d"
  "d_now (fst (consume_results t cs d r)) = d_now d" "d_done (fst (consume_results t cs d r)) = d_done d"
  "d_lanes (fst (consume_results t cs d r)) = d_lanes d"
  "d_draining (fst (consume_results t cs d r)) = d_draining d"
  "d_pushes (fst (consume_results t cs d r)) = d_pushes d"
  "d_pins (fst (consume_results t cs d r)) = d_pins d"
  "d_landedPins (fst (consume_results t cs d r)) = d_landedPins d"
  "d_remote (fst (consume_results t cs d r)) = d_remote d"
  by (induction cs arbitrary: d r) (simp_all add: split_beta)

lemma startCheck_quiet [simp]:
  "d_git (fst (startCheck d r i c)) = d_git d" "d_cfg (fst (startCheck d r i c)) = d_cfg d"
  "d_now (fst (startCheck d r i c)) = d_now d" "d_done (fst (startCheck d r i c)) = d_done d"
  "d_lanes (fst (startCheck d r i c)) = d_lanes d" "d_draining (fst (startCheck d r i c)) = d_draining d"
  "d_pushes (fst (startCheck d r i c)) = d_pushes d" "d_pins (fst (startCheck d r i c)) = d_pins d"
  "d_landedPins (fst (startCheck d r i c)) = d_landedPins d"
  "d_remote (fst (startCheck d r i c)) = d_remote d"
  by (simp_all add: startCheck_def Let_def split_beta)

lemma start_ready_quiet [simp]:
  "d_git (fst (start_ready i cs cap den d r)) = d_git d"
  "d_cfg (fst (start_ready i cs cap den d r)) = d_cfg d"
  "d_now (fst (start_ready i cs cap den d r)) = d_now d"
  "d_done (fst (start_ready i cs cap den d r)) = d_done d"
  "d_lanes (fst (start_ready i cs cap den d r)) = d_lanes d"
  "d_draining (fst (start_ready i cs cap den d r)) = d_draining d"
  "d_pushes (fst (start_ready i cs cap den d r)) = d_pushes d"
  "d_pins (fst (start_ready i cs cap den d r)) = d_pins d"
  "d_landedPins (fst (start_ready i cs cap den d r)) = d_landedPins d"
  "d_remote (fst (start_ready i cs cap den d r)) = d_remote d"
  by (induction cs arbitrary: i cap den d r) (simp_all add: Let_def split_beta)

lemma conclude_green_quiet [simp]:
  "d_git (fst (conclude_green d r)) = d_git d" "d_cfg (fst (conclude_green d r)) = d_cfg d"
  "d_now (fst (conclude_green d r)) = d_now d" "d_done (fst (conclude_green d r)) = d_done d"
  "d_lanes (fst (conclude_green d r)) = d_lanes d" "d_draining (fst (conclude_green d r)) = d_draining d"
  "d_pushes (fst (conclude_green d r)) = d_pushes d" "d_pins (fst (conclude_green d r)) = d_pins d"
  "d_landedPins (fst (conclude_green d r)) = d_landedPins d"
  "d_remote (fst (conclude_green d r)) = d_remote d"
  by (simp_all add: conclude_green_def Let_def)

lemma advanceChecks_daemon_cases:
  obtains (kept) "keep_executions d r = Inl (fst (advanceChecks d t r))" "snd (advanceChecks d t r) = r"
  | (closed) "keep_executions d r = Inr (fst (advanceChecks d t r))" "snd (advanceChecks d t r) = r" "r_verdict r \<noteq> verdictNone"
  | (red) d1 where "keep_executions d r = Inr d1" "fst (advanceChecks d t r) = fst (consume_results t (r_checks r) d1 r)"
      "snd (advanceChecks d t r) = conclude_red (find_culprit (fst (consume_results t (r_checks r) d1 r)) (snd (consume_results t (r_checks r) d1 r)))"
  | (going) d1 d2 r1 r2 where "keep_executions d r = Inr d1" "d2 = fst (consume_results t (r_checks r) d1 r)"
      "r1 = find_culprit d2 (snd (consume_results t (r_checks r) d1 r))"
      "r2 = start_ready 0 (r_checks r1) (r_maxParallel r1 - int (length (r_inflight r1))) False d2 r1"
      "advanceChecks d t r = conclude_green (fst r2) (snd r2)"
proof (cases "keep_executions d r")
  case (Inl d1)
  then show ?thesis using kept by (simp add: advanceChecks_def)
next
  case (Inr d1)
  show ?thesis
  proof (cases "r_verdict r = verdictNone")
    case False
    then show ?thesis using closed Inr by (simp add: advanceChecks_def)
  next
    case True
    let ?c = "consume_results t (r_checks r) d1 r"
    let ?r1 = "find_culprit (fst ?c) (snd ?c)"
    let ?s = "start_ready 0 (r_checks ?r1) (r_maxParallel ?r1 - int (length (r_inflight ?r1))) False (fst ?c) ?r1"
    have a: "advanceChecks d t r = (if r_culprit ?r1 \<noteq> [] then (fst ?c, conclude_red ?r1) else conclude_green (fst ?s) (snd ?s))"
      using Inr True unfolding advanceChecks_def by (simp add: Let_def split_beta)
    show ?thesis
    proof (cases "r_culprit ?r1 = []")
      case True
      then show ?thesis using going [OF Inr refl refl refl] a by simp
    next
      case False
      then show ?thesis using red [OF Inr] a by simp
    qed
  qed
qed

definition steady :: "daemon \<Rightarrow> daemon \<Rightarrow> bool" where
  "steady d d' =
     (d_git d' = d_git d \<and> d_cfg d' = d_cfg d \<and> d_done d' = d_done d \<and> d_lanes d' = d_lanes d \<and> d_pushes d' = d_pushes d
      \<and> d_pins d' = d_pins d \<and> d_landedPins d' = d_landedPins d \<and> d_now d' = d_now d \<and> d_draining d' = d_draining d)"

lemma steady_trans: "steady d d' \<Longrightarrow> steady d' d'' \<Longrightarrow> steady d d''"
  by (simp add: steady_def)

lemma advanceChecks_steady: "steady d (fst (advanceChecks d t r))"
proof -
  have keep: "steady d d'" if "keep_executions d r = Inr d' \<or> keep_executions d r = Inl d'" for d'
    using keep_executions_frame [OF that] by (simp add: quiet_def steady_def)
  have 1: "steady D (fst (consume_results t cs D r))" for D cs by (simp add: steady_def)
  show ?thesis
  proof (cases rule: advanceChecks_daemon_cases [of d r t])
    case (red d1)
    show ?thesis unfolding red(2) by (rule steady_trans [OF keep 1]) (simp add: red(1))
  next
    case (going d1 d2 r1 r2)
    have "steady d d2" unfolding going(2) by (rule steady_trans [OF keep 1]) (simp add: going(1))
    moreover have "steady d2 (fst (advanceChecks d t r))" unfolding going(5) going(4) by (simp add: steady_def)
    ultimately show ?thesis by (rule steady_trans)
  qed (simp_all add: keep)
qed

section \<open>The identity of a run\<close>

text \<open>What a pass over a run never changes: the chain it tests, its members and its graph.\<close>

definition same_run :: "run \<Rightarrow> run \<Rightarrow> bool" where
  "same_run r r' =
     (r_chainTip r' = r_chainTip r \<and> r_baseOID r' = r_baseOID r \<and> r_trialRef r' = r_trialRef r
      \<and> r_checks r' = r_checks r \<and> r_target r' = r_target r \<and> r_batchID r' = r_batchID r \<and> member_ids r' = member_ids r
      \<and> r_runID r' = r_runID r \<and> r_predicted r' = r_predicted r \<and> r_maxParallel r' = r_maxParallel r
      \<and> map m_mergeOID (r_members r') = map m_mergeOID (r_members r))"

lemma same_run_refl [simp]: "same_run r r"
  by (simp add: same_run_def)

lemma same_run_trans: "same_run r r' \<Longrightarrow> same_run r' r'' \<Longrightarrow> same_run r r''"
  by (simp add: same_run_def)

lemma same_run_steps:
  "same_run r (materializeChecks r)" "same_run r (cancelRun d r)" "same_run r (find_culprit d r)"
  "same_run r (conclude_red r)" "same_run r (snd (conclude_green d r))" "same_run r (snd (startCheck d r i c))"
  "same_run r (snd (consume_one d t r name))"
proof -
  show "same_run r (materializeChecks r)" for r by (simp add: same_run_def member_ids_def materializeChecks_def Let_def)
  then show "same_run r (conclude_red r)" "same_run r (snd (conclude_green d r))"
    by (simp_all add: same_run_def member_ids_def conclude_red_def conclude_green_def Let_def)
  show "same_run r (cancelRun d r)" for r by (simp add: same_run_def member_ids_def cancelRun_def)
  then show "same_run r (find_culprit d r)" by (simp add: same_run_def member_ids_def find_culprit_def cancelRun_def split: option.split)
  show "same_run r (snd (startCheck d r i c))"
    by (simp add: same_run_def member_ids_def startCheck_def Let_def split_beta split: option.split)
  have "same_run r (fst (consume_image name r res))" "same_run r (fst (consume_receipt d name r res))" for r res
    by (auto simp: same_run_def member_ids_def consume_image_def consume_receipt_def Let_def split_beta
        split: option.split check_status.split sum.split)
  then show "same_run r (snd (consume_one d t r name))"
    by (simp add: consume_one_def same_run_def member_ids_def Let_def split_beta split: option.split)
qed

lemma same_run_consume: "same_run r (snd (consume_results t cs d r))"
proof (induction cs arbitrary: d r)
  case (Cons c cs)
  show ?case using same_run_trans [OF same_run_steps(7) Cons.IH] by (simp add: split_beta)
qed simp

lemma same_run_start: "same_run r (snd (start_ready i cs cap den d r))"
proof (induction cs arbitrary: i cap den d r)
  case (Cons c cs)
  have 1: "same_run r (r\<lparr>r_readyAt := x\<rparr>)" for x by (simp add: same_run_def member_ids_def)
  show ?case using Cons.IH same_run_trans [OF 1 Cons.IH] same_run_trans [OF same_run_steps(6) Cons.IH]
    by (simp add: Let_def split_beta)
qed simp

lemma same_run_advance: "same_run r (snd (advanceChecks d t r))"
proof (cases rule: advanceChecks_daemon_cases [of d r t])
  case (red d1)
  show ?thesis unfolding red(3)
    by (rule same_run_trans [OF same_run_consume same_run_trans [OF same_run_steps(3,4)]])
next
  case (going d1 d2 r1 r2)
  have "same_run r r1" unfolding going(3) by (rule same_run_trans [OF same_run_consume same_run_steps(3)])
  moreover have "same_run r1 (snd r2)" unfolding going(4) by (rule same_run_start)
  ultimately show ?thesis unfolding going(5) using same_run_steps(5) same_run_trans by blast
qed simp_all

lemma same_run_prepare: "same_run r (prepareEmergency d r)" "same_run r (mark_override r)"
proof -
  show "same_run r (prepareEmergency d r)"
    by (auto simp: prepareEmergency_def same_run_def member_ids_def Let_def split: option.split)
  let ?f = "\<lambda>m r. if c_OverridePause (m_cand m)
                  then (let r = r\<lparr>r_overridePause := True\<rparr> in
                        if c_SkipChecks (m_cand m) then r
                        else r\<lparr>r_pauseOverrideReason := msg [c_Requester (m_cand m), '': '', c_RequestReason (m_cand m)]\<rparr>)
                  else r"
  have 1: "same_run r (?f m r)" for m r by (simp add: same_run_def member_ids_def Let_def)
  have "same_run r (fold ?f ms r)" for ms
  proof (induction ms arbitrary: r)
    case (Cons m ms)
    show ?case using same_run_trans [OF 1 Cons.IH] by (simp only: fold.simps o_apply)
  qed simp
  then show "same_run r (mark_override r)" unfolding mark_override_def .
qed

section \<open>The lane invariant\<close>

definition tested_green :: "run \<Rightarrow> bool" where
  "tested_green r = (\<forall>c \<in> set (r_checks r). \<exists>res. map_of (r_results r) (ck_Name c) = Some res \<and> nodeGreen r res)"

definition lane_run :: "run \<Rightarrow> bool" where
  "lane_run r = (run_live r \<and> (r_verdict r = verdictGreen \<longrightarrow> tested_green r))"

lemma waive_checks_keys:
  "fst ` set (waive_checks rp reason i cs results) \<subseteq> ck_Name ` set cs \<union> fst ` set results"
  "distinct (map fst results) \<Longrightarrow> distinct (map fst (waive_checks rp reason i cs results))"
proof (induction cs arbitrary: i results)
  case (Cons c cs)
  {
    case 1
    show ?case unfolding waive_checks_step by (rule order_trans [OF Cons.IH(1)]) auto
  next
    case 2
    then show ?case unfolding waive_checks_step using Cons.IH(2) by simp
  }
qed simp_all

lemma lane_run_cong:
  assumes "r_checks r' = r_checks r" "r_results r' = r_results r" "r_inflight r' = r_inflight r" "r_imageRefs r' = r_imageRefs r"
    "r_emergencyReason r' = r_emergencyReason r" "r_verdict r' = r_verdict r" "r_culprit r' = r_culprit r"
    "r_materialized r' = r_materialized r"
  shows "lane_run r' = lane_run r"
  by (simp only: assms lane_run_def run_live_def run_ok_def images_ok_def tested_green_def nodeGreen_def)

lemma waived_not_green: "cr_Status res = CheckWaived \<Longrightarrow> \<not> NodeGreen res"
  by (auto simp: NodeGreen_def)

lemma prepareEmergency_cases:
  obtains (same) "prepareEmergency d r = r"
  | (paused) reason where "prepareEmergency d r = r\<lparr>r_controlPrepared := True, r_overridePause := True, r_pauseOverrideReason := reason\<rparr>"
  | (waived) rp reason ov where "reason \<noteq> []" "prepareEmergency d r = r\<lparr>r_controlPrepared := True, r_emergencyReason := reason,
      r_overridePause := ov, r_results := waive_checks rp reason 0 (r_checks r) (r_results r)\<rparr>"
proof (cases "r_controlPrepared r \<or> map_of (ct_Emergency (d_controls d)) (r_target r) = None
    \<or> \<not> revisions_match (cmd_Revisions (the (map_of (ct_Emergency (d_controls d)) (r_target r)))) (r_members r)")
  case True
  then have "prepareEmergency d r = r" by (auto simp: prepareEmergency_def split: option.split)
  then show ?thesis by (rule same)
next
  case False
  then obtain cmd where cmd: "map_of (ct_Emergency (d_controls d)) (r_target r) = Some cmd" by auto
  show ?thesis
  proof (cases "cmd_Kind cmd = CommandMergePaused")
    case True
    then show ?thesis using False cmd paused by (simp add: prepareEmergency_def Let_def)
  next
    case other: False
    have "msg [cmd_Actor cmd, '': '', cmd_Reason cmd] \<noteq> []" by (simp add: msg_def)
    then show ?thesis using False cmd other waived by (simp add: prepareEmergency_def Let_def)
  qed
qed

lemma prepareEmergency_lane_run:
  assumes "lane_run r"
  shows "lane_run (prepareEmergency d r)"
proof (cases rule: prepareEmergency_cases [of d r])
  case same
  then show ?thesis using assms by simp
next
  case (paused reason)
  have "lane_run (prepareEmergency d r) = lane_run r" by (rule lane_run_cong) (simp_all add: paused)
  then show ?thesis using assms by simp
next
  case (waived rp reason ov)
  let ?w = "waive_checks rp reason 0 (r_checks r) (r_results r)"
  have ok: "run_ok r" using assms by (simp add: lane_run_def run_live_def)
  have row: "(\<exists>res. map_of ?w name = Some res \<and> cr_Status res = CheckWaived \<and> cr_Err res = None) \<or> map_of ?w name = map_of (r_results r) name" for name
    using waive_checks_waived [of name "r_checks r" rp reason 0 "r_results r"]
      waive_checks_other [of name "r_checks r" rp reason 0 "r_results r"] by blast
  have imgs: "images_ok r" using ok by (simp add: run_ok_def)
  have img: "images_ok (r\<lparr>r_results := ?w\<rparr>)"
    unfolding images_ok_def
  proof (intro allI impI, elim conjE)
    fix name img res
    assume n: "imageNodeName name = Some img" and m: "map_of (r_results (r\<lparr>r_results := ?w\<rparr>)) name = Some res" and g: "NodeGreen res"
    have "map_of (r_results r) name = Some res" using row [of name] m g waived_not_green by auto
    then show "\<exists>ref. map_of (r_imageRefs (r\<lparr>r_results := ?w\<rparr>)) img = Some ref \<and> (localImageIDPattern ref \<or> digestRefPattern ref)"
      using images_okD [OF imgs n _ g] by simp
  qed
  have old: "fst ` set (r_results r) \<subseteq> ck_Name ` set (r_checks r)" "distinct (map fst (r_results r))"
    using ok by (simp_all add: run_ok_def)
  have keys: "fst ` set ?w \<subseteq> ck_Name ` set (r_checks r)" "distinct (map fst ?w)"
    by (rule order_trans [OF waive_checks_keys(1)]) (simp add: old(1), rule waive_checks_keys(2) [OF old(2)])
  have "run_ok (prepareEmergency d r)"
    using ok img keys unfolding waived(2) run_ok_def images_ok_def by simp
  moreover have "tested_green (prepareEmergency d r)" if green: "tested_green r"
    unfolding tested_green_def
  proof
    fix c
    assume "c \<in> set (r_checks (prepareEmergency d r))"
    then obtain res where "map_of (r_results r) (ck_Name c) = Some res" "nodeGreen r res"
      using green waived(2) by (auto simp: tested_green_def)
    then show "\<exists>res. map_of (r_results (prepareEmergency d r)) (ck_Name c) = Some res \<and> nodeGreen (prepareEmergency d r) res"
      using row [of "ck_Name c"] waived by (auto simp: nodeGreen_def)
  qed
  ultimately show ?thesis using assms by (simp add: lane_run_def run_live_def waived(2))
qed

lemma mark_override_lane_run: "lane_run r \<Longrightarrow> lane_run (mark_override r)"
proof -
  let ?f = "\<lambda>m r. if c_OverridePause (m_cand m)
                  then (let r = r\<lparr>r_overridePause := True\<rparr> in
                        if c_SkipChecks (m_cand m) then r
                        else r\<lparr>r_pauseOverrideReason := msg [c_Requester (m_cand m), '': '', c_RequestReason (m_cand m)]\<rparr>)
                  else r"
  have "lane_run (?f m r) = lane_run r" for m r by (rule lane_run_cong) (simp_all add: Let_def)
  then have 1: "lane_run r \<Longrightarrow> lane_run (?f m r)" for m r by blast
  have "lane_run r \<Longrightarrow> lane_run (fold ?f ms r)" for ms
  proof (induction ms arbitrary: r)
    case (Cons m ms)
    show ?case using Cons.IH [OF 1 [OF Cons.prems]] by (simp only: fold.simps o_apply)
  qed simp
  then show "lane_run r \<Longrightarrow> lane_run (mark_override r)" unfolding mark_override_def .
qed

lemma advanceChecks_closed: "r_verdict r \<noteq> verdictNone \<Longrightarrow> snd (advanceChecks d t r) = r"
  by (simp add: advanceChecks_def split: sum.split)

lemma advanceChecks_lane_run:
  assumes "lane_run r"
  shows "lane_run (snd (advanceChecks d t r))"
proof (cases "r_verdict r = verdictNone")
  case False
  then show ?thesis using assms by (simp add: advanceChecks_closed)
next
  case True
  let ?r' = "snd (advanceChecks d t r)"
  have live: "run_live r" using assms by (simp add: lane_run_def)
  have "tested_green ?r'" if "r_verdict ?r' = verdictGreen"
  proof -
    have "\<forall>c \<in> set (r_checks r). \<exists>res. map_of (r_results ?r') (ck_Name c) = Some res \<and> nodeGreen r res"
      using advanceChecks_means [OF live True _ prod.collapse [symmetric]] that by simp
    moreover have "r_checks ?r' = r_checks r" using same_run_advance [of r d t] by (simp add: same_run_def)
    moreover have "r_emergencyReason ?r' = r_emergencyReason r"
      by (cases rule: advanceChecks_daemon_cases [of d r t])
        (auto simp: conclude_red_def conclude_green_def Let_def)
    ultimately show ?thesis by (simp add: tested_green_def nodeGreen_def)
  qed
  then show ?thesis using advanceChecks_live [OF live] by (simp add: lane_run_def)
qed

lemma advance_runs_ok:
  "advance_runs t runs d = (runs', d') \<Longrightarrow>
   steady d d' \<and> list_all2 same_run runs runs' \<and> (list_all lane_run runs \<longrightarrow> list_all lane_run runs')"
proof (induction runs arbitrary: d runs')
  case Nil
  then show ?case by (simp add: steady_def)
next
  case (Cons r rs)
  let ?p = "prepareEmergency d (mark_override r)"
  let ?a = "advanceChecks d t ?p"
  obtain rs' d2 where rest: "advance_runs t rs (fst ?a) = (rs', d2)" by (cases "advance_runs t rs (fst ?a)")
  have eq: "runs' = snd ?a # rs'" "d' = d2" using Cons.prems rest by (simp_all add: split_beta)
  note IH = Cons.IH [OF rest [folded eq(2)]]
  have "same_run r (snd ?a)"
    by (rule same_run_trans [OF same_run_prepare(2) same_run_trans [OF same_run_prepare(1) same_run_advance]])
  moreover have "steady d d'" using IH steady_trans [OF advanceChecks_steady] by blast
  moreover have "lane_run r \<Longrightarrow> lane_run (snd ?a)"
    by (simp add: advanceChecks_lane_run prepareEmergency_lane_run mark_override_lane_run)
  ultimately show ?case using IH eq by simp
qed

section \<open>Only tested chains land\<close>

lemma same_run_drops:
  assumes "same_run r r'"
  shows "trial_drop r' = trial_drop r" "slot_drop r' = slot_drop r" "target_push t r' = target_push t r"
  using stamped_drops [of r r'] assms by (simp_all add: same_run_def stamped_def target_push_def)

lemma set_lane_frame [simp]:
  "d_git (set_lane d target runs) = d_git d" "d_cfg (set_lane d target runs) = d_cfg d"
  "d_done (set_lane d target runs) = d_done d" "d_pushes (set_lane d target runs) = d_pushes d"
  "d_events (set_lane d target runs) = d_events d" "d_controls (set_lane d target runs) = d_controls d"
  "d_pins (set_lane d target runs) = d_pins d" "d_landedPins (set_lane d target runs) = d_landedPins d"
  "mget [] (d_lanes (set_lane d target runs)) target = runs"
  by (simp_all add: set_lane_def)

lemma skip_runs_pushes:
  "grows (\<lambda>p. \<exists>r \<in> set rs. trial_drop r p) (d_pushes d) (d_pushes (skip_runs t reason rs d))"
proof (induction rs arbitrary: d)
  case (Cons r rs)
  let ?d = "finishRun d t (cancelRun d r) OutcomeSkipped reason False"
  have "grows (trial_drop r) (d_pushes d) (d_pushes ?d)"
    using finishRun_pushes [of "cancelRun d r" d t OutcomeSkipped reason False, unfolded same_run_drops(1) [OF same_run_steps(2)]] .
  then have 1: "grows (\<lambda>p. \<exists>r \<in> set (r # rs). trial_drop r p) (d_pushes d) (d_pushes ?d)" by (rule grows_mono) simp
  have 2: "grows (\<lambda>p. \<exists>r \<in> set (r # rs). trial_drop r p) (d_pushes ?d) (d_pushes (skip_runs t reason rs ?d))"
    using Cons.IH [of ?d] by (rule grows_mono) simp
  show ?case using grows_trans [OF 1 2] by simp
qed simp

lemma finishBatchRed_pushes: "grows (trial_drop r) (d_pushes d) (d_pushes (finishBatchRed d t r))"
proof -
  have e: "d_pushes (emit_skips target detail ms D) = d_pushes D" for target detail ms D
    by (induction ms arbitrary: D) simp_all
  have f: "d_pushes D = d_pushes d \<Longrightarrow> grows (trial_drop r) (d_pushes d) (d_pushes (finalizeRun D (r\<lparr>r_members := ms\<rparr>)))" for ms D
  proof -
    have "trial_drop (r\<lparr>r_members := ms\<rparr>) = trial_drop r" by (simp add: trial_drop_def fun_eq_iff)
    then show "d_pushes D = d_pushes d \<Longrightarrow> ?thesis" using finalizeRun_pushes [of "r\<lparr>r_members := ms\<rparr>" D] by simp
  qed
  show ?thesis unfolding finishBatchRed_def Let_def by (simp add: e f)
qed

lemma finish_red_pushes: "i < length runs \<Longrightarrow> grows (trial_drop (runs ! i)) (d_pushes d) (d_pushes (finish_red d t runs i))"
  by (simp add: finish_red_def Let_def finishBatchRed_pushes finishRun_pushes split_beta)

lemma finish_red_lane: "mget [] (d_lanes (finish_red (set_lane d target runs) t rs i)) target = runs"
proof -
  have "d_lanes (emit_skips target detail ms D) = d_lanes D" for target detail ms D
    by (induction ms arbitrary: D) simp_all
  then show ?thesis by (simp add: finish_red_def finishBatchRed_def Let_def split_beta set_lane_def)
qed

lemma invalidateSuffix_pushes:
  "grows (\<lambda>p. \<exists>r \<in> set (mget [] (d_lanes d) (tg_Name t)). trial_drop r p) (d_pushes d) (d_pushes (invalidateSuffix d t i reason))"
  using skip_runs_pushes [of "drop i (mget [] (d_lanes d) (tg_Name t))" d t reason]
  by (auto simp: invalidateSuffix_def Let_def elim!: grows_mono dest: in_set_dropD)

text \<open>A push that lands a chain: made only for a run whose members have not moved and whose graph is green.\<close>

definition lands :: "target_cfg \<Rightarrow> (string, candidate) gomap \<Rightarrow> run \<Rightarrow> ref_push \<Rightarrow> bool" where
  "lands t cands r p =
     ((p = target_push t r \<or> slot_drop r p) \<and> list_all (\<lambda>m. \<not> member_moved cands m) (r_members r)
      \<and> (\<exists>r'. same_run r r' \<and> tested_green r'))"

lemma landRun_pushes: "grows (\<lambda>p. trial_drop r p \<or> p = target_push t r \<or> slot_drop r p) (d_pushes d) (d_pushes (landRun d t r))"
proof (cases rule: landRun_cases [of d t r])
  case (stopped d1 oc detail parked)
  then show ?thesis
    using finishRun_pushes [of r d1 t oc detail parked] by (auto simp: quiet_def elim: grows_mono)
next
  case (pushed d1 r1 err d2)
  let ?P = "\<lambda>p. trial_drop r p \<or> p = target_push t r \<or> slot_drop r p"
  have d2: "d2 = snd (casUpdate d1 (targetRefName t) (r_baseOID r) (r_chainTip r))" using pushed(4) by simp
  have 1: "grows ?P (d_pushes d) (d_pushes d2)"
    using casUpdate_pushes [of ?P "targetRefName t" "r_baseOID r" "r_chainTip r" d1] pushed(1)
    by (simp add: d2 target_push_def quiet_def)
  have 2: "grows ?P (d_pushes d2) (d_pushes (push_done d2 t r1))"
    using push_done_state(1) [of r1 d2 t, unfolded stamped_drops [OF pushed(2)]] by (rule grows_mono) auto
  have 3: "grows ?P (d_pushes d2) (d_pushes (push_failed d2 t r1 e))" for e
    using push_failed_state(1) [of r1 d2 t e, unfolded stamped_drops [OF pushed(2)]] by (rule grows_mono) simp
  show ?thesis using grows_trans [OF 1 2] grows_trans [OF 1 3] unfolding pushed(5) by (simp split: option.split)
qed simp

lemma land_prefix_pushes:
  "grows (\<lambda>p. \<exists>r \<in> set runs. trial_drop r p \<or> r_verdict r = verdictGreen \<and> (p = target_push t r \<or> slot_drop r p))
     (d_pushes d) (d_pushes (snd (land_prefix t runs b d)))"
  (is "grows (?P runs) _ _")
proof (induction runs arbitrary: b d)
  case (Cons r rs)
  show ?case
  proof (cases "r_verdict r = verdictGreen")
    case True
    let ?d = "set_lane (landRun d t r) (tg_Name t) rs"
    have 1: "grows (?P (r # rs)) (d_pushes d) (d_pushes ?d)"
      unfolding set_lane_frame using landRun_pushes [of r t d] by (rule grows_mono) (use True in auto)
    have 2: "grows (?P (r # rs)) (d_pushes ?d) (d_pushes (snd (land_prefix t rs True ?d)))"
      using Cons.IH [of ?d True] by (rule grows_mono) auto
    show ?thesis using grows_trans [OF 1 2] True by simp
  qed simp
qed simp

lemma first_invalid_None:
  "first_invalid i tip cands runs = None \<Longrightarrow> r \<in> set runs \<Longrightarrow> list_all (\<lambda>m. \<not> member_moved cands m) (r_members r)"
  by (induction runs arbitrary: i) (auto simp: runInvalidated_def find_None_iff list_all_iff split: option.splits if_splits)

lemma first_red_run_Some: "first_red_run i runs = Some k \<Longrightarrow> k < i + length runs"
proof (induction runs arbitrary: i)
  case (Cons r rs)
  then show ?case using Cons.IH [of "Suc i"] by (auto split: if_splits)
qed simp

lemma list_all2_same_run:
  "list_all2 same_run runs runs' \<Longrightarrow> r' \<in> set runs' \<Longrightarrow> \<exists>r \<in> set runs. same_run r r'"
  by (metis in_set_conv_nth list_all2_conv_all_nth)


section \<open>No run is lost\<close>

abbreviation pauses :: "daemon \<Rightarrow> (string, pause) gomap" where
  "pauses d \<equiv> ct_Pauses (d_controls d)"

lemma clone_Pauses [simp]: "ct_Pauses (clone c) = ct_Pauses c"
  by (simp add: clone_def clone_entries_def)

lemma pauses_git [simp]:
  "pauses (snd (casUpdate d ref old new)) = pauses d"
  "pauses (unpin d oid) = pauses d"
  by (simp_all add: casUpdate_def unpin_def Let_def split: cas_fault.splits)

lemma pauses_trial [simp]:
  "pauses (fst (deleteTrialRefNow d r)) = pauses d"
  "pauses (scheduleTrialReap d ref oid) = pauses d"
  by (simp_all add: deleteTrialRefNow_def scheduleTrialReap_def Let_def)

lemma pauses_controls [simp]:
  "pauses (clearEmergency d target reason) = pauses d"
  "pauses (governorFeedback d t r oc) = pauses d"
  "pauses (forgetPrepared d runID) = pauses d"
  "pauses (snd (recordPolicyDecision d ref sha phase input dec err)) = pauses d"
  by (simp_all add: clearEmergency_def governorFeedback_def forgetPrepared_def recordPolicyDecision_def Let_def split: option.split)

lemma pauses_finalize [simp]:
  "pauses (finalizeRun d r) = pauses d"
  by (simp add: finalizeRun_def Let_def)

lemma pauses_policy [simp]:
  "pauses (snd (evaluatePolicy d t c base members checks phase skip override prepared)) = pauses d"
  using evaluatePolicy_shape [of d t c base members checks phase skip override prepared] by auto

lemma pauses_park [simp]:
  "pauses (park d target c oc detail runID) = pauses d"
  "pauses (maybeAutoRetry d target c oc) = pauses d"
  by (simp_all add: park_def maybeAutoRetry_def clearParkAndRetry_def Let_def split: option.split)

lemma pauses_park_members [simp]:
  "pauses (park_members target oc detail ms d) = pauses d"
  by (induction ms arbitrary: d) simp_all

lemma pauses_emit_members [simp]:
  "pauses (emit_members target oc detail parked ms d) = pauses d"
  by (induction ms arbitrary: d) (simp_all add: Let_def)

lemma pauses_finish [simp]:
  "pauses (finishRun d t r oc detail parked) = pauses d"
  by (simp add: finishRun_def Let_def)

lemma pauses_validate [simp]:
  "pauses (snd (validate_members rs em ms d)) = pauses d"
  by (induction ms arbitrary: d) (auto simp: Let_def split: option.split)

lemma pauses_fresh [simp]:
  "pauses (snd (fresh_inputs d rs r)) = pauses d"
  by (simp add: fresh_inputs_def Let_def split: option.split)

lemma pauses_review [simp]:
  "pauses (snd (review_gate d r)) = pauses d"
  by (simp add: review_gate_def split_beta split: option.split sum.split)

lemma pauses_policy_gate [simp]:
  "pauses (snd (policy_gate t r fresh ms d)) = pauses d"
  by (induction ms arbitrary: d) (auto simp: Let_def split_beta split: option.split)

lemma pauses_receipt [simp]:
  "pauses (snd (receipt_gate d r)) = pauses d"
  by (simp add: receipt_gate_def Let_def split: option.split sum.split)

lemma pauses_slot [simp]:
  "pauses (snd (delete_slot d c sha)) = pauses d"
  by (simp add: delete_slot_def Let_def split: option.split)

lemma pauses_land_members [simp]:
  "pauses (snd (land_members t r ms d)) = pauses d"
  by (induction ms arbitrary: d) (simp_all add: land_member_def Let_def split_beta)

lemma pauses_push [simp]:
  "pauses (push_failed d t r e) = pauses d"
  "pauses (push_done d t r) = pauses d"
  by (simp_all add: push_failed_def push_done_def Let_def split_beta split: git_error.split)

lemma pauses_land [simp]:
  "pauses (landRun d t r) = pauses d"
  by (simp add: landRun_def stop_landing_def split_beta split: option.split sum.split)

lemma pauses_set_lane [simp]:
  "pauses (set_lane d target runs) = pauses d"
  by (simp add: set_lane_def)

lemma pauses_keep: "keep_executions d r = Inr d' \<or> keep_executions d r = Inl d' \<Longrightarrow> pauses d' = pauses d"
  by (auto simp: keep_executions_def Let_def split: option.splits if_splits)

lemma pauses_markCircuitProbe [simp]: "pauses (markCircuitProbe d r) = pauses d"
  by (simp add: markCircuitProbe_def Let_def)

lemma pauses_checks [simp]:
  "pauses (fst (consume_results t cs d r)) = pauses d" "pauses (fst (start_ready i cs cap den d r)) = pauses d"
  "pauses (fst (conclude_green d r)) = pauses d"
proof -
  have "pauses (fst (consume_one d t r name)) = pauses d" for d r name
    by (simp add: consume_one_def Let_def split_beta split: option.split)
  then show "pauses (fst (consume_results t cs d r)) = pauses d"
    by (induction cs arbitrary: d r) (simp_all add: split_beta)
  have "pauses (fst (startCheck d r i c)) = pauses d" for d r i c
    by (simp add: startCheck_def Let_def split_beta)
  then show "pauses (fst (start_ready i cs cap den d r)) = pauses d"
    by (induction cs arbitrary: i cap den d r) (simp_all add: Let_def split_beta)
qed (simp add: conclude_green_def Let_def)

lemma pauses_advance [simp]: "pauses (fst (advanceChecks d t r)) = pauses d"
proof (cases rule: advanceChecks_daemon_cases [of d r t])
  case (red d1)
  then show ?thesis using pauses_keep [of d r d1] by simp
next
  case (going d1 d2 r1 r2)
  then show ?thesis using pauses_keep [of d r d1] by simp
qed (blast intro: pauses_keep)+

lemma pauses_advance_runs [simp]: "pauses (snd (advance_runs t runs d)) = pauses d"
  by (induction runs arbitrary: d) (simp_all add: split_beta)


definition terminals :: "event list \<Rightarrow> (candidate \<times> string) list" where
  "terminals evs = map (\<lambda>e. (ev_Candidate e, ev_RunID e)) (filter (\<lambda>e. TerminalKind (ev_Kind e)) evs)"

definition accounts :: "(candidate \<times> string) list \<Rightarrow> event list \<Rightarrow> event list \<Rightarrow> bool" where
  "accounts ids xs ys = (\<exists>evs. ys = xs @ evs \<and> terminals evs = ids)"

lemma accounts_refl [simp]: "accounts [] xs xs"
  by (simp add: accounts_def terminals_def)

lemma accounts_append: "accounts ids xs ys \<Longrightarrow> accounts ids' ys zs \<Longrightarrow> accounts (ids @ ids') xs zs"
  by (fastforce simp: accounts_def terminals_def)

lemma accounts_quiet: "accounts [] xs ys \<Longrightarrow> accounts ids ys zs \<Longrightarrow> accounts ids xs zs"
  using accounts_append [of "[]"] by simp

lemma reports_accounts:
  assumes "reports k ids xs ys"
  shows "accounts ids xs ys"
proof -
  obtain evs where evs: "ys = xs @ evs"
    "map (\<lambda>e. (ev_Kind e, ev_Candidate e, ev_RunID e)) (filter (\<lambda>e. TerminalKind (ev_Kind e)) evs) = map (\<lambda>(c, runID). (k, c, runID)) ids"
    using assms by (auto simp: reports_def)
  have "terminals evs = map snd (map (\<lambda>e. (ev_Kind e, ev_Candidate e, ev_RunID e)) (filter (\<lambda>e. TerminalKind (ev_Kind e)) evs))"
    by (simp add: terminals_def)
  also have "\<dots> = ids" unfolding evs(2) by (simp add: split_beta comp_def)
  finally show ?thesis using evs(1) by (auto simp: accounts_def)
qed

lemma accounts_emit: "\<not> TerminalKind (ev_Kind ev) \<Longrightarrow> accounts [] (d_events d) (d_events (emit d ev))"
  by (simp add: accounts_def terminals_def)

lemma consume_results_accounts: "accounts [] (d_events d) (d_events (fst (consume_results t cs d r)))"
proof (induction cs arbitrary: d r)
  case (Cons c cs)
  have "accounts [] (d_events d) (d_events (fst (consume_one d t r (ck_Name c))))"
    by (simp add: consume_one_def Let_def split_beta accounts_emit TerminalKind.simps split: option.split del: emit_events)
  from accounts_quiet [OF this Cons.IH] show ?case by (simp add: split_beta)
qed simp

lemma start_ready_accounts: "accounts [] (d_events d) (d_events (fst (start_ready i cs cap den d r)))"
proof (induction cs arbitrary: i cap den d r)
  case (Cons c cs)
  have "accounts [] (d_events (d\<lparr>d_slots := sl\<rparr>)) (d_events (fst (startCheck (d\<lparr>d_slots := sl\<rparr>) r i c)))" for sl
    by (simp add: startCheck_def Let_def split_beta accounts_def terminals_def TerminalKind.simps)
  from accounts_quiet [OF this Cons.IH] show ?case using Cons.IH by (simp add: Let_def split_beta)
qed simp

lemma advanceChecks_accounts: "accounts [] (d_events d) (d_events (fst (advanceChecks d t r)))"
proof -
  have keep: "d_events d' = d_events d" if "keep_executions d r = Inr d' \<or> keep_executions d r = Inl d'" for d'
    using keep_executions_frame(1) [OF that] by (simp add: quiet_def)
  have green: "accounts [] (d_events D) (d_events (fst (conclude_green D r')))" for D r'
    by (simp add: conclude_green_def Let_def accounts_emit TerminalKind.simps del: emit_events)
  show ?thesis
  proof (cases rule: advanceChecks_daemon_cases [of d r t])
    case (red d1)
    then show ?thesis using consume_results_accounts [of d1 t "r_checks r" r] keep [of d1] by simp
  next
    case (going d1 d2 r1 r2)
    have 1: "accounts [] (d_events d) (d_events d2)"
      using consume_results_accounts [of d1 t "r_checks r" r] keep [of d1] going by simp
    have 2: "accounts [] (d_events d2) (d_events (fst r2))" unfolding going(4) by (rule start_ready_accounts)
    show ?thesis unfolding going(5) by (rule accounts_quiet [OF 1 accounts_quiet [OF 2 green]])
  qed (simp_all add: keep)
qed

lemma advance_runs_accounts: "accounts [] (d_events d) (d_events (snd (advance_runs t runs d)))"
proof (induction runs arbitrary: d)
  case (Cons r rs)
  from accounts_quiet [OF advanceChecks_accounts Cons.IH] show ?case by (simp add: split_beta)
qed simp

lemma skip_runs_accounts:
  "accounts (concat (map member_ids rs)) (d_events d) (d_events (skip_runs t reason rs d))"
proof (induction rs arbitrary: d)
  case (Cons r rs)
  let ?d = "finishRun d t (cancelRun d r) OutcomeSkipped reason False"
  have "accounts (member_ids r) (d_events d) (d_events ?d)"
    using reports_accounts [OF finishRun_reports] same_run_steps(2) [of r d] by (metis same_run_def)
  from accounts_append [OF this Cons.IH] show ?case by simp
qed simp

lemma emit_skips_accounts:
  "accounts (map (\<lambda>m. (m_cand m, rr_RunID (m_rec m))) ms) (d_events d) (d_events (emit_skips target detail ms d))"
proof (induction ms arbitrary: d)
  case (Cons m ms)
  have "accounts [(m_cand m, rr_RunID (m_rec m))] (d_events d)
      (d_events (emit d (terminal_event d OutcomeSkipped target (m_cand m) (m_rec m) detail)))"
    by (rule reports_accounts [OF emit_terminal_reports])
  from accounts_append [OF this Cons.IH] show ?case by simp
qed simp

lemma finishBatchRed_accounts: "accounts (member_ids r) (d_events d) (d_events (finishBatchRed d t r))"
proof -
  have "accounts (member_ids r) (d_events d) (d_events (emit_skips target detail (map (close_member D oc det) (r_members r)) E))"
    if "d_events E = d_events d" for target detail D oc det E
    using emit_skips_accounts [of "map (close_member D oc det) (r_members r)" E target detail] that
    by (simp only: close_member_ids member_ids_def)
  then show ?thesis unfolding finishBatchRed_def Let_def by simp
qed

lemma finish_red_accounts: "accounts (member_ids (runs ! i)) (d_events d) (d_events (finish_red d t runs i))"
  unfolding finish_red_def Let_def
  by (simp add: finishBatchRed_accounts reports_accounts [OF finishRun_reports] split_beta)

lemma landRun_accounts:
  assumes "\<not> mhas (pauses d) (tg_Name t)"
  shows "accounts (member_ids r) (d_events d) (d_events (landRun d t r))"
proof (cases rule: landRun_cases [of d t r])
  case paused
  then show ?thesis using assms by simp
next
  case (stopped d1 oc detail parked)
  then show ?thesis using reports_accounts [OF finishRun_reports [of oc r d1 t detail parked]] by (simp add: quiet_def)
next
  case (pushed d1 r1 err d2)
  have "d2 = snd (casUpdate d1 (targetRefName t) (r_baseOID r) (r_chainTip r))" using pushed(4) by simp
  then have same: "d_events d2 = d_events d" "member_ids r1 = member_ids r"
    using pushed(1,2) by (simp_all add: quiet_def stamped_def)
  show ?thesis
    using reports_accounts [OF push_done_state(2) [of r1 d2 t]] reports_accounts [OF push_failed_state(2) [of r1 d2 t]]
    unfolding same pushed(5) by (simp split: option.split)
qed

lemma land_prefix_accounts:
  assumes "\<not> mhas (pauses d) (tg_Name t)" "mget [] (d_lanes d) (tg_Name t) = runs"
  shows "accounts (concat (map member_ids (takeWhile (\<lambda>r. r_verdict r = verdictGreen) runs))) (d_events d)
      (d_events (snd (land_prefix t runs b d)))
    \<and> mget [] (d_lanes (snd (land_prefix t runs b d))) (tg_Name t) = dropWhile (\<lambda>r. r_verdict r = verdictGreen) runs"
  using assms
proof (induction runs arbitrary: b d)
  case (Cons r rs)
  let ?d = "set_lane (landRun d t r) (tg_Name t) rs"
  have 1: "accounts (member_ids r) (d_events d) (d_events ?d)" using landRun_accounts [OF Cons.prems(1)] by simp
  have "\<not> mhas (pauses ?d) (tg_Name t)" "mget [] (d_lanes ?d) (tg_Name t) = rs" using Cons.prems(1) by simp_all
  note IH = Cons.IH [OF this, of True]
  show ?case using accounts_append [OF 1 conjunct1 [OF IH]] conjunct2 [OF IH] Cons.prems(2) by simp
qed simp

lemma same_run_ids: "list_all2 same_run runs runs' \<Longrightarrow> map member_ids runs' = map member_ids runs"
  by (induction rule: list_all2_induct) (auto simp: same_run_def)


section \<open>Instances\<close>

definition lane_daemon :: daemon where
  "lane_daemon = set_lane sample_daemon ''main'' [sample_run]"



definition paused_lane :: daemon where
  "paused_lane = (set_lane sample_daemon ''main'' [sample_run\<lparr>r_verdict := verdictGreen\<rparr>])
     \<lparr>d_controls := controls_zero\<lparr>ct_Pauses := [(''main'', \<lparr>pa_Actor = ''op'', pa_Reason = ''incident'', pa_At = 5\<rparr>)]\<rparr>,
      d_pins := [''tip'']\<rparr>"


end
