(* ===== verification/Queue_Admission.thy ===== *)
theory Queue_Admission
  imports Queue_Lane
begin

text \<open>
  Admission of candidates (\<^verbatim>\<open>internal/queue/reconcile.go\<close>, from \<open>chainLink\<close> to \<open>startRun\<close>, and
  \<^verbatim>\<open>internal/queue/message.go\<close>): building the merge-commit chain, preparing a trial and starting
  its run in the serial, batch and speculate modes.
\<close>

section \<open>Merge messages\<close>

definition trailers :: "string \<Rightarrow> string \<Rightarrow> string" where
  "trailers ref runID = msg [''Gauntlet-Ref: '', ref, [CHR 0x0A], ''Gauntlet-Run: '', runID, [CHR 0x0A]]"

definition trim_newlines :: "string \<Rightarrow> string" where
  "trim_newlines s = rev (dropWhile (\<lambda>c. c = CHR 0x0A) (rev s))"

definition default_subject :: "message_fields \<Rightarrow> string" where
  "default_subject f =
     (if mf_User f = [] then msg [''Merge '', mf_Topic f]
      else msg [''Merge '', mf_Topic f, '' ('', mf_User f, '')''])"

definition buildMergeMessage :: "config \<Rightarrow> string \<Rightarrow> message_fields \<Rightarrow> string \<Rightarrow> string + string" where
  "buildMergeMessage cfg tmplText f body =
     (case (if tmplText = [] then Inr (default_subject f) else cf_renderTemplate cfg tmplText f) of
        Inl e \<Rightarrow> Inl e
      | Inr rendered \<Rightarrow>
          (let nl = [CHR 0x0A];
               subject = trim_newlines rendered;
               body = trim_space body in
           Inr (msg [subject, nl, nl, if body = [] then [] else msg [body, nl, nl], trailers (mf_Ref f) (mf_RunID f)])))"

section \<open>One link of the chain\<close>

record chain_link =
  cl_mergeOID :: string
  cl_treeOID :: string
  cl_cand :: candidate

datatype link_result = LinkError string | LinkDirty trial_merge | LinkMade chain_link trial_merge

definition trial_tree :: "daemon \<Rightarrow> bool \<Rightarrow> string \<Rightarrow> candidate \<Rightarrow> (string + trial_merge) \<times> daemon" where
  "trial_tree d lin base cand =
     (let d = d\<lparr>d_io := Suc (d_io d)\<rparr> in
      if lin
      then (case g_Linear (d_git d) of
              None \<Rightarrow> (Inl ''interface conversion: git backend is not a LinearGitRepo'', d)
            | Some g \<Rightarrow> (lg_ReplayTree g (d_io d) base (c_SHA cand) (c_SourceBase cand), d))
      else (g_MergeTree (d_git d) (d_io d) base (c_SHA cand), d))"

text \<open>The callback \<open>onClean\<close> of both callers: \<open>runID\<close> is the variable it captures, empty before the
  first clean trial.\<close>

definition on_clean :: "daemon \<Rightarrow> string \<Rightarrow> candidate \<Rightarrow> string \<Rightarrow> string \<Rightarrow> trial_merge \<Rightarrow> string \<times> daemon" where
  "on_clean d target cand runID restoredRun trial =
     (let (runID, d) = (if runID \<noteq> [] then (runID, d)
                        else if restoredRun \<noteq> [] then (restoredRun, d)
                        else newRunID d (d_now d) (tm_TreeOID trial)) in
      (runID, emit d ((event_zero EventTrialClean)\<lparr>ev_At := d_now d, ev_Target := target, ev_Candidate := cand, ev_RunID := runID\<rparr>)))"

definition merge_body ::
  "daemon \<Rightarrow> bool \<Rightarrow> candidate \<Rightarrow> string \<Rightarrow> (string, string) gomap option \<Rightarrow> string \<times> daemon" where
  "merge_body d lin cand base precomputed =
     (case precomputed of
        Some bodies \<Rightarrow> (mget [] bodies (c_Ref cand), d)
      | None \<Rightarrow>
          (case cf_MergeBody (d_cfg d) of
             None \<Rightarrow> ([], d)
           | Some f \<Rightarrow> if lin then ([], d)
                       else (f (Suc (d_io d)) cand base, d\<lparr>d_io := Suc (d_io d)\<rparr>)))"

definition linear_message :: "daemon \<Rightarrow> candidate \<Rightarrow> string \<Rightarrow> string \<Rightarrow> (string + string) \<times> daemon" where
  "linear_message d cand runID default_msg =
     (let nl = [CHR 0x0A];
          source = msg [''Gauntlet-Source: '', c_SHA cand, nl,
                        if c_Version cand = [] then [] else msg [''Gauntlet-Version: '', c_Version cand, nl]] in
      if c_Message cand \<noteq> []
      then (Inr (msg [trim_newlines (c_Message cand), nl, if c_Source cand \<noteq> ''gerrit'' then nl else [],
                  if c_ReviewURL cand = [] then [] else msg [''Reviewed-on: '', c_ReviewURL cand, nl],
                  trailers (c_Ref cand) runID, source]), d)
      else (case g_CommitMessage (d_git d) of
              None \<Rightarrow> (Inr (msg [default_msg, source]), d)
            | Some reader \<Rightarrow>
                (let d = d\<lparr>d_io := Suc (d_io d)\<rparr> in
                 case reader (d_io d) (c_SHA cand) of
                   Inl e \<Rightarrow> (Inl e, d)
                 | Inr m \<Rightarrow> (Inr (msg [m, nl, nl, trailers (c_Ref cand) runID, source]), d))))"

definition make_commit :: "daemon \<Rightarrow> bool \<Rightarrow> string \<Rightarrow> candidate \<Rightarrow> string \<Rightarrow> trial_merge \<Rightarrow> string \<Rightarrow> (string + string) \<times> daemon" where
  "make_commit d lin base cand runID trial text =
     (if lin
      then (case linear_message d cand runID text of
              (Inl e, d) \<Rightarrow> (Inl e, d)
            | (Inr text, d) \<Rightarrow>
                (let d = d\<lparr>d_io := Suc (d_io d)\<rparr> in
                 case g_Linear (d_git d) of
                   None \<Rightarrow> (Inl ''interface conversion: git backend is not a LinearGitRepo'', d)
                 | Some g \<Rightarrow>
                    (case lg_LinearCommit g (d_io d) (tm_TreeOID trial) base (c_SHA cand) text of
                       Inl e \<Rightarrow> (Inl (msg [''commit-tree: '', e]), d)
                     | Inr oid \<Rightarrow> (Inr oid, d))))
      else (let d = d\<lparr>d_io := Suc (d_io d)\<rparr> in
            case g_CommitTree (d_git d) (d_io d) (tm_TreeOID trial) [base, c_SHA cand] text of
              Inl e \<Rightarrow> (Inl (msg [''commit-tree: '', e]), d)
            | Inr oid \<Rightarrow> (Inr oid, d)))"

definition commit_link ::
  "daemon \<Rightarrow> bool \<Rightarrow> string \<Rightarrow> string \<Rightarrow> candidate \<Rightarrow> string \<Rightarrow> string \<Rightarrow> (string, string) gomap option \<Rightarrow> trial_merge
   \<Rightarrow> link_result \<times> daemon" where
  "commit_link d lin target base cand key runID precomputed trial =
     (let (body, d) = merge_body d lin cand base precomputed in
      case buildMergeMessage (d_cfg d) (cf_MergeMessage (d_cfg d))
             \<lparr>mf_Topic = c_Topic cand, mf_User = c_User cand, mf_Ref = c_Ref cand, mf_RunID = runID, mf_Target = target\<rparr> body of
        Inl e \<Rightarrow> (LinkError (msg [''merge-message template: '', e]), d)
      | Inr text \<Rightarrow>
          (case make_commit d lin base cand runID trial text of
             (Inl e, d) \<Rightarrow> (LinkError e, d)
           | (Inr oid, d) \<Rightarrow>
               (case rememberPrepared d key \<lparr>pp_RunID = runID, pp_Commit = oid, pp_Tree = tm_TreeOID trial, pp_At = d_now d\<rparr> of
                  (False, d) \<Rightarrow> (LinkError (msg [''persist prepared trial: '', ct_LastError (d_controls d)]), d)
                | (True, d) \<Rightarrow> (LinkMade \<lparr>cl_mergeOID = oid, cl_treeOID = tm_TreeOID trial, cl_cand = cand\<rparr> trial, d))))"

definition buildChainLinkPrecomputed ::
  "daemon \<Rightarrow> string \<Rightarrow> string \<Rightarrow> candidate \<Rightarrow> string \<Rightarrow> (string, string) gomap option \<Rightarrow> string list
   \<Rightarrow> link_result \<times> string \<times> daemon" where
  "buildChainLinkPrecomputed d target base cand runID precomputed grp =
     (let lin = linearTarget d target in
      case trial_tree d lin base cand of
        (Inl e, d) \<Rightarrow> (LinkError (msg [''merge-tree: '', e]), runID, d)
      | (Inr trial, d) \<Rightarrow>
          if \<not> tm_Clean trial then (LinkDirty trial, runID, d)
          else
           (let key = preparedKey d target base cand grp;
                (previous, d) = recallPrepared d key (tm_TreeOID trial);
                (runID, d) = on_clean d target cand runID (pp_RunID previous) trial in
            if pp_RunID previous \<noteq> [] \<and> pp_RunID previous = runID
            then (LinkMade \<lparr>cl_mergeOID = pp_Commit previous, cl_treeOID = pp_Tree previous, cl_cand = cand\<rparr> trial, runID, d)
            else (case commit_link d lin target base cand key runID precomputed trial of (res, d) \<Rightarrow> (res, runID, d))))"

definition buildChainLink :: "daemon \<Rightarrow> string \<Rightarrow> string \<Rightarrow> candidate \<Rightarrow> link_result \<times> string \<times> daemon" where
  "buildChainLink d target base cand = buildChainLinkPrecomputed d target base cand [] None []"

definition specChanged :: "daemon \<Rightarrow> string \<Rightarrow> string \<Rightarrow> bool \<times> daemon" where
  "specChanged d prevTree newTree =
     (let d = d\<lparr>d_io := Suc (d_io d)\<rparr>;
          prev = g_ReadFileFromTree (d_git d) (d_io d) prevTree (cf_CheckSpec (d_cfg d));
          d = d\<lparr>d_io := Suc (d_io d)\<rparr>;
          next = g_ReadFileFromTree (d_git d) (d_io d) newTree (cf_CheckSpec (d_cfg d)) in
      (case (prev, next) of
         (Inl _, Inl _) \<Rightarrow> False
       | (Inr p, Inr n) \<Rightarrow> p \<noteq> n
       | _ \<Rightarrow> True, d))"

section \<open>Preparing a trial\<close>

text \<open>
  The fallible steps \<open>startRun\<close> and \<open>finishBatchStart\<close> share, in their order: pin the tip, load and gate the
  check spec, ask the execution policy, export the tree unless the workspace is isolated, publish the
  trial ref.  \<open>what\<close> is the caller's wording of a pin failure.
\<close>

definition pin :: "daemon \<Rightarrow> string \<Rightarrow> go_error \<times> daemon" where
  "pin d oid =
     (let d = d\<lparr>d_io := Suc (d_io d)\<rparr> in
      case g_Pin (d_git d) (d_io d) oid of
        Some e \<Rightarrow> (Some e, d)
      | None \<Rightarrow> (None, d\<lparr>d_pins := d_pins d @ [oid]\<rparr>))"

definition load_spec :: "daemon \<Rightarrow> string \<Rightarrow> (string + check_spec) \<times> daemon" where
  "load_spec d tree =
     (let d = d\<lparr>d_io := Suc (d_io d)\<rparr>;
          failed = (\<lambda>e. msg [''check spec '', go_quote (cf_CheckSpec (d_cfg d)), '': '', e]) in
      case g_ReadFileFromTree (d_git d) (d_io d) tree (cf_CheckSpec (d_cfg d)) of
        Inl e \<Rightarrow> (Inl (failed e), d)
      | Inr data \<Rightarrow>
          (case ParseChecks (cf_kdlParse (d_cfg d)) (cf_kdlUnmarshal (d_cfg d)) data of
             Inl e \<Rightarrow> (Inl (failed (cf_specErrorText (d_cfg d) e)), d)
           | Inr spec \<Rightarrow>
               (let reason = SpecRejectReason spec (cf_Services (d_cfg d)) (cf_KnownExecutorProfile (d_cfg d))
                      (cf_ImageCapableProfile (d_cfg d)) (cf_ReceiptNotes (d_cfg d) \<noteq> None) (cf_RemoteExecutorProfile (d_cfg d)) in
                if reason \<noteq> [] then (Inl reason, d) else (Inr spec, d))))"

definition export_tree :: "daemon \<Rightarrow> check_spec \<Rightarrow> string \<Rightarrow> string \<Rightarrow> (string + string) \<times> daemon" where
  "export_tree d spec tip tree =
     (if Isolated spec then (Inr [], d)
      else (let d = d\<lparr>d_io := Suc (d_io d)\<rparr> in
            case cf_mkdirTemp (d_cfg d) (d_io d) of
              Inl e \<Rightarrow> (Inl (msg [''export tree: mkdir temp: '', e]), d)
            | Inr dir \<Rightarrow>
                (let d = d\<lparr>d_io := Suc (d_io d)\<rparr> in
                 case g_ExportTree (d_git d) (d_io d) tree of
                   Some e \<Rightarrow> (Inl (msg [''export tree: '', e]), d)
                 | None \<Rightarrow>
                     if \<not> cf_HistoryMtimes (d_cfg d) then (Inr dir, d)
                     else (let d = d\<lparr>d_io := Suc (d_io d)\<rparr> in
                           case g_RestoreMtimes (d_git d) (d_io d) tip of
                             Some e \<Rightarrow> (Inl (msg [''restore mtimes: '', e]), d)
                           | None \<Rightarrow> (Inr dir, d)))))"

definition publish_trial :: "daemon \<Rightarrow> string \<Rightarrow> string \<Rightarrow> (string + string) \<times> daemon" where
  "publish_trial d runID tip =
     (if \<not> cf_TrialRefs (d_cfg d) then (Inr [], d)
      else case createTrialRef d runID tip of
        (Inl e, d) \<Rightarrow> (Inl (msg [''publish trial ref: '', e]), d)
      | (Inr ref, d) \<Rightarrow> (Inr ref, d))"

definition setup_trial ::
  "daemon \<Rightarrow> target_cfg \<Rightarrow> string \<Rightarrow> string \<Rightarrow> string \<Rightarrow> string \<Rightarrow> candidate list \<Rightarrow> string
   \<Rightarrow> (outcome \<times> string + check_spec \<times> string \<times> string) \<times> daemon" where
  "setup_trial d t what base tip tree members runID =
     (case pin d tip of
        (Some e, d) \<Rightarrow> (Inl (OutcomeError, msg [what, e]), d)
      | (None, d) \<Rightarrow>
          (case load_spec d tree of
             (Inl e, d) \<Rightarrow> (Inl (OutcomeRejected, e), d)
           | (Inr spec, d) \<Rightarrow>
               (case executionPolicy d t base tip members spec of
                  (Some e, d) \<Rightarrow> (Inl (OutcomeRejected, e), d)
                | (None, d) \<Rightarrow>
                    (case export_tree d spec tip tree of
                       (Inl e, d) \<Rightarrow> (Inl (OutcomeError, e), d)
                     | (Inr dir, d) \<Rightarrow>
                         (case publish_trial d runID tip of
                            (Inl e, d) \<Rightarrow> (Inl (OutcomeError, e), d)
                          | (Inr ref, d) \<Rightarrow> (Inr (spec, dir, ref), d))))))"

section \<open>Starting a run\<close>

definition new_run ::
  "target_cfg \<Rightarrow> run_member list \<Rightarrow> string \<Rightarrow> string \<Rightarrow> string \<Rightarrow> bool \<Rightarrow> string \<Rightarrow> string \<Rightarrow> check_spec \<Rightarrow> string \<Rightarrow> string \<Rightarrow> run" where
  "new_run t members base tip tree predicted batchID runID spec dir trialRef =
     run_zero\<lparr>r_target := tg_Name t, r_members := members, r_baseOID := base, r_chainTip := tip, r_chainTree := tree,
       r_predicted := predicted, r_batchID := batchID, r_runID := runID, r_dir := dir,
       r_checks := buildRunNodes spec, r_maxParallel := effectiveMaxParallel spec, r_inflight := [], r_results := [],
       r_readyAt := [], r_imageRefs := [], r_services := cs_Services spec, r_verdict := verdictNone,
       r_isolated := Isolated spec, r_trialRef := trialRef\<rparr>"

definition launch :: "daemon \<Rightarrow> target_cfg \<Rightarrow> run \<Rightarrow> run \<times> daemon" where
  "launch d t r =
     (let d = (if cf_TrialRefs (d_cfg d)
               then emit d ((event_zero EventTrialMerged)\<lparr>ev_At := d_now d, ev_Target := tg_Name t,
                      ev_Candidate := head_cand r, ev_RunID := r_runID r, ev_MergeSHA := r_chainTip r\<rparr>)
               else d);
          runs = mget [] (d_lanes d) (tg_Name t);
          d = set_lane d (tg_Name t) (runs @ [r]);
          (d, r) = advanceChecks d t (prepareEmergency d (mark_override r)) in
      (r, set_lane d (tg_Name t) (runs @ [r])))"

definition startRun ::
  "daemon \<Rightarrow> target_cfg \<Rightarrow> string \<Rightarrow> candidate \<Rightarrow> bool \<Rightarrow> string \<Rightarrow> run option \<times> daemon" where
  "startRun d t base cand predicted conflictDetail =
     (let d = d\<lparr>d_io := Suc (d_io d)\<rparr> in
      case g_RetainSources (d_git d) (d_io d) [c_SHA cand] of
        Some e \<Rightarrow> (None, rejectPreMerge d t cand OutcomeError (msg [''retain source: '', e]))
      | None \<Rightarrow>
          (case buildChainLink d (tg_Name t) base cand of
             (LinkError e, _, d) \<Rightarrow>
               (None, if predicted
                      then skipPreMergePredicted d t cand (msg [''predicted-base build error (retesting once real): '', e])
                      else rejectPreMerge d t cand OutcomeError e)
           | (LinkDirty trial, _, d) \<Rightarrow>
               (let conflicts = str_join '', '' (tm_Conflicts trial);
                    detail = (if conflictDetail \<noteq> [] then msg [conflictDetail, '': '', conflicts]
                              else msg [''trial merge conflict: '', conflicts]) in
                (None, if predicted
                       then skipPreMergePredicted d t cand (msg [detail, ''; re-queuing for retest against the real tip''])
                       else rejectPreMerge d t cand OutcomeConflict detail))
           | (LinkMade link trial, runID, d) \<Rightarrow>
               (case setup_trial d t ''pin trial merge: '' base (cl_mergeOID link) (tm_TreeOID trial) [cand] runID of
                  (Inl (oc, detail), d) \<Rightarrow>
                    (None, rejectRun d t cand runID base (cl_mergeOID link) trial oc detail)
                | (Inr (spec, dir, ref), d) \<Rightarrow>
                    (let rec = run_record_zero\<lparr>rr_RunID := runID, rr_Target := tg_Name t, rr_Candidate := cand,
                           rr_BaseOID := base, rr_MergeSHA := cl_mergeOID link, rr_Trial := trial,
                           rr_StartedAt := d_now d, rr_Speculated := predicted\<rparr>;
                         r = new_run t [\<lparr>m_cand = cand, m_mergeOID = cl_mergeOID link, m_rec = rec\<rparr>] base (cl_mergeOID link)
                               (tm_TreeOID trial) predicted [] runID spec dir ref in
                     (case launch d t r of (r, d) \<Rightarrow> (Some r, d))))))"

section \<open>Batches\<close>

text \<open>The record of the \<open>i\<close>-th link of a batch, as \<open>finishBatchStart\<close> and \<open>rejectBatch\<close> fill it in;
  \<open>n\<close> is the number of links and \<open>prevBase\<close> the commit the link was built onto.\<close>

definition batch_record ::
  "daemon \<Rightarrow> target_cfg \<Rightarrow> string \<Rightarrow> nat \<Rightarrow> nat \<Rightarrow> string \<Rightarrow> chain_link \<Rightarrow> trial_merge \<Rightarrow> run_record" where
  "batch_record d t runID n i prevBase link trial =
     run_record_zero\<lparr>rr_RunID := memberRunID runID i, rr_Target := tg_Name t, rr_Candidate := cl_cand link,
       rr_BaseOID := prevBase, rr_MergeSHA := cl_mergeOID link, rr_Trial := trial, rr_StartedAt := d_now d,
       rr_BatchID := runID, rr_Position := int i, rr_BatchSize := int n\<rparr>"

fun reject_links ::
  "target_cfg \<Rightarrow> string \<Rightarrow> nat \<Rightarrow> outcome \<Rightarrow> string \<Rightarrow> nat \<Rightarrow> string \<Rightarrow> (chain_link \<times> trial_merge) list \<Rightarrow> daemon \<Rightarrow> daemon" where
  "reject_links t runID n outcome detail i prevBase [] d = d"
| "reject_links t runID n outcome detail i prevBase ((link, trial) # ls) d =
     (let rec = (batch_record d t runID n i prevBase link trial)\<lparr>rr_Outcome := outcome, rr_Detail := detail, rr_EndedAt := d_now d\<rparr>;
          d = park d (tg_Name t) (cl_cand link) outcome detail (rr_RunID rec);
          d = emit d (terminal_event d outcome (tg_Name t) (cl_cand link) rec detail);
          d = maybeAutoRetry d (tg_Name t) (cl_cand link) outcome in
      reject_links t runID n outcome detail (Suc i) (cl_mergeOID link) ls d)"

definition rejectBatch ::
  "daemon \<Rightarrow> target_cfg \<Rightarrow> string \<Rightarrow> string \<Rightarrow> (chain_link \<times> trial_merge) list \<Rightarrow> outcome \<Rightarrow> string \<Rightarrow> daemon" where
  "rejectBatch d t base runID ls outcome detail =
     (let d = forgetPrepared d runID;
          d = unpin d (cl_mergeOID (fst (last ls))) in
      reject_links t runID (length ls) outcome detail 0 base ls d)"

fun batch_members ::
  "daemon \<Rightarrow> target_cfg \<Rightarrow> string \<Rightarrow> nat \<Rightarrow> nat \<Rightarrow> string \<Rightarrow> (chain_link \<times> trial_merge) list \<Rightarrow> run_member list" where
  "batch_members d t runID n i prevBase [] = []"
| "batch_members d t runID n i prevBase ((link, trial) # ls) =
     \<lparr>m_cand = cl_cand link, m_mergeOID = cl_mergeOID link, m_rec = batch_record d t runID n i prevBase link trial\<rparr>
     # batch_members d t runID n (Suc i) (cl_mergeOID link) ls"

definition finishBatchStart ::
  "daemon \<Rightarrow> target_cfg \<Rightarrow> string \<Rightarrow> string \<Rightarrow> (chain_link \<times> trial_merge) list \<Rightarrow> daemon" where
  "finishBatchStart d t base runID ls =
     (let chainTip = cl_mergeOID (fst (last ls));
          tipTree = tm_TreeOID (snd (last ls));
          cands = map (cl_cand \<circ> fst) ls;
          d = d\<lparr>d_io := Suc (d_io d)\<rparr> in
      case g_RetainSources (d_git d) (d_io d) (map c_SHA cands) of
        Some e \<Rightarrow> rejectBatch d t base runID ls OutcomeError (msg [''retain sources: '', e])
      | None \<Rightarrow>
          (case setup_trial d t ''pin trial chain: '' base chainTip tipTree cands runID of
             (Inl (oc, detail), d) \<Rightarrow> rejectBatch d t base runID ls oc detail
           | (Inr (spec, dir, ref), d) \<Rightarrow>
               (let members = batch_members d t runID (length ls) 0 base ls in
                snd (launch d t (new_run t members base chainTip tipTree False runID runID spec dir ref)))))"

text \<open>\<^verbatim>\<open>internal/queue/summary.go\<close>: the bodies are computed concurrently, each from its own request; the
  calls are numbered in the order of the requests.\<close>

fun merge_bodies ::
  "(nat \<Rightarrow> candidate \<Rightarrow> string \<Rightarrow> string) \<Rightarrow> string \<Rightarrow> candidate list \<Rightarrow> (string, string) gomap \<Rightarrow> daemon
   \<Rightarrow> (string, string) gomap \<times> daemon" where
  "merge_bodies f base [] results d = (results, d)"
| "merge_bodies f base (c # cs) results d =
     merge_bodies f base cs (mput (c_Ref c) (f (Suc (d_io d)) c base) results) (d\<lparr>d_io := Suc (d_io d)\<rparr>)"

definition precomputeMergeBodies ::
  "daemon \<Rightarrow> string \<Rightarrow> candidate list \<Rightarrow> (string, string) gomap option \<times> daemon" where
  "precomputeMergeBodies d base cands =
     (case cf_MergeBody (d_cfg d) of
        None \<Rightarrow> (None, d)
      | Some f \<Rightarrow> if cands = [] then (None, d)
                  else (case merge_bodies f base cands [] d of (m, d) \<Rightarrow> (Some m, d)))"

definition conflict_detail :: "trial_merge \<Rightarrow> string" where
  "conflict_detail trial = msg [''trial merge conflict: '', str_join '', '' (tm_Conflicts trial)]"

text \<open>The loop labelled \<open>chain\<close>: the links built, in order, and the run ID minted at the first clean trial.\<close>

fun build_chain ::
  "target_cfg \<Rightarrow> string \<Rightarrow> (string, string) gomap option \<Rightarrow> candidate list \<Rightarrow> string \<Rightarrow> string \<Rightarrow> string \<Rightarrow> daemon
   \<Rightarrow> (chain_link \<times> trial_merge) list \<times> string \<times> daemon" where
  "build_chain t key bodies [] base specTree runID d = ([], runID, d)"
| "build_chain t key bodies (cand # cands) base specTree runID d =
     (case buildChainLinkPrecomputed d (tg_Name t) base cand runID bodies [key] of
        (LinkError e, runID, d) \<Rightarrow> ([], runID, rejectPreMerge d t cand OutcomeError e)
      | (LinkDirty trial, runID, d) \<Rightarrow> ([], runID, rejectPreMerge d t cand OutcomeConflict (conflict_detail trial))
      | (LinkMade link trial, runID, d) \<Rightarrow>
          (case specChanged d specTree (tm_TreeOID trial) of
             (True, d) \<Rightarrow> ([(link, trial)], runID, d)
           | (False, d) \<Rightarrow>
               (case build_chain t key bodies cands (cl_mergeOID link) (tm_TreeOID trial) runID d of
                  (ls, runID, d) \<Rightarrow> ((link, trial) # ls, runID, d))))"

fun reject_all :: "target_cfg \<Rightarrow> outcome \<Rightarrow> string \<Rightarrow> candidate list \<Rightarrow> daemon \<Rightarrow> daemon" where
  "reject_all t outcome detail [] d = d"
| "reject_all t outcome detail (c # cs) d = reject_all t outcome detail cs (rejectPreMerge d t c outcome detail)"

definition startBatchRun :: "daemon \<Rightarrow> target_cfg \<Rightarrow> string \<Rightarrow> candidate list \<Rightarrow> daemon" where
  "startBatchRun d t targetTip picked =
     (let d = d\<lparr>d_io := Suc (d_io d)\<rparr> in
      case g_RetainSources (d_git d) (d_io d) (map c_SHA picked) of
        Some e \<Rightarrow> reject_all t OutcomeError (msg [''retain sources: '', e]) picked d
      | None \<Rightarrow>
          (let (bodies, d) = (if tg_Landing t \<noteq> ''squash'' then precomputeMergeBodies d targetTip picked else (None, d)) in
           case build_chain t (cf_batchKey (d_cfg d) picked) bodies picked targetTip targetTip [] d of
             (ls, runID, d) \<Rightarrow> if ls = [] then d else finishBatchStart d t targetTip runID ls))"

section \<open>Refilling a lane\<close>

text \<open>What \<open>refillSerialOne\<close>, \<open>refillBatch\<close> and \<open>refillSpeculate\<close> do with the head of an empty lane before
  its trial: \<open>True\<close> when the candidate is disposed of, by recovery or by an error.\<close>

definition recover_head :: "daemon \<Rightarrow> target_cfg \<Rightarrow> candidate \<Rightarrow> string \<Rightarrow> bool \<times> daemon" where
  "recover_head d t cand targetTip =
     (case candidateLanded d t cand targetTip of
        (Inl e, d) \<Rightarrow> (True, rejectPreMerge d t cand OutcomeError (msg [''is-ancestor: '', e]))
      | (Inr True, d) \<Rightarrow> (True, recoverLanded d t cand targetTip)
      | (Inr False, d) \<Rightarrow> (False, d))"

definition refillSerialOne :: "daemon \<Rightarrow> target_cfg \<Rightarrow> string \<Rightarrow> (string, candidate) gomap \<Rightarrow> daemon" where
  "refillSerialOne d t targetTip cands =
     (case pickHead d (tg_Name t) cands of
        None \<Rightarrow> d
      | Some cand \<Rightarrow>
          (case recover_head d t cand targetTip of
             (True, d) \<Rightarrow> d
           | (False, d) \<Rightarrow> snd (startRun d t targetTip cand False [])))"

definition batch_limit :: "daemon \<Rightarrow> target_cfg \<Rightarrow> int \<Rightarrow> int" where
  "batch_limit d t limit =
     (let maxBatch = (if ci_Backoff (mget circuit_zero (ct_Circuits (d_controls d)) (tg_Name t)) > 0 then 1 else limit);
          recovery = mget 0 (d_batchRecovery d) (tg_Name t) in
      if recovery > 0 then min maxBatch recovery else maxBatch)"

definition refillBatch :: "daemon \<Rightarrow> target_cfg \<Rightarrow> string \<Rightarrow> (string, candidate) gomap \<Rightarrow> daemon" where
  "refillBatch d t targetTip cands =
     (let (limit, d) = adaptiveLimit d t in
      case pickUpTo d (tg_Name t) cands (batch_limit d t limit) [] of
        [] \<Rightarrow> d
      | head # rest \<Rightarrow>
          (case recover_head d t head targetTip of
             (True, d) \<Rightarrow> d
           | (False, d) \<Rightarrow> startBatchRun d t targetTip (head # rest)))"

text \<open>The loop \<open>for len(runs) < window\<close>.  Every turn that does not return appends one run to the lane, so the
  free places of the window bound the turns; \<open>pred\<close> is the last run's candidate.\<close>

fun speculate_loop ::
  "nat \<Rightarrow> target_cfg \<Rightarrow> string \<Rightarrow> (string, candidate) gomap \<Rightarrow> int \<Rightarrow> (string, bool) gomap \<Rightarrow> string \<Rightarrow> candidate option
   \<Rightarrow> daemon \<Rightarrow> daemon" where
  "speculate_loop 0 t targetTip cands window inFlight base pred d = d"
| "speculate_loop (Suc fuel) t targetTip cands window inFlight base pred d =
     (let runs = mget [] (d_lanes d) (tg_Name t) in
      if \<not> int (length runs) < window then d
      else case pickNext d (tg_Name t) cands inFlight of
        None \<Rightarrow> d
      | Some cand \<Rightarrow>
          (let predicted = (runs \<noteq> []) in
           case (if predicted then (False, d) else recover_head d t cand targetTip) of
             (True, d) \<Rightarrow> d
           | (False, d) \<Rightarrow>
               (let conflictDetail = (case pred of
                      Some p \<Rightarrow> if predicted then msg [''conflicts with in-flight '', c_Topic p, ''@'', c_SHA p, '' (predicted base)''] else []
                    | None \<Rightarrow> []) in
                case startRun d t base cand predicted conflictDetail of
                  (None, d) \<Rightarrow> d
                | (Some r, d) \<Rightarrow>
                    speculate_loop fuel t targetTip cands window (mput (c_Ref cand) True inFlight) (r_chainTip r) (Some cand) d)))"

definition refillSpeculate :: "daemon \<Rightarrow> target_cfg \<Rightarrow> string \<Rightarrow> (string, candidate) gomap \<Rightarrow> daemon" where
  "refillSpeculate d t targetTip cands =
     (if ct_Uncertain (d_controls d) \<or> circuitBlocked d (tg_Name t) then d
      else
       (let runs = mget [] (d_lanes d) (tg_Name t) in
        if ci_Backoff (mget circuit_zero (ct_Circuits (d_controls d)) (tg_Name t)) > 0
        then (if runs \<noteq> [] then d else refillSerialOne d t targetTip cands)
        else
         (let (window, d) = adaptiveLimit d t in
          if window \<le> int (length runs) then d
          else
           (let inFlight = fold (\<lambda>r m. mput (c_Ref (head_cand r)) True m) runs [];
                base = (if runs = [] then targetTip else r_chainTip (last runs));
                pred = (if runs = [] then None else Some (head_cand (last runs))) in
            speculate_loop (nat (window - int (length runs))) t targetTip cands window inFlight base pred d))))"

definition refillLane :: "daemon \<Rightarrow> target_cfg \<Rightarrow> string \<Rightarrow> (string, candidate) gomap \<Rightarrow> daemon" where
  "refillLane d t targetTip cands =
     (if d_draining d then d
      else if tg_Mode t = ''speculate'' then refillSpeculate d t targetTip cands
      else if mget [] (d_lanes d) (tg_Name t) \<noteq> [] then d
      else if ct_Uncertain (d_controls d) \<or> circuitBlocked d (tg_Name t) then d
      else if tg_Mode t = ''batch'' \<and> \<not> mget False (d_batchFallback d) (tg_Name t) then refillBatch d t targetTip cands
      else refillSerialOne d t targetTip cands)"

section \<open>What admission leaves alone\<close>

text \<open>The ref updates that move no branch forward: the removal of a ref, and the publication of a trial ref.\<close>

definition aux_push :: "daemon \<Rightarrow> ref_push \<Rightarrow> bool" where
  "aux_push d p = (ps_new p = [] \<or> ps_old p = [] \<and> (\<exists>runID. ps_ref p = trialRefName d runID))"

definition calm :: "daemon \<Rightarrow> daemon \<Rightarrow> bool" where
  "calm d d' =
     (d_git d' = d_git d \<and> d_cfg d' = d_cfg d \<and> d_now d' = d_now d \<and> d_draining d' = d_draining d
      \<and> d_lanes d' = d_lanes d \<and> pauses d' = pauses d \<and> grows (aux_push d) (d_pushes d) (d_pushes d'))"

lemma calm_refl [simp]: "calm d d"
  by (simp add: calm_def)

lemma aux_push_cong: "d_cfg d' = d_cfg d \<Longrightarrow> aux_push d' = aux_push d"
  by (simp add: aux_push_def trialRefName_def fun_eq_iff)

lemma calm_trans: "calm d d' \<Longrightarrow> calm d' d'' \<Longrightarrow> calm d d''"
  using aux_push_cong [of d' d] grows_trans [of "aux_push d" "d_pushes d" "d_pushes d'" "d_pushes d''"]
  by (simp add: calm_def)

lemma calm_io [simp]: "calm d d1 \<Longrightarrow> calm d (d1\<lparr>d_io := n\<rparr>)"
  by (simp add: calm_def)

lemma calm_pins [simp]: "calm d d1 \<Longrightarrow> calm d (d1\<lparr>d_pins := n\<rparr>)"
  by (simp add: calm_def)

lemma calm_unpin [simp]: "calm d d1 \<Longrightarrow> calm d (unpin d1 oid)"
  by (simp add: calm_def)

lemma calm_casUpdate:
  assumes "calm d d1" "aux_push d \<lparr>ps_ref = ref, ps_old = old, ps_new = new\<rparr>"
  shows "calm d (snd (casUpdate d1 ref old new))"
  using assms grows_trans [OF _ casUpdate_pushes [of "aux_push d" ref old new d1]] by (simp add: calm_def)

lemma calm_delete [simp]: "calm d d1 \<Longrightarrow> calm d (snd (casUpdate d1 ref old []))"
  by (rule calm_casUpdate) (simp_all add: aux_push_def)

lemma calm_createTrialRef [simp]: "calm d d1 \<Longrightarrow> calm d (snd (createTrialRef d1 runID oid))"
proof -
  assume a: "calm d d1"
  then have "aux_push d \<lparr>ps_ref = trialRefName d1 runID, ps_old = [], ps_new = oid\<rparr>"
    by (auto simp: aux_push_def calm_def trialRefName_def)
  from calm_casUpdate [OF a this] show ?thesis
    by (simp add: createTrialRef_def Let_def split_beta split: option.split git_error.split)
qed

lemma calm_emit [simp]: "calm d d1 \<Longrightarrow> calm d (emit d1 ev)"
  by (simp add: calm_def)

lemma calm_park [simp]: "calm d d1 \<Longrightarrow> calm d (park d1 target cand oc detail runID)"
  by (simp add: calm_def)

lemma calm_maybeAutoRetry [simp]: "calm d d1 \<Longrightarrow> calm d (maybeAutoRetry d1 target cand oc)"
  by (simp add: calm_def)

lemma calm_newRunID [simp]: "calm d d1 \<Longrightarrow> calm d (snd (newRunID d1 now oid))"
  by (simp add: calm_def newRunID_def Let_def)

lemma calm_forgetPrepared [simp]: "calm d d1 \<Longrightarrow> calm d (forgetPrepared d1 runID)"
  by (simp add: calm_def)

lemma calm_saveControls [simp]: "calm d d1 \<Longrightarrow> ct_Pauses c = pauses d1 \<Longrightarrow> calm d (snd (saveControls d1 c))"
  by (simp add: calm_def)

lemma calm_set_last_error [simp]: "calm d d1 \<Longrightarrow> calm d (set_last_error e d1)"
  by (simp add: calm_def set_last_error_def)

lemma calm_rejectPreMerge [simp]: "calm d d1 \<Longrightarrow> calm d (rejectPreMerge d1 t cand oc detail)"
  by (simp add: rejectPreMerge_def Let_def split_beta)

lemma calm_skipPreMergePredicted [simp]: "calm d d1 \<Longrightarrow> calm d (skipPreMergePredicted d1 t cand detail)"
  by (simp add: skipPreMergePredicted_def Let_def split_beta)

lemma calm_rejectRun [simp]: "calm d d1 \<Longrightarrow> calm d (rejectRun d1 t cand runID base oid trial oc detail)"
  by (simp add: rejectRun_def Let_def)

lemma calm_recallPrepared [simp]: "calm d d1 \<Longrightarrow> calm d (snd (recallPrepared d1 key tree))"
  by (simp add: recallPrepared_def Let_def split: sum.split bool.split)

lemma calm_rememberPrepared [simp]: "calm d d1 \<Longrightarrow> calm d (snd (rememberPrepared d1 key entry))"
  by (simp add: rememberPrepared_def Let_def split: option.split sum.split)

lemma calm_on_clean [simp]: "calm d d1 \<Longrightarrow> calm d (snd (on_clean d1 target cand runID restored trial))"
  by (simp add: on_clean_def Let_def split_beta)

lemma calm_merge_body [simp]: "calm d d1 \<Longrightarrow> calm d (snd (merge_body d1 lin cand base pre))"
  by (simp add: merge_body_def split: option.split)

lemma calm_linear_message [simp]: "calm d d1 \<Longrightarrow> calm d (snd (linear_message d1 cand runID text))"
  by (simp add: linear_message_def Let_def split: option.split sum.split)

lemma calm_make_commit [simp]: "calm d d1 \<Longrightarrow> calm d (snd (make_commit d1 lin base cand runID trial text))"
  by (simp add: make_commit_def Let_def split_beta split: option.split sum.split prod.split)

lemma calm_trial_tree [simp]: "calm d d1 \<Longrightarrow> calm d (snd (trial_tree d1 lin base cand))"
  by (simp add: trial_tree_def Let_def split: option.split)

lemma calm_commit_link [simp]: "calm d d1 \<Longrightarrow> calm d (snd (commit_link d1 lin target base cand key runID pre trial))"
  by (simp add: commit_link_def Let_def split_beta split: sum.split bool.split)

lemma calm_buildChainLink [simp]: "calm d d1 \<Longrightarrow> calm d (snd (snd (buildChainLinkPrecomputed d1 target base cand runID pre grp)))"
  by (simp add: buildChainLinkPrecomputed_def Let_def split_beta split: sum.split)

lemma calm_specChanged [simp]: "calm d d1 \<Longrightarrow> calm d (snd (specChanged d1 a b))"
  by (simp add: specChanged_def Let_def)

lemma calm_pin [simp]: "calm d d1 \<Longrightarrow> calm d (snd (pin d1 oid))"
  by (simp add: pin_def Let_def split: option.split)

lemma calm_load_spec [simp]: "calm d d1 \<Longrightarrow> calm d (snd (load_spec d1 tree))"
  by (simp add: load_spec_def Let_def split: sum.split)

lemma calm_recordPolicyDecision [simp]: "calm d d1 \<Longrightarrow> calm d (snd (recordPolicyDecision d1 ref sha phase input dec err))"
  by (simp add: calm_def)

lemma calm_executionPolicy [simp]: "calm d d1 \<Longrightarrow> calm d (snd (executionPolicy d1 t base sha ms spec))"
  by (simp add: executionPolicy_def Let_def split_beta split: option.split)

lemma calm_export_tree [simp]: "calm d d1 \<Longrightarrow> calm d (snd (export_tree d1 spec tip tree))"
  by (simp add: export_tree_def Let_def split: sum.split option.split)

lemma calm_publish_trial [simp]: "calm d d1 \<Longrightarrow> calm d (snd (publish_trial d1 runID tip))"
  by (simp add: publish_trial_def split_beta split: sum.split)

lemma calm_candidateLanded [simp]: "calm d d1 \<Longrightarrow> calm d (snd (candidateLanded d1 t c tip))"
  by (simp add: candidateLanded_def Let_def split: option.split sum.split)

lemma calm_find_landing [simp]: "calm d d1 \<Longrightarrow> calm d (snd (find_landing d1 t c tip))"
  by (simp add: find_landing_def Let_def)

lemma calm_delete_slot [simp]: "calm d d1 \<Longrightarrow> calm d (snd (delete_slot d1 c sha))"
  by (simp add: delete_slot_def Let_def split: option.split)

lemma calm_recoverLanded [simp]: "calm d d1 \<Longrightarrow> calm d (recoverLanded d1 t cand tip)"
  by (simp add: recoverLanded_def Let_def split_beta)

lemma calm_recover_head [simp]: "calm d d1 \<Longrightarrow> calm d (snd (recover_head d1 t cand tip))"
  by (simp add: recover_head_def split_beta split: sum.split bool.split)

lemma calm_adaptiveLimit [simp]: "calm d d1 \<Longrightarrow> calm d (snd (adaptiveLimit d1 t))"
  by (simp add: adaptiveLimit_def calm_def Let_def split_beta split: option.split)

lemma calm_setup_trial [simp]: "calm d d1 \<Longrightarrow> calm d (snd (setup_trial d1 t what base tip tree ms runID))"
  by (simp add: setup_trial_def split_beta split: option.split sum.split)

lemma calm_reject_links [simp]: "calm d d1 \<Longrightarrow> calm d (reject_links t runID n oc detail i base ls d1)"
  by (induction t runID n oc detail i base ls d1 rule: reject_links.induct) (simp_all add: Let_def)

lemma calm_rejectBatch [simp]: "calm d d1 \<Longrightarrow> calm d (rejectBatch d1 t base runID ls oc detail)"
  by (simp add: rejectBatch_def Let_def)

lemma calm_merge_bodies [simp]: "calm d d1 \<Longrightarrow> calm d (snd (merge_bodies f base cs m d1))"
  by (induction f base cs m d1 rule: merge_bodies.induct) simp_all

lemma calm_precompute [simp]: "calm d d1 \<Longrightarrow> calm d (snd (precomputeMergeBodies d1 base cs))"
  by (simp add: precomputeMergeBodies_def split_beta split: option.split)

lemma calm_reject_all [simp]: "calm d d1 \<Longrightarrow> calm d (reject_all t oc detail cs d1)"
  by (induction t oc detail cs d1 rule: reject_all.induct) simp_all

lemma calm_build_chain [simp]: "calm d d1 \<Longrightarrow> calm d (snd (snd (build_chain t key bodies cs base specTree runID d1)))"
proof (induction cs arbitrary: base specTree runID d1)
  case (Cons c cs)
  then show ?case by (simp add: Let_def split_beta split: link_result.split bool.split)
qed simp

section \<open>A prepared trial\<close>

definition execution_input :: "target_cfg \<Rightarrow> string \<Rightarrow> candidate list \<Rightarrow> check_spec \<Rightarrow> policy_input" where
  "execution_input t base members spec =
     policy_input_zero\<lparr>pi_SchemaVersion := 1, pi_Phase := ''execution'', pi_Target := tg_Name t,
       pi_Branch := tg_Branch t, pi_BaseSHA := base, pi_Stack := policyMembers members, pi_Execution := Some spec\<rparr>"

definition gated_spec :: "config \<Rightarrow> target_cfg \<Rightarrow> string \<Rightarrow> candidate list \<Rightarrow> check_spec \<Rightarrow> bool" where
  "gated_spec cfg t base members spec =
     (validate spec = None
      \<and> SpecRejectReason spec (cf_Services cfg) (cf_KnownExecutorProfile cfg) (cf_ImageCapableProfile cfg)
          (cf_ReceiptNotes cfg \<noteq> None) (cf_RemoteExecutorProfile cfg) = []
      \<and> (\<exists>n dec. po_Decide (cf_Policy cfg) n ''execution'' (execution_input t base members spec) = (dec, None) \<and> de_Allow dec))"

lemma calm_cfg: "calm d d' \<Longrightarrow> d_cfg d' = d_cfg d"
  by (simp add: calm_def)

lemma ParseChecks_validate: "ParseChecks kp ku data = Inr spec \<Longrightarrow> validate spec = None"
  by (auto simp: ParseChecks_def Let_def split: option.splits sum.splits)

lemma load_spec_ok:
  assumes "load_spec d tree = (Inr spec, d')"
  shows "validate spec = None"
    "SpecRejectReason spec (cf_Services (d_cfg d)) (cf_KnownExecutorProfile (d_cfg d)) (cf_ImageCapableProfile (d_cfg d))
       (cf_ReceiptNotes (d_cfg d) \<noteq> None) (cf_RemoteExecutorProfile (d_cfg d)) = []"
  using assms by (auto simp: load_spec_def Let_def ParseChecks_validate split: sum.splits if_splits)

lemma executionPolicy_ok:
  assumes "executionPolicy d t base sha ms spec = (None, d')"
  shows "\<exists>n dec. po_Decide (cf_Policy (d_cfg d)) n ''execution'' (execution_input t base ms spec) = (dec, None) \<and> de_Allow dec"
proof -
  let ?p = "po_Decide (cf_Policy (d_cfg d)) (Suc (d_io d)) ''execution'' (execution_input t base ms spec)"
  have "snd ?p = None \<and> de_Allow (fst ?p)"
    using assms unfolding executionPolicy_def Let_def execution_input_def by (auto simp: split_beta split: option.splits if_splits)
  then show ?thesis by (metis prod.collapse)
qed

lemma pins_export [simp]: "d_pins (snd (export_tree d spec tip tree)) = d_pins d"
  by (simp add: export_tree_def Let_def split: sum.split option.split)

lemma pins_publish [simp]: "d_pins (snd (publish_trial d runID tip)) = d_pins d"
  by (simp add: publish_trial_def createTrialRef_def Let_def split_beta split: sum.split option.split git_error.split)

lemma pins_load [simp]: "d_pins (snd (load_spec d tree)) = d_pins d"
  by (simp add: load_spec_def Let_def split: sum.split)

lemma pins_execution [simp]: "d_pins (snd (executionPolicy d t base sha ms spec)) = d_pins d"
  by (simp add: executionPolicy_def Let_def split_beta split: option.split)

lemma publish_trial_ref:
  "fst (publish_trial d runID tip) = Inr ref \<Longrightarrow> ref = [] \<or> ref = trialRefName d runID"
  by (auto simp: publish_trial_def createTrialRef_def Let_def split_beta split: sum.splits option.splits git_error.splits if_splits)

lemma setup_trial_ok:
  assumes "setup_trial d t what base tip tree ms runID = (Inr (spec, dir, ref), d')"
  shows "calm d d'" "tip \<in> set (d_pins d')" "gated_spec (d_cfg d) t base ms spec" "ref = [] \<or> ref = trialRefName d runID"
proof -
  show "calm d d'" using calm_setup_trial [of d d t what base tip tree ms runID] assms by simp
  obtain d1 where 1: "pin d tip = (None, d1)" using assms by (auto simp: setup_trial_def split: prod.splits option.splits)
  obtain d2 where 2: "load_spec d1 tree = (Inr spec, d2)"
    using assms 1 by (auto simp: setup_trial_def split: prod.splits option.splits sum.splits)
  obtain d3 where 3: "executionPolicy d2 t base tip ms spec = (None, d3)"
    using assms 1 2 by (auto simp: setup_trial_def split: prod.splits option.splits sum.splits)
  obtain d4 where 4: "export_tree d3 spec tip tree = (Inr dir, d4)"
    using assms 1 2 3 by (auto simp: setup_trial_def split: prod.splits option.splits sum.splits)
  have 5: "publish_trial d4 runID tip = (Inr ref, d')"
    using assms 1 2 3 4 by (auto simp: setup_trial_def split: prod.splits option.splits sum.splits)
  have pins: "d_pins d' = d_pins d1"
    using pins_load [of d1 tree] pins_execution [of d2 t base tip ms spec] pins_export [of d3 spec tip tree] pins_publish [of d4 runID tip]
    by (simp add: 2 3 4 5)
  show "tip \<in> set (d_pins d')" unfolding pins using 1 by (auto simp: pin_def Let_def split: option.splits)
  have c1: "calm d d1" using calm_pin [of d d tip] 1 by simp
  then have c2: "calm d d2" using calm_load_spec [of d d1 tree] 2 by simp
  then have c3: "calm d d3" using calm_executionPolicy [of d d2 t base tip ms spec] 3 by simp
  then have c4: "calm d d4" using calm_export_tree [of d d3 spec tip tree] 4 by simp
  show "gated_spec (d_cfg d) t base ms spec"
    using load_spec_ok [OF 2] executionPolicy_ok [OF 3] by (simp add: gated_spec_def calm_cfg [OF c1] calm_cfg [OF c2])
  show "ref = [] \<or> ref = trialRefName d runID"
    using publish_trial_ref [of d4 runID tip ref] 5 calm_cfg [OF c4] by (auto simp: trialRefName_def)
qed

section \<open>Admitted runs\<close>

lemma buildRunNodes_named: "validate cs = None \<Longrightarrow> [] \<notin> ck_Name ` set (buildRunNodes cs)"
  using spec_wf_validate [of cs]
  by (auto simp: node_in_buildRunNodes spec_wf_def list_all_iff check_wf_def image_node_def check_node_def receipt_node_def
      imageNodePrefix_def receiptNodePrefix_def)

lemma new_run_lane:
  assumes "validate spec = None"
  shows "lane_run (new_run t ms base tip tree predicted batchID runID spec dir ref)"
    "nodes_wf (r_checks (new_run t ms base tip tree predicted batchID runID spec dir ref))"
  using buildRunNodes_graph [OF assms] buildRunNodes_named [OF assms]
  by (auto simp: lane_run_def run_live_def run_ok_def images_ok_def nodes_wf_def new_run_def run_zero_def)

text \<open>\<open>admits t d d' news\<close>: between the two states the target's lane gained the runs \<open>news\<close> at its end; no other lane
  changed, and nothing was pushed but removals and trial refs.\<close>

definition admits :: "target_cfg \<Rightarrow> daemon \<Rightarrow> daemon \<Rightarrow> run list \<Rightarrow> bool" where
  "admits t d d' news =
     (d_git d' = d_git d \<and> d_cfg d' = d_cfg d \<and> d_now d' = d_now d \<and> d_draining d' = d_draining d
      \<and> pauses d' = pauses d \<and> grows (aux_push d) (d_pushes d) (d_pushes d')
      \<and> mget [] (d_lanes d') (tg_Name t) = mget [] (d_lanes d) (tg_Name t) @ news
      \<and> (\<forall>n. n \<noteq> tg_Name t \<longrightarrow> mget [] (d_lanes d') n = mget [] (d_lanes d) n))"

lemma admits_calm: "calm d d' \<Longrightarrow> admits t d d' []"
  by (simp add: calm_def admits_def)

lemma calm_admits: "calm d d' \<Longrightarrow> admits t d' d'' news \<Longrightarrow> admits t d d'' news"
  using aux_push_cong [of d' d] grows_trans [of "aux_push d" "d_pushes d" "d_pushes d'" "d_pushes d''"]
  by (simp add: calm_def admits_def)

lemma admits_trans: "admits t d d' xs \<Longrightarrow> admits t d' d'' ys \<Longrightarrow> admits t d d'' (xs @ ys)"
  using aux_push_cong [of d' d] grows_trans [of "aux_push d" "d_pushes d" "d_pushes d'" "d_pushes d''"]
  by (simp add: admits_def)

text \<open>A run as it is handed to its lane: its graph is the one of a spec of its tree that passed every gate, its
  tip is pinned, and it tests exactly the given candidates on the given base.\<close>

definition admitted :: "daemon \<Rightarrow> target_cfg \<Rightarrow> string \<Rightarrow> candidate list \<Rightarrow> bool \<Rightarrow> run \<Rightarrow> bool" where
  "admitted d t base cands predicted r =
     (lane_run r \<and> nodes_wf (r_checks r) \<and> 1 \<le> r_maxParallel r
      \<and> r_target r = tg_Name t \<and> r_baseOID r = base \<and> r_predicted r = predicted \<and> r_chainTip r \<in> set (d_pins d)
      \<and> cands \<noteq> [] \<and> map m_cand (r_members r) = cands \<and> m_mergeOID (last (r_members r)) = r_chainTip r
      \<and> (\<exists>spec. gated_spec (d_cfg d) t base cands spec \<and> r_checks r = buildRunNodes spec))"

lemma set_lane_lanes:
  "mget [] (d_lanes (set_lane d target runs)) n = (if n = target then runs else mget [] (d_lanes d) n)"
  by (simp add: set_lane_def)

lemma set_lane_more [simp]:
  "d_now (set_lane d target runs) = d_now d" "d_draining (set_lane d target runs) = d_draining d"
  by (simp_all add: set_lane_def)

lemma same_run_cands: "same_run r r' \<Longrightarrow> map m_cand (r_members r') = map m_cand (r_members r)"
proof -
  have "map m_cand (r_members x) = map fst (member_ids x)" for x by (simp add: member_ids_def)
  then show "same_run r r' \<Longrightarrow> ?thesis" by (simp add: same_run_def)
qed

lemma launch_admits:
  assumes "launch d t r0 = (r, d')" "lane_run r0"
  shows "admits t d d' [r]" "same_run r0 r" "lane_run r" "d_pins d' = d_pins d" "d_done d' = d_done d"
proof -
  define d1 where "d1 = (if cf_TrialRefs (d_cfg d)
               then emit d ((event_zero EventTrialMerged)\<lparr>ev_At := d_now d, ev_Target := tg_Name t,
                      ev_Candidate := head_cand r0, ev_RunID := r_runID r0, ev_MergeSHA := r_chainTip r0\<rparr>)
               else d)"
  have d1: "calm d d1" "d_pins d1 = d_pins d" "d_done d1 = d_done d" by (simp_all add: d1_def)
  define d2 where "d2 = set_lane d1 (tg_Name t) (mget [] (d_lanes d1) (tg_Name t) @ [r0])"
  define p where "p = prepareEmergency d2 (mark_override r0)"
  have eq: "r = snd (advanceChecks d2 t p)" "d' = set_lane (fst (advanceChecks d2 t p)) (tg_Name t) (mget [] (d_lanes d1) (tg_Name t) @ [r])"
    using assms(1) by (auto simp: launch_def Let_def split_beta d1_def [symmetric] d2_def [symmetric] p_def [symmetric])
  have st: "steady d2 (fst (advanceChecks d2 t p))" by (rule advanceChecks_steady)
  then show "d_pins d' = d_pins d" "d_done d' = d_done d" by (simp_all add: eq steady_def d2_def d1)
  have "admits t d1 d' [r]" using st by (simp add: eq admits_def steady_def set_lane_lanes d2_def)
  then show "admits t d d' [r]" by (rule calm_admits [OF d1(1)])
  show "same_run r0 r" unfolding eq p_def
    by (rule same_run_trans [OF same_run_prepare(2) same_run_trans [OF same_run_prepare(1) same_run_advance]])
  show "lane_run r" unfolding eq p_def
    by (simp add: advanceChecks_lane_run prepareEmergency_lane_run mark_override_lane_run assms(2))
qed

lemma new_run_fields [simp]:
  "r_target (new_run t ms base tip tree predicted batchID runID spec dir ref) = tg_Name t"
  "r_baseOID (new_run t ms base tip tree predicted batchID runID spec dir ref) = base"
  "r_chainTip (new_run t ms base tip tree predicted batchID runID spec dir ref) = tip"
  "r_predicted (new_run t ms base tip tree predicted batchID runID spec dir ref) = predicted"
  "r_members (new_run t ms base tip tree predicted batchID runID spec dir ref) = ms"
  "r_checks (new_run t ms base tip tree predicted batchID runID spec dir ref) = buildRunNodes spec"
  "r_maxParallel (new_run t ms base tip tree predicted batchID runID spec dir ref) = effectiveMaxParallel spec"
  by (simp_all add: new_run_def)

lemma launch_admitted:
  assumes prep: "setup_trial d t what base tip tree (map m_cand ms) runID = (Inr (spec, dir, ref), d1)"
    and ms: "ms \<noteq> []" "m_mergeOID (last ms) = tip"
    and launch: "launch d1 t (new_run t ms base tip tree' predicted batchID runID spec dir ref) = (r, d')"
  shows "admits t d d' [r]" "admitted d' t base (map m_cand ms) predicted r" "map m_mergeOID (r_members r) = map m_mergeOID ms"
proof -
  note ok = setup_trial_ok [OF prep]
  have v: "validate spec = None" using ok(3) by (simp add: gated_spec_def)
  note l = launch_admits [OF launch new_run_lane(1) [OF v]]
  show "admits t d d' [r]" by (rule calm_admits [OF ok(1) l(1)])
  show oids: "map m_mergeOID (r_members r) = map m_mergeOID ms" using l(2) by (simp add: same_run_def)
  have cands: "map m_cand (r_members r) = map m_cand ms" using same_run_cands [OF l(2)] by simp
  have "r_members r \<noteq> []" using cands ms(1) by auto
  then have "m_mergeOID (last (r_members r)) = last (map m_mergeOID (r_members r))" by (simp add: last_map)
  also have "\<dots> = tip" unfolding oids using ms by (simp add: last_map)
  finally have tip: "m_mergeOID (last (r_members r)) = tip" .
  have cfg: "d_cfg d' = d_cfg d" using l(1) calm_cfg [OF ok(1)] by (simp add: admits_def)
  have same: "r_target r = tg_Name t" "r_baseOID r = base" "r_chainTip r = tip" "r_predicted r = predicted"
    "r_checks r = buildRunNodes spec" "r_maxParallel r = effectiveMaxParallel spec"
    using l(2) by (simp_all add: same_run_def)
  have pin: "tip \<in> set (d_pins d')" using ok(2) l(4) by simp
  have par: "1 \<le> effectiveMaxParallel spec" by (simp add: effectiveMaxParallel_def)
  show "admitted d' t base (map m_cand ms) predicted r"
    unfolding admitted_def same cfg tip cands using l(3) buildRunNodes_graph [OF v] par pin ms(1) ok(3) by auto
qed

lemma startRun_admits:
  assumes "startRun d t base cand predicted conflict = (res, d')"
  shows "case res of None \<Rightarrow> calm d d' | Some r \<Rightarrow> admits t d d' [r] \<and> admitted d' t base [cand] predicted r"
proof -
  define d1 where "d1 = d\<lparr>d_io := Suc (d_io d)\<rparr>"
  have c1: "calm d d1" by (simp add: d1_def)
  have c2: "calm d (snd (snd (buildChainLink d1 (tg_Name t) base cand)))" using c1 by (simp add: buildChainLink_def)
  note unf = startRun_def Let_def d1_def [symmetric]
  show ?thesis
  proof (cases "g_RetainSources (d_git d1) (d_io d1) [c_SHA cand]")
    case (Some e)
    then show ?thesis using assms c1 by (auto simp: unf)
  next
    case retained: None
    obtain res1 runID d2 where b: "buildChainLink d1 (tg_Name t) base cand = (res1, runID, d2)" by (metis prod_cases3)
    have cd2: "calm d d2" using c2 b by simp
    show ?thesis
    proof (cases res1)
      case (LinkMade link trial)
      obtain out d3 where s: "setup_trial d2 t ''pin trial merge: '' base (cl_mergeOID link) (tm_TreeOID trial) [cand] runID = (out, d3)" by fastforce
      have cd3: "calm d d3" using calm_setup_trial [OF cd2] s by (metis snd_conv)
      show ?thesis
      proof (cases out)
        case (Inl e)
        then show ?thesis using assms retained b LinkMade s cd3 by (auto simp: unf split: prod.splits)
      next
        case (Inr q)
        obtain spec dir ref where q: "q = (spec, dir, ref)" by (metis prod_cases3)
        define rec where "rec = run_record_zero\<lparr>rr_RunID := runID, rr_Target := tg_Name t, rr_Candidate := cand,
           rr_BaseOID := base, rr_MergeSHA := cl_mergeOID link, rr_Trial := trial, rr_StartedAt := d_now d3, rr_Speculated := predicted\<rparr>"
        let ?ms = "[\<lparr>m_cand = cand, m_mergeOID = cl_mergeOID link, m_rec = rec\<rparr>]"
        obtain r d4 where l: "launch d3 t (new_run t ?ms base (cl_mergeOID link) (tm_TreeOID trial) predicted [] runID spec dir ref) = (r, d4)"
          by fastforce
        have out: "res = Some r" "d' = d4"
          using assms retained b LinkMade s Inr q l by (simp_all add: unf rec_def [symmetric])
        have "setup_trial d2 t ''pin trial merge: '' base (cl_mergeOID link) (tm_TreeOID trial) (map m_cand ?ms) runID = (Inr (spec, dir, ref), d3)"
          using s Inr q by simp
        note a = launch_admitted [OF this _ _ l]
        show ?thesis using calm_admits [OF cd2 a(1)] a(2) by (simp add: out)
      qed
    qed (use assms retained b cd2 in \<open>auto simp: unf\<close>)
  qed
qed

section \<open>Batches\<close>

text \<open>The members of a batch link into one chain: each is built onto the previous one's merge commit, the first
  onto \<open>base\<close>.\<close>

fun chained :: "string \<Rightarrow> run_member list \<Rightarrow> bool" where
  "chained base [] = True"
| "chained base (m # ms) = (rr_BaseOID (m_rec m) = base \<and> rr_MergeSHA (m_rec m) = m_mergeOID m \<and> chained (m_mergeOID m) ms)"

lemma batch_members_props:
  "chained base (batch_members d t runID n i base ls)"
  "map m_cand (batch_members d t runID n i base ls) = map (cl_cand \<circ> fst) ls"
  "map m_mergeOID (batch_members d t runID n i base ls) = map (cl_mergeOID \<circ> fst) ls"
  by (induction d t runID n i base ls rule: batch_members.induct) (simp_all add: batch_record_def)

lemma finishBatchStart_admits:
  assumes "ls \<noteq> []"
  shows "calm d (finishBatchStart d t base runID ls) \<or>
    (\<exists>r. admits t d (finishBatchStart d t base runID ls) [r]
       \<and> admitted (finishBatchStart d t base runID ls) t base (map (cl_cand \<circ> fst) ls) False r)"
proof -
  define d1 where "d1 = d\<lparr>d_io := Suc (d_io d)\<rparr>"
  have c1: "calm d d1" by (simp add: d1_def)
  let ?tip = "cl_mergeOID (fst (last ls))"
  let ?tree = "tm_TreeOID (snd (last ls))"
  let ?cands = "map (cl_cand \<circ> fst) ls"
  note unf = finishBatchStart_def Let_def d1_def [symmetric]
  show ?thesis
  proof (cases "g_RetainSources (d_git d1) (d_io d1) (map c_SHA ?cands)")
    case (Some e)
    then show ?thesis using c1 by (simp add: unf)
  next
    case retained: None
    obtain out d2 where s: "setup_trial d1 t ''pin trial chain: '' base ?tip ?tree ?cands runID = (out, d2)" by fastforce
    have cd2: "calm d d2" using calm_setup_trial [OF c1] s by (metis snd_conv)
    show ?thesis
    proof (cases out)
      case (Inl e)
      then show ?thesis using retained s cd2 by (simp add: unf split_beta)
    next
      case (Inr q)
      obtain spec dir ref where q: "q = (spec, dir, ref)" by (metis prod_cases3)
      let ?ms = "batch_members d2 t runID (length ls) 0 base ls"
      obtain r d3 where l: "launch d2 t (new_run t ?ms base ?tip ?tree False runID runID spec dir ref) = (r, d3)" by fastforce
      have out: "finishBatchStart d t base runID ls = d3" using retained s Inr q l by (simp add: unf)
      have ms: "?ms \<noteq> []" "m_mergeOID (last ?ms) = ?tip"
      proof -
        show ne: "?ms \<noteq> []" using assms batch_members_props(2) [of d2 t runID "length ls" 0 base ls] by (metis Nil_is_map_conv)
        have "m_mergeOID (last ?ms) = last (map m_mergeOID ?ms)" using ne by (simp add: last_map)
        then show "m_mergeOID (last ?ms) = ?tip" using assms by (simp add: batch_members_props(3) last_map)
      qed
      have "setup_trial d1 t ''pin trial chain: '' base ?tip ?tree (map m_cand ?ms) runID = (Inr (spec, dir, ref), d2)"
        using s Inr q by (simp add: batch_members_props(2))
      note a = launch_admitted [OF this ms l]
      show ?thesis unfolding out using calm_admits [OF c1 a(1)] a(2) unfolding batch_members_props(2) by blast
    qed
  qed
qed

lemma build_chain_prefix:
  "prefix (map (cl_cand \<circ> fst) (fst (build_chain t key bodies cs base specTree runID d))) cs"
proof (induction cs arbitrary: base specTree runID d)
  case (Cons c cs)
  have link: "cl_cand link = c" if "fst (buildChainLinkPrecomputed d (tg_Name t) base c runID bodies [key]) = LinkMade link trial" for link trial
    using that
    by (auto simp: buildChainLinkPrecomputed_def commit_link_def Let_def split_beta split: sum.splits if_splits bool.splits)
  show ?case using Cons.IH link by (auto simp: Let_def split_beta split: link_result.split bool.split)
qed simp

lemma startBatchRun_admits:
  "calm d (startBatchRun d t tip picked) \<or>
   (\<exists>r cands. admits t d (startBatchRun d t tip picked) [r] \<and> admitted (startBatchRun d t tip picked) t tip cands False r \<and> prefix cands picked)"
proof -
  define d1 where "d1 = d\<lparr>d_io := Suc (d_io d)\<rparr>"
  have c1: "calm d d1" by (simp add: d1_def)
  define b where "b = (if tg_Landing t \<noteq> ''squash'' then precomputeMergeBodies d1 tip picked else (None, d1))"
  have c2: "calm d (snd b)" using c1 by (simp add: b_def)
  define c where "c = build_chain t (cf_batchKey (d_cfg (snd b)) picked) (fst b) picked tip tip [] (snd b)"
  have c3: "calm d (snd (snd c))" using c2 by (simp add: c_def)
  have pre: "prefix (map (cl_cand \<circ> fst) (fst c)) picked" unfolding c_def by (rule build_chain_prefix)
  have eq: "startBatchRun d t tip picked = (case g_RetainSources (d_git d1) (d_io d1) (map c_SHA picked) of
      Some e \<Rightarrow> reject_all t OutcomeError (msg [''retain sources: '', e]) picked d1
    | None \<Rightarrow> if fst c = [] then snd (snd c) else finishBatchStart (snd (snd c)) t tip (fst (snd c)) (fst c))"
    unfolding startBatchRun_def Let_def d1_def [symmetric] b_def [symmetric] by (simp add: split_beta c_def split: option.split)
  show ?thesis
  proof (cases "g_RetainSources (d_git d1) (d_io d1) (map c_SHA picked)")
    case (Some e)
    then show ?thesis using c1 by (simp add: eq)
  next
    case None
    show ?thesis
    proof (cases "fst c = []")
      case True
      then show ?thesis using None c3 by (simp add: eq)
    next
      case False
      have "startBatchRun d t tip picked = finishBatchStart (snd (snd c)) t tip (fst (snd c)) (fst c)" using None False by (simp add: eq)
      then show ?thesis
        using finishBatchStart_admits [OF False, of "snd (snd c)" t tip "fst (snd c)"] pre calm_trans [OF c3] calm_admits [OF c3] by metis
    qed
  qed
qed

section \<open>Refilling\<close>

lemma picked_eligible:
  assumes "keyed cands" "c \<in> set (pickUpTo d target cands n inFlight)"
  shows "(c_Ref c, c) \<in> set cands" "pick_eligible d target inFlight (c_Ref c, c)"
proof -
  let ?refs = "pick_refs d target cands inFlight"
  define sel where "sel = pick_loop (length ?refs + 1) cands inFlight n ?refs []"
  have "sel_ok cands inFlight n ?refs sel \<and> sel_full cands inFlight n ?refs sel"
    unfolding sel_def by (rule pick_loop_ok) (use assms in \<open>auto simp: sel_ok_def distinct_pick_refs\<close>)
  then have "set sel \<subseteq> set ?refs" by (simp add: sel_ok_def)
  moreover have "pickUpTo d target cands n inFlight = map (mget candidate_zero cands) sel"
    by (simp only: pickUpTo_def sel_def Let_def)
  ultimately obtain ref where "ref \<in> set ?refs" "c = mget candidate_zero cands ref" using assms(2) by auto
  with pick_refs_keyed [OF assms(1) this(1)]
  show "(c_Ref c, c) \<in> set cands" "pick_eligible d target inFlight (c_Ref c, c)" by simp_all
qed

text \<open>What a run may be started with: candidates of the queue that are admissible, hold no emergency request, override the
  pause where there is one, and are not among the refs \<open>used\<close> already.\<close>

definition fresh_members :: "daemon \<Rightarrow> target_cfg \<Rightarrow> (string, candidate) gomap \<Rightarrow> string set \<Rightarrow> run \<Rightarrow> bool" where
  "fresh_members d t cands used r =
     (keyed cands \<longrightarrow> list_all (\<lambda>m. let c = m_cand m in (c_Ref c, c) \<in> set cands \<and> c_AdmissionBlocked c = [] \<and> \<not> c_SkipChecks c
        \<and> (mhas (pauses d) (tg_Name t) \<longrightarrow> c_OverridePause c) \<and> c_Ref c \<notin> used) (r_members r))"

lemma fresh_members_picked:
  assumes "map m_cand (r_members r) = cs" "set cs \<subseteq> set (pickUpTo d' (tg_Name t) cands n inFlight)"
    "pauses d' = pauses d" "\<And>ref. mget False inFlight ref \<longleftrightarrow> ref \<in> used"
  shows "fresh_members d t cands used r"
proof -
  have m: "m_cand m \<in> set (pickUpTo d' (tg_Name t) cands n inFlight)" if "m \<in> set (r_members r)" for m
    using that assms(1,2) by auto
  show ?thesis unfolding fresh_members_def Let_def list_all_iff
    using picked_eligible [OF _ m] assms(3,4) by (auto simp: pick_eligible_def)
qed

fun stacked :: "daemon \<Rightarrow> target_cfg \<Rightarrow> (string, candidate) gomap \<Rightarrow> string \<Rightarrow> bool \<Rightarrow> string set \<Rightarrow> run list \<Rightarrow> bool" where
  "stacked d t cands base predicted used [] = True"
| "stacked d t cands base predicted used (r # rs) =
     ((\<exists>d1 cs. d_cfg d1 = d_cfg d \<and> admitted d1 t base cs predicted r) \<and> fresh_members d t cands used r
      \<and> stacked d t cands (r_chainTip r) True (used \<union> (c_Ref \<circ> m_cand) ` set (r_members r)) rs)"

lemma stacked_cong: "d_cfg d' = d_cfg d \<Longrightarrow> pauses d' = pauses d \<Longrightarrow> stacked d' t cands base p used rs = stacked d t cands base p used rs"
  by (induction rs arbitrary: base p used) (simp_all add: fresh_members_def)

lemma adaptiveLimit_bounds: "1 \<le> fst (adaptiveLimit d t) \<and> fst (adaptiveLimit d t) \<le> schedulingCeiling t"
  using schedulingCeiling_pos [of t] governor_of_limit [of d t]
  by (auto simp: adaptiveLimit_def Let_def split_beta intro: min.coboundedI1 split: option.split)

lemma refillSerialOne_admits:
  "\<exists>news. admits t d (refillSerialOne d t tip cands) news \<and> stacked d t cands tip False {} news \<and> length news \<le> 1"
proof (cases "pickHead d (tg_Name t) cands")
  case None
  then show ?thesis using admits_calm [of d d t] by (auto simp: refillSerialOne_def intro!: exI [of _ "[]"])
next
  case (Some cand)
  have pick: "{cand} \<subseteq> set (pickUpTo d (tg_Name t) cands 1 [])"
    using Some by (auto simp: pickHead_def split: list.splits)
  define h where "h = recover_head d t cand tip"
  have ch: "calm d (snd h)" by (simp add: h_def)
  obtain res d' where s: "startRun (snd h) t tip cand False [] = (res, d')" by fastforce
  note a = startRun_admits [OF s]
  have eq: "refillSerialOne d t tip cands = (if fst h then snd h else d')"
    using Some s by (cases h) (auto simp: refillSerialOne_def h_def split: bool.split)
  show ?thesis
  proof (cases "fst h \<or> res = None")
    case True
    have "calm d (refillSerialOne d t tip cands)" using True a ch calm_trans [OF ch] by (auto simp: eq)
    then show ?thesis using admits_calm by (intro exI [of _ "[]"]) simp
  next
    case False
    then obtain r where r: "res = Some r" by auto
    have ad: "admits t (snd h) d' [r]" "admitted d' t tip [cand] False r" using a r by simp_all
    have "map m_cand (r_members r) = [cand]" using ad(2) by (simp add: admitted_def)
    then have "fresh_members d t cands {} r"
      by (rule fresh_members_picked [where d' = d and inFlight = "[]" and n = 1]) (use pick in \<open>auto simp: mget_def\<close>)
    moreover have "d_cfg d' = d_cfg d" using ad(1) ch by (simp add: admits_def calm_def)
    ultimately have "stacked d t cands tip False {} [r]" using ad(2) by auto
    then show ?thesis using calm_admits [OF ch ad(1)] False by (intro exI [of _ "[r]"]) (simp add: eq)
  qed
qed

lemma refillBatch_admits:
  "\<exists>news. admits t d (refillBatch d t tip cands) news \<and> stacked d t cands tip False {} news \<and> length news \<le> 1"
proof -
  define l where "l = adaptiveLimit d t"
  have cl: "calm d (snd l)" by (simp add: l_def)
  let ?pick = "pickUpTo (snd l) (tg_Name t) cands (batch_limit (snd l) t (fst l)) []"
  show ?thesis
  proof (cases ?pick)
    case Nil
    then have "refillBatch d t tip cands = snd l" by (simp add: refillBatch_def l_def [symmetric] split_beta)
    then show ?thesis using admits_calm [OF cl, of t] by (intro exI [of _ "[]"]) simp
  next
    case (Cons c cs)
    define h where "h = recover_head (snd l) t c tip"
    have ch: "calm d (snd h)" using cl by (simp add: h_def)
    have eq: "refillBatch d t tip cands = (if fst h then snd h else startBatchRun (snd h) t tip (c # cs))"
      using Cons by (cases h) (auto simp: refillBatch_def l_def [symmetric] h_def split_beta split: bool.split)
    from startBatchRun_admits [of "snd h" t tip "c # cs"] show ?thesis
    proof (elim disjE exE conjE)
      assume "calm (snd h) (startBatchRun (snd h) t tip (c # cs))"
      then have "calm d (refillBatch d t tip cands)" using ch calm_trans [OF ch] by (simp add: eq)
      then show ?thesis using admits_calm by (intro exI [of _ "[]"]) simp
    next
      fix r members
      let ?d' = "startBatchRun (snd h) t tip (c # cs)"
      assume r: "admits t (snd h) ?d' [r]" "admitted ?d' t tip members False r" "prefix members (c # cs)"
      have "map m_cand (r_members r) = members" using r(2) by (simp add: admitted_def)
      then have "fresh_members d t cands {} r"
        by (rule fresh_members_picked [where d' = "snd l" and inFlight = "[]" and n = "batch_limit (snd l) t (fst l)"])
          (use Cons set_mono_prefix [OF r(3)] cl in \<open>auto simp: mget_def calm_def\<close>)
      moreover have "d_cfg ?d' = d_cfg d" using r(1) ch by (simp add: admits_def calm_def)
      ultimately have st: "stacked d t cands tip False {} [r]" using r(2) by auto
      show ?thesis
      proof (cases "fst h")
        case True
        then show ?thesis using admits_calm [OF ch, of t] by (intro exI [of _ "[]"]) (simp add: eq)
      next
        case False
        then show ?thesis using calm_admits [OF ch r(1)] st by (intro exI [of _ "[r]"]) (simp add: eq)
      qed
    qed
  qed
qed

definition spec_detail :: "bool \<Rightarrow> candidate option \<Rightarrow> string" where
  "spec_detail predicted pred = (case pred of
      Some p \<Rightarrow> if predicted then msg [''conflicts with in-flight '', c_Topic p, ''@'', c_SHA p, '' (predicted base)''] else []
    | None \<Rightarrow> [])"

text \<open>One turn of the loop, split at what it decides.\<close>

lemma speculate_loop_step:
  fixes d :: daemon and t :: target_cfg
  defines "runs \<equiv> mget [] (d_lanes d) (tg_Name t)"
  obtains (stop) d' where "\<And>fuel. speculate_loop (Suc fuel) t tip cands window inFlight base pred d = d'" "calm d d'"
  | (start) cand r d' where "int (length runs) < window" "cand \<in> set (pickUpTo d (tg_Name t) cands 1 inFlight)"
      "admits t d d' [r]" "admitted d' t base [cand] (runs \<noteq> []) r"
      "\<And>fuel. speculate_loop (Suc fuel) t tip cands window inFlight base pred d
         = speculate_loop fuel t tip cands window (mput (c_Ref cand) True inFlight) (r_chainTip r) (Some cand) d'"
proof (cases "int (length runs) < window")
  case False
  then show ?thesis using stop [of d] by (simp add: runs_def)
next
  case room: True
  show ?thesis
  proof (cases "pickNext d (tg_Name t) cands inFlight")
    case None
    then show ?thesis using stop [of d] room by (simp add: runs_def Let_def)
  next
    case (Some cand)
    have pick: "cand \<in> set (pickUpTo d (tg_Name t) cands 1 inFlight)"
      using Some by (auto simp: pickNext_def split: list.splits)
    define h where "h = (if runs \<noteq> [] then (False, d) else recover_head d t cand tip)"
    have ch: "calm d (snd h)" by (simp add: h_def)
    obtain res d' where s: "startRun (snd h) t base cand (runs \<noteq> []) (spec_detail (runs \<noteq> []) pred) = (res, d')" by fastforce
    have eq: "speculate_loop (Suc fuel) t tip cands window inFlight base pred d =
        (if fst h then snd h else case res of None \<Rightarrow> d'
         | Some r \<Rightarrow> speculate_loop fuel t tip cands window (mput (c_Ref cand) True inFlight) (r_chainTip r) (Some cand) d')" for fuel
    proof -
      obtain b dh where hh: "h = (b, dh)" by fastforce
      have r: "runs = [] \<Longrightarrow> recover_head d t cand tip = (b, dh)" "runs \<noteq> [] \<Longrightarrow> \<not> b \<and> dh = d" using hh by (auto simp: h_def)
      have s': "startRun dh t base cand (runs \<noteq> []) (spec_detail (runs \<noteq> []) pred) = (res, d')" using s hh by simp
      show ?thesis
        using Some room s' [unfolded spec_detail_def] r unfolding speculate_loop.simps Let_def runs_def [symmetric] hh
        by (cases "runs = []") (simp_all split: bool.split option.split)
    qed
    note a = startRun_admits [OF s]
    show ?thesis
    proof (cases "fst h \<or> res = None")
      case True
      then have "calm d (if fst h then snd h else d')" using a ch calm_trans [OF ch] by auto
      then show ?thesis using stop [of "if fst h then snd h else d'"] True by (auto simp: eq simp del: speculate_loop.simps)
    next
      case False
      then obtain r where r: "res = Some r" by auto
      have "admits t (snd h) d' [r]" "admitted d' t base [cand] (runs \<noteq> []) r" using a r by simp_all
      then show ?thesis by (rule start [OF room pick calm_admits [OF ch]]) (use r False in \<open>simp add: eq del: speculate_loop.simps\<close>)
    qed
  qed
qed

lemma speculate_loop_admits:
  assumes "\<And>ref. mget False inFlight ref \<longleftrightarrow> ref \<in> used"
  shows "\<exists>news. admits t d (speculate_loop fuel t tip cands window inFlight base pred d) news
    \<and> stacked d t cands base (mget [] (d_lanes d) (tg_Name t) \<noteq> []) used news
    \<and> (news = [] \<or> int (length (mget [] (d_lanes d) (tg_Name t)) + length news) \<le> window)"
  using assms
proof (induction fuel arbitrary: inFlight used base pred d)
  case 0
  then show ?case using admits_calm [of d d t] by (intro exI [of _ "[]"]) simp
next
  case (Suc fuel)
  show ?case
  proof (cases rule: speculate_loop_step [where d = d and t = t and window = window and tip = tip and cands = cands and inFlight = inFlight and base = base and pred = pred])
    case (stop d')
    then show ?thesis using admits_calm [of d d' t] by (intro exI [of _ "[]"]) (simp del: speculate_loop.simps)
  next
    case (start cand r d')
    let ?lane = "mget [] (d_lanes d) (tg_Name t)"
    have lane: "mget [] (d_lanes d') (tg_Name t) = ?lane @ [r]" and cp: "d_cfg d' = d_cfg d" "pauses d' = pauses d"
      using start(3) by (simp_all add: admits_def)
    have ms: "map m_cand (r_members r) = [cand]" using start(4) by (simp add: admitted_def)
    then have refs: "(c_Ref \<circ> m_cand) ` set (r_members r) = {c_Ref cand}" by (auto simp: map_eq_Cons_conv)
    have fresh: "fresh_members d t cands used r"
      by (rule fresh_members_picked [OF ms, where d' = d and inFlight = inFlight and n = 1]) (use start(2) Suc.prems in auto)
    have used: "mget False (mput (c_Ref cand) True inFlight) ref \<longleftrightarrow> ref \<in> insert (c_Ref cand) used" for ref
      using Suc.prems by simp
    obtain news where n: "admits t d' (speculate_loop fuel t tip cands window (mput (c_Ref cand) True inFlight) (r_chainTip r) (Some cand) d') news"
      "stacked d' t cands (r_chainTip r) True (insert (c_Ref cand) used) news"
      "news = [] \<or> int (length (mget [] (d_lanes d') (tg_Name t)) + length news) \<le> window"
      using Suc.IH [OF used, where d = d' and base = "r_chainTip r" and pred = "Some cand"] lane by auto
    have "stacked d t cands base (?lane \<noteq> []) used (r # news)"
      using start(4) fresh n(2) cp refs by (auto simp: stacked_cong [OF cp])
    moreover have "int (length ?lane + length (r # news)) \<le> window" using n(3) start(1) lane by auto
    ultimately show ?thesis using admits_trans [OF start(3) n(1)] start(5) by (intro exI [of _ "r # news"]) (simp del: speculate_loop.simps)
  qed
qed

text \<open>The fuel is enough: any more of it changes nothing.\<close>

lemma speculate_loop_fuel:
  "window \<le> int (length (mget [] (d_lanes d) (tg_Name t)) + fuel) \<Longrightarrow>
   speculate_loop (fuel + k) t tip cands window inFlight base pred d = speculate_loop fuel t tip cands window inFlight base pred d"
proof (induction fuel arbitrary: inFlight base pred d)
  case 0
  then show ?case by (cases k) simp_all
next
  case (Suc fuel)
  show ?case
  proof (cases rule: speculate_loop_step [where d = d and t = t and window = window and tip = tip and cands = cands and inFlight = inFlight and base = base and pred = pred])
    case (stop d')
    then show ?thesis by (simp del: speculate_loop.simps)
  next
    case (start cand r d')
    have "window \<le> int (length (mget [] (d_lanes d') (tg_Name t)) + fuel)" using start(3) Suc.prems by (simp add: admits_def)
    then show ?thesis using Suc.IH start(5) by (simp del: speculate_loop.simps)
  qed
qed

lemma inFlight_heads:
  "mget False (fold (\<lambda>r m. mput (c_Ref (head_cand r)) True m) rs m) ref \<longleftrightarrow> mget False m ref \<or> ref \<in> (c_Ref \<circ> head_cand) ` set rs"
  by (induction rs arbitrary: m) auto

text \<open>What refilling may add to a lane that holds \<open>runs\<close>.\<close>

definition refilled :: "daemon \<Rightarrow> target_cfg \<Rightarrow> string \<Rightarrow> (string, candidate) gomap \<Rightarrow> daemon \<Rightarrow> run list \<Rightarrow> bool" where
  "refilled d t tip cands d' news =
     (let runs = mget [] (d_lanes d) (tg_Name t) in
      admits t d d' news
      \<and> stacked d t cands (if runs = [] then tip else r_chainTip (last runs)) (runs \<noteq> []) ((c_Ref \<circ> head_cand) ` set runs) news
      \<and> (news \<noteq> [] \<longrightarrow> int (length runs + length news) \<le> schedulingCeiling t))"

lemma refilled_none: "calm d d' \<Longrightarrow> refilled d t tip cands d' []"
  by (simp add: refilled_def Let_def admits_calm)

lemma refilled_one:
  assumes "mget [] (d_lanes d) (tg_Name t) = []"
    and "\<exists>news. admits t d d' news \<and> stacked d t cands tip False {} news \<and> length news \<le> 1"
  shows "\<exists>news. refilled d t tip cands d' news \<and> length news \<le> 1"
proof -
  obtain news where n: "admits t d d' news" "stacked d t cands tip False {} news" "length news \<le> 1" using assms(2) by blast
  have "int (length news) \<le> schedulingCeiling t" using n(3) schedulingCeiling_pos [of t] by linarith
  then show ?thesis using n assms(1) by (intro exI [of _ news]) (simp add: refilled_def Let_def)
qed

lemma refillSpeculate_refills:
  assumes "\<not> ct_Uncertain (d_controls d)" "\<not> circuitBlocked d (tg_Name t)"
  shows "\<exists>news. refilled d t tip cands (refillSpeculate d t tip cands) news"
proof -
  define runs where "runs = mget [] (d_lanes d) (tg_Name t)"
  let ?probing = "ci_Backoff (mget circuit_zero (ct_Circuits (d_controls d)) (tg_Name t)) > 0"
  let ?base = "if runs = [] then tip else r_chainTip (last runs)"
  define l where "l = adaptiveLimit d t"
  have cl: "calm d (snd l)" and b: "fst l \<le> schedulingCeiling t" using adaptiveLimit_bounds by (simp_all add: l_def)
  define inFlight where "inFlight = fold (\<lambda>r m. mput (c_Ref (head_cand r)) True m) runs []"
  define pred where "pred = (if runs = [] then None else Some (head_cand (last runs)))"
  have used: "mget False inFlight ref \<longleftrightarrow> ref \<in> (c_Ref \<circ> head_cand) ` set runs" for ref
    using inFlight_heads [of runs "[]" ref] by (simp add: inFlight_def mget_def)
  have eq: "refillSpeculate d t tip cands =
      (if ?probing then (if runs \<noteq> [] then d else refillSerialOne d t tip cands)
       else if fst l \<le> int (length runs) then snd l
       else speculate_loop (nat (fst l - int (length runs))) t tip cands (fst l) inFlight ?base pred (snd l))"
    using assms
    by (simp add: refillSpeculate_def runs_def [symmetric] l_def [symmetric] inFlight_def pred_def Let_def split_beta)
  consider "?probing" "runs = []" | "?probing \<and> runs \<noteq> [] \<or> \<not> ?probing \<and> fst l \<le> int (length runs)"
    | "\<not> ?probing" "int (length runs) < fst l" by linarith
  then show ?thesis
  proof cases
    case 1
    then show ?thesis using refilled_one [OF _ refillSerialOne_admits, of d t] by (auto simp: eq runs_def)
  next
    case 2
    then have "calm d (refillSpeculate d t tip cands)" using cl by (auto simp: eq)
    then show ?thesis using refilled_none by blast
  next
    case 3
    obtain news where n: "admits t (snd l) (refillSpeculate d t tip cands) news"
      "stacked (snd l) t cands ?base (runs \<noteq> []) ((c_Ref \<circ> head_cand) ` set runs) news"
      "news = [] \<or> int (length runs + length news) \<le> fst l"
      using speculate_loop_admits [OF used, where d = "snd l" and window = "fst l" and base = ?base and pred = pred and tip = tip and t = t
          and fuel = "nat (fst l - int (length runs))"] 3 cl by (auto simp: eq calm_def runs_def)
    have cp: "d_cfg (snd l) = d_cfg d" "pauses (snd l) = pauses d" using cl by (simp_all add: calm_def)
    show ?thesis using calm_admits [OF cl n(1)] n(2,3) b
      by (intro exI [of _ news]) (auto simp: refilled_def runs_def [symmetric] Let_def stacked_cong [OF cp])
  qed
qed

lemma refillLane_refills:
  fixes d :: daemon and t :: target_cfg and tip :: string and cands :: "(string, candidate) gomap"
  defines "runs \<equiv> mget [] (d_lanes d) (tg_Name t)"
  shows "\<exists>news. refilled d t tip cands (refillLane d t tip cands) news
    \<and> (news \<noteq> [] \<longrightarrow> \<not> d_draining d \<and> \<not> ct_Uncertain (d_controls d) \<and> \<not> circuitBlocked d (tg_Name t)
         \<and> (tg_Mode t \<noteq> ''speculate'' \<longrightarrow> runs = [] \<and> length news = 1))"
proof -
  let ?closed = "d_draining d \<or> ct_Uncertain (d_controls d) \<or> circuitBlocked d (tg_Name t)"
  consider (closed) "?closed \<or> runs \<noteq> [] \<and> tg_Mode t \<noteq> ''speculate''" | (spec) "\<not> ?closed" "tg_Mode t = ''speculate''"
    | (single) "\<not> ?closed" "tg_Mode t \<noteq> ''speculate''" "runs = []" by blast
  then show ?thesis
  proof cases
    case closed
    then have "refillLane d t tip cands = d" by (auto simp: refillLane_def refillSpeculate_def runs_def)
    then show ?thesis using refilled_none [of d d t tip cands] by (intro exI [of _ "[]"]) simp
  next
    case spec
    then show ?thesis using refillSpeculate_refills [of d t tip] by (auto simp: refillLane_def)
  next
    case single
    have lane: "mget [] (d_lanes d) (tg_Name t) = []" using single(3) by (simp add: runs_def)
    have "\<exists>news. refilled d t tip cands (refillLane d t tip cands) news \<and> length news \<le> 1"
      using refilled_one [OF lane refillSerialOne_admits] refilled_one [OF lane refillBatch_admits] single lane
      by (simp add: refillLane_def)
    then obtain news where "refilled d t tip cands (refillLane d t tip cands) news" "length news \<le> 1" by blast
    then show ?thesis using single by (intro exI [of _ news]) (auto simp: le_Suc_eq)
  qed
qed

text \<open>
  C7: admission keeps its promises in every mode.  Refilling a lane appends a (possibly empty) list of new
  runs to it, leaves every other lane alone and moves no branch forward.  The first new run is built on the
  target tip, or on the last run's tip when the lane is not empty, and each further one on the tip of its
  predecessor; each has the check graph of a validated spec that passed the capability gates and the execution policy,
  a pinned tip, and (\<open>keyed\<close>: the candidates are a map under their refs) only queued candidates that are admissible, override a pause where there is one and are not in flight.  Nothing
  is admitted while draining, while the control state is uncertain or while the circuit is open; a serial or
  batch lane takes one run, when it is empty; and a window never exceeds its ceiling.
\<close>

theorem refillLane_admits:
  fixes d :: daemon and t :: target_cfg and tip :: string and cands :: "(string, candidate) gomap"
  defines "runs \<equiv> mget [] (d_lanes d) (tg_Name t)"
  shows "\<exists>news. refilled d t tip cands (refillLane d t tip cands) news
    \<and> (news \<noteq> [] \<longrightarrow> \<not> d_draining d \<and> \<not> ct_Uncertain (d_controls d) \<and> \<not> circuitBlocked d (tg_Name t)
         \<and> (tg_Mode t \<noteq> ''speculate'' \<longrightarrow> runs = [] \<and> length news = 1))"
  unfolding runs_def by (rule refillLane_refills)

section \<open>Predicted bases\<close>

lemma done_recallPrepared [simp]: "d_done (snd (recallPrepared d key tree)) = d_done d"
  by (simp add: recallPrepared_def Let_def split: sum.split bool.split)

lemma done_rememberPrepared [simp]: "d_done (snd (rememberPrepared d key entry)) = d_done d"
  by (simp add: rememberPrepared_def set_last_error_def Let_def split: option.split sum.split)

lemma done_on_clean [simp]: "d_done (snd (on_clean d target cand runID restored trial)) = d_done d"
  by (simp add: on_clean_def Let_def split_beta)

lemma done_merge_body [simp]: "d_done (snd (merge_body d lin cand base pre)) = d_done d"
  by (simp add: merge_body_def split: option.split)

lemma done_linear_message [simp]: "d_done (snd (linear_message d cand runID txt)) = d_done d"
  by (simp add: linear_message_def Let_def split: option.split sum.split)

lemma done_make_commit [simp]: "d_done (snd (make_commit d lin base cand runID trial txt)) = d_done d"
  by (simp add: make_commit_def Let_def split_beta split: option.split sum.split)

lemma done_commit_link [simp]: "d_done (snd (commit_link d lin target base cand key runID pre trial)) = d_done d"
  by (simp add: commit_link_def Let_def split_beta split: sum.split bool.split)

lemma done_buildChainLink [simp]: "d_done (snd (snd (buildChainLinkPrecomputed d target base cand runID pre grp))) = d_done d"
  by (simp add: buildChainLinkPrecomputed_def trial_tree_def Let_def split_beta split: sum.split option.split)

lemma done_skipPreMergePredicted [simp]: "d_done (skipPreMergePredicted d t cand detail) = d_done d"
  by (simp add: skipPreMergePredicted_def Let_def split_beta)

definition parked_as :: "daemon \<Rightarrow> target_cfg \<Rightarrow> candidate \<Rightarrow> outcome \<Rightarrow> bool" where
  "parked_as d t cand outcome =
     (case map_of (mget [] (d_done d) (tg_Name t)) (c_Ref cand) of
        None \<Rightarrow> False | Some e \<Rightarrow> pk_SHA e = c_SHA cand \<and> pk_Outcome e = outcome)"

lemma maybeAutoRetry_other: "outcome \<noteq> OutcomeError \<Longrightarrow> maybeAutoRetry d target cand outcome = d"
  by (simp add: maybeAutoRetry_def)

lemma rejectPreMerge_parked: "outcome \<noteq> OutcomeError \<Longrightarrow> parked_as (rejectPreMerge d t cand outcome detail) t cand outcome"
  by (simp add: rejectPreMerge_def maybeAutoRetry_other parked_as_def Let_def split_beta)

lemma rejectRun_parked: "outcome \<noteq> OutcomeError \<Longrightarrow> parked_as (rejectRun d t cand runID base oid trial outcome detail) t cand outcome"
  by (simp add: rejectRun_def maybeAutoRetry_other parked_as_def Let_def)

text \<open>
  a conflict parks a candidate only against the real target.  When the trial merge of a run conflicts,
  no run starts; on the actual target tip the candidate is parked as a conflict at its revision, and on a
  predicted base no park changes and the candidate's one terminal event is a skip, so that it queues again.
\<close>

theorem startRun_conflict:
  assumes "g_RetainSources (d_git d) (Suc (d_io d)) [c_SHA cand] = None"
    and "buildChainLink (d\<lparr>d_io := Suc (d_io d)\<rparr>) (tg_Name t) base cand = (LinkDirty trial, runID, d1)"
    and "startRun d t base cand predicted conflict = (res, d')"
  shows "res = None \<and> d_lanes d' = d_lanes d
    \<and> (if predicted then d_done d' = d_done d \<and> (\<exists>ev. d_events d' = d_events d1 @ [ev] \<and> ev_Kind ev = EventSkipped \<and> ev_Candidate ev = cand)
       else parked_as d' t cand OutcomeConflict)"
proof -
  have "d1 = snd (snd (buildChainLinkPrecomputed (d\<lparr>d_io := Suc (d_io d)\<rparr>) (tg_Name t) base cand [] None []))"
    using assms(2) by (simp add: buildChainLink_def)
  then have d1: "d_done d1 = d_done d" "calm d d1" by simp_all
  obtain detail detail' where d': "res = None"
    "d' = (if predicted then skipPreMergePredicted d1 t cand detail' else rejectPreMerge d1 t cand OutcomeConflict detail)"
    using assms unfolding startRun_def Let_def by auto
  have skip: "\<exists>ev. d_events (skipPreMergePredicted d1 t cand detail') = d_events d1 @ [ev] \<and> ev_Kind ev = EventSkipped \<and> ev_Candidate ev = cand"
    by (simp add: skipPreMergePredicted_def terminal_event_def newRunID_def Let_def)
  have "calm d d'" using d1(2) unfolding d'(2) by simp
  then show ?thesis using d' skip d1(1) rejectPreMerge_parked [of OutcomeConflict d1 t cand detail] by (simp add: calm_def)
qed

text \<open>
  C23: every rejection of a prepared trial parks its candidate, on a predicted base too.  When the tree of a
  clean trial fails a gate (an unreadable or invalid check spec, a capability gate, the execution policy), no run
  starts and the candidate is parked as rejected at its revision, whether its base was the actual target tip or the
  unpublished tip of a run ahead of it.
\<close>

theorem startRun_rejection_parks:
  assumes "g_RetainSources (d_git d) (Suc (d_io d)) [c_SHA cand] = None"
    and "buildChainLink (d\<lparr>d_io := Suc (d_io d)\<rparr>) (tg_Name t) base cand = (LinkMade link trial, runID, d1)"
    and "setup_trial d1 t ''pin trial merge: '' base (cl_mergeOID link) (tm_TreeOID trial) [cand] runID = (Inl (OutcomeRejected, detail), d2)"
    and "startRun d t base cand predicted conflict = (res, d')"
  shows "res = None \<and> d_lanes d' = d_lanes d \<and> parked_as d' t cand OutcomeRejected"
proof -
  have d': "res = None" "d' = rejectRun d2 t cand runID base (cl_mergeOID link) trial OutcomeRejected detail"
    using assms unfolding startRun_def Let_def by auto
  have "case res of None \<Rightarrow> calm d d' | Some r \<Rightarrow> admits t d d' [r] \<and> admitted d' t base [cand] predicted r"
    by (rule startRun_admits [OF assms(4)])
  then have "calm d d'" using d'(1) by simp
  then show ?thesis using d' rejectRun_parked [of OutcomeRejected d2 t cand] by (simp add: calm_def)
qed

section \<open>Instances\<close>

text \<open>Code equations that compare with the large bounds of the code as binary integers, so that the instances below evaluate.\<close>

lemma trim_controls_code [code]:
  "trim_controls sz next =
     (if int (sz next) \<le> 3145728 then (next, True)
      else case ct_Audit next of
          _ # audit \<Rightarrow> trim_controls sz (next\<lparr>ct_Audit := audit\<rparr>)
        | [] \<Rightarrow> (case ct_PolicyAudit next of
              _ # audit \<Rightarrow> trim_controls sz (next\<lparr>ct_PolicyAudit := audit\<rparr>)
            | [] \<Rightarrow> (next, False)))"
  by (subst trim_controls.simps) (simp add: storageLimit_def)

lemma length_500: "(500 < length xs) = ((500::int) < int (length xs))"
  by simp

lemmas saveControls_code [code] = saveControls_def [unfolded length_500]

lemmas recordPolicyDecision_code [code] = recordPolicyDecision_def [unfolded length_500]

lemma newRunID_code [code]:
  "newRunID d t oid =
     (let oid = (if length oid > 12 then take 12 oid else oid);
          s = nat ((int (d_runIDCounter d) + 1) mod 18446744073709551616) in
      (msg [cf_formatRunIDTime (d_cfg d) t, ''-'', show_nat s, ''-'', oid], d\<lparr>d_runIDCounter := s\<rparr>))"
proof -
  have "(n + 1) mod 2 ^ 64 = nat ((int n + 1) mod 18446744073709551616)" for n
    by (simp add: nat_mod_distrib nat_add_distrib)
  then show ?thesis by (simp add: newRunID_def Let_def)
qed

definition one_check_daemon :: daemon where
  "one_check_daemon = sample_daemon\<lparr>d_cfg := sample_config\<lparr>cf_kdlUnmarshal := (\<lambda>_. Inr (sample_spec [sample_check ''b'' []]))\<rparr>\<rparr>"

theorem refillLane_admits_witness:
  "keyed sample_cands \<and> (\<exists>r. mget [] (d_lanes (refillLane one_check_daemon sample_target ''base'' sample_cands)) ''main'' = [r]
     \<and> lane_run r \<and> r_baseOID r = ''base'' \<and> fresh_members one_check_daemon sample_target sample_cands {} r)"
proof -
  have k: "keyed sample_cands" by code_simp
  have lane: "mget [] (d_lanes one_check_daemon) (tg_Name sample_target) = []" and name: "tg_Name sample_target = ''main''" by code_simp+
  have one: "length (mget [] (d_lanes (refillLane one_check_daemon sample_target ''base'' sample_cands)) ''main'') = 1" by code_simp
  obtain news where n: "admits sample_target one_check_daemon (refillLane one_check_daemon sample_target ''base'' sample_cands) news"
    "stacked one_check_daemon sample_target sample_cands ''base'' False {} news"
    using refillLane_admits [where d = one_check_daemon and t = sample_target and tip = "''base''" and cands = sample_cands]
    by (auto simp: refilled_def lane Let_def)
  then have eq: "mget [] (d_lanes (refillLane one_check_daemon sample_target ''base'' sample_cands)) ''main'' = news"
    using lane name by (simp add: admits_def)
  then obtain r where r: "news = [r]" using one by (cases news) auto
  show ?thesis using n(2) k unfolding eq r by (intro conjI exI [of _ r]) (auto simp: admitted_def)
qed

definition conflict_daemon :: daemon where
  "conflict_daemon = sample_daemon\<lparr>d_git := sample_git\<lparr>g_MergeTree := (\<lambda>_ _ _. Inr \<lparr>tm_Clean = False, tm_TreeOID = [], tm_Conflicts = [''f'']\<rparr>)\<rparr>\<rparr>"

theorem startRun_conflict_witness:
  "d_done (snd (startRun conflict_daemon sample_target ''tip'' (sample_candidate ''a'' ''s1'') True [])) = d_done conflict_daemon
   \<and> parked_as (snd (startRun conflict_daemon sample_target ''base'' (sample_candidate ''a'' ''s1'') False [])) sample_target
       (sample_candidate ''a'' ''s1'') OutcomeConflict"
proof -
  let ?c = "sample_candidate ''a'' ''s1''" and ?trial = "\<lparr>tm_Clean = False, tm_TreeOID = [], tm_Conflicts = [''f'']\<rparr>"
  have 1: "g_RetainSources (d_git conflict_daemon) (Suc (d_io conflict_daemon)) [c_SHA ?c] = None" by code_simp
  have 2: "buildChainLink (conflict_daemon\<lparr>d_io := Suc (d_io conflict_daemon)\<rparr>) (tg_Name sample_target) base ?c =
     (LinkDirty ?trial, [], conflict_daemon\<lparr>d_io := 2\<rparr>)" for base
    by (simp add: buildChainLink_def buildChainLinkPrecomputed_def trial_tree_def conflict_daemon_def sample_git_def linearTarget_def
        sample_daemon_def sample_config_def sample_target_def target_zero_def Let_def)
  from startRun_conflict [OF 1 2 [of "''tip''"] prod.collapse [symmetric], where predicted = True and conflict = "[]"]
    startRun_conflict [OF 1 2 [of "''base''"] prod.collapse [symmetric], where predicted = False and conflict = "[]"]
  show ?thesis by simp
qed

definition no_spec_daemon :: daemon where
  "no_spec_daemon = sample_daemon\<lparr>d_git := sample_git\<lparr>g_ReadFileFromTree := (\<lambda>_ _ _. Inl ''missing'')\<rparr>\<rparr>"

theorem startRun_rejection_parks_witness:
  "parked_as (snd (startRun no_spec_daemon sample_target ''predicted-tip'' (sample_candidate ''a'' ''s1'') True [])) sample_target
     (sample_candidate ''a'' ''s1'') OutcomeRejected"
proof -
  let ?c = "sample_candidate ''a'' ''s1''" and ?d = "no_spec_daemon\<lparr>d_io := Suc (d_io no_spec_daemon)\<rparr>"
  let ?b = "buildChainLink ?d (tg_Name sample_target) ''predicted-tip'' ?c"
  have 1: "g_RetainSources (d_git no_spec_daemon) (Suc (d_io no_spec_daemon)) [c_SHA ?c] = None" by code_simp
  have "case fst ?b of LinkMade link trial \<Rightarrow> True | _ \<Rightarrow> False" by code_simp
  then obtain link trial runID d1 where 2: "?b = (LinkMade link trial, runID, d1)" by (cases ?b) (auto split: link_result.splits)
  have git: "d_git d1 = d_git no_spec_daemon"
  proof -
    have "calm ?d (snd (snd ?b))" by (simp add: buildChainLink_def)
    then show ?thesis using 2 by (simp add: calm_def)
  qed
  have "\<exists>detail d2. setup_trial d1 sample_target ''pin trial merge: '' ''predicted-tip'' (cl_mergeOID link) (tm_TreeOID trial) [?c] runID
     = (Inl (OutcomeRejected, detail), d2)"
    by (simp add: setup_trial_def pin_def load_spec_def git no_spec_daemon_def sample_git_def Let_def)
  then obtain detail d2 where 3: "setup_trial d1 sample_target ''pin trial merge: '' ''predicted-tip'' (cl_mergeOID link) (tm_TreeOID trial) [?c] runID
     = (Inl (OutcomeRejected, detail), d2)" by blast
  show ?thesis using startRun_rejection_parks [OF 1 2 3 prod.collapse [symmetric], of True "[]"] by simp
qed

end
