(* ===== verification/Queue_Snapshot.thy ===== *)
theory Queue_Snapshot
  imports Queue_Admission
begin

text \<open>
  The published view of the queue (\<^verbatim>\<open>internal/queue/snapshot.go\<close>): what the dashboard, the history sampler and
  the schedule planner read instead of the live state.
\<close>

section \<open>Data\<close>

record current_check =
  cc_Name :: string
  cc_StartedAt :: go_time

record run_snapshot =
  rsn_Candidate :: candidate
  rsn_Members :: "candidate list"
  rsn_RunID :: string
  rsn_BaseOID :: string
  rsn_ChainTip :: string
  rsn_MergeSHA :: string
  rsn_Predicted :: bool
  rsn_BatchID :: string
  rsn_Done :: "check_result list"
  rsn_Current :: "current_check option"
  rsn_Running :: "current_check list"
  rsn_StartedAt :: go_time

record waiting_entry =
  we_Urgent :: bool
  we_Priority :: string
  we_Candidate :: candidate
  we_Seq :: int

record parked_entry =
  pd_Candidate :: candidate
  pd_Outcome :: outcome
  pd_Reason :: string
  pd_At :: go_time
  pd_RunID :: string

record target_snapshot =
  ts_Scheduling :: "scheduling option"
  ts_Circuit :: "circuit option"
  ts_Pause :: "pause option"
  ts_ControlError :: string
  ts_EmergencyEnabled :: bool
  ts_Name :: string
  ts_Branch :: string
  ts_TargetTip :: string
  ts_InFlight :: "run_snapshot option"
  ts_Pipeline :: "run_snapshot list"
  ts_Waiting :: "waiting_entry list"
  ts_Parked :: "parked_entry list"

record snapshot =
  sn_At :: go_time
  sn_Targets :: "target_snapshot list"
  sn_Policy :: "policy_audit list"
  sn_IdleSince :: go_time
  sn_Lifecycle :: lifecycle_phase
  sn_DrainSince :: go_time
  sn_DrainDeadline :: go_time
  sn_ActiveRuns :: nat
  sn_ActiveChecks :: nat

section \<open>Building a snapshot\<close>

definition done_checks :: "run \<Rightarrow> check_result list" where
  "done_checks r = concat (map (\<lambda>c. case map_of (r_results r) (ck_Name c) of None \<Rightarrow> [] | Some res \<Rightarrow> [res]) (r_checks r))"

definition running_checks :: "run \<Rightarrow> current_check list" where
  "running_checks r =
     concat (map (\<lambda>c. case map_of (r_inflight r) (ck_Name c) of
                         None \<Rightarrow> [] | Some f \<Rightarrow> [\<lparr>cc_Name = cif_name f, cc_StartedAt = cif_start f\<rparr>]) (r_checks r))"

definition buildRunSnapshot :: "run \<Rightarrow> run_snapshot" where
  "buildRunSnapshot r =
     (let running = running_checks r in
      \<lparr>rsn_Candidate = head_cand r, rsn_Members = map m_cand (r_members r), rsn_RunID = r_runID r,
       rsn_BaseOID = r_baseOID r, rsn_ChainTip = r_chainTip r, rsn_MergeSHA = r_chainTip r,
       rsn_Predicted = r_predicted r, rsn_BatchID = r_batchID r, rsn_Done = done_checks r,
       rsn_Current = (case running of [] \<Rightarrow> None | c # _ \<Rightarrow> Some c), rsn_Running = running,
       rsn_StartedAt = rr_StartedAt (m_rec (hd (r_members r)))\<rparr>)"

definition target_cands :: "daemon \<Rightarrow> string \<Rightarrow> (string, string) gomap \<Rightarrow> (string, candidate) gomap" where
  "target_cands d target refs =
     fold (\<lambda>(ref, c) m. if c_Target c = target then mput ref c m else m) (d_external d) (discoverCandidates target refs)"

text \<open>The array index of a rank; that it is in range is \<open>priority_range\<close> below.\<close>

definition class_of :: "int \<Rightarrow> string" where
  "class_of rank = [''low'', ''normal'', ''high'', ''urgent''] ! nat rank"

definition own_class :: "daemon \<Rightarrow> candidate \<Rightarrow> candidate" where
  "own_class d c = c\<lparr>c_Priority := class_of (ownPriority d c (d_now d))\<rparr>"

definition current_priority :: "(string, candidate) gomap \<Rightarrow> candidate \<Rightarrow> candidate" where
  "current_priority cands c =
     (case map_of cands (c_Ref c) of None \<Rightarrow> c | Some current \<Rightarrow> c\<lparr>c_Priority := c_Priority current\<rparr>)"

definition run_view :: "(string, candidate) gomap \<Rightarrow> run \<Rightarrow> run_snapshot" where
  "run_view cands r =
     (let view = buildRunSnapshot r in
      view\<lparr>rsn_Members := map (current_priority cands) (rsn_Members view),
           rsn_Candidate := current_priority cands (rsn_Candidate view)\<rparr>)"

definition snapshot_before :: "(string \<Rightarrow> int) \<Rightarrow> (string \<Rightarrow> int) \<Rightarrow> string \<Rightarrow> string \<Rightarrow> bool" where
  "snapshot_before rank order a b =
     (if rank a \<noteq> rank b then rank b < rank a
      else if order a \<noteq> order b then order a < order b
      else a < b)"

definition waiting_refs ::
  "daemon \<Rightarrow> string \<Rightarrow> (string, candidate) gomap \<Rightarrow> (string \<Rightarrow> int) \<Rightarrow> string set \<Rightarrow> string list" where
  "waiting_refs d target cands rank inFlight =
     sort_by (snapshot_before rank (mget 0 (mget [] (d_order d) target)))
       (filter (\<lambda>ref. ref \<notin> inFlight \<and> \<not> mhas (mget [] (d_done d) target) ref) (map fst cands))"

definition parked_refs :: "daemon \<Rightarrow> string \<Rightarrow> (string, candidate) gomap \<Rightarrow> string list" where
  "parked_refs d target cands =
     sort_by (<) (map fst (filter (\<lambda>(ref, entry). pk_Version entry = [] \<or> mhas cands ref) (mget [] (d_done d) target)))"

definition parked_view :: "daemon \<Rightarrow> string \<Rightarrow> (string, candidate) gomap \<Rightarrow> string \<Rightarrow> parked_entry list" where
  "parked_view d target cands ref =
     (case map_of (mget [] (d_done d) target) ref of
        None \<Rightarrow> []
      | Some entry \<Rightarrow>
          [\<lparr>pd_Candidate = (case map_of cands ref of
                Some c \<Rightarrow> c
              | None \<Rightarrow> candidate_zero\<lparr>c_Ref := ref, c_Target := target, c_SHA := pk_SHA entry\<rparr>),
            pd_Outcome = pk_Outcome entry, pd_Reason = pk_Reason entry, pd_At = pk_At entry, pd_RunID = pk_RunID entry\<rparr>])"

definition buildTargetSnapshot :: "daemon \<Rightarrow> target_cfg \<Rightarrow> (string, string) gomap \<Rightarrow> target_snapshot" where
  "buildTargetSnapshot d t refs =
     (let raw = target_cands d (tg_Name t) refs;
          rank = (\<lambda>ref. priorityAt d ref raw (d_now d));
          cands = map (\<lambda>(ref, c). (ref, own_class d c)) raw;
          pipeline = map (run_view cands) (mget [] (d_lanes d) (tg_Name t));
          inFlight = c_Ref ` set (concat (map rsn_Members pipeline));
          order = mget [] (d_order d) (tg_Name t) in
      \<lparr>ts_Scheduling = schedulingSnapshot d t,
       ts_Circuit = (case map_of (ct_Circuits (d_controls d)) (tg_Name t) of
                       None \<Rightarrow> None | Some c \<Rightarrow> if ci_Backoff c > 0 then Some c else None),
       ts_Pause = map_of (ct_Pauses (d_controls d)) (tg_Name t),
       ts_ControlError = ct_LastError (d_controls d), ts_EmergencyEnabled = cf_AllowEmergency (d_cfg d),
       ts_Name = tg_Name t, ts_Branch = tg_Branch t, ts_TargetTip = mget [] refs (targetRefName t),
       ts_InFlight = (case pipeline of [] \<Rightarrow> None | r # _ \<Rightarrow> Some r),
       ts_Pipeline = pipeline,
       ts_Waiting = map (\<lambda>ref. \<lparr>we_Urgent = (rank ref = 3), we_Priority = class_of (rank ref),
                          we_Candidate = mget candidate_zero cands ref, we_Seq = mget 0 order ref\<rparr>)
                      (waiting_refs d (tg_Name t) cands rank inFlight),
       ts_Parked = concat (map (parked_view d (tg_Name t) cands) (parked_refs d (tg_Name t) cands))\<rparr>)"

definition queueIdle :: "target_snapshot list \<Rightarrow> bool" where
  "queueIdle targets = list_all (\<lambda>ts. ts_Waiting ts = [] \<and> ts_Pipeline ts = []) targets"

definition buildSnapshot :: "daemon \<Rightarrow> (string, string) gomap \<Rightarrow> snapshot \<times> daemon" where
  "buildSnapshot d refs =
     (let targets = map (\<lambda>t. buildTargetSnapshot d t refs) (cf_Targets (d_cfg d));
          d = d\<lparr>d_idleSince := (if queueIdle targets then (if d_idleSince d = 0 then d_now d else d_idleSince d) else 0)\<rparr> in
      (\<lparr>sn_At = d_now d, sn_Targets = targets, sn_Policy = ct_PolicyAudit (clone (d_controls d)),
        sn_IdleSince = d_idleSince d, sn_Lifecycle = lifecycle d, sn_DrainSince = d_drainSince d,
        sn_DrainDeadline = d_drainDeadline d, sn_ActiveRuns = activeRuns d, sn_ActiveChecks = activeChecks d\<rparr>, d))"

section \<open>Ranks are classes\<close>

lemma PriorityRank_range: "0 \<le> fst (PriorityRank class) \<and> fst (PriorityRank class) \<le> 3"
  by (simp add: PriorityRank_def)

lemma ownPriority_range: "0 \<le> ownPriority d c now \<and> ownPriority d c now \<le> 3"
  using ownPriority_nonneg [of d c now] PriorityRank_range
  by (auto simp: ownPriority_def Let_def split: option.split)

lemma rank_at_range:
  assumes "\<And>c. 0 \<le> own c \<and> own c \<le> (3::int)"
  shows "0 \<le> fst (rank_at fuel own cands ref seen) \<and> fst (rank_at fuel own cands ref seen) \<le> 3"
    and "0 \<le> v \<and> v \<le> 3 \<Longrightarrow> 0 \<le> fst (rank_children fuel own cands ref rest v seen)
      \<and> fst (rank_children fuel own cands ref rest v seen) \<le> 3"
  using assms
  by (induction fuel own cands ref seen and fuel own cands ref rest v seen rule: rank_at_rank_children.induct)
    (auto simp: split_beta)

lemma priority_range: "0 \<le> priorityAt d ref cands now \<and> priorityAt d ref cands now \<le> 3"
  unfolding priorityAt_def by (rule rank_at_range(1)) (rule ownPriority_range)

section \<open>The waiting list is the queue\<close>

lemma snapshot_before_pick: "burst < 3 \<Longrightarrow> snapshot_before rank order = pick_before burst rank order"
  by (simp add: fun_eq_iff snapshot_before_def pick_before_def Let_def)

lemma pick_pass_plain:
  assumes "\<And>ref. ref \<in> set rest \<Longrightarrow> c_DependsOn (mget candidate_zero cands ref) = []" "distinct rest" "set rest \<inter> set sel = {}"
    "int (length sel) < n"
  shows "pick_pass cands inFlight n rest sel p = (sel @ take (nat n - length sel) rest, p \<or> rest \<noteq> [])"
  using assms
proof (induction rest arbitrary: sel p)
  case (Cons ref rest)
  have ready: "dep_ready cands inFlight sel ref" "ref \<notin> set sel" using Cons.prems(1,3) by (auto simp: dep_ready_def)
  show ?case
  proof (cases "int (length sel + 1) = n")
    case True
    then have "nat n - length sel = 1" by linarith
    then show ?thesis using True ready by simp
  next
    case False
    have "pick_pass cands inFlight n rest (sel @ [ref]) True = ((sel @ [ref]) @ take (nat n - length (sel @ [ref])) rest, True \<or> rest \<noteq> [])"
      using False Cons.prems by (intro Cons.IH) auto
    moreover have "nat n - length sel = Suc (nat n - length (sel @ [ref]))" using False Cons.prems(4) by simp
    ultimately show ?thesis using False ready by simp
  qed
qed simp

lemma pick_loop_plain:
  assumes "\<And>ref. ref \<in> set refs \<Longrightarrow> c_DependsOn (mget candidate_zero cands ref) = []" "distinct refs" "1 \<le> n"
  shows "pick_loop (length refs + 1) cands inFlight n refs [] = take (nat n) refs"
proof (cases "refs = []")
  case False
  have pass: "pick_pass cands inFlight n refs [] False = (take (nat n) refs, True)"
    using pick_pass_plain [of refs cands "[]" n inFlight False] assms False by simp
  have stop: "pick_loop k cands inFlight n refs (take (nat n) refs) = take (nat n) refs" for k
    using assms(3) by (cases k) auto
  show ?thesis using False assms(3) by (simp add: pass stop)
qed simp

lemma fst_own_class [simp]: "map fst (map (\<lambda>(ref, c). (ref, own_class d c)) cands) = map fst cands"
  by (simp add: split_beta comp_def)

lemma map_of_own_class: "map_of (map (\<lambda>(ref, c). (ref, own_class d c)) cands) ref = map_option (own_class d) (map_of cands ref)"
  by (induction cands) auto

lemma own_class_ref [simp]: "c_Ref (own_class d c) = c_Ref c"
  by (simp add: own_class_def)

definition lane_refs :: "run list \<Rightarrow> string set" where
  "lane_refs runs = (\<Union>r \<in> set runs. (c_Ref \<circ> m_cand) ` set (r_members r))"

lemma run_view_refs: "c_Ref ` set (concat (map rsn_Members (map (run_view cands) runs))) = lane_refs runs"
proof -
  have ref: "c_Ref (current_priority cands c) = c_Ref c" for c by (simp add: current_priority_def split: option.split)
  have "c_Ref ` set (rsn_Members (run_view cands r)) = (c_Ref \<circ> m_cand) ` set (r_members r)" for r
    by (simp add: run_view_def buildRunSnapshot_def Let_def image_image ref)
  then show ?thesis by (simp add: lane_refs_def image_UN)
qed

lemma ts_Waiting_refs:
  assumes "keyed (target_cands d (tg_Name t) refs)"
  shows "map (c_Ref \<circ> we_Candidate) (ts_Waiting (buildTargetSnapshot d t refs)) =
    waiting_refs d (tg_Name t) (target_cands d (tg_Name t) refs)
      (\<lambda>ref. priorityAt d ref (target_cands d (tg_Name t) refs) (d_now d)) (lane_refs (mget [] (d_lanes d) (tg_Name t)))"
proof -
  let ?raw = "target_cands d (tg_Name t) refs"
  let ?cands = "map (\<lambda>(ref, c). (ref, own_class d c)) ?raw"
  have w: "waiting_refs d (tg_Name t) ?cands rank inFlight = waiting_refs d (tg_Name t) ?raw rank inFlight" for rank inFlight
    unfolding waiting_refs_def fst_own_class ..
  have key: "c_Ref (mget candidate_zero ?cands ref) = ref" if m: "ref \<in> fst ` set ?raw" for ref
  proof -
    obtain c where c: "(ref, c) \<in> set ?raw" using m by auto
    have "map_of ?raw ref = Some c" "c_Ref c = ref" using assms c by (auto simp: keyed_def)
    then show ?thesis by (simp add: mget_def map_of_own_class)
  qed
  have "map (\<lambda>ref. c_Ref (mget candidate_zero ?cands ref)) (waiting_refs d (tg_Name t) ?raw rank inFlight)
      = waiting_refs d (tg_Name t) ?raw rank inFlight" for rank inFlight
    by (rule map_idI) (rule key, auto simp: waiting_refs_def)
  then show ?thesis
    unfolding buildTargetSnapshot_def Let_def run_view_refs by (simp add: w comp_def)
qed

text \<open>A candidate that nothing but its turn holds back.\<close>

definition unhindered :: "daemon \<Rightarrow> string \<Rightarrow> string \<times> candidate \<Rightarrow> bool" where
  "unhindered d target rc =
     (case rc of (ref, c) \<Rightarrow> c_DependsOn c = [] \<and> c_AdmissionBlocked c = [] \<and> \<not> c_SkipChecks c
        \<and> (case map_of (mget [] (d_done d) target) ref of None \<Rightarrow> True | Some e \<Rightarrow> pk_SHA e = c_SHA c))"


definition sample_refs :: "(string, string) gomap" where
  "sample_refs = [(''refs/heads/main'', ''base''), (''refs/heads/for/main/b'', ''s2''), (''refs/heads/for/main/a'', ''s1'')]"


end
