(* ===== verification/Queue_Schedule.thy ===== *)
theory Queue_Schedule
  imports Queue_Snapshot
begin

text \<open>
  Operator scheduling (\<^verbatim>\<open>internal/queue/scheduling.go\<close>): \<open>PlanSchedule\<close> computes what a move, a priority or a
  preemption would do to the published queue, and \<open>applyScheduling\<close> applies it.
\<close>

section \<open>Planning\<close>

record schedule_impact =
  si_Token :: string
  si_Order :: "string list"
  si_AffectedRuns :: "string list"
  si_CompletedChecks :: nat
  si_RunningChecks :: nat
  si_SpentSeconds :: rat
  si_PreemptRequired :: bool

definition impact_zero :: schedule_impact where
  "impact_zero = \<lparr>si_Token = [], si_Order = [], si_AffectedRuns = [], si_CompletedChecks = 0, si_RunningChecks = 0,
     si_SpentSeconds = 0, si_PreemptRequired = False\<rparr>"

definition plan_runs :: "target_snapshot \<Rightarrow> run_snapshot list" where
  "plan_runs ts =
     (if ts_Pipeline ts \<noteq> [] then ts_Pipeline ts else case ts_InFlight ts of None \<Rightarrow> [] | Some r \<Rightarrow> [r])"

definition run_candidates :: "run_snapshot \<Rightarrow> candidate list" where
  "run_candidates r = (if rsn_Members r \<noteq> [] then rsn_Members r else [rsn_Candidate r])"

definition plan_candidates :: "target_snapshot \<Rightarrow> candidate list" where
  "plan_candidates ts =
     concat (map run_candidates (plan_runs ts)) @ map we_Candidate (ts_Waiting ts) @ map pd_Candidate (ts_Parked ts)"

text \<open>\<open>byRef\<close> and, as its keys in order, \<open>original\<close>: the first candidate of every ref.\<close>

fun index_refs :: "candidate list \<Rightarrow> (string, candidate) gomap \<Rightarrow> (string, candidate) gomap" where
  "index_refs [] byRef = byRef"
| "index_refs (c # cs) byRef = index_refs cs (if mhas byRef (c_Ref c) then byRef else byRef @ [(c_Ref c, c)])"

fun select_revisions :: "(string, candidate) gomap \<Rightarrow> revision list \<Rightarrow> string list \<Rightarrow> string list option" where
  "select_revisions byRef [] selected = Some selected"
| "select_revisions byRef (v # vs) selected =
     (case map_of byRef (rev_Ref v) of
        None \<Rightarrow> None
      | Some c \<Rightarrow> if c_SHA c \<noteq> rev_SHA v \<or> c_Version c \<noteq> rev_Version v \<or> rev_Ref v \<in> set selected then None
                  else select_revisions byRef vs (selected @ [rev_Ref v]))"

text \<open>The closure \<open>include\<close>: the prerequisites of \<open>ref\<close> join the selection.\<close>

fun include_parents :: "nat \<Rightarrow> (string, candidate) gomap \<Rightarrow> string \<Rightarrow> string list \<Rightarrow> string list" where
  "include_parents 0 byRef ref selected = selected"
| "include_parents (Suc fuel) byRef ref selected =
     (let parent = c_DependsOn (mget candidate_zero byRef ref) in
      if parent \<noteq> [] \<and> parent \<notin> set selected \<and> mhas byRef parent
      then include_parents fuel byRef parent (selected @ [parent])
      else selected)"

definition with_parents :: "(string, candidate) gomap \<Rightarrow> string list \<Rightarrow> string list" where
  "with_parents byRef selected = fold (include_parents (length byRef + 1) byRef) selected selected"

fun index_of :: "string \<Rightarrow> string list \<Rightarrow> nat option" where
  "index_of x [] = None"
| "index_of x (y # ys) = (if x = y then Some 0 else map_option Suc (index_of x ys))"

definition class_rank :: "(string, candidate) gomap \<Rightarrow> string \<Rightarrow> int" where
  "class_rank byRef ref = fst (PriorityRank (c_Priority (mget candidate_zero byRef ref)))"

definition anchor_of :: "command \<Rightarrow> string" where
  "anchor_of cmd = (if cmd_Before cmd \<noteq> [] then cmd_Before cmd else cmd_After cmd)"

definition anchor_error :: "(string, candidate) gomap \<Rightarrow> string list \<Rightarrow> command \<Rightarrow> go_error" where
  "anchor_error byRef selected cmd =
     (let anchor = anchor_of cmd; move = (cmd_Kind cmd = CommandMove) in
      if cmd_Before cmd \<noteq> [] \<and> cmd_After cmd \<noteq> [] then Some ''choose before or after, not both''
      else if move \<and> anchor = [] then Some ''move requires before or after''
      else if anchor \<noteq> [] \<and> (\<not> mhas byRef anchor \<or> anchor \<in> set selected) then Some ''anchor is unavailable or selected''
      else if move \<and> list_ex (\<lambda>ref. class_rank byRef ref \<noteq> class_rank byRef anchor) selected
      then Some ''move within one priority class; set priority first''
      else None)"

definition insert_position :: "command \<Rightarrow> string list \<Rightarrow> nat" where
  "insert_position cmd remaining =
     (if anchor_of cmd = [] then 0
      else case index_of (anchor_of cmd) remaining of
        None \<Rightarrow> 0 | Some i \<Rightarrow> if cmd_After cmd \<noteq> [] then i + 1 else i)"

definition before_prerequisite :: "(string, candidate) gomap \<Rightarrow> string list \<Rightarrow> string option" where
  "before_prerequisite byRef order =
     map_option fst (find (\<lambda>(ref, c). case index_of (c_DependsOn c) order of
                                        None \<Rightarrow> False
                                      | Some parent \<Rightarrow> (case index_of ref order of None \<Rightarrow> 0 < parent | Some i \<Rightarrow> i < parent)) byRef)"

definition plan_move :: "(string, candidate) gomap \<Rightarrow> string list \<Rightarrow> command \<Rightarrow> string + string list" where
  "plan_move byRef selected cmd =
     (case anchor_error byRef selected cmd of
        Some e \<Rightarrow> Inl e
      | None \<Rightarrow>
          (let selected = (if cmd_Kind cmd \<noteq> CommandMove then with_parents byRef selected else selected);
               original = map fst byRef;
               block = filter (\<lambda>ref. ref \<in> set selected) original;
               remaining = filter (\<lambda>ref. ref \<notin> set selected) original;
               position = insert_position cmd remaining;
               order = take position remaining @ block @ drop position remaining in
           case before_prerequisite byRef order of
             Some ref \<Rightarrow> Inl (msg [''move would place '', ref, '' before its prerequisite''])
           | None \<Rightarrow> Inr order))"

fun first_change :: "string list \<Rightarrow> string list \<Rightarrow> nat" where
  "first_change (x # xs) (y # ys) = (if x \<noteq> y then 0 else Suc (first_change xs ys))"
| "first_change _ ys = length ys"

definition affect_run :: "run_snapshot \<Rightarrow> schedule_impact \<Rightarrow> schedule_impact" where
  "affect_run r out =
     out\<lparr>si_AffectedRuns := si_AffectedRuns out @ [rsn_RunID r],
         si_CompletedChecks := si_CompletedChecks out + length (rsn_Done r),
         si_RunningChecks := si_RunningChecks out + length (rsn_Running r)
           + (if rsn_Running r = [] \<and> rsn_Current r \<noteq> None then 1 else 0),
         si_SpentSeconds := fold (\<lambda>c s. s + duration_seconds (cr_Duration c)) (rsn_Done r) (si_SpentSeconds out)\<rparr>"

fun affect_runs :: "nat \<Rightarrow> nat \<Rightarrow> run_snapshot list \<Rightarrow> schedule_impact \<Rightarrow> schedule_impact" where
  "affect_runs changed offset [] out = out"
| "affect_runs changed offset (r # rs) out =
     (let next = offset + max 1 (length (rsn_Members r)) in
      affect_runs changed next rs (if changed < next then affect_run r out else out))"

text \<open>The closure \<open>place\<close>: a ref is appended after its prerequisite.\<close>

fun place :: "nat \<Rightarrow> (string, candidate) gomap \<Rightarrow> string \<Rightarrow> string list \<times> string list \<Rightarrow> string list \<times> string list" where
  "place 0 byRef ref st = st"
| "place (Suc fuel) byRef ref (placed, order) =
     (if ref \<in> set placed then (placed, order)
      else
       (let parent = c_DependsOn (mget candidate_zero byRef ref);
            (placed, order) = (if mhas byRef parent then place fuel byRef parent (ref # placed, order) else (ref # placed, order)) in
        (placed, order @ [ref])))"

definition plan_priority :: "(string, candidate) gomap \<Rightarrow> string list \<Rightarrow> run_snapshot list \<Rightarrow> command \<Rightarrow> string + string list" where
  "plan_priority byRef selected runs cmd =
     (let class = (if cmd_Kind cmd = CommandUrgent then ''urgent'' else cmd_Priority cmd) in
      if \<not> snd (PriorityRank class) then Inl ''unknown priority''
      else
       (let order = map fst byRef;
            byRef = map (\<lambda>(ref, c). (ref, if ref \<in> set selected then c\<lparr>c_Priority := class, c_Urgent := False\<rparr> else c)) byRef;
            fixed = sum_list (map (\<lambda>r. max 1 (length (rsn_Members r))) runs);
            rank = (\<lambda>ref. fst (rank_at (length byRef + 2) (\<lambda>c. fst (PriorityRank (c_Priority c))) byRef ref [])) in
        if length order < fixed then Inl ''runtime error: slice bounds out of range''
        else
         (let pending = sort_by (\<lambda>a b. rank a > rank b) (drop fixed order) in
          Inr (snd (fold (place (length byRef + 1) byRef) pending (take fixed order, take fixed order))))))"

definition PlanSchedule ::
  "(string list \<Rightarrow> string list \<Rightarrow> candidate list \<Rightarrow> string) \<Rightarrow> target_snapshot \<Rightarrow> command \<Rightarrow> schedule_impact \<times> go_error" where
  "PlanSchedule token ts cmd =
     (let runs = plan_runs ts;
          byRef = index_refs (plan_candidates ts) [];
          original = map fst byRef;
          out = impact_zero\<lparr>si_Token := token original (map rsn_RunID runs) (plan_candidates ts)\<rparr> in
      case select_revisions byRef (cmd_Revisions cmd) [] of
        None \<Rightarrow> (out, Some ''selected revision changed or disappeared'')
      | Some selected \<Rightarrow>
          if selected = [] \<or> 64 < length selected then (out, Some ''select 1..64 exact revisions'')
          else if cmd_Kind cmd = CommandMove \<or> cmd_Preempt cmd
          then (case plan_move byRef selected cmd of
                  Inl e \<Rightarrow> (out, Some e)
                | Inr order \<Rightarrow>
                    (let out = affect_runs (first_change order original) 0 runs out in
                     (out\<lparr>si_Order := order, si_PreemptRequired := (si_AffectedRuns out \<noteq> [])\<rparr>, None)))
          else (case plan_priority byRef selected runs cmd of
                  Inl e \<Rightarrow> (out, Some e)
                | Inr order \<Rightarrow> (out\<lparr>si_Order := order, si_PreemptRequired := False\<rparr>, None)))"


section \<open>What a plan keeps\<close>

definition prereq :: "(string, candidate) gomap \<Rightarrow> string \<Rightarrow> string" where
  "prereq byRef ref = c_DependsOn (mget candidate_zero byRef ref)"

definition run_places :: "run_snapshot list \<Rightarrow> nat" where
  "run_places runs = sum_list (map (\<lambda>r. max 1 (length (rsn_Members r))) runs)"

lemma run_places_simps [simp]:
  "run_places [] = 0" "run_places (r # rs) = max 1 (length (rsn_Members r)) + run_places rs"
  by (simp_all add: run_places_def)

lemma index_refs_distinct: "distinct (map fst byRef) \<Longrightarrow> distinct (map fst (index_refs cs byRef))"
proof (induction cs byRef rule: index_refs.induct)
  case (2 c cs byRef)
  then show ?case by (cases "mhas byRef (c_Ref c)") (simp_all add: mhas_iff)
qed simp

lemma index_of_le: "index_of x ys = Some i \<Longrightarrow> i < length ys \<and> ys ! i = x"
  by (induction ys arbitrary: i) (auto split: if_splits)

lemma index_of_None [simp]: "index_of x ys = None \<longleftrightarrow> x \<notin> set ys"
  by (induction ys) auto

subsection \<open>Moves and preemptions\<close>

lemma mset_block:
  "mset (take n (filter (\<lambda>x. x \<notin> S) xs) @ filter (\<lambda>x. x \<in> S) xs @ drop n (filter (\<lambda>x. x \<notin> S) xs)) = mset xs"
proof -
  have "mset (take n (filter (\<lambda>x. x \<notin> S) xs)) + mset (drop n (filter (\<lambda>x. x \<notin> S) xs)) = mset (filter (\<lambda>x. x \<notin> S) xs)"
    by (metis append_take_drop_id mset_append)
  then show ?thesis
    by (simp add: add.commute add.left_commute)
qed

lemma plan_move_perm: "plan_move byRef selected cmd = Inr order \<Longrightarrow> mset order = mset (map fst byRef)"
proof -
  assume "plan_move byRef selected cmd = Inr order"
  then obtain S n where "order = take n (filter (\<lambda>x. x \<notin> S) (map fst byRef)) @ filter (\<lambda>x. x \<in> S) (map fst byRef)
      @ drop n (filter (\<lambda>x. x \<notin> S) (map fst byRef))"
    unfolding plan_move_def Let_def by (simp split: option.splits) blast
  then show ?thesis by (simp only: mset_block)
qed

lemma before_prerequisite_None:
  assumes "before_prerequisite byRef order = None" "(ref, c) \<in> set byRef" "distinct order"
    and "i < length order" "order ! i = ref" "j < length order" "order ! j = c_DependsOn c"
  shows "j \<le> i"
proof -
  have i: "index_of (order ! k) order = Some k" if "k < length order" for k
  proof -
    from that obtain m where m: "index_of (order ! k) order = Some m"
      by (metis index_of_None not_Some_eq nth_mem)
    from index_of_le[OF m] assms(3) that show ?thesis by (metis m nth_eq_iff_index_eq)
  qed
  show ?thesis using assms(1,2) i[OF assms(4)] i[OF assms(6)] unfolding assms(5,7)
    by (fastforce simp: before_prerequisite_def find_None_iff)
qed

lemma plan_move_prerequisite:
  assumes "plan_move byRef selected cmd = Inr order"
  shows "before_prerequisite byRef order = None"
  using assms by (auto simp: plan_move_def Let_def split: option.splits)

lemma first_change_take: "length xs = length ys \<Longrightarrow> n \<le> first_change xs ys \<Longrightarrow> take n xs = take n ys"
proof (induction xs ys arbitrary: n rule: first_change.induct)
  case (1 x xs y ys)
  then show ?case by (cases n) (auto split: if_splits)
qed auto

lemma affect_run_ids [simp]: "si_AffectedRuns (affect_run r out) = si_AffectedRuns out @ [rsn_RunID r]"
  by (simp add: affect_run_def)

lemma affect_runs_all:
  "changed < offset \<Longrightarrow> si_AffectedRuns (affect_runs changed offset rs out) = si_AffectedRuns out @ map rsn_RunID rs"
  by (induction rs arbitrary: offset out) (simp_all add: Let_def)

lemma affect_runs_suffix:
  assumes "offset \<le> changed"
  shows "\<exists>k \<le> length rs. si_AffectedRuns (affect_runs changed offset rs out) = si_AffectedRuns out @ map rsn_RunID (drop k rs)
    \<and> offset + run_places (take k rs) \<le> changed"
  using assms
proof (induction rs arbitrary: offset out)
  case Nil
  then show ?case by simp
next
  case (Cons r rs)
  let ?o = "offset + max 1 (length (rsn_Members r))"
  show ?case
  proof (cases "changed < ?o")
    case True
    then have "si_AffectedRuns (affect_runs changed offset (r # rs) out) = si_AffectedRuns out @ map rsn_RunID (drop 0 (r # rs))"
      by (simp add: Let_def affect_runs_all)
    then show ?thesis using Cons.prems by (intro exI[of _ 0]) auto
  next
    case False
    then have "?o \<le> changed" by simp
    from Cons.IH[OF this, of out] obtain k where "k \<le> length rs"
      "si_AffectedRuns (affect_runs changed ?o rs out) = si_AffectedRuns out @ map rsn_RunID (drop k rs)"
      "?o + run_places (take k rs) \<le> changed" by blast
    then show ?thesis using False by (intro exI[of _ "Suc k"]) (simp add: Let_def)
  qed
qed

subsection \<open>Priorities\<close>

definition keys_of :: "(string, candidate) gomap \<Rightarrow> string set" where "keys_of byRef = fst ` set byRef"

lemma mhas_keys_of [simp]: "mhas byRef x \<longleftrightarrow> x \<in> keys_of byRef"
  by (simp add: mhas_iff keys_of_def)

lemma finite_keys [simp]: "finite (keys_of byRef)" by (simp add: keys_of_def)

definition children_last :: "(string, candidate) gomap \<Rightarrow> nat \<Rightarrow> string list \<Rightarrow> bool" where
  "children_last byRef n order \<longleftrightarrow>
     (\<forall>i < length order. n \<le> i \<longrightarrow> prereq byRef (order ! i) \<in> keys_of byRef \<longrightarrow> prereq byRef (order ! i) \<in> set (take i order))"

lemma children_last_snoc:
  "children_last byRef n (order @ [x]) \<longleftrightarrow>
     children_last byRef n order \<and> (n \<le> length order \<longrightarrow> prereq byRef x \<in> keys_of byRef \<longrightarrow> prereq byRef x \<in> set order)"
  by (auto simp: children_last_def nth_append less_Suc_eq)

lemma card_keys_step:
  assumes "ref \<notin> set placed" "ref \<in> keys_of byRef"
  shows "card (keys_of byRef - set (ref # placed)) < card (keys_of byRef - set placed)"
  using assms by (intro psubset_card_mono) auto

lemma place_adds:
  assumes "place fuel byRef ref (placed, order) = (placed', order')" "distinct order" "set order \<subseteq> set placed"
    "card (keys_of byRef - set placed) < fuel" "ref \<in> keys_of byRef"
  shows "\<exists>zs. order' = order @ zs \<and> distinct order' \<and> set zs \<subseteq> keys_of byRef \<and> set zs \<inter> set placed = {}
    \<and> set placed' = set placed \<union> set zs \<and> ref \<in> set placed'"
  using assms
proof (induction fuel arbitrary: ref placed order placed' order')
  case 0
  then show ?case by simp
next
  case (Suc fuel)
  show ?case
  proof (cases "ref \<in> set placed")
    case True
    with Suc.prems show ?thesis by auto
  next
    case False
    let ?p = "prereq byRef ref"
    have lt: "card (keys_of byRef - set (ref # placed)) < fuel"
      using Suc.prems(4) card_keys_step[OF False Suc.prems(5)] by simp
    show ?thesis
    proof (cases "?p \<in> keys_of byRef")
      case True
      obtain pl o1 where p: "place fuel byRef ?p (ref # placed, order) = (pl, o1)" by fastforce
      from Suc.IH[OF p Suc.prems(2) _ lt True] Suc.prems(3) obtain zs where z: "o1 = order @ zs" "distinct o1"
        "set zs \<subseteq> keys_of byRef" "set zs \<inter> set (ref # placed) = {}" "set pl = set (ref # placed) \<union> set zs"
        by (metis set_subset_Cons subset_trans)
      have "placed' = pl" "order' = order @ zs @ [ref]"
        using Suc.prems(1) False True p z(1) by (auto simp: Let_def prereq_def)
      then show ?thesis using z False Suc.prems(3,5) by (intro exI[of _ "zs @ [ref]"]) auto
    next
      case no: False
      then have "placed' = ref # placed" "order' = order @ [ref]"
        using Suc.prems(1) False by (auto simp: Let_def prereq_def)
      then show ?thesis using False Suc.prems(2,3,5) by (intro exI[of _ "[ref]"]) auto
    qed
  qed
qed

lemma place_children:
  assumes "place fuel byRef ref (placed, order) = (placed', order')" "distinct order" "set order \<subseteq> set placed"
    "card (keys_of byRef - set placed) < fuel" "ref \<in> keys_of byRef"
    and h: "\<And>x. x \<in> keys_of byRef \<Longrightarrow> prereq byRef x \<in> keys_of byRef \<Longrightarrow> h (prereq byRef x) < (h x :: nat)"
    and "\<And>x. x \<in> set placed - set order \<Longrightarrow> h ref < h x" "children_last byRef n order"
  shows "children_last byRef n order'"
  using assms(1-5,7,8)
proof (induction fuel arbitrary: ref placed order placed' order')
  case 0
  then show ?case by simp
next
  case (Suc fuel)
  show ?case
  proof (cases "ref \<in> set placed")
    case True
    with Suc.prems show ?thesis by auto
  next
    case False
    let ?p = "prereq byRef ref"
    show ?thesis
    proof (cases "?p \<in> keys_of byRef")
      case True
      have lt: "card (keys_of byRef - set (ref # placed)) < fuel"
        using Suc.prems(4) card_keys_step[OF False Suc.prems(5)] by simp
      have hp: "h ?p < h ref" using h[OF Suc.prems(5) True] .
      obtain pl o1 where p: "place fuel byRef ?p (ref # placed, order) = (pl, o1)" by fastforce
      have sub: "set order \<subseteq> set (ref # placed)" using Suc.prems(3) by auto
      have st: "h ?p < h x" if "x \<in> set (ref # placed) - set order" for x
        using that hp Suc.prems(6)[of x] by auto
      have c1: "children_last byRef n o1"
        using Suc.IH[OF p Suc.prems(2) sub lt True st Suc.prems(7)] .
      from place_adds[OF p Suc.prems(2) sub lt True] obtain zs where z: "o1 = order @ zs" "?p \<in> set pl"
        "set pl = set (ref # placed) \<union> set zs" by blast
      have "?p \<in> set o1" using z hp Suc.prems(6)[of ?p] by auto
      moreover have "order' = o1 @ [ref]" using Suc.prems(1) False True p by (auto simp: Let_def prereq_def)
      ultimately show ?thesis using c1 by (simp add: children_last_snoc)
    next
      case no: False
      then have "order' = order @ [ref]"
        using Suc.prems(1) False by (auto simp: Let_def prereq_def)
      then show ?thesis using no Suc.prems(7) by (simp add: children_last_snoc)
    qed
  qed
qed

lemma place_all:
  assumes "fold (place fuel byRef) pending (placed, order) = (placed', order')" "distinct order" "set placed = set order"
    "card (keys_of byRef) < fuel" "set pending \<subseteq> keys_of byRef"
  shows "(\<exists>zs. order' = order @ zs \<and> set zs \<subseteq> keys_of byRef) \<and> distinct order' \<and> set pending \<subseteq> set order'
    \<and> (\<forall>h. (\<forall>x \<in> keys_of byRef. prereq byRef x \<in> keys_of byRef \<longrightarrow> h (prereq byRef x) < (h x :: nat))
          \<longrightarrow> children_last byRef n order \<longrightarrow> children_last byRef n order')"
  using assms
proof (induction pending arbitrary: placed order)
  case Nil
  then show ?case by simp
next
  case (Cons ref pending)
  obtain pl o1 where p: "place fuel byRef ref (placed, order) = (pl, o1)" by fastforce
  have "card (keys_of byRef - set placed) \<le> card (keys_of byRef)" by (simp add: card_mono)
  then have lt: "card (keys_of byRef - set placed) < fuel" using Cons.prems(4) by simp
  have k: "ref \<in> keys_of byRef" "set order \<subseteq> set placed" using Cons.prems(3,5) by auto
  from place_adds[OF p Cons.prems(2) k(2) lt k(1)] obtain zs where z: "o1 = order @ zs" "distinct o1" "set zs \<subseteq> keys_of byRef"
    "set pl = set placed \<union> set zs" "ref \<in> set pl" by blast
  have eq: "set pl = set o1" using z Cons.prems(3) by auto
  have "fold (place fuel byRef) pending (pl, o1) = (placed', order')" using Cons.prems(1) p by simp
  note IH = Cons.IH[OF this z(2) eq Cons.prems(4)]
  have ch: "children_last byRef n o1" if "\<forall>x \<in> keys_of byRef. prereq byRef x \<in> keys_of byRef \<longrightarrow> h (prereq byRef x) < (h x :: nat)"
    and "children_last byRef n order" for h
    using place_children[OF p Cons.prems(2) k(2) lt k(1), of h n] that Cons.prems(3) by auto
  from IH Cons.prems(5) obtain ws where w: "order' = o1 @ ws" "set ws \<subseteq> keys_of byRef" by auto
  have "ref \<in> set order'" using w eq z(5) by simp
  then show ?case using IH ch w z Cons.prems(5) by (auto intro!: exI[of _ "zs @ ws"])
qed

lemma plan_priority_Inr:
  assumes "plan_priority byRef selected runs cmd = Inr order" "distinct (map fst byRef)"
  shows "run_places runs \<le> length byRef" (is ?A)
    and "distinct order" (is ?B)
    and "set order = keys_of byRef" (is ?C)
    and "take (run_places runs) order = take (run_places runs) (map fst byRef)" (is ?D)
    and "\<forall>x \<in> keys_of byRef. prereq byRef x \<in> keys_of byRef \<longrightarrow> h (prereq byRef x) < (h x :: nat)
      \<Longrightarrow> children_last byRef (run_places runs) order" (is "?F \<Longrightarrow> ?E")
proof -
  define cls where "cls = (if cmd_Kind cmd = CommandUrgent then ''urgent'' else cmd_Priority cmd)"
  define upd where "upd = map (\<lambda>(ref, c). (ref, if ref \<in> set selected then c\<lparr>c_Priority := cls, c_Urgent := False\<rparr> else c)) byRef"
  define rank where "rank = (\<lambda>ref. fst (rank_at (length byRef + 2) (\<lambda>c. fst (PriorityRank (c_Priority c))) upd ref []))"
  let ?n = "run_places runs" and ?o = "map fst byRef"
  define pending where "pending = sort_by (\<lambda>a b. rank a > rank b) (drop ?n ?o)"
  have keys: "keys_of upd = keys_of byRef" by (force simp: keys_of_def upd_def)
  have pre: "prereq upd x = prereq byRef x" for x
    unfolding upd_def by (induction byRef) (auto simp: prereq_def mget_def)
  have len: "length upd = length byRef" by (simp add: upd_def)
  have A: ?A and ord: "order = snd (fold (place (length byRef + 1) upd) pending (take ?n ?o, take ?n ?o))"
    using assms(1) unfolding plan_priority_def Let_def cls_def[symmetric] upd_def[symmetric] run_places_def[symmetric]
    by (auto simp: pending_def rank_def len run_places_def split: if_splits)
  obtain pl where f: "fold (place (length byRef + 1) upd) pending (take ?n ?o, take ?n ?o) = (pl, order)"
    using ord by (metis prod.collapse)
  have pend: "set pending = set (drop ?n ?o)" by (simp add: pending_def)
  have card: "card (keys_of upd) < length byRef + 1"
    unfolding keys by (simp add: keys_of_def) (metis card_length length_map set_map le_imp_less_Suc)
  have sub: "set pending \<subseteq> keys_of upd" using pend set_drop_subset[of ?n ?o] by (simp add: keys) (simp add: keys_of_def)
  note all = place_all[OF f distinct_take[OF assms(2)] refl card sub, where n = ?n]
  then obtain zs where z: "order = take ?n ?o @ zs" "set zs \<subseteq> keys_of byRef" by (auto simp: keys)
  show ?A by (rule A)
  show ?B using all by simp
  have "set (take ?n ?o) \<union> set (drop ?n ?o) = keys_of byRef"
    by (metis append_take_drop_id keys_of_def set_append set_map)
  then show ?C using z all pend by auto
  show ?D using z A by simp
  have "children_last upd ?n (take ?n ?o)" by (simp add: children_last_def)
  then show ?E if ?F using all that by (auto simp: keys pre children_last_def)
qed

text \<open>
  C21: what an operator's plan does to the queue.  Whenever \<open>PlanSchedule\<close> succeeds, its order is a rearrangement of the published
  queue (nothing is lost, duplicated or invented).  The runs it would discard are the lane from some run on, the candidates of the runs before
  keep their places, and preemption is demanded exactly if there are such runs.  A priority change discards no run, keeps the
  whole in-flight prefix, and puts every later candidate behind its prerequisite when the prerequisites are not circular; a
  move or a preemption puts no candidate before its prerequisite.
\<close>

theorem PlanSchedule_keeps:
  assumes "PlanSchedule token ts cmd = (out, None)"
  shows "let byRef = index_refs (plan_candidates ts) []; original = map fst byRef; runs = plan_runs ts;
             order = si_Order out in
     mset order = mset original
     \<and> (\<exists>k \<le> length runs. si_AffectedRuns out = map rsn_RunID (drop k runs)
          \<and> take (run_places (take k runs)) order = take (run_places (take k runs)) original)
     \<and> (si_PreemptRequired out \<longleftrightarrow> si_AffectedRuns out \<noteq> [])
     \<and> (if cmd_Kind cmd = CommandMove \<or> cmd_Preempt cmd
        then \<forall>i < length order. \<forall>j < length order. order ! j = prereq byRef (order ! i) \<longrightarrow> j \<le> i
        else si_AffectedRuns out = []
          \<and> (\<forall>h. (\<forall>x \<in> keys_of byRef. prereq byRef x \<in> keys_of byRef \<longrightarrow> h (prereq byRef x) < (h x :: nat))
               \<longrightarrow> children_last byRef (run_places runs) order))"
proof -
  let ?b = "index_refs (plan_candidates ts) []" and ?runs = "plan_runs ts"
  have d: "distinct (map fst ?b)" by (simp add: index_refs_distinct)
  from assms obtain selected where sel: "select_revisions ?b (cmd_Revisions cmd) [] = Some selected"
    by (auto simp: PlanSchedule_def Let_def split: option.splits)
  show ?thesis
  proof (cases "cmd_Kind cmd = CommandMove \<or> cmd_Preempt cmd")
    case True
    let ?o0 = "impact_zero\<lparr>si_Token := token (map fst ?b) (map rsn_RunID ?runs) (plan_candidates ts)\<rparr>"
    have z: "si_AffectedRuns ?o0 = []" by (simp add: impact_zero_def)
    from assms sel True obtain order where m: "plan_move ?b selected cmd = Inr order"
      "si_Order out = order" "si_AffectedRuns out = si_AffectedRuns (affect_runs (first_change order (map fst ?b)) 0 ?runs ?o0)"
      "si_PreemptRequired out = (si_AffectedRuns out \<noteq> [])"
      by (auto simp: PlanSchedule_def Let_def split: if_splits sum.splits)
    note perm = plan_move_perm[OF m(1)]
    have len: "length order = length (map fst ?b)" using perm by (metis size_mset)
    have dist: "distinct order" using perm d by (metis mset_eq_imp_distinct_iff)
    from affect_runs_suffix[of 0 "first_change order (map fst ?b)" ?runs ?o0] z obtain k where k: "k \<le> length ?runs"
      "si_AffectedRuns (affect_runs (first_change order (map fst ?b)) 0 ?runs ?o0) = map rsn_RunID (drop k ?runs)"
      "run_places (take k ?runs) \<le> first_change order (map fst ?b)" by auto
    have "\<forall>i < length order. \<forall>j < length order. order ! j = prereq ?b (order ! i) \<longrightarrow> j \<le> i"
    proof (intro allI impI)
      fix i j assume ij: "i < length order" "j < length order" "order ! j = prereq ?b (order ! i)"
      have "order ! i \<in> set (map fst ?b)" using ij(1) perm by (metis nth_mem set_mset_mset)
      then obtain c where c: "(order ! i, c) \<in> set ?b" by auto
      then have "map_of ?b (order ! i) = Some c" using d by simp
      then have "prereq ?b (order ! i) = c_DependsOn c" by (simp add: prereq_def mget_def)
      then show "j \<le> i"
        using before_prerequisite_None[OF plan_move_prerequisite[OF m(1)] c dist ij(1) refl ij(2)] ij(3) by simp
    qed
    then show ?thesis using True m perm k first_change_take[OF len k(3)] by (auto simp: Let_def)
  next
    case False
    from assms sel False obtain order where m: "plan_priority ?b selected ?runs cmd = Inr order"
      "si_Order out = order" "si_AffectedRuns out = []" "\<not> si_PreemptRequired out"
      by (auto simp: PlanSchedule_def Let_def impact_zero_def split: option.splits if_splits sum.splits)
    note pp = plan_priority_Inr[OF m(1) d]
    have "mset order = mset (map fst ?b)"
      using pp(2,3) d by (metis set_eq_iff_mset_eq_distinct keys_of_def set_map)
    then show ?thesis using False m pp(4,5) by (auto simp: Let_def intro!: exI[of _ "length ?runs"])
  qed
qed

definition sample_change :: "string \<Rightarrow> string \<Rightarrow> candidate" where
  "sample_change ref parent = candidate_zero\<lparr>c_Ref := ref, c_SHA := ''1'', c_DependsOn := parent\<rparr>"

definition sample_queue :: target_snapshot where
  "sample_queue = \<lparr>ts_Scheduling = None, ts_Circuit = None, ts_Pause = None, ts_ControlError = [], ts_EmergencyEnabled = False,
     ts_Name = ''main'', ts_Branch = ''refs/heads/main'', ts_TargetTip = ''0'',
     ts_InFlight = None,
     ts_Pipeline = [\<lparr>rsn_Candidate = sample_change ''a'' [], rsn_Members = [], rsn_RunID = ''r1'', rsn_BaseOID = [],
       rsn_ChainTip = [], rsn_MergeSHA = [], rsn_Predicted = False, rsn_BatchID = [], rsn_Done = [], rsn_Current = None,
       rsn_Running = [], rsn_StartedAt = 0\<rparr>],
     ts_Waiting = [\<lparr>we_Urgent = False, we_Priority = [], we_Candidate = sample_change ''b'' [], we_Seq = 1\<rparr>,
       \<lparr>we_Urgent = False, we_Priority = [], we_Candidate = sample_change ''c'' ''b'', we_Seq = 2\<rparr>],
     ts_Parked = []\<rparr>"

definition sample_preempt :: command where
  "sample_preempt = \<lparr>cmd_Priority = ''urgent'', cmd_Preempt = True, cmd_Before = [], cmd_After = [], cmd_PlanToken = [],
     cmd_Principal = None, cmd_RequestID = [], cmd_Actor = [], cmd_Reason = [], cmd_OverridePause = False,
     cmd_Revisions = [\<lparr>rev_Ref = ''c'', rev_SHA = ''1'', rev_Version = []\<rparr>], cmd_Kind = CommandUrgent, cmd_Target = ''main'', cmd_Ref = []\<rparr>"

theorem PlanSchedule_keeps_witness:
  "let out = fst (PlanSchedule (\<lambda>_ _ _. []) sample_queue sample_preempt) in
     si_Order out = [''b'', ''c'', ''a''] \<and> si_AffectedRuns out = [''r1''] \<and> si_PreemptRequired out
     \<and> mset (si_Order out) = {#''a'', ''b'', ''c''#}"
proof -
  let ?p = "PlanSchedule (\<lambda>_ _ _. []) sample_queue sample_preempt"
  have ok: "?p = (fst ?p, None)" and v: "si_Order (fst ?p) = [''b'', ''c'', ''a'']" "si_AffectedRuns (fst ?p) = [''r1'']"
    and o: "map fst (index_refs (plan_candidates sample_queue) []) = [''a'', ''b'', ''c'']" by code_simp+
  from PlanSchedule_keeps[OF ok] show ?thesis by (simp add: Let_def v o del: mset_map)
qed
end
