(* ===== verification/Queue_Commands.thy ===== *)
theory Queue_Commands
  imports Queue_Schedule
begin

text \<open>
  Operator commands (\<^verbatim>\<open>internal/queue/command.go\<close>), incident controls (\<^verbatim>\<open>controls.go\<close>), the application of a scheduling
  plan (\<^verbatim>\<open>scheduling.go\<close>) and the requests a forge review carries (\<^verbatim>\<open>review_emergency.go\<close>, \<^verbatim>\<open>review_scheduling.go\<close>).
\<close>

section \<open>Numbers in strings\<close>

text \<open>\<open>strconv.ParseInt(s, 10, 64)\<close>: the value and whether the error is nil.  A value out of range is clamped; a malformed
  string yields \<open>0\<close>.  \<open>scan_uint\<close> is the loop of \<open>ParseUint\<close>, which reports the first problem it meets.\<close>

datatype scan_result = ScanSyntax | ScanRange | ScanValue int

definition digit_value :: "char \<Rightarrow> int option" where
  "digit_value c = (let n = of_char c :: nat in if 48 \<le> n \<and> n \<le> 57 then Some (int n - 48) else None)"

fun scan_uint :: "int \<Rightarrow> string \<Rightarrow> scan_result" where
  "scan_uint n [] = ScanValue n"
| "scan_uint n (c # cs) =
     (case digit_value c of
        None \<Rightarrow> ScanSyntax
      | Some k \<Rightarrow> if 18446744073709551615 < n * 10 + k then ScanRange else scan_uint (n * 10 + k) cs)"

definition parse_int :: "string \<Rightarrow> int \<times> bool" where
  "parse_int s =
     (let neg = (case s of c # _ \<Rightarrow> c = CHR ''-'' | [] \<Rightarrow> False);
          digits = (case s of c # cs \<Rightarrow> if c = CHR ''-'' \<or> c = CHR ''+'' then cs else s | [] \<Rightarrow> []) in
      if digits = [] then (0, False)
      else case scan_uint 0 digits of
        ScanSyntax \<Rightarrow> (0, False)
      | ScanRange \<Rightarrow> (if neg then (-9223372036854775808, False) else (9223372036854775807, False))
      | ScanValue n \<Rightarrow>
          if \<not> neg \<and> 9223372036854775808 \<le> n then (9223372036854775807, False)
          else if neg \<and> 9223372036854775808 < n then (-9223372036854775808, False)
          else (if neg then - n else n, True))"

section \<open>Scheduling commands\<close>

definition target_snapshot_zero :: target_snapshot where
  "target_snapshot_zero = \<lparr>ts_Scheduling = None, ts_Circuit = None, ts_Pause = None, ts_ControlError = [],
     ts_EmergencyEnabled = False, ts_Name = [], ts_Branch = [], ts_TargetTip = [], ts_InFlight = None, ts_Pipeline = [],
     ts_Waiting = [], ts_Parked = []\<rparr>"

definition snapshot_of :: "snapshot \<Rightarrow> string \<Rightarrow> target_snapshot" where
  "snapshot_of sn target =
     (case find (\<lambda>ts. ts_Name ts = target) (sn_Targets sn) of None \<Rightarrow> target_snapshot_zero | Some ts \<Rightarrow> ts)"

text \<open>The checkpointed state a plan leads to, and the positions it hands out.\<close>

definition schedule_next :: "daemon \<Rightarrow> command \<Rightarrow> schedule_impact \<Rightarrow> control_state \<times> (string, int) gomap \<times> daemon" where
  "schedule_next d cmd impact =
     (let next = (clone (d_controls d))\<lparr>ct_Order := cloneNested (d_order d), ct_LastError := []\<rparr>;
          next = (if cmd_RequestID cmd \<noteq> []
                  then next\<lparr>ct_Scheduled := fold (\<lambda>v. mput (rev_Ref v) (cmd_RequestID cmd)) (cmd_Revisions cmd) (ct_Scheduled next)\<rparr>
                  else next);
          next = (if cmd_Kind cmd \<noteq> CommandMove
                  then next\<lparr>ct_Priorities := fold (\<lambda>v. mput (rev_Ref v) \<lparr>py_Revision = v, py_Class = cmd_Priority cmd\<rparr>) (cmd_Revisions cmd) (ct_Priorities next),
                            ct_Enqueued := fold (\<lambda>v. mput (rev_Ref v) (d_now d)) (cmd_Revisions cmd) (ct_Enqueued next)\<rparr>
                  else next);
          (ordered, sq) = fold (\<lambda>ref (m, sq). (mput ref sq m, i64 (sq + 1))) (si_Order impact) ([], d_seq d);
          reorder = (cmd_Kind cmd = CommandMove \<or> cmd_Preempt cmd);
          d = (if reorder then d\<lparr>d_seq := sq\<rparr> else d);
          next = (if reorder then next\<lparr>ct_Order := mput (cmd_Target cmd) ordered (ct_Order next)\<rparr> else next);
          next = next\<lparr>ct_Audit := ct_Audit next @ [\<lparr>ca_At = d_now d, ca_Command = cmd\<rparr>]\<rparr> in
      (next, ordered, d))"

definition run_index :: "string \<Rightarrow> run list \<Rightarrow> nat" where
  "run_index runID runs = (case index_of runID (map r_runID runs) of None \<Rightarrow> 0 | Some i \<Rightarrow> i)"

definition preempt_runs :: "daemon \<Rightarrow> target_cfg \<Rightarrow> command \<Rightarrow> schedule_impact \<Rightarrow> daemon" where
  "preempt_runs d t cmd impact =
     (case si_AffectedRuns impact of
        [] \<Rightarrow> d
      | runID # _ \<Rightarrow>
          if \<not> mhas (d_lanes d) (cmd_Target cmd) then d
          else invalidateSuffix d t (run_index runID (mget [] (d_lanes d) (cmd_Target cmd)))
                 (msg [''operator preemption: '', cmd_Reason cmd]))"

definition applyScheduling :: "daemon \<Rightarrow> command \<Rightarrow> target_cfg \<Rightarrow> (string, string) gomap \<Rightarrow> daemon" where
  "applyScheduling d cmd0 t refs =
     (let cmd = (if cmd_Kind cmd0 = CommandUrgent then cmd0\<lparr>cmd_Priority := ''urgent''\<rparr> else cmd0) in
      if d_draining d then set_last_error ''queue is draining'' d
      else if \<not> snd (PriorityRank (cmd_Priority cmd)) then set_last_error ''priority must be low, normal, high, or urgent'' d
      else if cmd_Kind cmd \<noteq> CommandMove \<and> cmd_Preempt cmd \<and> cmd_Priority cmd \<noteq> ''urgent''
      then set_last_error ''preemption requires urgent priority'' d
      else
       (let d = syncBookkeeping d t (target_cands d (cmd_Target cmd) refs);
            (sn, d) = buildSnapshot d refs;
            (impact, err) = PlanSchedule (cf_planToken (d_cfg d)) (snapshot_of sn (cmd_Target cmd)) cmd in
        case err of
          Some e \<Rightarrow> set_last_error e d
        | None \<Rightarrow>
            if cmd_PlanToken cmd \<noteq> [] \<and> cmd_PlanToken cmd \<noteq> si_Token impact
            then set_last_error ''queue changed since preview; refresh and preview again'' d
            else if si_PreemptRequired impact \<and> \<not> cmd_Preempt cmd
            then set_last_error ''move affects active verification; explicit preemption required'' d
            else
             (let (next, ordered, d) = schedule_next d cmd impact in
              case saveControls d next of
                (False, d) \<Rightarrow> d
              | (True, d) \<Rightarrow>
                  preempt_runs (if cmd_Kind cmd = CommandMove \<or> cmd_Preempt cmd
                                then d\<lparr>d_order := mput (cmd_Target cmd) ordered (d_order d)\<rparr> else d)
                    t cmd impact)))"

section \<open>Incident controls\<close>

fun select_emergency :: "(string, candidate) gomap \<Rightarrow> revision list \<Rightarrow> string list \<Rightarrow> go_error" where
  "select_emergency cands [] selected = None"
| "select_emergency cands (v # vs) selected =
     (case map_of cands (rev_Ref v) of
        None \<Rightarrow> Some ''selected revision changed or disappeared; request again''
      | Some c \<Rightarrow>
          if c_SHA c \<noteq> rev_SHA v \<or> c_Version c \<noteq> rev_Version v \<or> rev_Ref v \<in> set selected
          then Some ''selected revision changed or disappeared; request again''
          else if c_DependsOn c \<noteq> [] \<and> c_DependsOn c \<notin> set selected then Some ''select prerequisites before their successors''
          else select_emergency cands vs (rev_Ref v # selected))"

abbreviation is_merge_command :: "command \<Rightarrow> bool" where
  "is_merge_command cmd \<equiv> cmd_Kind cmd = CommandMergeAnyway \<or> cmd_Kind cmd = CommandMergePaused"

text \<open>\<open>next.Emergency[cmd.Target] = cmd\<close> with the checks before it; \<open>Inl\<close> is the refusal.\<close>

definition request_emergency :: "daemon \<Rightarrow> command \<Rightarrow> (string, string) gomap \<Rightarrow> control_state \<Rightarrow> string + control_state" where
  "request_emergency d cmd refs next =
     (if \<not> is_merge_command cmd then Inr next
      else if cmd_Revisions cmd = [] \<or> 64 < length (cmd_Revisions cmd) then Inl ''select 1..64 exact revisions''
      else case select_emergency (target_cands d (cmd_Target cmd) refs) (cmd_Revisions cmd) [] of
        Some e \<Rightarrow> Inl e
      | None \<Rightarrow>
          if mhas (ct_Pauses next) (cmd_Target cmd) \<and> \<not> cmd_OverridePause cmd
          then Inl ''target paused; an explicit pause override is required''
          else Inr (next\<lparr>ct_Emergency := mput (cmd_Target cmd) cmd (ct_Emergency next)\<rparr>))"

text \<open>The ledger of processed review requests, bounded by dropping the lowest number.\<close>

definition process_request :: "command \<Rightarrow> control_state \<Rightarrow> control_state" where
  "process_request cmd next =
     (if cmd_RequestID cmd = [] then next
      else
       (let next = next\<lparr>ct_ProcessedReviews := mput (cmd_RequestID cmd) True (ct_ProcessedReviews next)\<rparr> in
        if length (ct_ProcessedReviews next) \<le> 500 then next
        else case sort_by (<) (map fst (filter snd (map (parse_int \<circ> fst) (ct_ProcessedReviews next)))) of
          [] \<Rightarrow> next
        | n # _ \<Rightarrow> next\<lparr>ct_ReviewFloor := max (ct_ReviewFloor next) n,
                        ct_ProcessedReviews := mdel (show_int n) (ct_ProcessedReviews next)\<rparr>))"

definition control_next :: "daemon \<Rightarrow> command \<Rightarrow> (string, string) gomap \<Rightarrow> string + control_state" where
  "control_next d cmd refs =
     (let next = (clone (d_controls d))\<lparr>ct_LastError := []\<rparr>;
          next = (if cmd_Kind cmd = CommandPause
                  then next\<lparr>ct_Pauses := mput (cmd_Target cmd) \<lparr>pa_Actor = cmd_Actor cmd, pa_Reason = cmd_Reason cmd, pa_At = d_now d\<rparr> (ct_Pauses next)\<rparr>
                  else next);
          next = (if cmd_Kind cmd = CommandResume then next\<lparr>ct_Pauses := mdel (cmd_Target cmd) (ct_Pauses next)\<rparr> else next) in
      case request_emergency d cmd refs next of
        Inl e \<Rightarrow> Inl e
      | Inr next \<Rightarrow>
          (let next = process_request cmd next in
           Inr (next\<lparr>ct_Audit := ct_Audit next @ [\<lparr>ca_At = d_now d, ca_Command = cmd\<rparr>]\<rparr>)))"

definition trim_command :: "command \<Rightarrow> command" where
  "trim_command cmd = cmd\<lparr>cmd_Actor := trim_space (cmd_Actor cmd), cmd_Reason := trim_space (cmd_Reason cmd)\<rparr>"

text \<open>The body of \<open>applyControl\<close> for one target.\<close>

definition applyControl_target :: "daemon \<Rightarrow> command \<Rightarrow> (string, string) gomap \<Rightarrow> daemon" where
  "applyControl_target d cmd0 refs =
     (if d_draining d \<and> (is_merge_command cmd0 \<or> cmd_Kind cmd0 = CommandUrgent)
      then set_last_error ''queue is draining; no new merge requests accepted'' d
      else case authorizeCommand d cmd0 of
        (False, d) \<Rightarrow> d
      | (True, d) \<Rightarrow>
         (let cmd = trim_command cmd0 in
          if cmd_Actor cmd = [] \<or> cmd_Reason cmd = [] \<or> 256 < length (cmd_Actor cmd) \<or> 2048 < length (cmd_Reason cmd)
          then set_last_error ''incident controls require actor and reason'' d
          else if cmd_Kind cmd = CommandMergePaused \<and> \<not> cmd_OverridePause cmd
          then set_last_error ''explicit pause override required'' d
          else case find (\<lambda>t. tg_Name t = cmd_Target cmd) (cf_Targets (d_cfg d)) of
            None \<Rightarrow> set_last_error ''unknown target'' d
          | Some t \<Rightarrow>
              if tg_Name t = [] then set_last_error ''unknown target'' d
              else if cmd_Kind cmd = CommandPriority \<or> cmd_Kind cmd = CommandMove \<or> cmd_Kind cmd = CommandUrgent
              then applyScheduling d cmd t refs
              else case control_next d cmd refs of
                Inl e \<Rightarrow> set_last_error e d
              | Inr next \<Rightarrow>
                  (case saveControls d next of
                     (False, d) \<Rightarrow> d
                   | (True, d) \<Rightarrow>
                       if (cmd_Kind cmd = CommandPause \<or> is_merge_command cmd) \<and> mhas (d_lanes d) (cmd_Target cmd)
                       then invalidateSuffix d t 0 (msg [''operator incident control: '', cmd_Reason cmd])
                       else d)))"

text \<open>A pause or resume of \<^verbatim>\<open>*\<close> is applied to every target by recursion; \<open>None\<close> is fuel run out.  A target that is itself named \<^verbatim>\<open>*\<close>
  makes the recursion endless (\<open>applyControl_star_loops\<close>); otherwise a depth of two is enough.\<close>

fun applyControl_fuel :: "nat \<Rightarrow> command \<Rightarrow> (string, string) gomap \<Rightarrow> daemon \<Rightarrow> daemon option" where
  "applyControl_fuel 0 cmd refs d = None"
| "applyControl_fuel (Suc fuel) cmd refs d =
     (if cmd_Target cmd = ''*'' \<and> (cmd_Kind cmd = CommandPause \<or> cmd_Kind cmd = CommandResume)
      then fold (\<lambda>t r. case r of None \<Rightarrow> None
                             | Some d \<Rightarrow> applyControl_fuel fuel (cmd\<lparr>cmd_Target := tg_Name t\<rparr>) refs d)
             (cf_Targets (d_cfg d)) (Some d)
      else Some (applyControl_target d cmd refs))"

definition applyControl :: "daemon \<Rightarrow> command \<Rightarrow> (string, string) gomap \<Rightarrow> daemon option" where
  "applyControl d cmd refs = applyControl_fuel 2 cmd refs d"

section \<open>Retry and cancel\<close>

definition applyRetry :: "daemon \<Rightarrow> command \<Rightarrow> daemon" where
  "applyRetry d cmd = snd (clearParkAndRetry d (cmd_Target cmd) (cmd_Ref cmd) ''retry: park cleared'' [])"

text \<open>The member records as \<open>cancelBatchMember\<close> closes them, and its second loop.\<close>

definition cancel_member :: "daemon \<Rightarrow> string \<Rightarrow> run_member \<Rightarrow> run_member" where
  "cancel_member d ref m =
     (if c_Ref (m_cand m) = ref then close_member d OutcomeRejected cancelDetail m
      else close_member d OutcomeSkipped (msg [''batch member cancelled ('', ref, '')'']) m)"

fun cancel_report :: "string \<Rightarrow> string \<Rightarrow> string \<Rightarrow> run_member list \<Rightarrow> daemon \<Rightarrow> daemon" where
  "cancel_report target runID ref [] d = d"
| "cancel_report target runID ref (m # ms) d =
     (let d = (if c_Ref (m_cand m) = ref
               then park d target (m_cand m) (rr_Outcome (m_rec m)) (rr_Detail (m_rec m)) (rr_RunID (m_rec m)) else d);
          ev = (event_zero (eventKindForOutcome (rr_Outcome (m_rec m))))\<lparr>ev_At := d_now d, ev_Target := target,
                 ev_Candidate := m_cand m, ev_RunID := runID, ev_Record := Some (m_rec m), ev_Detail := rr_Detail (m_rec m)\<rparr> in
      cancel_report target runID ref ms (emit d ev))"

definition cancelBatchMember :: "daemon \<Rightarrow> target_cfg \<Rightarrow> run \<Rightarrow> string \<Rightarrow> daemon" where
  "cancelBatchMember d t r ref =
     (let r = materializeChecks r;
          r = r\<lparr>r_members := map (cancel_member d ref) (r_members r)\<rparr>;
          d = finalizeRun d r in
      cancel_report (tg_Name t) (r_runID r) ref (r_members r) d)"

definition cancelInFlight :: "daemon \<Rightarrow> target_cfg \<Rightarrow> nat \<Rightarrow> string \<Rightarrow> daemon" where
  "cancelInFlight d t i ref =
     (let runs = mget [] (d_lanes d) (tg_Name t);
          r = cancelRun d (runs ! i);
          d = (if 1 < length (r_members r) then cancelBatchMember d t r ref
               else finishRun d t r OutcomeRejected cancelDetail True);
          d = invalidateSuffix d t (i + 1) ''pipeline bubble: operator cancelled a run ahead of it'' in
      set_lane d (tg_Name t) (take i runs))"

definition testing_run :: "string \<Rightarrow> run list \<Rightarrow> nat option" where
  "testing_run ref runs =
     map_option fst (find (\<lambda>(_, r). list_ex (\<lambda>m. c_Ref (m_cand m) = ref) (r_members r)) (enumerate 0 runs))"

definition applyCancel :: "daemon \<Rightarrow> command \<Rightarrow> (string, string) gomap \<Rightarrow> daemon" where
  "applyCancel d cmd refs =
     (case testing_run (cmd_Ref cmd) (mget [] (d_lanes d) (cmd_Target cmd)) of
        Some i \<Rightarrow> cancelInFlight d (target_zero (cmd_Target cmd)) i (cmd_Ref cmd)
      | None \<Rightarrow> cancelWaiting d (cmd_Target cmd) (cmd_Ref cmd) refs)"

definition control_kinds :: "string list" where
  "control_kinds = [CommandPause, CommandResume, CommandUrgent, CommandPriority, CommandMove, CommandMergeAnyway, CommandMergePaused]"

definition applyCommand :: "daemon \<Rightarrow> command \<Rightarrow> (string, string) gomap \<Rightarrow> daemon option" where
  "applyCommand d cmd refs =
     (let guarded = (cmd_Kind cmd = CommandRetry \<or> cmd_Kind cmd = CommandCancel);
          (ok, d) = (if guarded then authorizeCommand d cmd else (True, d)) in
      if \<not> ok then Some d
      else if cmd_Kind cmd \<in> set control_kinds then applyControl d cmd refs
      else if cmd_Kind cmd = CommandRetry then Some (applyRetry d cmd)
      else if cmd_Kind cmd = CommandCancel then Some (applyCancel d cmd refs)
      else Some d)"

text \<open>\<open>cmds\<close> is what the channels have buffered, in the order they are drained.\<close>

fun drainCommands :: "command list \<Rightarrow> (string, string) gomap \<Rightarrow> daemon \<Rightarrow> daemon option" where
  "drainCommands [] refs d = Some d"
| "drainCommands (cmd # cmds) refs d =
     (case applyCommand d cmd refs of None \<Rightarrow> None | Some d \<Rightarrow> drainCommands cmds refs d)"

end
