(* ===== verification/Queue_Reconcile.thy ===== *)
theory Queue_Reconcile
  imports Queue_Commands
begin

text \<open>
  The reconcile loop: requests carried by forge reviews, emergency merges, one pass over a target
  (\<^verbatim>\<open>internal/queue/reconcile.go\<close>), one pass over the daemon, construction and serving (\<^verbatim>\<open>daemon.go\<close>), and the state file at startup
  (\<^verbatim>\<open>controls.go\<close>).
\<close>

section \<open>Requests from reviews\<close>

text \<open>\<open>groups\<close>: the candidates under each request identity, and \<open>ids\<close> its keys.\<close>

definition group_by :: "(candidate \<Rightarrow> string) \<Rightarrow> candidate list \<Rightarrow> (string, candidate list) gomap" where
  "group_by key cs = fold (\<lambda>c m. mput (key c) (mget [] m (key c) @ [c]) m) cs []"

fun emergency_pass :: "candidate list \<Rightarrow> candidate list \<Rightarrow> candidate list" where
  "emergency_pass [] ordered = ordered"
| "emergency_pass (c # cs) ordered =
     (if c_Ref c \<in> c_Ref ` set ordered then emergency_pass cs ordered
      else if c_DependsOn c \<noteq> [] \<and> c_DependsOn c \<notin> c_Ref ` set ordered then emergency_pass cs ordered
      else emergency_pass cs (ordered @ [c]))"

fun emergency_order :: "nat \<Rightarrow> candidate list \<Rightarrow> candidate list \<Rightarrow> candidate list" where
  "emergency_order 0 members ordered = ordered"
| "emergency_order (Suc fuel) members ordered =
     (if length ordered < length members
      then (let ordered' = emergency_pass members ordered in
            if ordered' = ordered then ordered else emergency_order fuel members ordered')
      else ordered)"

definition policy_source :: "daemon \<Rightarrow> (nat \<Rightarrow> candidate \<Rightarrow> string + policy_input) option" where
  "policy_source d = Option.bind (cf_Reviews (d_cfg d)) rs_PolicyInput"

definition request_principal :: "daemon \<Rightarrow> candidate \<Rightarrow> (string + principal option) \<times> daemon" where
  "request_principal d c =
     (case policy_source d of
        None \<Rightarrow> (Inr None, d)
      | Some PolicyInput \<Rightarrow>
          (let d = d\<lparr>d_io := Suc (d_io d)\<rparr> in
           case PolicyInput (d_io d) c of Inl e \<Rightarrow> (Inl e, d) | Inr input \<Rightarrow> (Inr (Some (pi_Principal input)), d)))"

definition request_command :: "target_cfg \<Rightarrow> string \<Rightarrow> principal option \<Rightarrow> candidate list \<Rightarrow> candidate list \<Rightarrow> command" where
  "request_command t request who members ordered =
     \<lparr>cmd_Priority = [], cmd_Preempt = False, cmd_Before = [], cmd_After = [], cmd_PlanToken = [], cmd_Principal = who,
      cmd_RequestID = request, cmd_Actor = msg [''github:'', c_Requester (hd members)], cmd_Reason = c_RequestReason (hd members),
      cmd_OverridePause = False, cmd_Revisions = map revision_of ordered, cmd_Kind = [], cmd_Target = tg_Name t, cmd_Ref = []\<rparr>"

text \<open>The loop stops at the first request it submits; a request that cannot be submitted is passed over.  \<open>applyControl\<close> is entered at its
  body: a merge command is never a pause or a resume.\<close>

fun review_requests ::
  "target_cfg \<Rightarrow> (string, string) gomap \<Rightarrow> (string, candidate list) gomap \<Rightarrow> string list \<Rightarrow> daemon \<Rightarrow> daemon" where
  "review_requests t refs groups [] d = d"
| "review_requests t refs groups (request # ids) d =
     (let (number, parsed) = parse_int request;
          members = mget [] groups request;
          ordered = emergency_order (Suc (length members)) members [] in
      if \<not> parsed \<or> number \<le> ct_ReviewFloor (d_controls d) \<or> mget False (ct_ProcessedReviews (d_controls d)) request
      then review_requests t refs groups ids d
      else if int (length members) \<noteq> c_RequestedCount (hd members) \<or> length ordered \<noteq> length members
      then review_requests t refs groups ids d
      else case request_principal d (hd members) of
        (Inl e, d) \<Rightarrow> review_requests t refs groups ids (set_last_error e d)
      | (Inr who, d) \<Rightarrow>
          applyControl_target d
            ((request_command t request who members ordered)
               \<lparr>cmd_Kind := CommandMergeAnyway, cmd_OverridePause := c_OverridePause (hd members)\<rparr>) refs)"

definition reviewEmergency :: "daemon \<Rightarrow> target_cfg \<Rightarrow> (string, string) gomap \<Rightarrow> (string, candidate) gomap \<Rightarrow> daemon" where
  "reviewEmergency d t refs cands =
     (let groups = group_by c_EmergencyID (filter (\<lambda>c. c_SkipChecks c \<and> c_EmergencyID c \<noteq> []) (map snd cands));
          ids = sort_by (\<lambda>a b. fst (parse_int a) < fst (parse_int b)) (map fst groups) in
      review_requests t refs groups ids d)"

fun preempt_requests ::
  "target_cfg \<Rightarrow> (string, string) gomap \<Rightarrow> (string, candidate list) gomap \<Rightarrow> string list \<Rightarrow> daemon \<Rightarrow> daemon" where
  "preempt_requests t refs groups [] d = d"
| "preempt_requests t refs groups (request # ids) d =
     (let members = mget [] groups request in
      if int (length members) \<noteq> c_RequestedCount (hd members) then preempt_requests t refs groups ids d
      else case request_principal d (hd members) of
        (Inl e, d) \<Rightarrow> preempt_requests t refs groups ids (set_last_error e d)
      | (Inr None, d) \<Rightarrow> preempt_requests t refs groups ids d
      | (Inr (Some who), d) \<Rightarrow>
          preempt_requests t refs groups ids
            (applyControl_target d
               ((request_command t request (Some who) members members)
                  \<lparr>cmd_Kind := CommandPriority, cmd_Priority := ''urgent'', cmd_Preempt := True\<rparr>) refs))"

definition reviewScheduling :: "daemon \<Rightarrow> target_cfg \<Rightarrow> (string, string) gomap \<Rightarrow> (string, candidate) gomap \<Rightarrow> daemon" where
  "reviewScheduling d t refs cands =
     (let groups = group_by c_RequestID (filter (\<lambda>c. c_Preempt c \<and> \<not> c_SkipChecks c \<and> c_RequestID c \<noteq> []
                      \<and> mget [] (ct_Scheduled (d_controls d)) (c_Ref c) \<noteq> c_RequestID c) (map snd cands)) in
      preempt_requests t refs groups (sort_by (<) (map fst groups)) d)"

section \<open>Emergency merges\<close>

fun pick_revisions :: "(string, candidate) gomap \<Rightarrow> revision list \<Rightarrow> candidate list option" where
  "pick_revisions cands [] = Some []"
| "pick_revisions cands (v # vs) =
     (case map_of cands (rev_Ref v) of
        None \<Rightarrow> None
      | Some c \<Rightarrow> if c_SHA c \<noteq> rev_SHA v \<or> c_Version c \<noteq> rev_Version v then None
                  else map_option ((#) c) (pick_revisions cands vs))"

definition start_emergency :: "daemon \<Rightarrow> target_cfg \<Rightarrow> string \<Rightarrow> candidate list \<Rightarrow> daemon" where
  "start_emergency d t tip picked =
     (let d = startBatchRun d t tip picked in
      case headRun d (tg_Name t) of
        None \<Rightarrow> clearEmergency d (tg_Name t) ''emergency history could not be constructed; see run failure''
      | Some r \<Rightarrow>
          if length (r_members r) = length picked then d
          else
           (let d = finishRun d t (cancelRun d r) OutcomeSkipped
                      ''selected emergency prefix crosses a check-spec boundary; select a shorter prefix'' False;
                d = set_lane d (tg_Name t) [] in
            clearEmergency d (tg_Name t) ''select a shorter prefix: check-spec boundary''))"

definition reconcileEmergency :: "daemon \<Rightarrow> target_cfg \<Rightarrow> string \<Rightarrow> (string, candidate) gomap \<Rightarrow> bool \<times> daemon" where
  "reconcileEmergency d t tip cands =
     (if ct_Uncertain (d_controls d) then (True, d)
      else case map_of (ct_Emergency (d_controls d)) (tg_Name t) of
        None \<Rightarrow> (False, d)
      | Some cmd \<Rightarrow>
          if mhas (ct_Pauses (d_controls d)) (tg_Name t) \<and> \<not> cmd_OverridePause cmd then (True, d)
          else if mget [] (d_lanes d) (tg_Name t) \<noteq> [] then (True, snd (advanceLane d t tip cands))
          else if d_draining d then (True, d)
          else case pick_revisions cands (cmd_Revisions cmd) of
            None \<Rightarrow> (True, clearEmergency d (tg_Name t) ''emergency revision changed; request again'')
          | Some picked \<Rightarrow> (True, start_emergency d t tip picked))"

section \<open>One target\<close>

definition reconcileTarget :: "daemon \<Rightarrow> target_cfg \<Rightarrow> (string, string) gomap \<Rightarrow> daemon" where
  "reconcileTarget d t refs =
     (let targetTip = mget [] refs (targetRefName t);
          cands = target_cands d (tg_Name t) refs;
          d = reviewEmergency d t refs cands;
          (d, cands) = policyAdmission d t cands targetTip;
          d = syncBookkeeping d t cands;
          d = reviewScheduling d t refs cands in
      case persistScheduler d of
        (False, d) \<Rightarrow> d
      | (True, d) \<Rightarrow>
         (case reconcileEmergency d t targetTip cands of
            (True, d) \<Rightarrow> d
          | (False, d) \<Rightarrow>
              if mhas (ct_Pauses (d_controls d)) (tg_Name t) \<and> \<not> list_ex (\<lambda>(_, c). c_OverridePause c) cands then d
              else
               (let d = prepareCircuitProbe d (tg_Name t) cands;
                    (concluded, d) = (if mget [] (d_lanes d) (tg_Name t) \<noteq> [] then advanceLane d t targetTip cands else (False, d)) in
                if concluded then d else refillLane d t targetTip cands)))"

section \<open>One pass\<close>

text \<open>The candidates of the review source; an incomplete one ends the pass.\<close>

fun collect_reviews :: "candidate list \<Rightarrow> (string, candidate) gomap \<Rightarrow> bool \<times> (string, candidate) gomap" where
  "collect_reviews [] external = (True, external)"
| "collect_reviews (c # cs) external =
     (if c_Source c = [] \<or> c_Ref c = [] \<or> c_SHA c = [] then (False, external) else collect_reviews cs (mput (c_Ref c) c external))"

definition discover_reviews :: "daemon \<Rightarrow> go_error \<times> daemon" where
  "discover_reviews d =
     (let d = d\<lparr>d_external := []\<rparr> in
      case cf_Reviews (d_cfg d) of
        None \<Rightarrow> (None, d)
      | Some reviews \<Rightarrow>
          (let d = d\<lparr>d_io := Suc (d_io d)\<rparr> in
           case rs_Candidates reviews (d_io d) of
             Inl e \<Rightarrow> (Some (msg [''queue: review admission: '', e]), d)
           | Inr cs \<Rightarrow>
               (case collect_reviews cs [] of
                  (ok, external) \<Rightarrow> (if ok then None else Some ''queue: incomplete review candidate'', d\<lparr>d_external := external\<rparr>))))"

fun merge_external :: "(string, candidate) gomap \<Rightarrow> (string, string) gomap \<Rightarrow> string + (string, string) gomap" where
  "merge_external [] refs = Inr refs"
| "merge_external ((ref, c) # external) refs =
     (if mhas refs ref then Inl (msg [''queue: review slot collides with remote ref '', ref])
      else merge_external external (mput ref (c_SHA c) refs))"

text \<open>The release of deferred pins: a pin goes once the target's fetched tip contains it.\<close>

fun release_pins :: "(string, string) gomap \<Rightarrow> (string, string) gomap \<Rightarrow> daemon \<Rightarrow> daemon" where
  "release_pins refs [] d = d"
| "release_pins refs ((oid, refName) # pins) d =
     (case map_of refs refName of
        None \<Rightarrow> release_pins refs pins d
      | Some tip \<Rightarrow>
          (let d = d\<lparr>d_io := Suc (d_io d)\<rparr> in
           case g_IsAncestor (d_git d) (d_io d) oid tip of
             Inr True \<Rightarrow> (let d = unpin d oid in release_pins refs pins (d\<lparr>d_landedPins := mdel oid (d_landedPins d)\<rparr>))
           | _ \<Rightarrow> release_pins refs pins d))"

text \<open>What a pass reads before it acts: the maintenance of the verification store, the fetch, the reviews and the refs.\<close>

definition observe_remote :: "daemon \<Rightarrow> (string + (string, string) gomap) \<times> daemon" where
  "observe_remote d =
     (let d = d\<lparr>d_io := Suc (d_io d)\<rparr> in
      case cf_maintainVerification (d_cfg d) (d_io d) of
        Some e \<Rightarrow> (Inl (msg [''verification maintenance: '', e]), d)
      | None \<Rightarrow>
         (let d = d\<lparr>d_io := Suc (d_io d)\<rparr> in
          case g_Fetch (d_git d) (d_io d) of
            Some e \<Rightarrow> (Inl (msg [''queue: fetch: '', e]), d)
          | None \<Rightarrow>
             (case discover_reviews d of
                (Some e, d) \<Rightarrow> (Inl e, d)
              | (None, d) \<Rightarrow>
                 (let d = d\<lparr>d_io := Suc (d_io d)\<rparr> in
                  case g_ListRefs (d_git d) (d_io d) (d_remote d) of
                    Inl e \<Rightarrow> (Inl (msg [''queue: list refs: '', e]), d)
                  | Inr refs \<Rightarrow> (merge_external (d_external d) refs, d)))))"

definition pass_targets :: "daemon \<Rightarrow> target_cfg list" where
  "pass_targets d =
     (let targets = cf_Targets (d_cfg d); n = length targets;
          off = (if d_slots d \<noteq> None then nat (d_tick d mod int n) else 0) in
      map (\<lambda>i. targets ! ((off + i) mod n)) [0..<n])"

definition pass_body :: "daemon \<Rightarrow> (string, string) gomap \<Rightarrow> snapshot \<times> daemon" where
  "pass_body d refs =
     (let d = checkIgnoredRefs d refs;
          d = d\<lparr>d_tick := d_tick d + 1\<rparr>;
          d = fold (\<lambda>t d. reconcileTarget d t refs) (pass_targets d) d;
          d = reapTrialRefs d;
          d = (if \<not> d_reaperArmed d \<and> cf_Services (d_cfg d) then d\<lparr>d_reaperArmed := True\<rparr> else d);
          d = snd (persistScheduler d) in
      buildSnapshot d refs)"

text \<open>Pins that are no longer needed go, and parks are seeded, before any command is applied.\<close>

definition pass_start :: "daemon \<Rightarrow> (string, string) gomap \<Rightarrow> daemon" where
  "pass_start d refs = fold (\<lambda>t d. seedParksOnce d (tg_Name t)) (cf_Targets (d_cfg d)) (release_pins refs (d_landedPins d) d)"

text \<open>\<open>None\<close>: the pass does not return (a command recurses for ever).  The snapshot is the one published.\<close>

definition ReconcileOnce :: "daemon \<Rightarrow> command list \<Rightarrow> (go_error \<times> snapshot option \<times> daemon) option" where
  "ReconcileOnce d cmds =
     (let d = prunePrepared (syncDrainRequest d) in
      case observe_remote d of
        (Inl e, d) \<Rightarrow> Some (Some e, None, d)
      | (Inr refs, d) \<Rightarrow>
         (case drainCommands cmds refs (pass_start d refs) of
            None \<Rightarrow> None
          | Some d \<Rightarrow> (case pass_body d refs of (sn, d) \<Rightarrow> Some (None, Some sn, d))))"

definition serve_tick :: "daemon \<Rightarrow> command list \<Rightarrow> daemon option" where
  "serve_tick d cmds =
     (case ReconcileOnce d cmds of
        None \<Rightarrow> None
      | Some (None, _, d) \<Rightarrow> Some d
      | Some (Some e, _, d) \<Rightarrow> Some (emit d ((event_zero EventError)\<lparr>ev_At := d_now d, ev_Detail := e\<rparr>)))"

section \<open>Construction\<close>

text \<open>What the state file holds.  In a decoded state \<open>cr_missing\<close> names the maps that are nil (they read as empty).\<close>

datatype controls_file =
    FileMissing
  | FileOpenError string
  | FileUnreadable
  | FileMalformed
  | FileState control_state "string list"

definition loadControls :: "string \<Rightarrow> controls_file \<Rightarrow> string + control_state" where
  "loadControls path file =
     (if path = [] then Inr controls_zero
      else case file of
        FileMissing \<Rightarrow> Inr controls_zero
      | FileOpenError e \<Rightarrow> Inl e
      | FileUnreadable \<Rightarrow> Inl ''queue controls: cannot read state''
      | FileMalformed \<Rightarrow> Inl ''queue controls: invalid state; refusing to forget incident controls''
      | FileState s missing \<Rightarrow>
          if ct_Version s \<noteq> 1 \<or> ''Pauses'' \<in> set missing \<or> ''Emergency'' \<in> set missing
          then Inl ''queue controls: invalid state; refusing to forget incident controls''
          else if ct_Checkpoint s \<and> (''Order'' \<in> set missing \<or> ''Parks'' \<in> set missing \<or> ''AutoRetried'' \<in> set missing)
          then Inl ''queue controls: incomplete scheduler checkpoint''
          else Inr (s\<lparr>ct_Uncertain := False\<rparr>))"

text \<open>\<open>d_stored\<close> starts as what the file holds.\<close>

definition stored_controls :: "string \<Rightarrow> controls_file \<Rightarrow> control_state option" where
  "stored_controls path file =
     (if path = [] then None else case file of FileState s _ \<Rightarrow> Some (s\<lparr>ct_Uncertain := False\<rparr>) | _ \<Rightarrow> None)"

fun check_targets :: "bool \<Rightarrow> bool \<Rightarrow> target_cfg list \<Rightarrow> string list \<Rightarrow> go_error" where
  "check_targets lin reviews [] seen = None"
| "check_targets lin reviews (t # ts) seen =
     (if tg_Landing t = ''squash'' \<and> \<not> lin then Some (msg [''queue: linear git backend required for target '', go_quote (tg_Name t)])
      else if reviews \<and> tg_Landing t \<noteq> ''squash'' then Some ''queue: review sources require squash landings''
      else if tg_Name t = [] \<or> tg_Branch t = [] then Some ''queue: target must have both name and branch''
      else if tg_Name t \<in> set seen then Some (msg [''queue: duplicate target '', go_quote (tg_Name t)])
      else check_targets lin reviews ts (tg_Name t # seen))"

definition next_seq :: "(string, (string, int) gomap) gomap \<Rightarrow> int" where
  "next_seq order = fold (\<lambda>(_, refs) sq. fold (\<lambda>(_, n) sq. if sq \<le> n then i64 (n + 1) else sq) refs sq) order 0"

definition New ::
  "git_repo \<Rightarrow> config \<Rightarrow> slots option \<Rightarrow> go_time \<Rightarrow> (string \<Rightarrow> go_error) \<Rightarrow> controls_file \<Rightarrow> (string, string) gomap \<Rightarrow> string + daemon" where
  "New git cfg slots now parseTemplate file remote =
     (if cf_Targets cfg = [] then Inl ''queue: at least one target is required''
      else if cf_CheckSpec cfg = [] then Inl ''queue: check spec path is required''
      else if id_Name (cf_Committer cfg) = [] \<or> id_Email (cf_Committer cfg) = []
      then Inl ''queue: committer identity (name and email) is required''
      else case (if cf_MergeMessage cfg \<noteq> [] then parseTemplate (cf_MergeMessage cfg) else None) of
        Some e \<Rightarrow> Inl (msg [''queue: merge-message template: '', e])
      | None \<Rightarrow>
         (case check_targets (g_Linear git \<noteq> None) (cf_Reviews cfg \<noteq> None) (cf_Targets cfg) [] of
            Some e \<Rightarrow> Inl e
          | None \<Rightarrow>
             (case loadControls (cf_ControlPath cfg) file of
                Inl e \<Rightarrow> Inl e
              | Inr controls \<Rightarrow>
                 Inr \<lparr>d_admission = [], d_controls = controls, d_schedulerDirty = False, d_external = [], d_git = git, d_cfg = cfg,
                   d_slots = slots, d_now = now, d_order = cloneNested (ct_Order controls), d_done = cloneNested (ct_Parks controls),
                   d_seq = next_seq (ct_Order controls), d_autoRetried = cloneNested (ct_AutoRetried controls),
                   d_ignoredRefs = [], d_lanes = [], d_urgentBurst = [], d_batchRecovery = [], d_batchFallback = [],
                   d_seeded = (if ct_Checkpoint controls then map (\<lambda>t. (tg_Name t, True)) (cf_Targets cfg) else []),
                   d_landedPins = [], d_trialReap = [], d_idleSince = 0, d_reaperArmed = False, d_tick = 0,
                   d_drainReq = False, d_drainReqDL = 0, d_draining = False, d_drainSince = 0, d_drainDeadline = 0,
                   d_runIDCounter = 0, d_io = 0, d_stored = stored_controls (cf_ControlPath cfg) file, d_remote = remote, d_pushes = [], d_pins = [],
                   d_events = [], d_jobs = []\<rparr>)))"

end
