(* ===== verification/Queue_System.thy ===== *)
theory Queue_System
  imports Queue_Reconcile
begin

text \<open>
  The daemon as a transition system: what every part of a pass may do to the lanes and to the remote, the invariant that follows, and the
  runs of the system it covers.
\<close>

section \<open>Settling\<close>

text \<open>\<open>settles d d'\<close>: from the first state to the second the lanes only lost runs at their ends, and nothing was pushed but removals and
  trial refs.  Every operation of the daemon outside \<open>advanceLane\<close> and the refill is of this kind.\<close>

definition settles :: "daemon \<Rightarrow> daemon \<Rightarrow> bool" where
  "settles d d' =
     (d_git d' = d_git d \<and> d_cfg d' = d_cfg d \<and> d_now d' = d_now d \<and> d_draining d' = d_draining d
      \<and> grows (aux_push d) (d_pushes d) (d_pushes d')
      \<and> (\<forall>n. prefix (mget [] (d_lanes d') n) (mget [] (d_lanes d) n)))"

lemma settles_refl [simp]: "settles d d"
  by (simp add: settles_def)

lemma settles_trans: "settles d d' \<Longrightarrow> settles d' d'' \<Longrightarrow> settles d d''"
  using aux_push_cong [of d' d] grows_trans [of "aux_push d" "d_pushes d" "d_pushes d'" "d_pushes d''"]
  by (auto simp: settles_def intro: prefix_order.trans)

lemma calm_settles: "calm d d' \<Longrightarrow> settles d d'"
  by (simp add: calm_def settles_def)

lemma settles_calm: "settles d d1 \<Longrightarrow> calm d1 d2 \<Longrightarrow> settles d d2"
  by (rule settles_trans [OF _ calm_settles])

lemma settles_quiet:
  assumes "settles d d1" "d_git d2 = d_git d1" "d_cfg d2 = d_cfg d1" "d_now d2 = d_now d1" "d_draining d2 = d_draining d1"
    "d_pushes d2 = d_pushes d1" "d_lanes d2 = d_lanes d1"
  shows "settles d d2"
  using assms by (simp add: settles_def)

lemma settles_fields [simp]:
  "settles d (d1\<lparr>d_controls := x0\<rparr>) = settles d d1"
  "settles d (d1\<lparr>d_io := x1\<rparr>) = settles d d1"
  "settles d (d1\<lparr>d_done := x2\<rparr>) = settles d d1"
  "settles d (d1\<lparr>d_order := x3\<rparr>) = settles d d1"
  "settles d (d1\<lparr>d_seq := x4\<rparr>) = settles d d1"
  "settles d (d1\<lparr>d_schedulerDirty := x5\<rparr>) = settles d d1"
  "settles d (d1\<lparr>d_autoRetried := x6\<rparr>) = settles d d1"
  "settles d (d1\<lparr>d_ignoredRefs := x7\<rparr>) = settles d d1"
  "settles d (d1\<lparr>d_seeded := x8\<rparr>) = settles d d1"
  "settles d (d1\<lparr>d_events := x9\<rparr>) = settles d d1"
  "settles d (d1\<lparr>d_landedPins := x10\<rparr>) = settles d d1"
  "settles d (d1\<lparr>d_pins := x11\<rparr>) = settles d d1"
  "settles d (d1\<lparr>d_trialReap := x12\<rparr>) = settles d d1"
  "settles d (d1\<lparr>d_tick := x13\<rparr>) = settles d d1"
  "settles d (d1\<lparr>d_reaperArmed := x14\<rparr>) = settles d d1"
  "settles d (d1\<lparr>d_idleSince := x15\<rparr>) = settles d d1"
  "settles d (d1\<lparr>d_external := x16\<rparr>) = settles d d1"
  "settles d (d1\<lparr>d_batchRecovery := x17\<rparr>) = settles d d1"
  "settles d (d1\<lparr>d_batchFallback := x18\<rparr>) = settles d d1"
  "settles d (d1\<lparr>d_urgentBurst := x19\<rparr>) = settles d d1"
  "settles d (d1\<lparr>d_runIDCounter := x20\<rparr>) = settles d d1"
  "settles d (d1\<lparr>d_slots := x21\<rparr>) = settles d d1"
  "settles d (d1\<lparr>d_admission := x22\<rparr>) = settles d d1"
  "settles d (d1\<lparr>d_jobs := x23\<rparr>) = settles d d1"
  "settles d (d1\<lparr>d_stored := x24\<rparr>) = settles d d1"
  by (simp_all add: settles_def)


lemma settles_saveControls [simp]: "settles d d1 \<Longrightarrow> settles d (snd (saveControls d1 c))"
  by (erule settles_quiet) simp_all

lemma settles_emit [simp]: "settles d d1 \<Longrightarrow> settles d (emit d1 ev)"
  by (erule settles_quiet) simp_all

lemma settles_casDelete [simp]: "settles d d1 \<Longrightarrow> settles d (snd (casUpdate d1 ref old []))"
  by (erule settles_calm) simp

lemma settles_set_last_error [simp]: "settles d d1 \<Longrightarrow> settles d (set_last_error e d1)"
  by (simp add: set_last_error_def)

lemma settles_persist [simp]: "settles d d1 \<Longrightarrow> settles d (snd (persistScheduler d1))"
  by (simp add: persistScheduler_def Let_def split_beta split: bool.split)

lemma settles_clearEmergency [simp]: "settles d d1 \<Longrightarrow> settles d (clearEmergency d1 t reason)"
  by (erule settles_quiet) simp_all

lemma settles_newRunID [simp]: "settles d d1 \<Longrightarrow> settles d (snd (newRunID d1 now oid))"
  by (simp add: newRunID_def Let_def)

lemma settles_park [simp]: "settles d d1 \<Longrightarrow> settles d (park d1 target cand oc detail runID)"
  by (simp add: park_def)

lemma settles_stamp [simp]: "settles d d1 \<Longrightarrow> settles d (stamp_enqueued refs d1)"
  by (induction refs arbitrary: d1) (simp_all add: Let_def)

lemma settles_enqueue [simp]: "settles d d1 \<Longrightarrow> settles d (enqueue_new target cands refs d1)"
  by (induction refs arbitrary: d1) (simp_all add: Let_def)

lemma settles_sync [simp]: "settles d d1 \<Longrightarrow> settles d (syncBookkeeping d1 t cands)"
  by (simp add: syncBookkeeping_def sync_budgets_def sync_parks_def sync_vanished_def Let_def split: option.split)

lemma settles_recordPolicy [simp]: "settles d d1 \<Longrightarrow> settles d (snd (recordPolicyDecision d1 ref sha phase input dec err))"
  by (erule settles_calm) simp

lemma settles_authorize [simp]: "settles d d1 \<Longrightarrow> settles d (snd (authorizeCommand d1 cmd))"
proof -
  assume "settles d d1"
  then have f: "case command_facts d1 cmd of Inl d2 \<Rightarrow> settles d d2 | Inr (_, d2) \<Rightarrow> settles d d2"
    by (simp add: command_facts_def Let_def split: option.split sum.split list.split)
  then show ?thesis
    by (cases "command_facts d1 cmd") (auto simp add: authorizeCommand_def Let_def split_beta split: option.split)
qed

lemma settles_clearPark [simp]: "settles d d1 \<Longrightarrow> settles d (snd (clearParkAndRetry d1 target ref a b))"
  by (simp add: clearParkAndRetry_def Let_def split: option.split)

lemma settles_cancelWaiting [simp]: "settles d d1 \<Longrightarrow> settles d (cancelWaiting d1 target ref refs)"
  by (simp add: cancelWaiting_def Let_def split_beta split: option.split)

lemma settles_seed [simp]: "settles d d1 \<Longrightarrow> settles d (seedParksOnce d1 target)"
proof -
  have "settles d D \<Longrightarrow> settles d (fold (seed_park target) seeds D)" for seeds D
    by (induction seeds arbitrary: D) (simp_all add: seed_park_def)
  then show "settles d d1 \<Longrightarrow> ?thesis" by (simp add: seedParksOnce_def Let_def split: option.split)
qed

lemma settles_seed_all: "settles d d1 \<Longrightarrow> settles d (fold (\<lambda>t d. seedParksOnce d (tg_Name t)) ts d1)"
  by (induction ts arbitrary: d1) simp_all

lemma settles_check_ignored [simp]: "settles d d1 \<Longrightarrow> settles d (snd (check_ignored d1 refs seen))"
  by (induction d1 refs seen rule: check_ignored.induct) (simp_all add: Let_def split_beta split: option.split)

lemma settles_ignored [simp]: "settles d d1 \<Longrightarrow> settles d (checkIgnoredRefs d1 refs)"
  by (simp add: checkIgnoredRefs_def split_beta)

lemma settles_evaluatePolicy [simp]: "settles d d1 \<Longrightarrow> settles d (snd (evaluatePolicy d1 t c base ms checks phase skip override given))"
  by (erule settles_quiet) simp_all

lemma settles_admit [simp]: "settles d d1 \<Longrightarrow> settles d (fst (admit t all base rest d1 cands))"
proof (induction rest arbitrary: d1 cands)
  case (Cons e rest)
  obtain ref c where e: "e = (ref, c)" by (cases e)
  show ?case using Cons unfolding e by (simp add: Let_def split_beta split: option.split)
qed simp

lemma settles_admission [simp]: "settles d d1 \<Longrightarrow> settles d (fst (policyAdmission d1 t cands base))"
  by (simp add: policyAdmission_def)

lemma settles_probe [simp]: "settles d d1 \<Longrightarrow> settles d (prepareCircuitProbe d1 target cands)"
  by (simp add: prepareCircuitProbe_def Let_def split_beta split: option.split)

lemma settles_prune [simp]: "settles d d1 \<Longrightarrow> settles d (prunePrepared d1)"
  by (simp add: prunePrepared_def Let_def)

lemma settles_reap [simp]: "settles d d1 \<Longrightarrow> settles d (reapTrialRefs d1)"
proof -
  have "settles d D \<Longrightarrow> settles d (reap_trials now rest D)" for now rest D
    by (induction now rest D rule: reap_trials.induct) (simp_all add: split_beta)
  then show "settles d d1 \<Longrightarrow> ?thesis" by (simp add: reapTrialRefs_def)
qed

lemma settles_unpin [simp]: "settles d d1 \<Longrightarrow> settles d (unpin d1 oid)"
  by (simp add: unpin_def)

lemma settles_release [simp]: "settles d d1 \<Longrightarrow> settles d (release_pins refs pins d1)"
proof (induction pins arbitrary: d1)
  case (Cons e pins)
  obtain oid refName where e: "e = (oid, refName)" by (cases e)
  show ?case using Cons unfolding e by (simp add: Let_def split: option.split sum.split bool.split)
qed simp

lemma settles_pass_start: "settles d d1 \<Longrightarrow> settles d (pass_start d1 refs)"
  unfolding pass_start_def by (intro settles_seed_all settles_release)

lemma settles_snapshot [simp]: "settles d d1 \<Longrightarrow> settles d (snd (buildSnapshot d1 refs))"
  by (simp add: buildSnapshot_def Let_def)

lemma settles_observe [simp]: "settles d d1 \<Longrightarrow> settles d (snd (observe_remote d1))"
  by (simp add: observe_remote_def discover_reviews_def Let_def split_beta split: option.split sum.split)


section \<open>Discarding runs\<close>

lemma settles_removing:
  assumes "settles d d1" "d_git d2 = d_git d1" "d_cfg d2 = d_cfg d1" "d_now d2 = d_now d1" "d_draining d2 = d_draining d1"
    "grows (\<lambda>p. ps_new p = []) (d_pushes d1) (d_pushes d2)" "d_lanes d2 = d_lanes d1"
  shows "settles d d2"
proof -
  have "grows (aux_push d) (d_pushes d1) (d_pushes d2)" using assms(6) by (rule grows_mono) (simp add: aux_push_def)
  then show ?thesis using assms grows_trans [of "aux_push d" "d_pushes d" "d_pushes d1" "d_pushes d2"] by (simp add: settles_def)
qed

lemma trial_drop_removes: "grows (trial_drop r) xs ys \<Longrightarrow> grows (\<lambda>p. ps_new p = []) xs ys"
  by (erule grows_mono) (auto simp: trial_drop_def)

lemma settles_finishRun [simp]: "settles d d1 \<Longrightarrow> settles d (finishRun d1 t r oc detail parked)"
  by (erule settles_removing) (simp_all add: trial_drop_removes [OF finishRun_pushes])

lemma settles_finalizeRun [simp]: "settles d d1 \<Longrightarrow> settles d (finalizeRun d1 r)"
  by (erule settles_removing) (simp_all add: trial_drop_removes [OF finalizeRun_pushes])

lemma settles_skip_runs [simp]: "settles d d1 \<Longrightarrow> settles d (skip_runs t reason rs d1)"
  by (induction rs arbitrary: d1) simp_all

lemma settles_set_lane:
  "settles d d1 \<Longrightarrow> prefix runs (mget [] (d_lanes d) n) \<Longrightarrow> settles d (set_lane d1 n runs)"
  by (simp add: settles_def set_lane_lanes)

lemma settles_lane: "settles d d1 \<Longrightarrow> prefix (mget [] (d_lanes d1) n) (mget [] (d_lanes d) n)"
  by (simp add: settles_def)

lemma settles_invalidate [simp]: "settles d d1 \<Longrightarrow> settles d (invalidateSuffix d1 t i reason)"
  using prefix_order.trans [OF take_is_prefix settles_lane, of d d1]
  by (simp add: invalidateSuffix_def Let_def settles_set_lane)

lemma settles_cancel_report [simp]: "settles d d1 \<Longrightarrow> settles d (cancel_report target runID ref ms d1)"
  by (induction ms arbitrary: d1) (simp_all add: Let_def)

lemma settles_cancelInFlight [simp]: "settles d d1 \<Longrightarrow> settles d (cancelInFlight d1 t i ref)"
  using prefix_order.trans [OF take_is_prefix settles_lane, of d d1]
  by (simp add: cancelInFlight_def cancelBatchMember_def Let_def settles_set_lane)

section \<open>Commands\<close>

lemma settles_schedule_next [simp]: "settles d d1 \<Longrightarrow> settles d (snd (snd (schedule_next d1 cmd impact)))"
  by (simp add: schedule_next_def Let_def split_beta)

lemma settles_preempt [simp]: "settles d d1 \<Longrightarrow> settles d (preempt_runs d1 t cmd impact)"
  by (simp add: preempt_runs_def split: list.split)

lemma settles_scheduling [simp]: "settles d d1 \<Longrightarrow> settles d (applyScheduling d1 cmd t refs)"
proof -
  assume s: "settles d d1"
  define c where "c = (if cmd_Kind cmd = CommandUrgent then cmd\<lparr>cmd_Priority := ''urgent''\<rparr> else cmd)"
  obtain sn d2 where 2: "buildSnapshot (syncBookkeeping d1 t (target_cands d1 (cmd_Target c) refs)) refs = (sn, d2)" by fastforce
  obtain impact err where 3: "PlanSchedule (cf_planToken (d_cfg d2)) (snapshot_of sn (cmd_Target c)) c = (impact, err)" by fastforce
  obtain nxt ordered d4 where 4: "schedule_next d2 c impact = (nxt, ordered, d4)" by (metis prod_cases3)
  obtain ok d5 where 5: "saveControls d4 nxt = (ok, d5)" by fastforce
  have s2: "settles d d2"
    using settles_snapshot [OF settles_sync [OF s], of t "target_cands d1 (cmd_Target c) refs" refs] 2 by simp
  have s4: "settles d d4" using settles_schedule_next [OF s2, of c impact] 4 by simp
  have s5: "settles d d5" using settles_saveControls [OF s4, of nxt] 5 by simp
  have "settles d (case err of Some e \<Rightarrow> set_last_error e d2 | None \<Rightarrow>
      if cmd_PlanToken c \<noteq> [] \<and> cmd_PlanToken c \<noteq> si_Token impact then set_last_error a d2
      else if si_PreemptRequired impact \<and> \<not> cmd_Preempt c then set_last_error b d2
      else case ok of False \<Rightarrow> d5 | True \<Rightarrow> preempt_runs (if P then d5\<lparr>d_order := x\<rparr> else d5) t c impact)" for a b P x
    using s2 s5 by (simp split: option.split bool.split)
  then show ?thesis using s unfolding applyScheduling_def c_def [symmetric] Let_def 2 prod.case 3 4 5 by simp
qed

lemma settles_control [simp]: "settles d d1 \<Longrightarrow> settles d (applyControl_target d1 cmd refs)"
proof -
  assume s: "settles d d1"
  obtain ok d2 where a: "authorizeCommand d1 cmd = (ok, d2)" by (cases "authorizeCommand d1 cmd")
  have s2: "settles d d2" using settles_authorize [OF s, of cmd] a by simp
  have s3: "settles d d3" if "saveControls d2 c = (ok, d3)" for ok d3 c
    using settles_saveControls [OF s2, of c] that by simp
  show ?thesis using s s2 unfolding applyControl_target_def a Let_def
    by (auto split: bool.split option.split sum.split prod.split dest: s3)
qed

lemma settles_control_fuel: "settles d d1 \<Longrightarrow> applyControl_fuel fuel cmd refs d1 = Some d2 \<Longrightarrow> settles d d2"
proof (induction fuel arbitrary: cmd d1 d2)
  case (Suc fuel)
  let ?f = "\<lambda>t r. case r of None \<Rightarrow> None | Some d \<Rightarrow> applyControl_fuel fuel (cmd\<lparr>cmd_Target := tg_Name t\<rparr>) refs d"
  have "fold ?f ts r = Some d2 \<Longrightarrow> (case r of None \<Rightarrow> True | Some d3 \<Rightarrow> settles d d3) \<Longrightarrow> settles d d2" for ts r
  proof (induction ts arbitrary: r)
    case (Cons t ts)
    have "case ?f t r of None \<Rightarrow> True | Some d3 \<Rightarrow> settles d d3"
      using Cons.prems(2) Suc.IH by (auto split: option.splits)
    then show ?case using Cons.IH [of "?f t r"] Cons.prems(1) by simp
  qed simp
  from this [of "cf_Targets (d_cfg d1)" "Some d1"] show ?case using Suc.prems
    by (cases "cmd_Target cmd = ''*'' \<and> (cmd_Kind cmd = CommandPause \<or> cmd_Kind cmd = CommandResume)") auto
qed simp

lemma settles_command:
  assumes "settles d d1" "applyCommand d1 cmd refs = Some d2"
  shows "settles d d2"
proof -
  obtain ok d3 where a: "(if cmd_Kind cmd = CommandRetry \<or> cmd_Kind cmd = CommandCancel then authorizeCommand d1 cmd else (True, d1)) = (ok, d3)"
    by fastforce
  have s: "settles d d3" using assms(1) a by (metis settles_authorize snd_conv)
  have "settles d (applyRetry d3 cmd)" "settles d (applyCancel d3 cmd refs)"
    using s by (simp_all add: applyRetry_def applyCancel_def split: option.split)
  then show ?thesis
    using assms(2) s settles_control_fuel [OF s, of 2 cmd refs d2] unfolding applyCommand_def Let_def a applyControl_def
    by (auto split: if_splits)
qed

lemma settles_drain: "settles d d1 \<Longrightarrow> drainCommands cmds refs d1 = Some d2 \<Longrightarrow> settles d d2"
  by (induction cmds arbitrary: d1) (auto split: option.splits dest: settles_command)

lemma settles_principal [simp]: "settles d d1 \<Longrightarrow> settles d (snd (request_principal d1 c))"
  by (simp add: request_principal_def Let_def split: option.split sum.split)

lemma settles_review_requests [simp]: "settles d d1 \<Longrightarrow> settles d (review_requests t refs groups ids d1)"
proof (induction ids arbitrary: d1)
  case (Cons request ids)
  then show ?case
    by (auto simp add: Let_def split_beta split: sum.split)
qed simp

lemma settles_reviewEmergency [simp]: "settles d d1 \<Longrightarrow> settles d (reviewEmergency d1 t refs cands)"
  by (simp add: reviewEmergency_def Let_def)

lemma settles_preempt_requests [simp]: "settles d d1 \<Longrightarrow> settles d (preempt_requests t refs groups ids d1)"
proof (induction ids arbitrary: d1)
  case (Cons request ids)
  then show ?case
    by (auto simp add: Let_def split_beta split: sum.split option.split)
qed simp

lemma settles_reviewScheduling [simp]: "settles d d1 \<Longrightarrow> settles d (reviewScheduling d1 t refs cands)"
  by (simp add: reviewScheduling_def Let_def)

section \<open>A pass over a lane\<close>

text \<open>What \<open>advanceLane\<close> leaves of the lanes: of its own target a part of the runs, possibly with more results; the others untouched.\<close>

lemma frame_gates [simp]:
  "d_now (snd (validate_members rs em ms d)) = d_now d" "d_draining (snd (validate_members rs em ms d)) = d_draining d"
  "d_now (snd (policy_gate t r fresh ms d)) = d_now d" "d_draining (snd (policy_gate t r fresh ms d)) = d_draining d"
  "d_now (snd (fresh_inputs d rs r)) = d_now d" "d_draining (snd (fresh_inputs d rs r)) = d_draining d"
  "d_now (snd (receipt_gate d r)) = d_now d" "d_draining (snd (receipt_gate d r)) = d_draining d"
  by (induction ms arbitrary: d) (simp_all add: fresh_inputs_def receipt_gate_def Let_def split_beta split: option.split sum.split)

lemma frame_review [simp]: "d_now (snd (review_gate d r)) = d_now d" "d_draining (snd (review_gate d r)) = d_draining d"
  by (simp_all add: review_gate_def split_beta split: option.split sum.split)

lemma frame_land_members [simp]:
  "d_git (snd (land_members t r ms d)) = d_git d" "d_cfg (snd (land_members t r ms d)) = d_cfg d"
  "d_now (snd (land_members t r ms d)) = d_now d" "d_lanes (snd (land_members t r ms d)) = d_lanes d"
  "d_draining (snd (land_members t r ms d)) = d_draining d"
  by (induction ms arbitrary: d) (simp_all add: land_member_def delete_slot_def Let_def split_beta split: option.split)

lemma landRun_frame:
  "d_git (landRun d t r) = d_git d" "d_cfg (landRun d t r) = d_cfg d" "d_now (landRun d t r) = d_now d"
  "d_lanes (landRun d t r) = d_lanes d" "d_draining (landRun d t r) = d_draining d"
  by (simp_all add: landRun_def stop_landing_def push_failed_def push_done_def Let_def split_beta split: option.split sum.split git_error.split)

lemma land_prefix_lanes:
  assumes "land_prefix t runs b d = (c, d')" "mget [] (d_lanes d) (tg_Name t) = runs"
  shows "\<exists>k. mget [] (d_lanes d') (tg_Name t) = drop k runs"
    and "n \<noteq> tg_Name t \<Longrightarrow> mget [] (d_lanes d') n = mget [] (d_lanes d) n"
    and "d_git d' = d_git d" "d_cfg d' = d_cfg d" "d_now d' = d_now d" "d_draining d' = d_draining d"
proof -
  have "(\<exists>k. mget [] (d_lanes d') (tg_Name t) = drop k runs) \<and> (\<forall>n. n \<noteq> tg_Name t \<longrightarrow> mget [] (d_lanes d') n = mget [] (d_lanes d) n)
      \<and> d_git d' = d_git d \<and> d_cfg d' = d_cfg d \<and> d_now d' = d_now d \<and> d_draining d' = d_draining d"
    using assms
  proof (induction runs arbitrary: b d)
    case (Cons r rs)
    show ?case
    proof (cases "r_verdict r = verdictGreen")
      case True
      let ?d = "set_lane (landRun d t r) (tg_Name t) rs"
      have "land_prefix t rs True ?d = (c, d')" "mget [] (d_lanes ?d) (tg_Name t) = rs" using Cons.prems True by simp_all
      from Cons.IH [OF this] obtain k where "mget [] (d_lanes d') (tg_Name t) = drop (Suc k) (r # rs)" by auto
      then show ?thesis using Cons.IH [OF \<open>land_prefix t rs True ?d = (c, d')\<close>]
        by (auto simp: set_lane_lanes landRun_frame intro: exI [of _ "Suc k"])
    next
      case False
      then show ?thesis using Cons.prems by (auto intro: exI [of _ 0])
    qed
  qed (auto intro: exI [of _ 0])
  then show "\<exists>k. mget [] (d_lanes d') (tg_Name t) = drop k runs"
    and "n \<noteq> tg_Name t \<Longrightarrow> mget [] (d_lanes d') n = mget [] (d_lanes d) n"
    and "d_git d' = d_git d" "d_cfg d' = d_cfg d" "d_now d' = d_now d" "d_draining d' = d_draining d" by blast+
qed

text \<open>\<open>progresses d t d'\<close>: like settling, but the runs of the target may have gained results, and the target may have been
  advanced to a tested tip.\<close>

definition offspring :: "run list \<Rightarrow> run \<Rightarrow> bool" where
  "offspring runs r' \<longleftrightarrow> lane_run r' \<and> (\<exists>r \<in> set runs. same_run r r')"

lemma offspring_self: "lane_run r \<Longrightarrow> r \<in> set runs \<Longrightarrow> offspring runs r"
  unfolding offspring_def by (metis same_run_refl)

definition progresses :: "daemon \<Rightarrow> target_cfg \<Rightarrow> daemon \<Rightarrow> bool" where
  "progresses d t d' =
     (d_git d' = d_git d \<and> d_cfg d' = d_cfg d \<and> d_now d' = d_now d \<and> d_draining d' = d_draining d
      \<and> grows (\<lambda>p. aux_push d p \<or> (\<exists>r. offspring (mget [] (d_lanes d) (tg_Name t)) r \<and> tested_green r \<and> p = target_push t r))
          (d_pushes d) (d_pushes d')
      \<and> list_all (offspring (mget [] (d_lanes d) (tg_Name t))) (mget [] (d_lanes d') (tg_Name t))
      \<and> length (mget [] (d_lanes d') (tg_Name t)) \<le> length (mget [] (d_lanes d) (tg_Name t))
      \<and> (\<forall>n. n \<noteq> tg_Name t \<longrightarrow> mget [] (d_lanes d') n = mget [] (d_lanes d) n))"

lemma land_prefix_lands:
  assumes "list_all lane_run runs"
  shows "grows (\<lambda>p. ps_new p = [] \<or> (\<exists>r \<in> set runs. tested_green r \<and> p = target_push t r)) (d_pushes d) (d_pushes (snd (land_prefix t runs b d)))"
  using land_prefix_pushes [of runs t d b]
proof (rule grows_mono)
  fix p
  assume "\<exists>r \<in> set runs. trial_drop r p \<or> r_verdict r = verdictGreen \<and> (p = target_push t r \<or> slot_drop r p)"
  then obtain r where r: "r \<in> set runs" "trial_drop r p \<or> r_verdict r = verdictGreen \<and> (p = target_push t r \<or> slot_drop r p)" by blast
  have "lane_run r" using assms r(1) by (simp add: list_all_iff)
  then show "ps_new p = [] \<or> (\<exists>r \<in> set runs. tested_green r \<and> p = target_push t r)"
    using r by (auto simp: lane_run_def trial_drop_def slot_drop_def)
qed

lemma settles_finish_red [simp]: "settles d d1 \<Longrightarrow> settles d (finish_red d1 t runs i)"
proof -
  have e: "settles d D \<Longrightarrow> settles d (emit_skips target detail ms D)" for target detail ms D
    by (induction ms arbitrary: D) simp_all
  have g: "settles d D \<Longrightarrow> settles d (governorFeedback D t r oc)" for D r oc
    by (erule settles_quiet) simp_all
  show "settles d d1 \<Longrightarrow> settles d (finish_red d1 t runs i)"
    by (simp add: finish_red_def finishBatchRed_def Let_def split_beta e g)
qed

lemma progresses_settles:
  assumes "settles (set_lane d1 (tg_Name t) runs) d2" "steady d d1" "list_all (offspring (mget [] (d_lanes d) (tg_Name t))) runs"
    "length runs = length (mget [] (d_lanes d) (tg_Name t))"
    "\<And>n. n \<noteq> tg_Name t \<Longrightarrow> mget [] (d_lanes d2) n = mget [] (d_lanes d1) n"
  shows "progresses d t d2"
proof -
  have "prefix (mget [] (d_lanes d2) (tg_Name t)) runs" using settles_lane [OF assms(1), of "tg_Name t"] by simp
  then have "list_all (offspring (mget [] (d_lanes d) (tg_Name t))) (mget [] (d_lanes d2) (tg_Name t))"
    "length (mget [] (d_lanes d2) (tg_Name t)) \<le> length (mget [] (d_lanes d) (tg_Name t))"
    using assms(3,4) by (auto simp: list_all_iff dest: set_mono_prefix prefix_length_le)
  moreover have "aux_push (set_lane d1 (tg_Name t) runs) = aux_push d" using assms(2) by (intro aux_push_cong) (simp add: steady_def)
  then have "grows (\<lambda>p. aux_push d p \<or> Q p) (d_pushes d) (d_pushes d2)" for Q
    using assms(1,2) by (auto simp: settles_def steady_def elim: grows_mono)
  ultimately show ?thesis using assms(1,2,5) by (auto simp: progresses_def settles_def steady_def)
qed

lemma invalidateSuffix_lanes:
  "mget [] (d_lanes (invalidateSuffix d t i reason)) n =
     (if n = tg_Name t then take i (mget [] (d_lanes d) (tg_Name t)) else mget [] (d_lanes d) n)"
proof -
  have "d_lanes (skip_runs t reason rs D) = d_lanes D" for rs D by (induction rs arbitrary: D) simp_all
  then show ?thesis by (simp add: invalidateSuffix_def Let_def set_lane_lanes)
qed

lemma finish_red_lanes: "d_lanes (finish_red d t runs i) = d_lanes d"
proof -
  have "d_lanes (emit_skips target detail ms D) = d_lanes D" for target detail ms D by (induction ms arbitrary: D) simp_all
  then show ?thesis by (simp add: finish_red_def finishBatchRed_def Let_def split_beta)
qed

lemma land_prefix_progresses:
  assumes "steady d d1" "list_all (offspring (mget [] (d_lanes d) (tg_Name t))) runs"
    "length runs = length (mget [] (d_lanes d) (tg_Name t))"
  shows "progresses d t (snd (land_prefix t runs b (set_lane d1 (tg_Name t) runs)))"
proof -
  let ?d1 = "set_lane d1 (tg_Name t) runs" and ?R = "offspring (mget [] (d_lanes d) (tg_Name t))"
  obtain c d' where lp: "land_prefix t runs b ?d1 = (c, d')" by fastforce
  note l = land_prefix_lanes [OF lp set_lane_frame(9)]
  from l(1) obtain k where k: "mget [] (d_lanes d') (tg_Name t) = drop k runs" by blast
  have "list_all lane_run runs" using assms(2) by (simp add: list_all_iff offspring_def)
  from land_prefix_lands [OF this, of t ?d1 b]
  have "grows (\<lambda>p. aux_push d p \<or> (\<exists>r. ?R r \<and> tested_green r \<and> p = target_push t r)) (d_pushes d1) (d_pushes d')"
    unfolding lp set_lane_frame snd_conv by (rule grows_mono) (use assms(2) in \<open>auto simp: aux_push_def list_all_iff\<close>)
  moreover have "list_all ?R (drop k runs)" using assms(2) by (auto simp: list_all_iff dest: in_set_dropD)
  ultimately show ?thesis using assms l k unfolding lp by (auto simp: progresses_def steady_def set_lane_lanes)
qed

lemma advanceLane_progresses:
  assumes "list_all lane_run (mget [] (d_lanes d) (tg_Name t))"
  shows "progresses d t (snd (advanceLane d t tip cands))"
proof -
  let ?runs = "mget [] (d_lanes d) (tg_Name t)" and ?R = "offspring (mget [] (d_lanes d) (tg_Name t))"
  obtain runs' d1 where adv: "advance_runs t ?runs d = (runs', d1)" by (cases "advance_runs t ?runs d")
  note ok = advance_runs_ok [OF adv]
  have st: "steady d d1" and len: "length runs' = length ?runs" using ok by (auto dest: list_all2_lengthD)
  have R: "list_all ?R runs'"
    using ok assms list_all2_same_run [of ?runs runs'] by (auto simp: list_all_iff offspring_def)
  let ?d1 = "set_lane d1 (tg_Name t) runs'"
  have other: "mget [] (d_lanes ?d1) n = mget [] (d_lanes d1) n" if "n \<noteq> tg_Name t" for n using that by (simp add: set_lane_lanes)
  consider (invalid) i reason where "first_invalid 0 tip cands ?runs = Some (i, reason)"
    | (red) i where "first_invalid 0 tip cands ?runs = None" "first_red_run 0 runs' = Some i"
    | (blocked) "first_invalid 0 tip cands ?runs = None" "first_red_run 0 runs' = None" "ct_Uncertain (d_controls ?d1) \<or> circuitBlocked ?d1 (tg_Name t)"
    | (lands) "first_invalid 0 tip cands ?runs = None" "first_red_run 0 runs' = None" "\<not> (ct_Uncertain (d_controls ?d1) \<or> circuitBlocked ?d1 (tg_Name t))"
    by (metis option.exhaust prod.exhaust)
  then show ?thesis
  proof cases
    case invalid
    have "settles d (invalidateSuffix d t i reason)" by simp
    moreover have "list_all ?R (take i ?runs)" using assms by (auto simp: list_all_iff intro: offspring_self dest: in_set_takeD)
    moreover have "grows (\<lambda>p. aux_push d p \<or> Q p) (d_pushes d) (d_pushes (invalidateSuffix d t i reason))" for Q
      using calculation(1) by (auto simp: settles_def elim: grows_mono)
    ultimately show ?thesis using invalid by (simp add: advanceLane_def progresses_def settles_def invalidateSuffix_lanes)
  next
    case red
    let ?d3 = "set_lane (invalidateSuffix (finish_red ?d1 t runs' i) t (Suc i) ''pipeline bubble'') (tg_Name t) (take i runs')"
    have "settles ?d1 ?d3" by (rule settles_set_lane) (simp_all add: take_is_prefix)
    then have "progresses d t ?d3"
      using st R len by (rule progresses_settles) (simp add: set_lane_lanes invalidateSuffix_lanes finish_red_lanes)
    then show ?thesis using red adv by (simp add: advanceLane_def Let_def)
  next
    case blocked
    have "progresses d t ?d1" using settles_refl st R len other by (rule progresses_settles)
    then show ?thesis using blocked adv by (simp add: advanceLane_def Let_def)
  next
    case lands
    then show ?thesis using adv land_prefix_progresses [OF st R len] by (simp add: advanceLane_def Let_def)
  qed
qed

section \<open>The invariant\<close>

text \<open>A run of the lane \<open>n\<close> is backed by a configured target and by a validated spec that passed the capability gate and the
  execution policy for exactly its candidates and its base.\<close>

definition gated_run :: "config \<Rightarrow> string \<Rightarrow> run \<Rightarrow> bool" where
  "gated_run cfg n r \<longleftrightarrow> lane_run r
     \<and> (\<exists>t spec. t \<in> set (cf_Targets cfg) \<and> tg_Name t = n \<and> gated_spec cfg t (r_baseOID r) (map m_cand (r_members r)) spec
          \<and> r_checks r = buildRunNodes spec)"

text \<open>A push is sound if it removes a ref, creates a trial ref, or advances a configured target from the base of such a run to its
  tip while every node of its graph is green.\<close>

definition sound_push :: "daemon \<Rightarrow> ref_push \<Rightarrow> bool" where
  "sound_push d p \<longleftrightarrow> aux_push d p
     \<or> (\<exists>t \<in> set (cf_Targets (d_cfg d)). \<exists>r. gated_run (d_cfg d) (tg_Name t) r \<and> tested_green r \<and> p = target_push t r)"

definition sys_ok :: "daemon \<Rightarrow> bool" where
  "sys_ok d \<longleftrightarrow> (\<forall>n. list_all (gated_run (d_cfg d) n) (mget [] (d_lanes d) n)) \<and> list_all (sound_push d) (d_pushes d)"

lemma sound_push_cong: "d_cfg d' = d_cfg d \<Longrightarrow> sound_push d' = sound_push d"
  using aux_push_cong [of d' d] by (simp add: sound_push_def fun_eq_iff)

lemma gated_run_same: "gated_run cfg n r \<Longrightarrow> same_run r r' \<Longrightarrow> lane_run r' \<Longrightarrow> gated_run cfg n r'"
  using same_run_cands [of r r'] by (auto simp: gated_run_def same_run_def)

lemma gated_offspring: "list_all (gated_run cfg n) runs \<Longrightarrow> offspring runs r \<Longrightarrow> gated_run cfg n r"
  by (auto simp: offspring_def list_all_iff intro: gated_run_same)

lemma gated_lane: "sys_ok d \<Longrightarrow> list_all lane_run (mget [] (d_lanes d) n)"
  by (auto simp: sys_ok_def gated_run_def list_all_iff)

lemma sys_ok_pushes:
  assumes "sys_ok d" "d_cfg d' = d_cfg d" "grows (sound_push d) (d_pushes d) (d_pushes d')"
  shows "list_all (sound_push d') (d_pushes d')"
  using assms sound_push_cong [OF assms(2)] by (auto simp: sys_ok_def grows_def)

lemma sys_ok_settles:
  assumes "sys_ok d" "settles d d'"
  shows "sys_ok d'"
proof -
  have "list_all (gated_run (d_cfg d') n) (mget [] (d_lanes d') n)" for n
    using assms set_mono_prefix [OF settles_lane [OF assms(2), of n]] unfolding sys_ok_def settles_def list_all_iff by auto
  moreover have "grows (sound_push d) (d_pushes d) (d_pushes d')"
    using assms(2) by (auto simp: settles_def sound_push_def elim: grows_mono)
  then have "list_all (sound_push d') (d_pushes d')" using sys_ok_pushes [OF assms(1)] assms(2) by (simp add: settles_def)
  ultimately show ?thesis by (simp add: sys_ok_def)
qed

lemma sys_ok_progresses:
  assumes "sys_ok d" "progresses d t d'" "t \<in> set (cf_Targets (d_cfg d))"
  shows "sys_ok d'"
proof -
  let ?n = "tg_Name t" and ?runs = "mget [] (d_lanes d) (tg_Name t)"
  have g: "list_all (gated_run (d_cfg d) ?n) ?runs" using assms(1) by (simp add: sys_ok_def)
  have cfg: "d_cfg d' = d_cfg d" using assms(2) by (simp add: progresses_def)
  have "list_all (gated_run (d_cfg d') n) (mget [] (d_lanes d') n)" for n
  proof (cases "n = ?n")
    case True
    then show ?thesis using assms(2) gated_offspring [OF g] by (simp add: progresses_def cfg list_all_iff)
  next
    case False
    then show ?thesis using assms(1,2) by (simp add: progresses_def sys_ok_def)
  qed
  moreover have "grows (sound_push d) (d_pushes d) (d_pushes d')"
  proof (rule grows_mono)
    show "grows (\<lambda>p. aux_push d p \<or> (\<exists>r. offspring ?runs r \<and> tested_green r \<and> p = target_push t r)) (d_pushes d) (d_pushes d')"
      using assms(2) by (simp add: progresses_def)
  qed (use assms(3) gated_offspring [OF g] in \<open>auto simp: sound_push_def\<close>)
  ultimately show ?thesis using sys_ok_pushes [OF assms(1) cfg] by (simp add: sys_ok_def)
qed

lemma admitted_gated: "admitted d t base cs p r \<Longrightarrow> t \<in> set (cf_Targets (d_cfg d)) \<Longrightarrow> gated_run (d_cfg d) (tg_Name t) r"
  by (auto simp: admitted_def gated_run_def)

lemma sys_ok_admits:
  assumes "sys_ok d" "admits t d d' news" "list_all (gated_run (d_cfg d) (tg_Name t)) news"
  shows "sys_ok d'"
proof -
  have "list_all (gated_run (d_cfg d') n) (mget [] (d_lanes d') n)" for n
    using assms by (cases "n = tg_Name t") (simp_all add: admits_def sys_ok_def)
  moreover have "grows (sound_push d) (d_pushes d) (d_pushes d')"
    using assms(2) by (auto simp: admits_def sound_push_def elim: grows_mono)
  ultimately show ?thesis using sys_ok_pushes [OF assms(1)] assms(2) by (simp add: sys_ok_def admits_def)
qed

lemma stacked_gated:
  "stacked d t cands base p used rs \<Longrightarrow> t \<in> set (cf_Targets (d_cfg d)) \<Longrightarrow> list_all (gated_run (d_cfg d) (tg_Name t)) rs"
  by (induction rs arbitrary: base p used) (auto dest: admitted_gated)

text \<open>What a whole step keeps: the configuration, the time and the invariant; and while draining no lane gets longer.\<close>

definition shrinks :: "daemon \<Rightarrow> daemon \<Rightarrow> bool" where
  "shrinks d d' \<longleftrightarrow> (\<forall>n. length (mget [] (d_lanes d') n) \<le> length (mget [] (d_lanes d) n))"

lemma shrinks_trans: "shrinks d d' \<Longrightarrow> shrinks d' d'' \<Longrightarrow> shrinks d d''"
  unfolding shrinks_def by (meson le_trans)

lemma settles_shrinks: "settles d d' \<Longrightarrow> shrinks d d'"
  by (simp add: settles_def shrinks_def prefix_length_le)

lemma progresses_shrinks: "progresses d t d' \<Longrightarrow> shrinks d d'"
  unfolding progresses_def shrinks_def by (metis order_refl)

definition keeps :: "daemon \<Rightarrow> daemon \<Rightarrow> bool" where
  "keeps d d' \<longleftrightarrow> d_cfg d' = d_cfg d \<and> d_git d' = d_git d \<and> d_now d' = d_now d \<and> d_draining d' = d_draining d
     \<and> (sys_ok d \<longrightarrow> sys_ok d') \<and> (d_draining d \<longrightarrow> shrinks d d')"

lemma keeps_trans: "keeps d d' \<Longrightarrow> keeps d' d'' \<Longrightarrow> keeps d d''"
  using shrinks_trans by (auto simp: keeps_def)

lemma settles_keeps: "settles d d' \<Longrightarrow> keeps d d'"
  using sys_ok_settles [of d d'] settles_shrinks [of d d'] by (simp add: keeps_def) (simp add: settles_def)

lemma keeps_refl [simp]: "keeps d d" by (simp add: keeps_def shrinks_def)

lemma refillLane_keeps:
  assumes "t \<in> set (cf_Targets (d_cfg d))"
  shows "keeps d (refillLane d t tip cands)"
proof -
  obtain news where n: "refilled d t tip cands (refillLane d t tip cands) news" "news \<noteq> [] \<longrightarrow> \<not> d_draining d"
    using refillLane_refills by blast
  have "shrinks d (refillLane d t tip cands)" if "d_draining d"
    using n that by (auto simp: refilled_def admits_def shrinks_def Let_def) (metis order_refl)
  moreover have "admits t d (refillLane d t tip cands) news" "list_all (gated_run (d_cfg d) (tg_Name t)) news"
    using stacked_gated [OF _ assms] n by (auto simp: refilled_def Let_def)
  ultimately show ?thesis using sys_ok_admits by (auto simp: keeps_def admits_def)
qed

lemma startBatchRun_keeps:
  assumes "t \<in> set (cf_Targets (d_cfg d))" "\<not> d_draining d"
  shows "keeps d (startBatchRun d t tip picked)"
  using startBatchRun_admits [of d t tip picked]
proof (elim disjE exE conjE)
  assume "calm d (startBatchRun d t tip picked)"
  then show ?thesis by (intro settles_keeps calm_settles)
next
  fix r cs
  let ?d = "startBatchRun d t tip picked"
  assume a: "admits t d ?d [r]" "admitted ?d t tip cs False r"
  have "gated_run (d_cfg d) (tg_Name t) r" using admitted_gated [OF a(2)] a(1) assms by (simp add: admits_def)
  then show ?thesis using sys_ok_admits [OF _ a(1)] a(1) assms(2) by (auto simp: keeps_def admits_def)
qed

lemma advanceLane_keeps:
  assumes "t \<in> set (cf_Targets (d_cfg d))" "sys_ok d"
  shows "keeps d (snd (advanceLane d t tip cands))"
proof -
  have p: "progresses d t (snd (advanceLane d t tip cands))" by (rule advanceLane_progresses [OF gated_lane [OF assms(2)]])
  then show ?thesis using sys_ok_progresses [OF assms(2) p assms(1)] progresses_shrinks [OF p]
    by (simp add: keeps_def) (simp add: progresses_def)
qed

lemma start_emergency_keeps:
  assumes "t \<in> set (cf_Targets (d_cfg d))" "\<not> d_draining d"
  shows "keeps d (start_emergency d t tip picked)"
proof -
  let ?d = "startBatchRun d t tip picked"
  have "settles ?d (start_emergency d t tip picked)"
    by (simp add: start_emergency_def Let_def settles_set_lane split: option.split)
  then show ?thesis using keeps_trans [OF startBatchRun_keeps [OF assms] settles_keeps] by blast
qed

lemma reconcileEmergency_keeps:
  assumes "t \<in> set (cf_Targets (d_cfg d))" "sys_ok d"
  shows "keeps d (snd (reconcileEmergency d t tip cands))"
  using advanceLane_keeps [OF assms, of tip cands] start_emergency_keeps [OF assms(1)] settles_keeps [of d]
  by (auto simp add: reconcileEmergency_def split: option.split)

lemma reconcileTarget_keeps:
  assumes "t \<in> set (cf_Targets (d_cfg d))" "sys_ok d"
  shows "keeps d (reconcileTarget d t refs)"
proof -
  define tip where "tip = mget [] refs (targetRefName t)"
  define c0 where "c0 = target_cands d (tg_Name t) refs"
  obtain d1 cands where 1: "policyAdmission (reviewEmergency d t refs c0) t c0 tip = (d1, cands)" by fastforce
  define d2 where "d2 = reviewScheduling (syncBookkeeping d1 t cands) t refs cands"
  obtain ok d3 where 3: "persistScheduler d2 = (ok, d3)" by fastforce
  obtain em d4 where 4: "reconcileEmergency d3 t tip cands = (em, d4)" by fastforce
  define d5 where "d5 = prepareCircuitProbe d4 (tg_Name t) cands"
  obtain conc d6 where 6: "(if mget [] (d_lanes d5) (tg_Name t) \<noteq> [] then advanceLane d5 t tip cands else (False, d5)) = (conc, d6)" by fastforce
  have s1: "settles d d1" using settles_admission [OF settles_reviewEmergency [OF settles_refl], of d t refs c0 t c0 tip] 1 by simp
  have "settles d d2" using s1 by (simp add: d2_def)
  then have s3: "settles d d3" using 3 by (metis settles_persist snd_conv)
  have k3: "keeps d d3" by (rule settles_keeps [OF s3])
  have k4: "keeps d3 d4" using reconcileEmergency_keeps [of t d3 tip cands] 4 k3 assms by (simp add: keeps_def)
  have k5: "keeps d4 d5" unfolding d5_def by (rule settles_keeps) simp
  have ok5: "sys_ok d5" "d_cfg d5 = d_cfg d" using k3 k4 k5 assms(2) by (simp_all add: keeps_def)
  have k6: "keeps d5 d6"
    using advanceLane_keeps [of t d5 tip cands] assms(1) ok5 6 by (auto split: if_splits)
  have k7: "keeps d6 (refillLane d6 t tip cands)" using refillLane_keeps [of t d6] assms(1) ok5 k6 by (simp add: keeps_def)
  have eq: "reconcileTarget d t refs =
      (if \<not> ok then d3 else if em then d4
       else if mhas (ct_Pauses (d_controls d4)) (tg_Name t) \<and> \<not> list_ex (\<lambda>(_, c). c_OverridePause c) cands then d4
       else if conc then d6 else refillLane d6 t tip cands)"
    unfolding reconcileTarget_def Let_def tip_def [symmetric] c0_def [symmetric] 1 prod.case d2_def [symmetric] 3 4 d5_def [symmetric] 6
    by (simp split: bool.split)
  show ?thesis unfolding eq using k3 keeps_trans [OF k3 k4] keeps_trans [OF keeps_trans [OF k3 k4] keeps_trans [OF k5 k6]]
      keeps_trans [OF keeps_trans [OF keeps_trans [OF k3 k4] keeps_trans [OF k5 k6]] k7] by simp
qed

lemma reconcileTargets_keep:
  "set ts \<subseteq> set (cf_Targets (d_cfg d)) \<Longrightarrow> sys_ok d \<Longrightarrow> keeps d (fold (\<lambda>t d. reconcileTarget d t refs) ts d)"
proof (induction ts arbitrary: d)
  case (Cons t ts)
  let ?d = "reconcileTarget d t refs"
  have k: "keeps d ?d" using reconcileTarget_keeps Cons.prems by simp
  have "keeps ?d (fold (\<lambda>t d. reconcileTarget d t refs) ts ?d)"
    using Cons.IH [of ?d] Cons.prems k by (simp add: keeps_def)
  then show ?case using keeps_trans [OF k] by simp
qed simp

lemma pass_targets_set: "cf_Targets (d_cfg d) \<noteq> [] \<Longrightarrow> set (pass_targets d) \<subseteq> set (cf_Targets (d_cfg d))"
  by (auto simp: pass_targets_def Let_def)

lemma pass_targets_subset: "set (pass_targets d) \<subseteq> set (cf_Targets (d_cfg d))"
  by (cases "cf_Targets (d_cfg d) = []") (simp_all add: pass_targets_set, simp add: pass_targets_def Let_def)

lemma pass_body_keeps:
  assumes "sys_ok d"
  shows "keeps d (snd (pass_body d refs))"
proof -
  define d1 where "d1 = (checkIgnoredRefs d refs)\<lparr>d_tick := d_tick (checkIgnoredRefs d refs) + 1\<rparr>"
  define d2 where "d2 = fold (\<lambda>t d. reconcileTarget d t refs) (pass_targets d1) d1"
  have k1: "keeps d d1" unfolding d1_def by (rule settles_keeps) simp
  have k2: "keeps d1 d2" unfolding d2_def by (rule reconcileTargets_keep [OF pass_targets_subset]) (use k1 assms in \<open>simp add: keeps_def\<close>)
  have "settles d2 (snd (pass_body d refs))"
    unfolding pass_body_def Let_def d1_def [symmetric] d2_def [symmetric] by simp
  then show ?thesis using keeps_trans [OF keeps_trans [OF k1 k2] settles_keeps] by blast
qed

text \<open>A pass may take up a drain request, and changes nothing else that is fixed.\<close>

definition steps :: "daemon \<Rightarrow> daemon \<Rightarrow> bool" where
  "steps d d' \<longleftrightarrow> d_cfg d' = d_cfg d \<and> d_git d' = d_git d \<and> (d_draining d \<or> d_drainReq d \<longrightarrow> d_draining d' \<and> shrinks d d')
     \<and> (sys_ok d \<longrightarrow> sys_ok d')"

lemma syncDrain_frame:
  "d_cfg (syncDrainRequest d) = d_cfg d" "d_git (syncDrainRequest d) = d_git d" "d_lanes (syncDrainRequest d) = d_lanes d"
  "d_pushes (syncDrainRequest d) = d_pushes d" "d_draining (syncDrainRequest d) \<longleftrightarrow> d_draining d \<or> d_drainReq d"
  by (simp_all add: syncDrainRequest_def Let_def)

lemma sys_ok_cong:
  "d_cfg d' = d_cfg d \<Longrightarrow> d_lanes d' = d_lanes d \<Longrightarrow> d_pushes d' = d_pushes d \<Longrightarrow> sys_ok d' = sys_ok d"
  using sound_push_cong [of d' d] by (simp add: sys_ok_def)

lemma serve_tick_steps:
  assumes "serve_tick d cmds = Some d'" "sys_ok d"
  shows "steps d d'"
proof -
  define d0 where "d0 = prunePrepared (syncDrainRequest d)"
  obtain res d1 where 1: "observe_remote d0 = (res, d1)" by fastforce
  have "settles (syncDrainRequest d) d0" by (simp add: d0_def)
  then have s1: "settles (syncDrainRequest d) d1" using 1 by (metis settles_observe snd_conv)
  have k: "keeps (syncDrainRequest d) d'"
  proof (cases res)
    case (Inl e)
    have "settles (syncDrainRequest d) d'"
      using assms(1) 1 s1 Inl unfolding serve_tick_def ReconcileOnce_def Let_def d0_def [symmetric] 1 by auto
    then show ?thesis by (rule settles_keeps)
  next
    case (Inr refs)
    define d2 where "d2 = pass_start d1 refs"
    have s2: "settles (syncDrainRequest d) d2" unfolding d2_def by (rule settles_pass_start [OF s1])
    from assms(1) Inr obtain d3 where 3: "drainCommands cmds refs d2 = Some d3"
      unfolding serve_tick_def ReconcileOnce_def Let_def d0_def [symmetric] 1 by (auto simp: d2_def split: option.splits)
    have k3: "keeps (syncDrainRequest d) d3" by (rule settles_keeps [OF settles_drain [OF s2 3]])
    have d': "d' = snd (pass_body d3 refs)"
      using assms(1) Inr 3 unfolding serve_tick_def ReconcileOnce_def Let_def d0_def [symmetric] 1 d2_def by (auto simp: split_beta)
    have "sys_ok d3" using k3 assms(2) sys_ok_cong [of "syncDrainRequest d" d] syncDrain_frame [of d] by (simp add: keeps_def)
    then show ?thesis using keeps_trans [OF k3 pass_body_keeps] unfolding d' by blast
  qed
  then show ?thesis using syncDrain_frame [of d] sys_ok_cong [of "syncDrainRequest d" d] by (simp add: keeps_def steps_def shrinks_def)
qed

section \<open>The system\<close>

text \<open>
  Everything around the reconcile goroutine: time passes, an operator asks for a drain, a check worker sends its result into the one-shot
  channel of a run, other writers move the remote, other users of the execution slots come and go.
\<close>

datatype env_event =
    ClockTo go_time
  | DrainAsked go_time
  | WorkerAnswers string nat string check_result
  | RemoteMoves "(string, string) gomap"
  | SlotsChange "slots option"

definition deliver :: "string \<Rightarrow> check_result \<Rightarrow> run \<Rightarrow> run" where
  "deliver name res r =
     r\<lparr>r_inflight := map (\<lambda>(k, fl). (k, if k = name \<and> cif_result fl = None then fl\<lparr>cif_result := Some res\<rparr> else fl)) (r_inflight r)\<rparr>"

fun env_step :: "env_event \<Rightarrow> daemon \<Rightarrow> daemon" where
  "env_step (ClockTo t) d = d\<lparr>d_now := t\<rparr>"
| "env_step (DrainAsked deadline) d = Drain deadline d"
| "env_step (WorkerAnswers target i name res) d =
     (let runs = mget [] (d_lanes d) target in
      if i < length runs then set_lane d target (runs[i := deliver name res (runs ! i)]) else d)"
| "env_step (RemoteMoves remote) d = d\<lparr>d_remote := remote\<rparr>"
| "env_step (SlotsChange slots) d = d\<lparr>d_slots := slots\<rparr>"

inductive reachable :: "git_repo \<Rightarrow> config \<Rightarrow> daemon \<Rightarrow> bool" for git cfg where
  start: "New git cfg slots now parseTemplate stored remote = Inr d \<Longrightarrow> reachable git cfg d"
| tick: "reachable git cfg d \<Longrightarrow> serve_tick d cmds = Some d' \<Longrightarrow> reachable git cfg d'"
| environment: "reachable git cfg d \<Longrightarrow> reachable git cfg (env_step e d)"

inductive_cases reachableE: "reachable git cfg d"

lemma deliver_fields [simp]:
  "r_checks (deliver name res r) = r_checks r" "r_results (deliver name res r) = r_results r"
  "r_verdict (deliver name res r) = r_verdict r" "r_members (deliver name res r) = r_members r"
  "r_baseOID (deliver name res r) = r_baseOID r" "r_culprit (deliver name res r) = r_culprit r"
  "r_materialized (deliver name res r) = r_materialized r" "r_imageRefs (deliver name res r) = r_imageRefs r"
  "r_emergencyReason (deliver name res r) = r_emergencyReason r"
  "map fst (r_inflight (deliver name res r)) = map fst (r_inflight r)"
  by (auto simp: deliver_def split_beta)

lemma deliver_gated: "gated_run cfg n r \<Longrightarrow> gated_run cfg n (deliver name res r)"
proof -
  have "fst ` set (r_inflight (deliver name res r)) = fst ` set (r_inflight r)"
    using deliver_fields(10) [of name res r] by (metis list.set_map)
  then have "lane_run (deliver name res r) = lane_run r"
    by (simp add: lane_run_def run_live_def run_ok_def images_ok_def tested_green_def nodeGreen_def)
  then show "gated_run cfg n r \<Longrightarrow> ?thesis" by (simp add: gated_run_def)
qed

lemma env_step_fixed: "d_cfg (env_step e d) = d_cfg d" "d_git (env_step e d) = d_git d"
  by (cases e; simp add: Let_def Drain_def)+

lemma env_step_ok:
  assumes ok: "sys_ok d"
  shows "sys_ok (env_step e d)"
proof (cases e)
  case (WorkerAnswers target i name res)
  let ?runs = "mget [] (d_lanes d) target"
  show ?thesis
  proof (cases "i < length ?runs")
    case True
    have "list_all (gated_run (d_cfg d) target) ?runs" using ok by (simp add: sys_ok_def)
    then have "list_all (gated_run (d_cfg d) target) (?runs[i := deliver name res (?runs ! i)])"
      using True deliver_gated by (auto simp: list_all_length nth_list_update)
    then show ?thesis using ok True sound_push_cong [of "set_lane d target (?runs[i := deliver name res (?runs ! i)])" d]
      by (simp add: WorkerAnswers Let_def sys_ok_def set_lane_lanes)
  qed (use ok WorkerAnswers in simp)
qed (use ok sys_ok_cong [of "env_step e d" d] in \<open>simp_all add: Drain_def Let_def\<close>)

lemma check_targets_None:
  "check_targets lin reviews ts seen = None \<Longrightarrow>
     distinct (map tg_Name ts) \<and> set (map tg_Name ts) \<inter> set seen = {} \<and> (\<forall>t \<in> set ts. tg_Name t \<noteq> [] \<and> tg_Branch t \<noteq> [])"
proof (induction ts arbitrary: seen)
  case (Cons t ts)
  then have rest: "check_targets lin reviews ts (tg_Name t # seen) = None" and t: "tg_Name t \<noteq> []" "tg_Branch t \<noteq> []" "tg_Name t \<notin> set seen"
    by (simp_all split: if_splits)
  from Cons.IH [OF rest] t show ?case by auto
qed simp

lemma New_initial:
  assumes "New git cfg slots now parseTemplate file remote = Inr d"
  shows "d_git d = git" "d_cfg d = cfg" "d_lanes d = []" "d_pushes d = []"
    "check_targets (g_Linear git \<noteq> None) (cf_Reviews cfg \<noteq> None) (cf_Targets cfg) [] = None" "cf_Targets cfg \<noteq> []"
  using assms by (auto simp: New_def split: if_splits option.splits sum.splits)

lemma reachable_ok: "reachable git cfg d \<Longrightarrow> d_cfg d = cfg \<and> d_git d = git \<and> sys_ok d \<and> distinct (map tg_Name (cf_Targets cfg))"
proof (induction rule: reachable.induct)
  case (start slots now parseTemplate stored remote d)
  then show ?case using New_initial [OF start] check_targets_None [of "g_Linear git \<noteq> None"] by (auto simp: sys_ok_def)
next
  case (tick d cmds d')
  then show ?case using serve_tick_steps [OF tick(2)] by (simp add: steps_def)
next
  case (environment d e)
  then show ?case by (simp add: env_step_ok env_step_fixed)
qed


section \<open>Every pass returns\<close>

abbreviation no_star :: "config \<Rightarrow> bool" where
  "no_star cfg \<equiv> ''*'' \<notin> tg_Name ` set (cf_Targets cfg)"

lemma applyControl_returns:
  assumes "no_star (d_cfg d)"
  shows "\<exists>d'. applyControl_fuel (Suc (Suc k)) cmd refs d = Some d'"
proof -
  let ?f = "\<lambda>t. case_option None (applyControl_fuel (Suc k) (cmd\<lparr>cmd_Target := tg_Name t\<rparr>) refs)"
  have "''*'' \<notin> tg_Name ` set ts \<Longrightarrow> \<exists>d'. fold ?f ts (Some D) = Some d'" for ts D
  proof (induction ts arbitrary: D)
    case (Cons t ts)
    then have "?f t (Some D) = Some (applyControl_target D (cmd\<lparr>cmd_Target := tg_Name t\<rparr>) refs)" by auto
    then show ?case using Cons by simp
  qed simp
  from this [OF assms, of d] show ?thesis
    by (simp only: applyControl_fuel.simps(2) [of "Suc k" cmd refs d] split: if_split) blast
qed

lemma drainCommands_returns: "no_star (d_cfg d) \<Longrightarrow> \<exists>d'. drainCommands cmds refs d = Some d'"
proof (induction cmds arbitrary: d)
  case (Cons cmd cmds)
  have cfg: "d_cfg d1 = d_cfg d" if "settles d d1" for d1 using that by (simp add: settles_def)
  have "\<exists>d1. applyCommand d cmd refs = Some d1"
  proof -
    obtain ok d1 where a: "(if cmd_Kind cmd = CommandRetry \<or> cmd_Kind cmd = CommandCancel then authorizeCommand d cmd else (True, d)) = (ok, d1)"
      by fastforce
    have "settles d d1" using a by (metis settles_authorize settles_refl snd_conv)
    then have "\<exists>d2. applyControl d1 cmd refs = Some d2"
      using applyControl_returns [of d1 0 cmd refs] Cons.prems cfg unfolding applyControl_def numeral_2_eq_2 by presburger
    then show ?thesis unfolding applyCommand_def Let_def a by simp
  qed
  then obtain d1 where 1: "applyCommand d cmd refs = Some d1" by blast
  then have "d_cfg d1 = d_cfg d" using cfg settles_command [OF settles_refl] by blast
  then show ?case using Cons.IH [of d1] Cons.prems 1 by simp
qed simp

lemma ReconcileOnce_returns:
  assumes "no_star (d_cfg d)"
  shows "\<exists>res. ReconcileOnce d cmds = Some res"
proof -
  define d0 where "d0 = prunePrepared (syncDrainRequest d)"
  obtain res d1 where 1: "observe_remote d0 = (res, d1)" by fastforce
  have "settles (syncDrainRequest d) d0" by (simp add: d0_def)
  then have s1: "settles (syncDrainRequest d) d1" using 1 by (metis settles_observe snd_conv)
  show ?thesis
  proof (cases res)
    case (Inl e)
    then show ?thesis unfolding ReconcileOnce_def Let_def d0_def [symmetric] 1 by simp
  next
    case (Inr refs)
    define d2 where "d2 = pass_start d1 refs"
    have "settles (syncDrainRequest d) d2" unfolding d2_def by (rule settles_pass_start [OF s1])
    then have "d_cfg d2 = d_cfg d" by (simp add: settles_def syncDrain_frame)
    then obtain d3 where "drainCommands cmds refs d2 = Some d3" using drainCommands_returns [of d2 cmds refs] assms by auto
    then show ?thesis unfolding ReconcileOnce_def Let_def d0_def [symmetric] 1 using Inr by (simp add: d2_def split_beta)
  qed
qed

lemma applyControl_star_loops:
  assumes "cmd_Target cmd = ''*''" "cmd_Kind cmd = CommandPause \<or> cmd_Kind cmd = CommandResume" "\<not> no_star (d_cfg d)"
  shows "applyControl_fuel fuel cmd refs d = None"
  using assms
proof (induction fuel arbitrary: cmd d)
  case (Suc fuel)
  let ?f = "\<lambda>t. case_option None (applyControl_fuel fuel (cmd\<lparr>cmd_Target := tg_Name t\<rparr>) refs)"
  have none: "fold ?f ts None = None" for ts by (induction ts) simp_all
  have "''*'' \<in> tg_Name ` set ts \<Longrightarrow> \<not> no_star (d_cfg D) \<Longrightarrow> fold ?f ts (Some D) = None" for ts D
  proof (induction ts arbitrary: D)
    case (Cons t ts)
    show ?case
    proof (cases "tg_Name t = ''*''")
      case True
      have "applyControl_fuel fuel (cmd\<lparr>cmd_Target := ''*''\<rparr>) refs D = None" by (rule Suc.IH) (use Suc.prems Cons.prems in simp_all)
      then show ?thesis using True none by simp
    next
      case False
      show ?thesis
      proof (cases "applyControl_fuel fuel (cmd\<lparr>cmd_Target := tg_Name t\<rparr>) refs D")
        case None
        then show ?thesis using none by simp
      next
        case (Some D')
        have "d_cfg D' = d_cfg D" using settles_control_fuel [OF settles_refl Some] by (simp add: settles_def)
        then show ?thesis using Cons Some False by auto
      qed
    qed
  qed simp
  from this [of "cf_Targets (d_cfg d)" d] show ?case using Suc.prems by simp
qed simp


text \<open>
  C9: a drain winds down.  Once a drain has been requested, a tick leaves the daemon draining and no target's lane has more runs
  after it than before, whatever commands it drains and whatever arrives; nothing new is admitted.
\<close>

theorem drain_winds_down:
  assumes "reachable git cfg d" "d_draining d \<or> d_drainReq d" "serve_tick d cmds = Some d'"
  shows "d_draining d' \<and> (\<forall>n. length (mget [] (d_lanes d') n) \<le> length (mget [] (d_lanes d) n))"
  using serve_tick_steps [OF assms(3)] reachable_ok [OF assms(1)] assms(2) by (simp add: steps_def shrinks_def)

section \<open>Instances\<close>

text \<open>One candidate, one check: a tick starts the run, the worker answers, the next tick lands it.\<close>

definition demo_config :: config where
  "demo_config = (d_cfg one_check_daemon)\<lparr>cf_formatRunIDTime := (\<lambda>_. ''T''), cf_CircuitBreaker := None\<rparr>"

definition demo_refs :: "(string, string) gomap" where
  "demo_refs = [(''refs/heads/main'', ''base''), (''refs/heads/for/main/a'', ''s1'')]"

definition demo_new :: "string + daemon" where
  "demo_new = New sample_git demo_config None 1 (\<lambda>_. None) FileMissing demo_refs"

definition demo_tick :: "daemon \<Rightarrow> daemon" where
  "demo_tick d = snd (pass_body (pass_start (snd (observe_remote (prunePrepared (syncDrainRequest d)))) demo_refs) demo_refs)"

definition demo_answered :: daemon where
  "demo_answered = env_step (WorkerAnswers ''main'' 0 ''b'' (pass_result ''b'')) (demo_tick (projr demo_new))"

definition demo_landed :: daemon where
  "demo_landed = demo_tick demo_answered"

lemma demo_tick_serves:
  "fst (observe_remote (prunePrepared (syncDrainRequest d))) = Inr demo_refs \<Longrightarrow> serve_tick d [] = Some (demo_tick d)"
  by (auto simp: serve_tick_def ReconcileOnce_def demo_tick_def Let_def split_beta split: sum.split)

lemma serve_tick_returns: "no_star (d_cfg d) \<Longrightarrow> serve_tick d cmds = Some (the (serve_tick d cmds))"
  using ReconcileOnce_returns [of d cmds] by (auto simp: serve_tick_def split: option.splits)

lemma demo_observes:
  "fst (observe_remote (prunePrepared (syncDrainRequest (projr demo_new)))) = Inr demo_refs"
  "fst (observe_remote (prunePrepared (syncDrainRequest demo_answered))) = Inr demo_refs"
  by code_simp+

lemma demo_reachable:
  "reachable sample_git demo_config (projr demo_new)" "reachable sample_git demo_config demo_landed" "no_star demo_config"
proof -
  have "\<not> isl demo_new" by code_simp
  then have "demo_new = Inr (projr demo_new)" by simp
  then show r0: "reachable sample_git demo_config (projr demo_new)" unfolding demo_new_def by (rule reachable.start)
  show "no_star demo_config" by code_simp
  have "reachable sample_git demo_config demo_answered"
    unfolding demo_answered_def by (rule reachable.environment [OF reachable.tick [OF r0 demo_tick_serves [OF demo_observes(1)]]])
  then show "reachable sample_git demo_config demo_landed"
    unfolding demo_landed_def by (rule reachable.tick [OF _ demo_tick_serves [OF demo_observes(2)]])
qed

lemma demo_pushes:
  "d_pushes demo_landed =
     [\<lparr>ps_ref = ''refs/heads/main'', ps_old = ''base'', ps_new = ''commit-tree-s1''\<rparr>,
      \<lparr>ps_ref = ''refs/heads/for/main/a'', ps_old = ''s1'', ps_new = []\<rparr>]"
  by code_simp


definition star_daemon :: daemon where
  "star_daemon = sample_daemon\<lparr>d_cfg := sample_config\<lparr>cf_Targets := [target_zero ''*'']\<rparr>\<rparr>"


theorem drain_winds_down_witness:
  "let d = env_step (DrainAsked 0) demo_landed; d' = the (serve_tick d [sample_preempt]) in
     d_drainReq d \<and> d_draining d' \<and> length (mget [] (d_lanes d') ''main'') \<le> length (mget [] (d_lanes d) ''main'')"
proof -
  let ?d = "env_step (DrainAsked 0) demo_landed"
  have r: "reachable sample_git demo_config ?d" by (rule reachable.environment [OF demo_reachable(2)])
  have q: "d_drainReq ?d" by (simp add: Drain_def Let_def)
  have "no_star (d_cfg ?d)" using reachable_ok [OF r] demo_reachable(3) by simp
  from drain_winds_down [OF r _ serve_tick_returns [OF this]] q show ?thesis unfolding Let_def by blast
qed
end
