(* ===== verification/Queue_Operators.thy ===== *)
theory Queue_Operators
  imports Queue_System
begin

text \<open>
  What an operator may rely on: a cancel stops a candidate and nothing else, an emergency is taken only for exactly the revisions the
  operator saw, a request of a forge review is honoured at most once, and a restart resumes the queue the last checkpoint stored.
\<close>

section \<open>Cancelling\<close>

text \<open>The events from \<open>xs\<close> to \<open>ys\<close> hold exactly these terminal verdicts, in order.\<close>

definition tells :: "(event_kind \<times> candidate) list \<Rightarrow> event list \<Rightarrow> event list \<Rightarrow> bool" where
  "tells verdicts xs ys =
     (\<exists>evs. ys = xs @ evs \<and> map (\<lambda>e. (ev_Kind e, ev_Candidate e)) (filter (\<lambda>e. TerminalKind (ev_Kind e)) evs) = verdicts)"

lemma tells_append: "tells vs xs ys \<Longrightarrow> tells ws ys zs \<Longrightarrow> tells (vs @ ws) xs zs"
  by (fastforce simp: tells_def)

lemma reports_tells:
  assumes "reports k ids xs ys"
  shows "tells (map (\<lambda>(c, _). (k, c)) ids) xs ys"
proof -
  obtain evs where evs: "ys = xs @ evs" "map (\<lambda>e. (ev_Kind e, ev_Candidate e, ev_RunID e)) (filter (\<lambda>e. TerminalKind (ev_Kind e)) evs)
      = map (\<lambda>(c, runID). (k, c, runID)) ids"
    using assms by (auto simp: reports_def)
  have "map (\<lambda>e. (ev_Kind e, ev_Candidate e)) (filter (\<lambda>e. TerminalKind (ev_Kind e)) evs)
      = map (\<lambda>(k, c, _). (k, c)) (map (\<lambda>e. (ev_Kind e, ev_Candidate e, ev_RunID e)) (filter (\<lambda>e. TerminalKind (ev_Kind e)) evs))"
    by simp
  also have "\<dots> = map (\<lambda>(c, _). (k, c)) ids" unfolding evs(2) by (simp add: split_beta)
  finally show ?thesis using evs(1) by (auto simp: tells_def)
qed

abbreviation verdicts :: "event_kind \<Rightarrow> run_member list \<Rightarrow> (event_kind \<times> candidate) list" where
  "verdicts k ms \<equiv> map (\<lambda>m. (k, m_cand m)) ms"

lemma finishRun_tells: "tells (verdicts (eventKindForOutcome oc) (r_members r)) (d_events d) (d_events (finishRun d t r oc detail parked))"
  using reports_tells [OF finishRun_reports [of oc r d t detail parked]] by (simp add: member_ids_def comp_def)

lemma cancelRun_members [simp]: "r_members (cancelRun d r) = r_members r"
  using same_run_steps(2) [of r d] by (simp add: same_run_def)

lemma skip_runs_tells: "tells (verdicts EventSkipped (concat (map r_members rs))) (d_events d) (d_events (skip_runs t reason rs d))"
proof (induction rs arbitrary: d)
  case (Cons r rs)
  have "tells (verdicts EventSkipped (r_members r)) (d_events d) (d_events (finishRun d t (cancelRun d r) OutcomeSkipped reason False))"
    using finishRun_tells [of OutcomeSkipped "cancelRun d r"] by simp
  from tells_append [OF this Cons.IH] show ?case by simp
qed (simp add: tells_def)

lemma skip_runs_done: "d_done (skip_runs t reason rs d) = d_done d"
  by (induction rs arbitrary: d) (simp_all add: finishRun_unparked)

definition cancel_kind :: "string \<Rightarrow> run_member \<Rightarrow> event_kind \<times> candidate" where
  "cancel_kind ref m = (if c_Ref (m_cand m) = ref then EventRejected else EventSkipped, m_cand m)"

lemma cancel_member_fields [simp]:
  "m_cand (cancel_member d ref m) = m_cand m"
  "rr_RunID (m_rec (cancel_member d ref m)) = rr_RunID (m_rec m)"
  "rr_Outcome (m_rec (cancel_member d ref m)) = (if c_Ref (m_cand m) = ref then OutcomeRejected else OutcomeSkipped)"
  "c_Ref (m_cand m) = ref \<Longrightarrow> rr_Detail (m_rec (cancel_member d ref m)) = cancelDetail"
  by (simp_all add: cancel_member_def close_member_def)

lemma cancel_report_tells:
  "tells (map (cancel_kind ref) ms) (d_events d) (d_events (cancel_report target runID ref (map (cancel_member D ref) ms) d))"
proof (induction ms arbitrary: d)
  case (Cons m ms)
  let ?m = "cancel_member D ref m"
  let ?d = "if c_Ref (m_cand m) = ref then park d target (m_cand m) (rr_Outcome (m_rec ?m)) (rr_Detail (m_rec ?m)) (rr_RunID (m_rec m)) else d"
  let ?ev = "(event_zero (eventKindForOutcome (rr_Outcome (m_rec ?m))))\<lparr>ev_At := d_now ?d, ev_Target := target,
    ev_Candidate := m_cand m, ev_RunID := runID, ev_Record := Some (m_rec ?m), ev_Detail := rr_Detail (m_rec ?m)\<rparr>"
  have "tells [cancel_kind ref m] (d_events d) (d_events (emit ?d ?ev))"
    by (simp add: tells_def cancel_kind_def)
  from tells_append [OF this Cons.IH] show ?case by (cases "c_Ref (m_cand m) = ref") (simp_all add: Let_def)
qed (simp add: tells_def)

text \<open>A park of an operator's cancel, at the revision of the member that was running.\<close>

definition cancelled_park :: "daemon \<Rightarrow> run_member \<Rightarrow> park_entry" where
  "cancelled_park d m = \<lparr>pk_Version = c_Version (m_cand m), pk_SHA = c_SHA (m_cand m), pk_Outcome = OutcomeRejected,
     pk_Reason = cancelDetail, pk_At = d_now d, pk_RunID = rr_RunID (m_rec m)\<rparr>"

definition cancel_parks :: "daemon \<Rightarrow> daemon \<Rightarrow> string \<Rightarrow> string \<Rightarrow> run_member list \<Rightarrow> bool" where
  "cancel_parks d d' target ref ms =
     ((\<exists>m \<in> set ms. c_Ref (m_cand m) = ref \<and> map_of (mget [] (d_done d') target) ref = Some (cancelled_park d m))
      \<and> (\<forall>n x. (n, x) \<noteq> (target, ref) \<longrightarrow> map_of (mget [] (d_done d') n) x = map_of (mget [] (d_done d) n) x))"

lemma cancel_report_other:
  "(n, x) \<noteq> (target, ref) \<Longrightarrow>
     map_of (mget [] (d_done (cancel_report target runID ref ms d)) n) x = map_of (mget [] (d_done d) n) x"
  by (induction ms arbitrary: d) (auto simp: Let_def)

lemma cancel_report_kept:
  "\<forall>m \<in> set ms. c_Ref (m_cand m) \<noteq> ref \<Longrightarrow> d_done (cancel_report target runID ref ms d) = d_done d"
  by (induction ms arbitrary: d) (auto simp: Let_def)

lemma cancel_report_step: "\<exists>d1. cancel_report target runID ref (m # ms) d = cancel_report target runID ref ms d1 \<and> d_now d1 = d_now d"
  by (simp only: cancel_report.simps Let_def) (intro exI conjI, rule refl, simp)

lemma cancel_report_parks:
  assumes "m \<in> set ms" "c_Ref (m_cand m) = ref" "d_now d = d_now D"
  shows "\<exists>m \<in> set ms. c_Ref (m_cand m) = ref
    \<and> map_of (mget [] (d_done (cancel_report target runID ref (map (cancel_member D ref) ms) d)) target) ref = Some (cancelled_park D m)"
  using assms
proof (induction ms arbitrary: d m)
  case (Cons m0 ms)
  show ?case
  proof (cases "\<exists>m \<in> set ms. c_Ref (m_cand m) = ref")
    case True
    then obtain m where m: "m \<in> set ms" "c_Ref (m_cand m) = ref" by blast
    obtain d1 where "cancel_report target runID ref (map (cancel_member D ref) (m0 # ms)) d
        = cancel_report target runID ref (map (cancel_member D ref) ms) d1" "d_now d1 = d_now d"
      using cancel_report_step by (metis list.simps(9))
    then show ?thesis using Cons.IH [OF m, of d1] Cons.prems(3) by auto
  next
    case False
    then have m0: "c_Ref (m_cand m0) = ref" using Cons.prems(1,2) by auto
    have "d_done (cancel_report target runID ref (map (cancel_member D ref) ms) E) = d_done E" for E
      using False by (intro cancel_report_kept) auto
    then have "d_done (cancel_report target runID ref (map (cancel_member D ref) (m0 # ms)) d)
        = d_done (park d target (m_cand m0) OutcomeRejected cancelDetail (rr_RunID (m_rec m0)))"
      using m0 by (simp add: Let_def)
    then show ?thesis using m0 Cons.prems(3) by (simp add: cancelled_park_def)
  qed
qed simp

lemma testing_run_Some:
  assumes "testing_run ref runs = Some i"
  shows "i < length runs" "\<exists>m \<in> set (r_members (runs ! i)). c_Ref (m_cand m) = ref"
    "\<forall>r \<in> set (take i runs). \<forall>m \<in> set (r_members r). c_Ref (m_cand m) \<noteq> ref"
proof -
  let ?P = "\<lambda>r. list_ex (\<lambda>m. c_Ref (m_cand m) = ref) (r_members r)"
  obtain r where f: "find (\<lambda>(_, r). ?P r) (enumerate 0 runs) = Some (i, r)"
    using assms by (auto simp: testing_run_def)
  then obtain j where j: "j < length runs" "?P (runs ! j)" "(i, r) = (j, runs ! j)" "\<forall>k < j. \<not> ?P (runs ! k)"
    by (auto simp: find_Some_iff nth_enumerate_eq)
  then show "i < length runs" "\<exists>m \<in> set (r_members (runs ! i)). c_Ref (m_cand m) = ref" by (auto simp: list_ex_iff)
  show "\<forall>r \<in> set (take i runs). \<forall>m \<in> set (r_members r). c_Ref (m_cand m) \<noteq> ref"
  proof (intro ballI)
    fix r m assume "r \<in> set (take i runs)" "m \<in> set (r_members r)"
    then obtain k where "k < i" "r = runs ! k" by (auto simp: in_set_conv_nth)
    then show "c_Ref (m_cand m) \<noteq> ref" using j(3,4) \<open>m \<in> set (r_members r)\<close> by (auto simp: list_ex_iff)
  qed
qed

lemma testing_run_None:
  "testing_run ref runs = None \<longleftrightarrow> (\<forall>r \<in> set runs. \<forall>m \<in> set (r_members r). c_Ref (m_cand m) \<noteq> ref)"
  by (simp add: testing_run_def find_None_iff list_ex_iff in_set_enumerate_eq) (metis in_set_conv_nth)

lemma materialize_members:
  obtains f where "r_members (materializeChecks r) = map f (r_members r)"
    "\<And>m. m_cand (f m) = m_cand m" "\<And>m. rr_RunID (m_rec (f m)) = rr_RunID (m_rec m)"
proof (cases "r_materialized r")
  case True
  then show ?thesis using that [of "\<lambda>m. m"] by (simp add: materializeChecks_def)
next
  case False
  let ?f = "\<lambda>m. m\<lparr>m_rec := (m_rec m)\<lparr>rr_Checks := check_rows r 0 (r_checks r)\<rparr>\<rparr>"
  show ?thesis by (rule that [of ?f]) (simp_all add: materializeChecks_def False Let_def)
qed

lemma emit_members_done: "oc \<noteq> OutcomeError \<Longrightarrow> d_done (emit_members target oc detail parked ms d) = d_done d"
  by (induction ms arbitrary: d) (simp_all add: Let_def maybeAutoRetry_other)

lemma finishRun_parks:
  assumes "r_members r = [m]" "oc \<noteq> OutcomeError"
  shows "map_of (mget [] (d_done (finishRun d t r oc detail True)) n) x
    = map_of (mget [] (d_done (park d (tg_Name t) (m_cand m) oc detail (rr_RunID (m_rec m)))) n) x"
proof -
  obtain f where f: "r_members (materializeChecks r) = map f (r_members r)"
    "\<And>m. m_cand (f m) = m_cand m" "\<And>m. rr_RunID (m_rec (f m)) = rr_RunID (m_rec m)"
    using materialize_members [of r] by blast
  show ?thesis unfolding finishRun_def Let_def
    by (simp add: emit_members_done [OF assms(2)] f assms(1) close_member_def maybeAutoRetry_other [OF assms(2)])
qed

lemma cancel_report_lanes [simp]: "d_lanes (cancel_report target runID ref ms d) = d_lanes d"
  by (induction ms arbitrary: d) (simp_all add: Let_def)

text \<open>The two ways a run is given up on a cancel, alike in what they report and park.\<close>

definition give_up :: "daemon \<Rightarrow> target_cfg \<Rightarrow> run \<Rightarrow> string \<Rightarrow> daemon" where
  "give_up d t r ref =
     (if 1 < length (r_members r) then cancelBatchMember d t r ref else finishRun d t r OutcomeRejected cancelDetail True)"

lemma give_up_batch:
  "tells (map (cancel_kind ref) (r_members r)) (d_events d) (d_events (cancelBatchMember d t r ref))"
  "m \<in> set (r_members r) \<Longrightarrow> c_Ref (m_cand m) = ref \<Longrightarrow> cancel_parks d (cancelBatchMember d t r ref) (tg_Name t) ref (r_members r)"
proof -
  obtain f where f: "r_members (materializeChecks r) = map f (r_members r)"
    "\<And>m. m_cand (f m) = m_cand m" "\<And>m. rr_RunID (m_rec (f m)) = rr_RunID (m_rec m)"
    using materialize_members [of r] by blast
  let ?ms = "map f (r_members r)"
  obtain D where D: "cancelBatchMember d t r ref = cancel_report (tg_Name t) (r_runID (materializeChecks r)) ref (map (cancel_member d ref) ?ms) D"
    "d_events D = d_events d" "d_done D = d_done d" "d_now D = d_now d"
    by (rule that [OF _ finalizeRun_frame(8,4,3)]) (simp add: cancelBatchMember_def Let_def f)
  have "map (cancel_kind ref) ?ms = map (cancel_kind ref) (r_members r)" by (simp add: cancel_kind_def f)
  then show "tells (map (cancel_kind ref) (r_members r)) (d_events d) (d_events (cancelBatchMember d t r ref))"
    unfolding D(1) D(2) [symmetric] using cancel_report_tells [of ref ?ms D] by (simp only:)
  assume m: "m \<in> set (r_members r)" "c_Ref (m_cand m) = ref"
  have "\<exists>m \<in> set ?ms. c_Ref (m_cand m) = ref
      \<and> map_of (mget [] (d_done (cancelBatchMember d t r ref)) (tg_Name t)) ref = Some (cancelled_park d m)"
    unfolding D(1) by (rule cancel_report_parks [of "f m"]) (use m f D(4) in auto)
  then have "\<exists>m \<in> set (r_members r). c_Ref (m_cand m) = ref
      \<and> map_of (mget [] (d_done (cancelBatchMember d t r ref)) (tg_Name t)) ref = Some (cancelled_park d m)"
    by (auto simp: cancelled_park_def f)
  moreover have "map_of (mget [] (d_done (cancelBatchMember d t r ref)) n) x = map_of (mget [] (d_done d) n) x"
    if "(n, x) \<noteq> (tg_Name t, ref)" for n x
    unfolding D(1) D(3) [symmetric] by (rule cancel_report_other [OF that])
  ultimately show "cancel_parks d (cancelBatchMember d t r ref) (tg_Name t) ref (r_members r)"
    unfolding cancel_parks_def by blast
qed

lemma give_up_effect:
  assumes "m \<in> set (r_members r)" "c_Ref (m_cand m) = ref"
  shows "tells (map (cancel_kind ref) (r_members r)) (d_events d) (d_events (give_up d t r ref))"
    "cancel_parks d (give_up d t r ref) (tg_Name t) ref (r_members r)"
    "d_lanes (give_up d t r ref) = d_lanes d"
proof -
  have single: "r_members r = [m]" if "\<not> 1 < length (r_members r)"
    using that assms(1) by (cases "r_members r") auto
  show "tells (map (cancel_kind ref) (r_members r)) (d_events d) (d_events (give_up d t r ref))"
    using give_up_batch(1) finishRun_tells [of OutcomeRejected r d t cancelDetail True] single assms(2)
    by (auto simp: give_up_def cancel_kind_def)
  show "cancel_parks d (give_up d t r ref) (tg_Name t) ref (r_members r)"
    using give_up_batch(2) [OF assms] single assms(2)
    by (auto simp: give_up_def cancel_parks_def finishRun_parks cancelled_park_def)
  show "d_lanes (give_up d t r ref) = d_lanes d"
    by (simp add: give_up_def cancelBatchMember_def Let_def)
qed

lemma cancelInFlight_give_up:
  "cancelInFlight d t i ref =
     (let runs = mget [] (d_lanes d) (tg_Name t) in
      set_lane (invalidateSuffix (give_up d t (cancelRun d (runs ! i)) ref) t (i + 1)
        ''pipeline bubble: operator cancelled a run ahead of it'') (tg_Name t) (take i runs))"
  by (simp add: cancelInFlight_def give_up_def Let_def)

lemma cancelInFlight_effect:
  assumes "runs = mget [] (d_lanes d) (tg_Name t)" "m \<in> set (r_members (runs ! i))" "c_Ref (m_cand m) = ref"
  shows "mget [] (d_lanes (cancelInFlight d t i ref)) n = (if n = tg_Name t then take i runs else mget [] (d_lanes d) n)"
    "cancel_parks d (cancelInFlight d t i ref) (tg_Name t) ref (r_members (runs ! i))"
    "tells (map (cancel_kind ref) (r_members (runs ! i)) @ verdicts EventSkipped (concat (map r_members (drop (Suc i) runs))))
       (d_events d) (d_events (cancelInFlight d t i ref))"
proof -
  let ?d = "give_up d t (cancelRun d (runs ! i)) ref"
  note g = give_up_effect [of m "cancelRun d (runs ! i)", simplified, OF assms(2,3), of d t]
  show "mget [] (d_lanes (cancelInFlight d t i ref)) n = (if n = tg_Name t then take i runs else mget [] (d_lanes d) n)"
    by (simp add: cancelInFlight_give_up Let_def set_lane_lanes invalidateSuffix_lanes g(3) assms(1) [symmetric])
  show "cancel_parks d (cancelInFlight d t i ref) (tg_Name t) ref (r_members (runs ! i))"
    using g(2) by (simp add: cancelInFlight_give_up Let_def invalidateSuffix_def skip_runs_done cancel_parks_def assms(1) [symmetric])
  have "tells (verdicts EventSkipped (concat (map r_members (drop (Suc i) runs)))) (d_events ?d) (d_events (cancelInFlight d t i ref))"
    using skip_runs_tells [of "drop (Suc i) runs" ?d t]
    by (simp add: cancelInFlight_give_up Let_def invalidateSuffix_def g(3) assms(1) [symmetric])
  from tells_append [OF g(1) this]
  show "tells (map (cancel_kind ref) (r_members (runs ! i)) @ verdicts EventSkipped (concat (map r_members (drop (Suc i) runs))))
       (d_events d) (d_events (cancelInFlight d t i ref))" .
qed

text \<open>
  an operator's cancel of a candidate that is being tested stops exactly that candidate.  The lane is cut at the first run that tests it; the members
  of that run and of every run behind it get one terminal event each, in order: a rejection for the named ref, a skip for all others; the named
  ref is parked at the revision that was running, as rejected by the operator; no other park changes, so everybody else queues again; and a
  retry of the ref takes back the park and nothing else.
\<close>

theorem applyCancel_stops:
  fixes d :: daemon and cmd :: command and refs :: "(string, string) gomap"
  defines "runs \<equiv> mget [] (d_lanes d) (cmd_Target cmd)" and "d' \<equiv> applyCancel d cmd refs"
  assumes "r \<in> set runs" "m \<in> set (r_members r)" "c_Ref (m_cand m) = cmd_Ref cmd"
  shows "\<exists>i < length runs.
    (\<forall>n. mget [] (d_lanes d') n = (if n = cmd_Target cmd then take i runs else mget [] (d_lanes d) n))
    \<and> (\<forall>r \<in> set (take i runs). \<forall>m \<in> set (r_members r). c_Ref (m_cand m) \<noteq> cmd_Ref cmd)
    \<and> (\<exists>m \<in> set (r_members (runs ! i)). c_Ref (m_cand m) = cmd_Ref cmd
         \<and> map_of (mget [] (d_done d') (cmd_Target cmd)) (cmd_Ref cmd) = Some (cancelled_park d m))
    \<and> (\<forall>n x. map_of (mget [] (d_done (applyRetry d' cmd)) n) x =
         (if (n, x) = (cmd_Target cmd, cmd_Ref cmd) then None else map_of (mget [] (d_done d) n) x))
    \<and> tells (map (cancel_kind (cmd_Ref cmd)) (r_members (runs ! i)) @ verdicts EventSkipped (concat (map r_members (drop (Suc i) runs))))
        (d_events d) (d_events d')"
proof -
  obtain i where i: "testing_run (cmd_Ref cmd) runs = Some i"
    using testing_run_None [of "cmd_Ref cmd" runs] assms(3-5) by fastforce
  note found = testing_run_Some [OF i]
  obtain m where m: "m \<in> set (r_members (runs ! i))" "c_Ref (m_cand m) = cmd_Ref cmd" using found(2) by blast
  have d': "d' = cancelInFlight d (target_zero (cmd_Target cmd)) i (cmd_Ref cmd)"
    using i by (simp add: d'_def applyCancel_def runs_def)
  note e = cancelInFlight_effect [of runs d "target_zero (cmd_Target cmd)", OF _ m, folded d']
  have runs: "runs = mget [] (d_lanes d) (tg_Name (target_zero (cmd_Target cmd)))" by (simp add: runs_def target_zero_def)
  have parks: "cancel_parks d d' (cmd_Target cmd) (cmd_Ref cmd) (r_members (runs ! i))"
    using e(2) [OF runs] by (simp add: target_zero_def)
  then have "map_of (mget [] (d_done (applyRetry d' cmd)) n) x =
      (if (n, x) = (cmd_Target cmd, cmd_Ref cmd) then None else map_of (mget [] (d_done d) n) x)" for n x
    unfolding applyRetry_def cancel_parks_def by (auto simp: clearPark_done mhas_def)
  then show ?thesis
    using found(1,3) e(1,3) [OF runs] parks unfolding cancel_parks_def by (intro exI [of _ i]) (auto simp: target_zero_def)
qed

definition sample_cancel :: command where
  "sample_cancel = sample_preempt\<lparr>cmd_Kind := CommandCancel, cmd_Ref := ''refs/heads/for/main/a''\<rparr>"

definition sample_batch :: run where
  "sample_batch = sample_run\<lparr>r_members := r_members sample_run
     @ [\<lparr>m_cand = sample_candidate ''b'' ''s2'', m_mergeOID = ''tip2'', m_rec = run_record_zero\<rparr>]\<rparr>"

theorem applyCancel_stops_witness:
  "let d = sample_daemon\<lparr>d_lanes := [(''main'', [sample_batch])]\<rparr>; d' = applyCancel d sample_cancel [] in
     mget [] (d_lanes d') ''main'' = []
     \<and> (\<exists>m. map_of (mget [] (d_done d') ''main'') ''refs/heads/for/main/a'' = Some (cancelled_park d m))
     \<and> tells [(EventRejected, sample_candidate ''a'' ''s1''), (EventSkipped, sample_candidate ''b'' ''s2'')] (d_events d) (d_events d')"
proof -
  let ?d = "sample_daemon\<lparr>d_lanes := [(''main'', [sample_batch])]\<rparr>"
  have runs: "mget [] (d_lanes ?d) ''main'' = [sample_batch]"
    and names: "cmd_Target sample_cancel = ''main''" "cmd_Ref sample_cancel = ''refs/heads/for/main/a''"
    by (simp_all add: sample_cancel_def sample_preempt_def mget_def)
  have ms: "map (cancel_kind ''refs/heads/for/main/a'') (r_members sample_batch)
      = [(EventRejected, sample_candidate ''a'' ''s1''), (EventSkipped, sample_candidate ''b'' ''s2'')]"
    by (simp add: sample_batch_def sample_run_def cancel_kind_def sample_candidate_def)
  have m: "hd (r_members sample_batch) \<in> set (r_members sample_batch)"
    "c_Ref (m_cand (hd (r_members sample_batch))) = cmd_Ref sample_cancel"
    by (simp_all add: sample_batch_def sample_run_def names sample_candidate_def)
  have r: "sample_batch \<in> set (mget [] (d_lanes ?d) (cmd_Target sample_cancel))" unfolding names runs by simp
  from applyCancel_stops [OF r m, of "[]"] show ?thesis unfolding names runs Let_def by (auto simp: ms)
qed

section \<open>Emergencies\<close>

text \<open>Every selected revision is the current one of a candidate, none is selected twice, and prerequisites come first.\<close>

definition exact_selection :: "(string, candidate) gomap \<Rightarrow> revision list \<Rightarrow> bool" where
  "exact_selection cands vs =
     (distinct (map rev_Ref vs)
      \<and> (\<forall>i < length vs. \<exists>c. map_of cands (rev_Ref (vs ! i)) = Some c \<and> c_SHA c = rev_SHA (vs ! i) \<and> c_Version c = rev_Version (vs ! i)
           \<and> (c_DependsOn c = [] \<or> c_DependsOn c \<in> rev_Ref ` set (take i vs))))"

lemma exact_selection_snoc:
  "exact_selection cands (vs @ [v]) \<longleftrightarrow> exact_selection cands vs \<and> rev_Ref v \<notin> rev_Ref ` set vs
     \<and> (\<exists>c. map_of cands (rev_Ref v) = Some c \<and> c_SHA c = rev_SHA v \<and> c_Version c = rev_Version v
          \<and> (c_DependsOn c = [] \<or> c_DependsOn c \<in> rev_Ref ` set vs))"
  by (auto simp: exact_selection_def nth_append less_Suc_eq)

lemma exact_selection_prefix:
  assumes "exact_selection cands (us @ vs)"
  shows "exact_selection cands us"
  unfolding exact_selection_def
proof (intro conjI allI impI)
  fix i assume i: "i < length us"
  have "i < length (us @ vs)" using i by simp
  then have "\<exists>c. map_of cands (rev_Ref ((us @ vs) ! i)) = Some c \<and> c_SHA c = rev_SHA ((us @ vs) ! i)
      \<and> c_Version c = rev_Version ((us @ vs) ! i) \<and> (c_DependsOn c = [] \<or> c_DependsOn c \<in> rev_Ref ` set (take i (us @ vs)))"
    using assms unfolding exact_selection_def by blast
  then show "\<exists>c. map_of cands (rev_Ref (us ! i)) = Some c \<and> c_SHA c = rev_SHA (us ! i)
      \<and> c_Version c = rev_Version (us ! i) \<and> (c_DependsOn c = [] \<or> c_DependsOn c \<in> rev_Ref ` set (take i us))"
    using i by (simp add: nth_append)
qed (use assms in \<open>simp add: exact_selection_def\<close>)

lemma select_emergency_exact:
  assumes "exact_selection cands us"
  shows "select_emergency cands vs (rev (map rev_Ref us)) = None \<longleftrightarrow> exact_selection cands (us @ vs)"
  using assms
proof (induction vs arbitrary: us)
  case (Cons v vs)
  have no: "exact_selection cands (us @ v # vs) \<Longrightarrow> exact_selection cands (us @ [v])"
    using exact_selection_prefix [of cands "us @ [v]" vs] by simp
  show ?case
  proof (cases "exact_selection cands (us @ [v])")
    case True
    then have "select_emergency cands (v # vs) (rev (map rev_Ref us)) = select_emergency cands vs (rev (map rev_Ref (us @ [v])))"
      by (auto simp: exact_selection_snoc)
    then show ?thesis using Cons.IH [OF True] by simp
  next
    case False
    then have "select_emergency cands (v # vs) (rev (map rev_Ref us)) \<noteq> None"
      using Cons.prems by (auto simp: exact_selection_snoc split: option.split)
    then show ?thesis using False no by blast
  qed
qed simp

abbreviation emergencies :: "daemon \<Rightarrow> (string, command) gomap" where
  "emergencies d \<equiv> ct_Emergency (d_controls d)"

lemma clone_Emergency [simp]: "ct_Emergency (clone c) = ct_Emergency c"
  by (simp add: clone_def clone_entries_def)

lemma emergencies_frame [simp]:
  "emergencies (set_last_error e d) = emergencies d"
  "emergencies (governorFeedback d t r oc) = emergencies d"
  "emergencies (forgetPrepared d runID) = emergencies d"
  "emergencies (snd (recordPolicyDecision d ref sha phase input dec err)) = emergencies d"
  "emergencies (snd (casUpdate d ref old new)) = emergencies d"
  "emergencies (unpin d oid) = emergencies d"
  by (simp_all add: set_last_error_def governorFeedback_def forgetPrepared_def recordPolicyDecision_def casUpdate_def unpin_def Let_def
      split: option.split cas_fault.splits)

lemma emergencies_run [simp]:
  "emergencies (scheduleTrialReap d ref oid) = emergencies d"
  "emergencies (finalizeRun d r) = emergencies d"
  "emergencies (emit_members target oc detail False ms d) = emergencies d"
  "emergencies (finishRun d t r OutcomeSkipped detail False) = emergencies d"
  "emergencies (skip_runs t reason rs d) = emergencies d"
proof -
  show reap: "emergencies (scheduleTrialReap d ref oid) = emergencies d" for d
    by (simp add: scheduleTrialReap_def deleteTrialRefNow_def Let_def)
  show fin: "emergencies (finalizeRun d r) = emergencies d" for d r
    by (simp add: finalizeRun_def Let_def scheduleTrialReap_def deleteTrialRefNow_def)
  show emit: "emergencies (emit_members target oc detail False ms d) = emergencies d" for target oc detail ms d
    by (induction ms arbitrary: d) (simp_all add: Let_def)
  show run: "emergencies (finishRun d t r OutcomeSkipped detail False) = emergencies d" for d r detail
    by (simp add: finishRun_def Let_def emit fin)
  show "emergencies (skip_runs t reason rs d) = emergencies d"
    by (induction rs arbitrary: d) (simp_all add: run)
qed

lemma authorize_keeps:
  "emergencies (snd (authorizeCommand d cmd)) = emergencies d" "pauses (snd (authorizeCommand d cmd)) = pauses d"
  "d_external (snd (authorizeCommand d cmd)) = d_external d" "d_cfg (snd (authorizeCommand d cmd)) = d_cfg d"
  "d_now (snd (authorizeCommand d cmd)) = d_now d"
proof -
  have ext: "d_external (snd (recordPolicyDecision D ref sha phase input dec err)) = d_external D" for D ref sha phase input dec err
    by (simp add: recordPolicyDecision_def Let_def)
  have facts: "case command_facts d cmd of Inl d1 \<Rightarrow> emergencies d1 = emergencies d \<and> pauses d1 = pauses d \<and> d_external d1 = d_external d
        \<and> d_cfg d1 = d_cfg d \<and> d_now d1 = d_now d
      | Inr (_, d1) \<Rightarrow> emergencies d1 = emergencies d \<and> pauses d1 = pauses d \<and> d_external d1 = d_external d
        \<and> d_cfg d1 = d_cfg d \<and> d_now d1 = d_now d"
    by (simp add: command_facts_def Let_def set_last_error_def split: option.split sum.split list.split)
  have "emergencies (snd (authorizeCommand d cmd)) = emergencies d \<and> pauses (snd (authorizeCommand d cmd)) = pauses d
    \<and> d_external (snd (authorizeCommand d cmd)) = d_external d \<and> d_cfg (snd (authorizeCommand d cmd)) = d_cfg d
    \<and> d_now (snd (authorizeCommand d cmd)) = d_now d"
  proof (cases "command_facts d cmd")
    case (Inr p)
    obtain input d1 where p: "p = (input, d1)" by (cases p)
    show ?thesis using facts unfolding authorizeCommand_def Inr p
      by (simp add: Let_def split_beta set_last_error_def ext split: option.split)
  qed (use facts in \<open>simp add: authorizeCommand_def\<close>)
  then show "emergencies (snd (authorizeCommand d cmd)) = emergencies d" "pauses (snd (authorizeCommand d cmd)) = pauses d"
    "d_external (snd (authorizeCommand d cmd)) = d_external d" "d_cfg (snd (authorizeCommand d cmd)) = d_cfg d"
    "d_now (snd (authorizeCommand d cmd)) = d_now d" by simp_all
qed

lemma request_emergency_Inr:
  assumes "request_emergency d cmd refs next = Inr s" "is_merge_command cmd"
  shows "cmd_Revisions cmd \<noteq> [] \<and> length (cmd_Revisions cmd) \<le> 64 \<and> exact_selection (target_cands d (cmd_Target cmd) refs) (cmd_Revisions cmd)
    \<and> (mhas (ct_Pauses next) (cmd_Target cmd) \<longrightarrow> cmd_OverridePause cmd)
    \<and> s = next\<lparr>ct_Emergency := mput (cmd_Target cmd) cmd (ct_Emergency next)\<rparr>"
  using assms select_emergency_exact [of "target_cands d (cmd_Target cmd) refs" "[]" "cmd_Revisions cmd"]
  by (auto simp: request_emergency_def exact_selection_def split: if_splits option.splits)

lemma control_next_emergency:
  assumes "control_next d cmd refs = Inr s" "is_merge_command cmd"
  shows "cmd_Revisions cmd \<noteq> [] \<and> length (cmd_Revisions cmd) \<le> 64 \<and> exact_selection (target_cands d (cmd_Target cmd) refs) (cmd_Revisions cmd)
    \<and> (mhas (pauses d) (cmd_Target cmd) \<longrightarrow> cmd_OverridePause cmd)
    \<and> ct_Emergency s = mput (cmd_Target cmd) cmd (emergencies d)"
proof -
  have kinds: "cmd_Kind cmd \<noteq> CommandPause" "cmd_Kind cmd \<noteq> CommandResume"
    using assms(2) by (auto simp: CommandPause_def CommandResume_def CommandMergeAnyway_def CommandMergePaused_def)
  let ?n = "(clone (d_controls d))\<lparr>ct_LastError := []\<rparr>"
  obtain s1 where s1: "request_emergency d cmd refs ?n = Inr s1" "ct_Emergency s = ct_Emergency (process_request cmd s1)"
    using assms(1) kinds by (auto simp: control_next_def Let_def split: sum.splits)
  have "ct_Emergency (process_request cmd s1) = ct_Emergency s1"
    by (simp add: process_request_def Let_def split: list.split)
  then show ?thesis using request_emergency_Inr [OF s1(1) assms(2)] s1(2) by simp
qed

lemma trim_command_fields [simp]:
  "cmd_Kind (trim_command cmd) = cmd_Kind cmd" "cmd_Target (trim_command cmd) = cmd_Target cmd"
  "cmd_Revisions (trim_command cmd) = cmd_Revisions cmd" "cmd_OverridePause (trim_command cmd) = cmd_OverridePause cmd"
  by (simp_all add: trim_command_def)

text \<open>Where a merge command passes all the checks of \<open>applyControl\<close>.\<close>

lemma applyControl_merge_cases:
  assumes "is_merge_command cmd"
  obtains (refused) "emergencies (applyControl_target d cmd refs) = emergencies d"
    | (taken) d1 s where "authorizeCommand d cmd = (True, d1)" "\<not> d_draining d"
        "cmd_Actor (trim_command cmd) \<noteq> []" "cmd_Reason (trim_command cmd) \<noteq> []"
        "cmd_Kind cmd = CommandMergePaused \<longrightarrow> cmd_OverridePause cmd"
        "\<exists>t \<in> set (cf_Targets (d_cfg d)). tg_Name t = cmd_Target cmd"
        "control_next d1 (trim_command cmd) refs = Inr s"
        "emergencies (applyControl_target d cmd refs) = ct_Emergency s"
        "ct_Uncertain (d_controls (applyControl_target d cmd refs)) \<or> mget [] (d_lanes (applyControl_target d cmd refs)) (cmd_Target cmd) = []"
proof -
  obtain ok d1 where a: "authorizeCommand d cmd = (ok, d1)" by fastforce
  note keeps = authorize_keeps [of d cmd, unfolded a snd_conv]
  have kinds: "cmd_Kind cmd \<noteq> CommandPriority" "cmd_Kind cmd \<noteq> CommandMove" "cmd_Kind cmd \<noteq> CommandUrgent"
    using assms by (auto simp: CommandPriority_def CommandMove_def CommandUrgent_def CommandMergeAnyway_def CommandMergePaused_def)
  let ?c = "trim_command cmd"
  define r where "r = applyControl_target d cmd refs"
  define early where "early = (d_draining d \<or> \<not> ok \<or> cmd_Actor ?c = [] \<or> cmd_Reason ?c = []
    \<or> 256 < length (cmd_Actor ?c) \<or> 2048 < length (cmd_Reason ?c) \<or> cmd_Kind cmd = CommandMergePaused \<and> \<not> cmd_OverridePause cmd)"
  show ?thesis
  proof (cases early)
    case True
    then have "emergencies r = emergencies d"
      using assms keeps(1) unfolding early_def r_def applyControl_target_def a by (auto simp: Let_def split: bool.split)
    then show ?thesis using refused by (simp add: r_def)
  next
    case False
    then have body: "r = (case find (\<lambda>t. tg_Name t = cmd_Target cmd) (cf_Targets (d_cfg d1)) of
        None \<Rightarrow> set_last_error ''unknown target'' d1
      | Some t \<Rightarrow> if tg_Name t = [] then set_last_error ''unknown target'' d1
          else case control_next d1 ?c refs of Inl e \<Rightarrow> set_last_error e d1
          | Inr s \<Rightarrow> (case saveControls d1 s of (False, d2) \<Rightarrow> d2
              | (True, d2) \<Rightarrow> if mhas (d_lanes d2) (cmd_Target cmd)
                             then invalidateSuffix d2 t 0 (msg [''operator incident control: '', cmd_Reason ?c]) else d2))"
      using assms kinds unfolding early_def r_def applyControl_target_def a by (auto simp: Let_def split: option.split sum.split prod.split bool.split)
    consider "emergencies r = emergencies d"
      | t s where "find (\<lambda>t. tg_Name t = cmd_Target cmd) (cf_Targets (d_cfg d)) = Some t" "control_next d1 ?c refs = Inr s"
          "r = (case saveControls d1 s of (False, d2) \<Rightarrow> d2
              | (True, d2) \<Rightarrow> if mhas (d_lanes d2) (cmd_Target cmd)
                             then invalidateSuffix d2 t 0 (msg [''operator incident control: '', cmd_Reason ?c]) else d2)"
      using body keeps(1,4) by (auto split: option.splits if_splits sum.splits)
    then show ?thesis
    proof cases
      case 1
      then show ?thesis using refused by (simp add: r_def)
    next
      case (2 t s)
      obtain saved d2 where sv: "saveControls d1 s = (saved, d2)" by fastforce
      have t: "t \<in> set (cf_Targets (d_cfg d))" "tg_Name t = cmd_Target cmd" using 2(1) by (auto simp: find_Some_iff)
      have em: "emergencies d2 = ct_Emergency s" using saveControls_controls [of d1 s] sv by (metis snd_conv)
      have no_lane: "mget [] (d_lanes d2) k = []" if "\<not> mhas (d_lanes d2) k" for k
        using that by (simp add: mhas_def mget_def split: option.splits)
      have un: "\<not> saved \<Longrightarrow> ct_Uncertain (d_controls d2)" by (rule saveControls_cases [OF sv]) simp
      have "emergencies r = ct_Emergency s" using 2(3) em sv by (auto simp: invalidateSuffix_def Let_def split: bool.splits)
      moreover have "ct_Uncertain (d_controls r) \<or> mget [] (d_lanes r) (cmd_Target cmd) = []"
        using 2(3) sv un t(2) no_lane by (auto simp: invalidateSuffix_lanes split: bool.splits)
      ultimately show ?thesis using taken [of d1 s] False 2(2) t a unfolding early_def r_def by auto
    qed
  qed
qed

text \<open>
  C10: an emergency merge is taken only as requested.  Whenever a merge command changes the emergency of a target, it is the target the command names, the
  daemon was not draining, the policy authorized the command, actor and reason were given, a pause is overridden explicitly, and each of the at
  most 64 selected revisions is exactly the current one of its candidate, once, behind its prerequisites; what is recorded is the command itself, and
  unless it could not be made durable, no run that started before it is left in the lane.
\<close>

theorem applyControl_emergency:
  fixes d :: daemon and cmd :: command and refs :: "(string, string) gomap"
  defines "d' \<equiv> applyControl_target d cmd refs"
  assumes "is_merge_command cmd" "map_of (emergencies d') n \<noteq> map_of (emergencies d) n"
  shows "n = cmd_Target cmd \<and> map_of (emergencies d') n = Some (trim_command cmd)
    \<and> \<not> d_draining d \<and> fst (authorizeCommand d cmd) \<and> (\<exists>t \<in> set (cf_Targets (d_cfg d)). tg_Name t = n)
    \<and> cmd_Actor (trim_command cmd) \<noteq> [] \<and> cmd_Reason (trim_command cmd) \<noteq> []
    \<and> (cmd_OverridePause cmd \<or> cmd_Kind cmd = CommandMergeAnyway \<and> \<not> mhas (pauses d) n)
    \<and> 1 \<le> length (cmd_Revisions cmd) \<and> length (cmd_Revisions cmd) \<le> 64 \<and> exact_selection (target_cands d n refs) (cmd_Revisions cmd)
    \<and> (ct_Uncertain (d_controls d') \<or> mget [] (d_lanes d') n = [])"
proof (cases rule: applyControl_merge_cases [OF assms(2), of d refs, case_names refused taken])
  case refused
  then show ?thesis using assms(3) unfolding d'_def by simp
next
  case (taken d1 s)
  note keeps = authorize_keeps [of d cmd, unfolded taken(1) snd_conv]
  have c: "control_next d1 (trim_command cmd) refs = Inr s" "is_merge_command (trim_command cmd)" using taken(7) assms(2) by simp_all
  note nx = control_next_emergency [OF c, unfolded trim_command_fields keeps]
  have n: "n = cmd_Target cmd" using nx taken(8) assms(3) unfolding d'_def by (auto split: if_splits)
  have "target_cands d1 n refs = target_cands d n refs" by (simp add: target_cands_def keeps(3))
  then show ?thesis using nx taken assms(2) n unfolding d'_def by (auto simp: Suc_le_eq)
qed

definition sample_merge :: command where
  "sample_merge = sample_preempt\<lparr>cmd_Kind := CommandMergeAnyway, cmd_Actor := ''op '', cmd_Reason := ''fix'',
     cmd_Revisions := [\<lparr>rev_Ref = ''refs/heads/for/main/a'', rev_SHA = ''s1'', rev_Version = []\<rparr>]\<rparr>"

theorem applyControl_emergency_witness:
  "let d' = applyControl_target sample_daemon sample_merge sample_refs in
     map_of (emergencies d') ''main'' = Some (sample_merge\<lparr>cmd_Actor := ''op''\<rparr>)
     \<and> exact_selection (target_cands sample_daemon ''main'' sample_refs) (cmd_Revisions sample_merge)"
proof -
  have m: "is_merge_command sample_merge" by (simp add: sample_merge_def)
  have "mhas (emergencies (applyControl_target sample_daemon sample_merge sample_refs)) ''main''" by code_simp
  moreover have "emergencies sample_daemon = []" by (simp add: sample_daemon_def controls_zero_def)
  ultimately have differs: "map_of (emergencies (applyControl_target sample_daemon sample_merge sample_refs)) ''main''
      \<noteq> map_of (emergencies sample_daemon) ''main''" by (auto simp: mhas_def)
  have trim: "trim_command sample_merge = sample_merge\<lparr>cmd_Actor := ''op''\<rparr>" by code_simp
  show ?thesis using applyControl_emergency [OF m differs] unfolding trim Let_def by blast
qed

section \<open>Requests of a forge review\<close>

text \<open>Printing and parsing of the request numbers are inverse.\<close>

lemma digit_value_char: "k < 10 \<Longrightarrow> digit_value (digit_char k) = Some (int k)"
  by (simp add: digit_value_def of_char_digit_char Let_def)

lemma scan_uint_append:
  "scan_uint n (xs @ ys) = (case scan_uint n xs of ScanValue m \<Rightarrow> scan_uint m ys | e \<Rightarrow> e)"
  by (induction xs arbitrary: n) (simp_all split: option.split)

lemma scan_uint_show:
  assumes "int n \<le> 18446744073709551615"
  shows "scan_uint 0 (show_nat n) = ScanValue (int n)"
  using assms
proof (induction n rule: show_nat.induct)
  case (1 n)
  show ?case
  proof (cases "n < 10")
    case True
    then show ?thesis by (simp add: show_nat.simps [of n] digit_value_char)
  next
    case False
    have "int (n div 10) \<le> 18446744073709551615" using 1(2) by linarith
    then have "scan_uint 0 (show_nat (n div 10)) = ScanValue (int (n div 10))" using 1(1) [OF False] by simp
    moreover have "int (n div 10) * 10 + int (n mod 10) = int n" by presburger
    ultimately show ?thesis using False 1(2) by (simp add: show_nat.simps [of n] scan_uint_append digit_value_char)
  qed
qed

lemma show_nat_digits: "\<exists>k cs. k < 10 \<and> show_nat n = digit_char k # cs"
proof (induction n rule: show_nat.induct)
  case (1 n)
  show ?case
  proof (cases "n < 10")
    case False
    then obtain k cs where "k < 10" "show_nat (n div 10) = digit_char k # cs" using 1 by blast
    then show ?thesis using False by (subst show_nat.simps) auto
  qed (auto simp: show_nat.simps [of n])
qed

lemma digit_char_not_sign: "k < 10 \<Longrightarrow> digit_char k \<noteq> CHR ''-'' \<and> digit_char k \<noteq> CHR ''+''"
proof -
  assume k: "k < 10"
  have "digit_char k \<noteq> CHR ''+''"
  proof
    assume "digit_char k = CHR ''+''"
    then have "of_char (digit_char k) = (of_char CHR ''+'' :: nat)" by (rule arg_cong)
    also have "\<dots> = 43" by code_simp
    finally show False using of_char_digit_char [OF k] by simp
  qed
  then show ?thesis using digit_char_not_dash [OF k] by simp
qed

lemma parse_show:
  assumes "- 9223372036854775808 \<le> i" "i \<le> 9223372036854775807"
  shows "parse_int (show_int i) = (i, True)"
proof (cases "i < 0")
  case True
  have "scan_uint 0 (show_nat (nat (- i))) = ScanValue (- i)" using scan_uint_show [of "nat (- i)"] True assms by simp
  then show ?thesis using True assms by (simp add: parse_int_def show_int_def show_nat_nonempty)
next
  case False
  obtain k cs where k: "k < 10" "show_nat (nat i) = digit_char k # cs" using show_nat_digits by blast
  have "scan_uint 0 (digit_char k # cs) = ScanValue i" using scan_uint_show [of "nat i"] False assms k(2) by simp
  then show ?thesis using False assms digit_char_not_sign [OF k(1)] by (simp add: parse_int_def show_int_def k(2) Let_def del: scan_uint.simps)
qed

text \<open>A request is settled when the ledger names it or its number is not above the floor; \<open>review_requests\<close> passes such requests over.\<close>

definition settled_request :: "control_state \<Rightarrow> string \<Rightarrow> bool" where
  "settled_request s request =
     (mget False (ct_ProcessedReviews s) request \<or> fst (parse_int request) \<le> ct_ReviewFloor s)"

lemma review_requests_skip:
  "settled_request (d_controls d) request \<Longrightarrow> review_requests t refs groups (request # ids) d = review_requests t refs groups ids d"
  by (auto simp: settled_request_def Let_def split_beta)

lemma parse_int_range: "- 9223372036854775808 \<le> fst (parse_int s) \<and> fst (parse_int s) \<le> 9223372036854775807"
proof -
  have "0 \<le> n \<Longrightarrow> scan_uint n ds = ScanValue m \<Longrightarrow> 0 \<le> m" for n m ds
  proof (induction ds arbitrary: n)
    case (Cons c ds)
    then obtain k where k: "digit_value c = Some k" "scan_uint (n * 10 + k) ds = ScanValue m"
      by (auto split: option.splits if_splits)
    have "0 \<le> k" using k(1) by (auto simp: digit_value_def Let_def split: if_splits)
    then show ?case using Cons.IH [OF _ k(2)] Cons.prems(1) by simp
  qed simp
  from this [of 0] have pos: "scan_uint 0 ds = ScanValue m \<Longrightarrow> 0 \<le> m" for ds m by simp
  define neg where "neg = (case s of c # _ \<Rightarrow> c = CHR ''-'' | [] \<Rightarrow> False)"
  define digits where "digits = (case s of c # cs \<Rightarrow> if c = CHR ''-'' \<or> c = CHR ''+'' then cs else s | [] \<Rightarrow> [])"
  show ?thesis unfolding parse_int_def neg_def [symmetric] digits_def [symmetric] Let_def
    using pos [of digits] by (cases "scan_uint 0 digits") auto
qed

lemma process_request_settles:
  "cmd_RequestID cmd \<noteq> [] \<Longrightarrow> settled_request (process_request cmd s) (cmd_RequestID cmd)"
  "settled_request s request \<Longrightarrow> settled_request (process_request cmd s) request"
proof -
  let ?s = "s\<lparr>ct_ProcessedReviews := mput (cmd_RequestID cmd) True (ct_ProcessedReviews s)\<rparr>"
  have base: "settled_request ?s (cmd_RequestID cmd)" "settled_request s request \<Longrightarrow> settled_request ?s request" for request
    by (simp_all add: settled_request_def)
  have evict: "settled_request (?s\<lparr>ct_ReviewFloor := max (ct_ReviewFloor ?s) n, ct_ProcessedReviews := mdel (show_int n) (ct_ProcessedReviews ?s)\<rparr>) request"
    if "settled_request ?s request" "parse_int (show_int n) = (n, True)" for request n
    using that by (auto simp: settled_request_def)
  have "process_request cmd s = s \<and> cmd_RequestID cmd = [] \<or> process_request cmd s = ?s
      \<or> (\<exists>n. parse_int (show_int n) = (n, True) \<and> process_request cmd s
           = ?s\<lparr>ct_ReviewFloor := max (ct_ReviewFloor ?s) n, ct_ProcessedReviews := mdel (show_int n) (ct_ProcessedReviews ?s)\<rparr>)"
  proof -
    let ?ns = "map fst (filter snd (map (parse_int \<circ> fst) (ct_ProcessedReviews ?s)))"
    have "parse_int (show_int n) = (n, True)" if "n \<in> set ?ns" for n
      using that parse_int_range by (intro parse_show) auto
    moreover have "n \<in> set ?ns" if "sort_by (<) ?ns = n # ns" for n ns
      using that set_sort_by [of "(<)" ?ns] by (metis list.set_intros(1))
    ultimately have good: "parse_int (show_int n) = (n, True)" if "sort_by (<) ?ns = n # ns" for n ns using that by blast
    show ?thesis
    proof (cases "sort_by (<) ?ns")
      case Nil
      then show ?thesis by (simp add: process_request_def Let_def)
    next
      case (Cons n ns)
      then show ?thesis using good [OF Cons] by (auto simp: process_request_def Let_def)
    qed
  qed
  then show "cmd_RequestID cmd \<noteq> [] \<Longrightarrow> settled_request (process_request cmd s) (cmd_RequestID cmd)"
    "settled_request s request \<Longrightarrow> settled_request (process_request cmd s) request"
    using base evict by auto
qed



section \<open>Restart\<close>

text \<open>What the controls hold for the next start, and that the file holds it whenever nothing is pending.\<close>

definition stored_current :: "daemon \<Rightarrow> bool" where
  "stored_current d =
     (\<not> d_schedulerDirty d \<and> \<not> ct_Uncertain (d_controls d) \<and> ct_Checkpoint (d_controls d) \<and> cf_ControlPath (d_cfg d) \<noteq> []
      \<longrightarrow> (\<exists>e. d_stored d = Some ((d_controls d)\<lparr>ct_LastError := e\<rparr>)))"

lemma persistScheduler_stores:
  assumes "persistScheduler d = (True, d')" "stored_current d" "cf_ControlPath (d_cfg d) \<noteq> []"
  shows "\<exists>e. d_stored d' = Some ((d_controls d')\<lparr>ct_LastError := e\<rparr>)" "ct_Checkpoint (d_controls d')" "\<not> ct_Uncertain (d_controls d')"
    "nested_eq (d_order d') (ct_Order (d_controls d'))" "nested_eq (d_done d') (ct_Parks (d_controls d'))"
    "nested_eq (d_autoRetried d') (ct_AutoRetried (d_controls d'))" "ct_Version (d_controls d') = ct_Version (d_controls d)"
proof -
  have "(\<exists>e. d_stored d' = Some ((d_controls d')\<lparr>ct_LastError := e\<rparr>)) \<and> ct_Checkpoint (d_controls d') \<and> \<not> ct_Uncertain (d_controls d')
    \<and> nested_eq (d_order d') (ct_Order (d_controls d')) \<and> nested_eq (d_done d') (ct_Parks (d_controls d'))
    \<and> nested_eq (d_autoRetried d') (ct_AutoRetried (d_controls d')) \<and> ct_Version (d_controls d') = ct_Version (d_controls d)"
  proof (cases "scheduler_clean d")
    case True
    with assms show ?thesis by (auto simp: persistScheduler_split scheduler_clean_def stored_current_def Let_def)
  next
    case False
    let ?s = "saveControls d (scheduler_next d)"
    from False assms(1) have s: "?s = (True, snd ?s)" and d': "d' = (snd ?s)\<lparr>d_schedulerDirty := False\<rparr>"
      by (auto simp: persistScheduler_split prod_eq_iff split: if_splits)
    have "d_stored (snd ?s) = Some (d_controls (snd ?s))" "\<not> ct_Uncertain (d_controls (snd ?s))"
      by (rule saveControls_cases [OF s], use assms(3) in simp)+
    then have "\<exists>e. d_stored (snd ?s) = Some ((d_controls (snd ?s))\<lparr>ct_LastError := e\<rparr>)" "\<not> ct_Uncertain (d_controls (snd ?s))"
      by (auto intro: exI [of _ "ct_LastError (d_controls (snd ?s))"])
    then show ?thesis unfolding d' by (simp add: scheduler_next_def Let_def)
  qed
  then show "\<exists>e. d_stored d' = Some ((d_controls d')\<lparr>ct_LastError := e\<rparr>)" "ct_Checkpoint (d_controls d')" "\<not> ct_Uncertain (d_controls d')"
    "nested_eq (d_order d') (ct_Order (d_controls d'))" "nested_eq (d_done d') (ct_Parks (d_controls d'))"
    "nested_eq (d_autoRetried d') (ct_AutoRetried (d_controls d'))" "ct_Version (d_controls d') = ct_Version (d_controls d)"
    by simp_all
qed

lemma next_seq_above:
  assumes "\<forall>(n, refs) \<in> set order. \<forall>(ref, p) \<in> set refs. 0 \<le> p \<and> p < 2 ^ 63 - 1" "(n, refs) \<in> set order" "(ref, p) \<in> set refs"
  shows "p < next_seq order"
proof -
  let ?f = "\<lambda>(_ :: string, n) sq. if sq \<le> n then i64 (n + 1) else sq"
  let ?g = "\<lambda>(_ :: string, refs) sq. fold ?f refs sq"
  have step: "?f (r, q) sq = max sq (q + 1)" if "0 \<le> q" "q < 2 ^ 63 - 1" for r q sq
    using that i64_id [of "q + 1"] by auto
  have inner: "sq \<le> fold ?f rs sq \<and> (\<forall>(r, q) \<in> set rs. q < fold ?f rs sq)"
    if "\<forall>(r, q) \<in> set rs. 0 \<le> q \<and> q < 2 ^ 63 - 1" for rs sq
    using that
  proof (induction rs arbitrary: sq)
    case (Cons x rs)
    obtain r q where x: "x = (r, q)" by (cases x)
    have "?f x sq = max sq (q + 1)" using Cons.prems step [of q r sq] unfolding x by simp
    then show ?case using Cons.IH [of "max sq (q + 1)"] Cons.prems by (auto simp: x)
  qed simp
  have "sq \<le> fold ?g os sq \<and> (\<forall>(n, refs) \<in> set os. \<forall>(r, q) \<in> set refs. q < fold ?g os sq)"
    if "\<forall>(n, refs) \<in> set os. \<forall>(r, q) \<in> set refs. 0 \<le> q \<and> q < 2 ^ 63 - 1" for os sq
    using that
  proof (induction os arbitrary: sq)
    case (Cons x os)
    obtain n refs where x: "x = (n, refs)" by (cases x)
    have i: "sq \<le> fold ?f refs sq \<and> (\<forall>(r, q) \<in> set refs. q < fold ?f refs sq)" using Cons.prems by (intro inner) (simp add: x)
    have o: "fold ?f refs sq \<le> fold ?g os (fold ?f refs sq)
        \<and> (\<forall>(n, refs') \<in> set os. \<forall>(r, q) \<in> set refs'. q < fold ?g os (fold ?f refs sq))"
      using Cons.prems by (intro Cons.IH) simp
    have "fold ?g (x # os) sq = fold ?g os (fold ?f refs sq)" by (simp add: x)
    moreover have "\<forall>(r, q) \<in> set refs. q < fold ?g os (fold ?f refs sq)" using i o by force
    ultimately show ?case using i o by (simp only: x set_simps ball_simps insert_iff) (auto simp: x)
  qed simp
  from this [OF assms(1), of 0] have "\<forall>(n, refs) \<in> set order. \<forall>(r, q) \<in> set refs. q < next_seq order"
    unfolding next_seq_def by blast
  then show ?thesis using assms(2,3) by blast
qed

lemma New_loads:
  assumes "New git cfg slots now parse file remote = Inr d"
  shows "loadControls (cf_ControlPath cfg) file = Inr (d_controls d)" "d_cfg d = cfg" "d_order d = ct_Order (d_controls d)"
    "d_done d = ct_Parks (d_controls d)" "d_autoRetried d = ct_AutoRetried (d_controls d)" "d_seq d = next_seq (ct_Order (d_controls d))"
    "d_seeded d = (if ct_Checkpoint (d_controls d) then map (\<lambda>t. (tg_Name t, True)) (cf_Targets cfg) else [])"
    "d_stored d = stored_controls (cf_ControlPath cfg) file" "d_lanes d = []"
  using assms by (auto simp: New_def split: if_splits option.splits sum.splits)

lemma New_accepts:
  assumes "New git cfg slots now parse file remote = Inr d" "loadControls (cf_ControlPath cfg) file' = Inr c"
  shows "\<exists>d1. New git cfg slots now' parse file' remote' = Inr d1 \<and> d_controls d1 = c"
  using assms by (auto simp: New_def split: if_splits option.splits sum.splits)

lemma New_stored_current:
  assumes "New git cfg slots now parse file remote = Inr d"
  shows "stored_current d"
proof -
  have "\<not> ct_Checkpoint controls_zero" by (simp add: controls_zero_def)
  then show ?thesis using New_loads(1,2,8) [OF assms]
    by (auto simp: stored_current_def stored_controls_def loadControls_def intro: exI [of _ "ct_LastError (d_controls d)"]
      split: if_splits controls_file.splits)
qed



end
