(* ===== verification/Deploy_Graph.thy ===== *)
theory Deploy_Graph
  imports Queue_Checks
begin

text \<open>
  The scheduler of a deploy graph (\<^verbatim>\<open>internal/deploy/graph.go\<close>): one run of one environment's nodes, in declaration order, under a bound on
  parallelism.  The nodes run in goroutines that report once each; the scheduler starts what is ready, drains what has been reported, and stops at the
  first node that is not green.  The goroutines and the run's context are the environment of the loop (\<open>graph_env\<close>); the context of a run, once
  cancelled, stays cancelled.
\<close>

section \<open>Nodes and their goroutines\<close>

record node =
  dg_Name :: string
  dg_After :: "string list"
  dg_Command :: "string list"
  dg_Executor :: string

text \<open>What a node's goroutine met when it asked for an execution slot, and what it reports in the end.\<close>

datatype slot_wait = SlotFree | SlotWaited go_duration | SlotCancelled go_duration string

definition node_done :: "node \<Rightarrow> slot_wait \<Rightarrow> check_result \<Rightarrow> check_result" where
  "node_done n wait res =
     (case wait of
        SlotCancelled waited e \<Rightarrow>
          check_result_zero\<lparr>cr_Name := dg_Name n, cr_Waited := waited, cr_Err := Some (msg [''waiting for an execution slot: '', e])\<rparr>
      | SlotFree \<Rightarrow> res\<lparr>cr_Name := dg_Name n, cr_Waited := 0\<rparr>
      | SlotWaited waited \<Rightarrow> res\<lparr>cr_Name := dg_Name n, cr_Waited := waited\<rparr>)"

section \<open>The loop\<close>

text \<open>\<open>ss_inflight\<close> holds the nodes whose goroutines have not reported yet (the code counts them), \<open>ss_ctx\<close> whether the run's context is cancelled,
  and \<open>ss_log\<close> the calls of \<open>OnStart\<close> and \<open>OnFinish\<close>.\<close>

datatype sched_event = NodeStarted nat | NodeFinished nat check_result

record sched_state =
  ss_results :: "(string, check_result) gomap"
  ss_started :: "bool list"
  ss_inflight :: "nat list"
  ss_culprit :: string
  ss_ctx :: bool
  ss_log :: "sched_event list"

record arrival =
  ar_ctx :: bool
  ar_idx :: nat
  ar_wait :: slot_wait
  ar_res :: check_result

record graph_env =
  ge_ctx :: "sched_state \<Rightarrow> bool"
  ge_done :: "sched_state \<Rightarrow> arrival list"

definition look :: "graph_env \<Rightarrow> sched_state \<Rightarrow> sched_state" where
  "look env s = s\<lparr>ss_ctx := ss_ctx s \<or> ge_ctx env s\<rparr>"

definition keep :: "sched_state \<Rightarrow> bool" where
  "keep s = (ss_culprit s = [] \<and> \<not> ss_ctx s)"

definition node_ready :: "(string, check_result) gomap \<Rightarrow> node \<Rightarrow> bool" where
  "node_ready results n =
     list_all (\<lambda>dep. case map_of results dep of None \<Rightarrow> False | Some res \<Rightarrow> NodeGreen res) (dg_After n)"

definition start_node :: "nat \<Rightarrow> sched_state \<Rightarrow> sched_state" where
  "start_node i s = s\<lparr>ss_started := (ss_started s)[i := True], ss_inflight := ss_inflight s @ [i], ss_log := ss_log s @ [NodeStarted i]\<rparr>"

fun start_nodes :: "int \<Rightarrow> nat \<Rightarrow> node list \<Rightarrow> sched_state \<Rightarrow> sched_state" where
  "start_nodes maxParallel i [] s = s"
| "start_nodes maxParallel i (n # ns) s =
     (if maxParallel \<le> int (length (ss_inflight s)) then s
      else if ss_started s ! i \<or> \<not> node_ready (ss_results s) n then start_nodes maxParallel (Suc i) ns s
      else start_nodes maxParallel (Suc i) ns (start_node i s))"

definition store :: "node list \<Rightarrow> arrival \<Rightarrow> sched_state \<Rightarrow> sched_state" where
  "store nodes f s =
     (let s = s\<lparr>ss_inflight := remove1 (ar_idx f) (ss_inflight s), ss_ctx := ss_ctx s \<or> ar_ctx f\<rparr>;
          n = nodes ! ar_idx f;
          res = node_done n (ar_wait f) (ar_res f) in
      if keep s
      then s\<lparr>ss_results := mput (dg_Name n) res (ss_results s), ss_log := ss_log s @ [NodeFinished (ar_idx f) res]\<rparr>
      else s)"

fun first_nongreen :: "(string, check_result) gomap \<Rightarrow> node list \<Rightarrow> string option" where
  "first_nongreen results [] = None"
| "first_nongreen results (n # ns) =
     (case map_of results (dg_Name n) of
        Some res \<Rightarrow> if NodeGreen res then first_nongreen results ns else Some (dg_Name n)
      | None \<Rightarrow> first_nongreen results ns)"

definition cull :: "node list \<Rightarrow> sched_state \<Rightarrow> sched_state" where
  "cull nodes s =
     (if keep s
      then (case first_nongreen (ss_results s) nodes of None \<Rightarrow> s | Some name \<Rightarrow> s\<lparr>ss_culprit := name\<rparr>)
      else s)"

definition sched_start :: "graph_env \<Rightarrow> node list \<Rightarrow> int \<Rightarrow> sched_state \<Rightarrow> sched_state" where
  "sched_start env nodes maxParallel s =
     (let s = look env s in if keep s then start_nodes maxParallel 0 nodes s else s)"

definition sched_drain :: "graph_env \<Rightarrow> node list \<Rightarrow> sched_state \<Rightarrow> sched_state" where
  "sched_drain env nodes s = cull nodes (look env (fold (store nodes) (ge_done env s) s))"

text \<open>\<open>None\<close> is fuel run out; \<open>Run_returns\<close> below shows that one round per node and one more are enough.\<close>

fun sched_loop :: "graph_env \<Rightarrow> node list \<Rightarrow> int \<Rightarrow> nat \<Rightarrow> sched_state \<Rightarrow> sched_state option" where
  "sched_loop env nodes maxParallel 0 s = None"
| "sched_loop env nodes maxParallel (Suc fuel) s =
     (let s = sched_start env nodes maxParallel s in
      if ss_inflight s = [] then Some s
      else sched_loop env nodes maxParallel fuel (sched_drain env nodes s))"

section \<open>Rows and the verdict\<close>

fun materialize_rows :: "(string, check_result) gomap \<Rightarrow> string \<Rightarrow> int \<Rightarrow> node list \<Rightarrow> check_result list" where
  "materialize_rows results culprit i [] = []"
| "materialize_rows results culprit i (n # ns) =
     (case map_of results (dg_Name n) of
        Some res \<Rightarrow> res\<lparr>cr_Seq := i + 1\<rparr> # materialize_rows results culprit (i + 1) ns
      | None \<Rightarrow>
          if culprit = [] then materialize_rows results culprit (i + 1) ns
          else
           (let blockedBy = filter (\<lambda>dep. case map_of results dep of None \<Rightarrow> True | Some res \<Rightarrow> \<not> NodeGreen res) (dg_After n);
                blockedBy = (if blockedBy = [] then [culprit] else blockedBy) in
            check_result_zero\<lparr>cr_Name := dg_Name n, cr_Seq := i + 1, cr_Status := CheckBlocked, cr_BlockedBy := blockedBy\<rparr>
              # materialize_rows results culprit (i + 1) ns))"

definition materialize :: "node list \<Rightarrow> (string, check_result) gomap \<Rightarrow> string \<Rightarrow> check_result list" where
  "materialize nodes results culprit = materialize_rows results culprit 0 nodes"

definition sched_init :: "node list \<Rightarrow> sched_state" where
  "sched_init nodes = \<lparr>ss_results = [], ss_started = replicate (length nodes) False, ss_inflight = [], ss_culprit = [], ss_ctx = False, ss_log = []\<rparr>"

text \<open>The verdict: rows, culprit and error.\<close>

definition sched_verdict :: "node list \<Rightarrow> sched_state \<Rightarrow> check_result list \<times> string \<times> go_error" where
  "sched_verdict nodes s =
     (let (culprit, err) =
        (if ss_ctx s then ([], Some ''context canceled'')
         else if ss_culprit s = [] \<and> length (ss_results s) \<noteq> length nodes
         then ([], Some (msg [''deploy: '', show_int (int (length nodes) - int (length (ss_results s))), '' of '', show_int (int (length nodes)),
                              '' nodes never became ready: unsatisfiable after edges'']))
         else (ss_culprit s, None)) in
      (materialize nodes (ss_results s) culprit, culprit, err))"

definition Run :: "graph_env \<Rightarrow> node list \<Rightarrow> int \<Rightarrow> nat \<Rightarrow> (check_result list \<times> string \<times> go_error) option" where
  "Run env nodes maxParallel fuel =
     map_option (sched_verdict nodes \<circ> look env) (sched_loop env nodes (max maxParallel 1) fuel (sched_init nodes))"

section \<open>The invariant of a run\<close>

abbreviation result_of :: "sched_state \<Rightarrow> string \<Rightarrow> check_result option" where
  "result_of s name \<equiv> map_of (ss_results s) name"

abbreviation node_name :: "node list \<Rightarrow> nat \<Rightarrow> string" where
  "node_name nodes i \<equiv> dg_Name (nodes ! i)"

text \<open>A graph as the spec loader hands it over: names are distinct and not empty.\<close>

definition named :: "node list \<Rightarrow> bool" where
  "named nodes = (distinct (map dg_Name nodes) \<and> [] \<notin> dg_Name ` set nodes)"

definition finished :: "sched_state \<Rightarrow> nat \<Rightarrow> bool" where
  "finished s i = (ss_started s ! i \<and> i \<notin> set (ss_inflight s))"

definition flight_ok :: "node list \<Rightarrow> int \<Rightarrow> sched_state \<Rightarrow> bool" where
  "flight_ok nodes maxParallel s =
     (length (ss_started s) = length nodes \<and> distinct (ss_inflight s) \<and> int (length (ss_inflight s)) \<le> maxParallel
      \<and> (\<forall>i \<in> set (ss_inflight s). i < length nodes \<and> ss_started s ! i))"

definition results_ok :: "node list \<Rightarrow> sched_state \<Rightarrow> bool" where
  "results_ok nodes s =
     (distinct (map fst (ss_results s))
      \<and> (\<forall>name res. result_of s name = Some res \<longrightarrow> cr_Name res = name \<and> (\<exists>i < length nodes. finished s i \<and> node_name nodes i = name))
      \<and> (keep s \<longrightarrow> (\<forall>i < length nodes. finished s i \<longrightarrow> result_of s (node_name nodes i) \<noteq> None)))"

definition edges_ok :: "node list \<Rightarrow> sched_state \<Rightarrow> bool" where
  "edges_ok nodes s = (\<forall>i < length nodes. ss_started s ! i \<longrightarrow> node_ready (ss_results s) (nodes ! i))"

definition sched_ok :: "node list \<Rightarrow> int \<Rightarrow> sched_state \<Rightarrow> bool" where
  "sched_ok nodes maxParallel s = (flight_ok nodes maxParallel s \<and> results_ok nodes s \<and> edges_ok nodes s)"

lemma node_ready_iff: "node_ready results n \<longleftrightarrow> (\<forall>dep \<in> set (dg_After n). \<exists>res. map_of results dep = Some res \<and> NodeGreen res)"
  by (auto simp: node_ready_def list_all_iff split: option.splits)

lemma look_fields [simp]:
  "ss_results (look env s) = ss_results s" "ss_started (look env s) = ss_started s" "ss_inflight (look env s) = ss_inflight s"
  "ss_culprit (look env s) = ss_culprit s" "ss_log (look env s) = ss_log s" "finished (look env s) i = finished s i"
  by (simp_all add: look_def finished_def)

lemma keep_look: "keep (look env s) \<Longrightarrow> keep s"
  by (simp add: keep_def look_def)

lemma sched_ok_look: "sched_ok nodes maxParallel s \<Longrightarrow> sched_ok nodes maxParallel (look env s)"
  using keep_look [of env s] unfolding sched_ok_def flight_ok_def results_ok_def edges_ok_def look_fields by blast

lemma start_node_ok:
  assumes "sched_ok nodes maxParallel s" "i < length nodes" "\<not> ss_started s ! i" "node_ready (ss_results s) (nodes ! i)"
    "int (length (ss_inflight s)) < maxParallel"
  shows "sched_ok nodes maxParallel (start_node i s)" "keep (start_node i s) = keep s" "ss_results (start_node i s) = ss_results s"
proof -
  have len: "length (ss_started s) = length nodes" using assms(1) by (simp add: sched_ok_def flight_ok_def)
  have fin: "finished (start_node i s) j = finished s j" if "j < length nodes" for j
    using assms(2,3) that len by (auto simp: finished_def start_node_def nth_list_update)
  show k: "keep (start_node i s) = keep s" "ss_results (start_node i s) = ss_results s" by (simp_all add: keep_def start_node_def)
  have "flight_ok nodes maxParallel (start_node i s)"
    using assms len unfolding sched_ok_def flight_ok_def by (auto simp: start_node_def nth_list_update)
  moreover have "results_ok nodes (start_node i s)"
    using assms(1) fin unfolding sched_ok_def results_ok_def k by metis
  moreover have "edges_ok nodes (start_node i s)"
    unfolding edges_ok_def k
  proof (intro allI impI)
    fix j assume "j < length nodes" "ss_started (start_node i s) ! j"
    then show "node_ready (ss_results s) (nodes ! j)"
      using assms(1,4) by (cases "j = i") (auto simp: sched_ok_def edges_ok_def start_node_def)
  qed
  ultimately show "sched_ok nodes maxParallel (start_node i s)" by (simp add: sched_ok_def)
qed

lemma drop_Cons_nth:
  assumes "drop i xs = y # ys"
  shows "i < length xs" "xs ! i = y" "ys = drop (Suc i) xs"
  using assms by (metis drop_eq_Nil linorder_not_less list.distinct(1), metis nth_via_drop, metis drop_Suc list.sel(3) tl_drop)

lemma start_nodes_ok:
  assumes "sched_ok nodes maxParallel s" "ns = drop i nodes"
  shows "sched_ok nodes maxParallel (start_nodes maxParallel i ns s) \<and> keep (start_nodes maxParallel i ns s) = keep s
    \<and> ss_results (start_nodes maxParallel i ns s) = ss_results s \<and> ss_culprit (start_nodes maxParallel i ns s) = ss_culprit s"
  using assms
proof (induction ns arbitrary: i s)
  case (Cons n ns)
  have i: "i < length nodes" "nodes ! i = n" "ns = drop (Suc i) nodes" by (rule drop_Cons_nth [OF Cons.prems(2) [symmetric]])+
  note step = start_node_ok [OF Cons.prems(1) i(1), unfolded i(2)]
  have "ss_culprit (start_node i s) = ss_culprit s" by (simp add: start_node_def)
  then show ?case using Cons.IH [OF _ i(3)] Cons.prems(1) step by auto
qed simp

text \<open>Storing a report: the node leaves the flight, and its result is kept unless the run is already decided.\<close>

lemma store_cases:
  obtains (kept) "keep (store nodes f s)" "keep s"
      "ss_results (store nodes f s) = mput (node_name nodes (ar_idx f)) (node_done (nodes ! ar_idx f) (ar_wait f) (ar_res f)) (ss_results s)"
      "ss_log (store nodes f s) = ss_log s @ [NodeFinished (ar_idx f) (node_done (nodes ! ar_idx f) (ar_wait f) (ar_res f))]"
    | (dropped) "\<not> keep (store nodes f s)" "ss_results (store nodes f s) = ss_results s" "ss_log (store nodes f s) = ss_log s"
  by (cases "keep (store nodes f s)") (auto simp: store_def keep_def Let_def split: if_splits)

lemma store_fields [simp]:
  "ss_started (store nodes f s) = ss_started s" "ss_inflight (store nodes f s) = remove1 (ar_idx f) (ss_inflight s)"
  "ss_culprit (store nodes f s) = ss_culprit s"
  by (simp_all add: store_def Let_def)

lemma node_done_name [simp]: "cr_Name (node_done n wait res) = dg_Name n"
  by (simp add: node_done_def split: slot_wait.split)

lemma named_inj: "named nodes \<Longrightarrow> i < length nodes \<Longrightarrow> j < length nodes \<Longrightarrow> node_name nodes i = node_name nodes j \<longleftrightarrow> i = j"
  by (auto simp: named_def distinct_conv_nth)

lemma store_ok:
  assumes "sched_ok nodes maxParallel s" "named nodes" "ar_idx f \<in> set (ss_inflight s)"
  shows "sched_ok nodes maxParallel (store nodes f s)"
proof -
  let ?s = "store nodes f s" and ?i = "ar_idx f"
  have fl: "flight_ok nodes maxParallel s" and re: "results_ok nodes s" and ed: "edges_ok nodes s" using assms(1) by (simp_all add: sched_ok_def)
  have i: "?i < length nodes" "ss_started s ! ?i" "distinct (ss_inflight s)" using fl assms(3) by (auto simp: flight_ok_def)
  have fin: "finished ?s j \<longleftrightarrow> finished s j \<or> j = ?i" if "j < length nodes" for j
    using i(2,3) by (auto simp: finished_def)
  have new: "result_of s (node_name nodes ?i) = None"
  proof (rule ccontr)
    assume "result_of s (node_name nodes ?i) \<noteq> None"
    then obtain j where "j < length nodes" "finished s j" "node_name nodes j = node_name nodes ?i"
      using re unfolding results_ok_def by blast
    then show False using named_inj [OF assms(2)] i(1) assms(3) by (auto simp: finished_def)
  qed
  have "flight_ok nodes maxParallel ?s"
    using fl length_remove1 [of ?i "ss_inflight s"] by (auto simp: flight_ok_def dest: notin_set_remove1)
  moreover have "results_ok nodes ?s \<and> edges_ok nodes ?s"
  proof (cases rule: store_cases [of nodes f s, case_names kept dropped])
    case kept
    let ?res = "node_done (nodes ! ?i) (ar_wait f) (ar_res f)"
    have look: "result_of ?s name = (if name = node_name nodes ?i then Some ?res else result_of s name)" for name
      unfolding kept(3) by simp
    have grows: "result_of s name = Some res \<Longrightarrow> result_of ?s name = Some res" for name res using look new by auto
    have "distinct (map fst (ss_results ?s))" unfolding kept(3) using re by (simp add: results_ok_def distinct_update)
    moreover have "cr_Name res = name \<and> (\<exists>j < length nodes. finished ?s j \<and> node_name nodes j = name)" if "result_of ?s name = Some res" for name res
    proof (cases "name = node_name nodes ?i")
      case True
      then show ?thesis using that i(1) fin [OF i(1)] unfolding look by auto
    next
      case False
      then show ?thesis using that re fin unfolding look results_ok_def by (metis (no_types, lifting))
    qed
    moreover have "result_of ?s (node_name nodes j) \<noteq> None" if "j < length nodes" "finished ?s j" for j
      using that fin [OF that(1)] re kept(2) unfolding look results_ok_def by auto
    ultimately have "results_ok nodes ?s" unfolding results_ok_def by blast
    moreover have "edges_ok nodes ?s" using ed grows unfolding edges_ok_def node_ready_iff store_fields by blast
    ultimately show ?thesis by blast
  next
    case dropped
    then show ?thesis using re ed fin unfolding results_ok_def edges_ok_def store_fields by metis
  qed
  ultimately show ?thesis by (simp add: sched_ok_def)
qed

text \<open>What the environment of a run promises: while goroutines are in flight, some of them report, each once.\<close>

definition answers :: "graph_env \<Rightarrow> bool" where
  "answers env = (\<forall>s. ss_inflight s \<noteq> [] \<longrightarrow> ge_done env s \<noteq> [] \<and> distinct (map ar_idx (ge_done env s))
     \<and> set (map ar_idx (ge_done env s)) \<subseteq> set (ss_inflight s))"

lemma fold_store:
  assumes "sched_ok nodes maxParallel s" "named nodes" "distinct (map ar_idx fs)" "set (map ar_idx fs) \<subseteq> set (ss_inflight s)"
  shows "sched_ok nodes maxParallel (fold (store nodes) fs s)
    \<and> length (ss_inflight (fold (store nodes) fs s)) + length fs = length (ss_inflight s)
    \<and> ss_started (fold (store nodes) fs s) = ss_started s \<and> ss_culprit (fold (store nodes) fs s) = ss_culprit s
    \<and> (ss_culprit s \<noteq> [] \<longrightarrow> ss_results (fold (store nodes) fs s) = ss_results s)"
  using assms
proof (induction fs arbitrary: s)
  case (Cons f fs)
  let ?s = "store nodes f s"
  have f: "ar_idx f \<in> set (ss_inflight s)" "distinct (ss_inflight s)" using Cons.prems by (simp_all add: sched_ok_def flight_ok_def)
  have "set (map ar_idx fs) \<subseteq> set (ss_inflight ?s)" using Cons.prems(3,4) f by (auto simp: image_iff)
  moreover have "sched_ok nodes maxParallel ?s" by (rule store_ok [OF Cons.prems(1,2) f(1)])
  moreover have "length (ss_inflight ?s) + 1 = length (ss_inflight s)"
    using f(1) length_pos_if_in_set [OF f(1)] by (simp add: length_remove1)
  moreover have "ss_culprit s \<noteq> [] \<Longrightarrow> ss_results ?s = ss_results s"
    by (cases rule: store_cases [of nodes f s]) (auto simp: keep_def)
  ultimately show ?case using Cons.IH [of ?s] Cons.prems(2,3) by auto
qed simp

lemma first_nongreen_None:
  "first_nongreen results nodes = None \<longleftrightarrow> (\<forall>n \<in> set nodes. \<forall>res. map_of results (dg_Name n) = Some res \<longrightarrow> NodeGreen res)"
  by (induction nodes) (auto split: option.split)

lemma first_nongreen_Some:
  "first_nongreen results nodes = Some name \<Longrightarrow>
     \<exists>i < length nodes. node_name nodes i = name \<and> (\<exists>res. map_of results name = Some res \<and> \<not> NodeGreen res)
       \<and> (\<forall>j < i. \<forall>res. map_of results (node_name nodes j) = Some res \<longrightarrow> NodeGreen res)"
proof (induction nodes)
  case (Cons n ns)
  show ?case
  proof (cases "\<exists>res. map_of results (dg_Name n) = Some res \<and> \<not> NodeGreen res")
    case True
    then show ?thesis using Cons.prems by (intro exI [of _ 0]) auto
  next
    case False
    then have "first_nongreen results ns = Some name" using Cons.prems by (auto split: option.splits if_splits)
    then obtain i where "i < length ns" "node_name ns i = name" "\<exists>res. map_of results name = Some res \<and> \<not> NodeGreen res"
      "\<forall>j < i. \<forall>res. map_of results (node_name ns j) = Some res \<longrightarrow> NodeGreen res" using Cons.IH by blast
    then show ?thesis using False by (intro exI [of _ "Suc i"]) (auto simp: less_Suc_eq_0_disj)
  qed
qed simp

text \<open>Between two rounds no failure is left unnoticed, and the culprit is the first failure in declaration order.\<close>

definition culled :: "node list \<Rightarrow> sched_state \<Rightarrow> bool" where
  "culled nodes s =
     ((keep s \<longrightarrow> (\<forall>name res. result_of s name = Some res \<longrightarrow> NodeGreen res))
      \<and> (ss_culprit s \<noteq> [] \<longrightarrow> first_nongreen (ss_results s) nodes = Some (ss_culprit s)))"

lemma culled_look: "culled nodes s \<Longrightarrow> culled nodes (look env s)"
  using keep_look [of env s] by (simp add: culled_def)

lemma cull_ok:
  assumes "sched_ok nodes maxParallel s" "named nodes" "ss_culprit s \<noteq> [] \<longrightarrow> first_nongreen (ss_results s) nodes = Some (ss_culprit s)"
  shows "sched_ok nodes maxParallel (cull nodes s) \<and> culled nodes (cull nodes s)
    \<and> ss_inflight (cull nodes s) = ss_inflight s \<and> ss_started (cull nodes s) = ss_started s"
proof (cases "keep s \<and> first_nongreen (ss_results s) nodes \<noteq> None")
  case True
  then obtain name where n: "first_nongreen (ss_results s) nodes = Some name" by blast
  then have c: "cull nodes s = s\<lparr>ss_culprit := name\<rparr>" using True by (simp add: cull_def)
  have "name \<in> dg_Name ` set nodes" using first_nongreen_Some [OF n] by auto
  then have "name \<noteq> []" using assms(2) unfolding named_def by metis
  then have "\<not> keep (s\<lparr>ss_culprit := name\<rparr>)" by (simp add: keep_def)
  then show ?thesis using assms(1) n unfolding c sched_ok_def flight_ok_def results_ok_def edges_ok_def culled_def finished_def by auto
next
  case False
  then have c: "cull nodes s = s" by (auto simp: cull_def)
  have "NodeGreen res" if k: "keep s" and r: "result_of s name = Some res" for name res
  proof -
    have none: "first_nongreen (ss_results s) nodes = None" using False k by blast
    obtain i where "i < length nodes" "node_name nodes i = name"
      using assms(1) r unfolding sched_ok_def results_ok_def by blast
    then show ?thesis using none r nth_mem unfolding first_nongreen_None by blast
  qed
  then show ?thesis using assms unfolding c culled_def by blast
qed

lemma sched_drain_ok:
  assumes "sched_ok nodes maxParallel s" "culled nodes s" "named nodes" "answers env" "ss_inflight s \<noteq> []"
  shows "sched_ok nodes maxParallel (sched_drain env nodes s) \<and> culled nodes (sched_drain env nodes s)
    \<and> length (ss_inflight (sched_drain env nodes s)) < length (ss_inflight s) \<and> ss_started (sched_drain env nodes s) = ss_started s"
proof -
  let ?fs = "ge_done env s"
  have fs: "?fs \<noteq> []" "distinct (map ar_idx ?fs)" "set (map ar_idx ?fs) \<subseteq> set (ss_inflight s)"
    using assms(4,5) by (simp_all add: answers_def)
  note f = fold_store [OF assms(1,3) fs(2,3)]
  let ?s = "look env (fold (store nodes) ?fs s)"
  have "ss_culprit ?s \<noteq> [] \<longrightarrow> first_nongreen (ss_results ?s) nodes = Some (ss_culprit ?s)"
    using assms(2) f by (auto simp: culled_def)
  from cull_ok [OF sched_ok_look [OF conjunct1 [OF f]] assms(3) this] f
  have "sched_ok nodes maxParallel (sched_drain env nodes s) \<and> culled nodes (sched_drain env nodes s)
    \<and> length (ss_inflight (sched_drain env nodes s)) + length ?fs = length (ss_inflight s) \<and> ss_started (sched_drain env nodes s) = ss_started s"
    unfolding sched_drain_def by simp
  then show ?thesis using fs(1) by (metis length_greater_0_conv less_add_same_cancel1)
qed

lemma start_nodes_inflight: "\<exists>xs. ss_inflight (start_nodes maxParallel i ns s) = ss_inflight s @ xs"
proof (induction ns arbitrary: i s)
  case (Cons n ns)
  obtain xs where "ss_inflight (start_nodes maxParallel (Suc i) ns (start_node i s)) = ss_inflight (start_node i s) @ xs"
    using Cons.IH by blast
  then have "\<exists>xs. ss_inflight (start_nodes maxParallel (Suc i) ns (start_node i s)) = ss_inflight s @ xs" by (simp add: start_node_def)
  then show ?case using Cons.IH by auto
qed simp

text \<open>When nothing is in flight after the start loop, nothing was ready.\<close>

lemma start_nodes_idle:
  assumes "ss_inflight (start_nodes maxParallel i ns s) = []" "1 \<le> maxParallel"
  shows "start_nodes maxParallel i ns s = s \<and> (\<forall>j < length ns. ss_started s ! (i + j) \<or> \<not> node_ready (ss_results s) (ns ! j))"
  using assms
proof (induction ns arbitrary: i)
  case (Cons n ns)
  have idle: "ss_inflight s = []" using start_nodes_inflight [of maxParallel i "n # ns" s] Cons.prems(1) by auto
  have "ss_inflight (start_nodes maxParallel (Suc i) ns (start_node i s)) \<noteq> []"
    using start_nodes_inflight [of maxParallel "Suc i" ns "start_node i s"] by (auto simp: start_node_def)
  then have n: "ss_started s ! i \<or> \<not> node_ready (ss_results s) n" and
    tail: "start_nodes maxParallel i (n # ns) s = start_nodes maxParallel (Suc i) ns s"
    using Cons.prems idle by (auto split: if_splits)
  have ih: "start_nodes maxParallel (Suc i) ns s = s \<and> (\<forall>j < length ns. ss_started s ! (Suc i + j) \<or> \<not> node_ready (ss_results s) (ns ! j))"
    using Cons.IH [of "Suc i"] Cons.prems(1,2) unfolding tail by blast
  have "ss_started s ! (i + j) \<or> \<not> node_ready (ss_results s) ((n # ns) ! j)" if "j < length (n # ns)" for j
    using that n ih by (cases j) auto
  then show ?case using ih tail by simp
qed simp

definition exhausted :: "node list \<Rightarrow> sched_state \<Rightarrow> bool" where
  "exhausted nodes s = (keep s \<longrightarrow> (\<forall>i < length nodes. ss_started s ! i \<or> \<not> node_ready (ss_results s) (nodes ! i)))"

lemma sched_start_ok:
  assumes "sched_ok nodes maxParallel s" "culled nodes s" "1 \<le> maxParallel"
  shows "sched_ok nodes maxParallel (sched_start env nodes maxParallel s)" "culled nodes (sched_start env nodes maxParallel s)"
    "ss_inflight (sched_start env nodes maxParallel s) = [] \<Longrightarrow> exhausted nodes (sched_start env nodes maxParallel s)"
proof -
  let ?s = "look env s" and ?t = "sched_start env nodes maxParallel s"
  note st = start_nodes_ok [OF sched_ok_look [OF assms(1), of env], of nodes 0]
  show "sched_ok nodes maxParallel ?t" using st sched_ok_look [OF assms(1)] by (simp add: sched_start_def Let_def)
  show "culled nodes ?t" using st culled_look [OF assms(2), of env] by (simp add: sched_start_def Let_def culled_def)
  show "exhausted nodes ?t" if "ss_inflight ?t = []"
    using that start_nodes_idle [of maxParallel 0 nodes ?s] assms(3) by (auto simp: sched_start_def Let_def exhausted_def)
qed

lemma sched_loop_ok:
  assumes "sched_loop env nodes maxParallel fuel s = Some s'" "sched_ok nodes maxParallel s" "culled nodes s" "named nodes" "answers env" "1 \<le> maxParallel"
  shows "sched_ok nodes maxParallel s' \<and> culled nodes s' \<and> exhausted nodes s' \<and> ss_inflight s' = []"
  using assms
proof (induction fuel arbitrary: s)
  case (Suc fuel)
  let ?s = "sched_start env nodes maxParallel s"
  note st = sched_start_ok [OF Suc.prems(2,3,6), of env]
  show ?case
  proof (cases "ss_inflight ?s = []")
    case True
    then show ?thesis using Suc.prems(1) st by auto
  next
    case False
    from sched_drain_ok [OF st(1,2) Suc.prems(4,5) False] show ?thesis
      using Suc.IH [of "sched_drain env nodes ?s"] Suc.prems False by (simp add: Let_def)
  qed
qed simp

section \<open>Every run returns\<close>

definition work_left :: "sched_state \<Rightarrow> nat" where
  "work_left s = length (filter Not (ss_started s)) + length (ss_inflight s)"

lemma start_node_work:
  "i < length (ss_started s) \<Longrightarrow> \<not> ss_started s ! i \<Longrightarrow> work_left (start_node i s) = work_left s"
proof -
  assume i: "i < length (ss_started s)" "\<not> ss_started s ! i"
  let ?f = "\<lambda>xs. length (filter Not xs)"
  have "?f (ss_started s) = ?f (take i (ss_started s)) + Suc (?f (drop (Suc i) (ss_started s)))"
    using arg_cong [OF id_take_nth_drop [OF i(1)], of ?f] i(2) by simp
  moreover have "?f ((ss_started s)[i := True]) = ?f (take i (ss_started s)) + ?f (drop (Suc i) (ss_started s))"
    using i(1) by (simp add: upd_conv_take_nth_drop)
  ultimately have "?f (ss_started s) = Suc (?f ((ss_started s)[i := True]))" by simp
  then show ?thesis by (simp add: work_left_def start_node_def)
qed

lemma start_nodes_work:
  "sched_ok nodes maxParallel s \<Longrightarrow> ns = drop i nodes \<Longrightarrow> work_left (start_nodes maxParallel i ns s) = work_left s"
proof (induction ns arbitrary: i s)
  case (Cons n ns)
  have i: "i < length nodes" "nodes ! i = n" "ns = drop (Suc i) nodes" by (rule drop_Cons_nth [OF Cons.prems(2) [symmetric]])+
  have len: "length (ss_started s) = length nodes" using Cons.prems(1) by (simp add: sched_ok_def flight_ok_def)
  show ?case using Cons.IH [OF _ i(3)] Cons.prems(1) start_node_ok(1) [OF Cons.prems(1) i(1), unfolded i(2)] start_node_work [of i s] i(1) len by auto
qed simp

lemma sched_loop_returns:
  assumes "sched_ok nodes maxParallel s" "culled nodes s" "named nodes" "answers env" "1 \<le> maxParallel" "work_left s < fuel"
  shows "\<exists>s'. sched_loop env nodes maxParallel fuel s = Some s'"
  using assms
proof (induction fuel arbitrary: s)
  case (Suc fuel)
  let ?s = "sched_start env nodes maxParallel s"
  note st = sched_start_ok [OF Suc.prems(1,2,5), of env]
  have w: "work_left ?s = work_left s"
    using start_nodes_work [OF sched_ok_look [OF Suc.prems(1), of env], of nodes 0] by (simp add: sched_start_def Let_def work_left_def)
  show ?case
  proof (cases "ss_inflight ?s = []")
    case False
    note d = sched_drain_ok [OF st(1,2) Suc.prems(3,4) False]
    then have "work_left (sched_drain env nodes ?s) < work_left ?s" by (simp add: work_left_def)
    then have "\<exists>s'. sched_loop env nodes maxParallel fuel (sched_drain env nodes ?s) = Some s'"
      using Suc.IH d Suc.prems(3-6) w by simp
    then show ?thesis using False by (simp add: Let_def)
  qed (simp add: Let_def)
qed simp

section \<open>The order of a run\<close>

text \<open>The nodes a log has seen started, and those it has seen finished with the result that was kept.\<close>

fun log_starts :: "sched_event list \<Rightarrow> nat list" where
  "log_starts [] = []"
| "log_starts (NodeStarted i # l) = i # log_starts l"
| "log_starts (NodeFinished i res # l) = log_starts l"

fun log_finishes :: "sched_event list \<Rightarrow> (nat \<times> check_result) list" where
  "log_finishes [] = []"
| "log_finishes (NodeStarted i # l) = log_finishes l"
| "log_finishes (NodeFinished i res # l) = (i, res) # log_finishes l"

definition may_start :: "node list \<Rightarrow> int \<Rightarrow> sched_event list \<Rightarrow> nat \<Rightarrow> bool" where
  "may_start nodes maxParallel past i =
     (i < length nodes \<and> i \<notin> set (log_starts past)
      \<and> int (length (log_starts past)) < int (length (log_finishes past)) + maxParallel
      \<and> list_all (\<lambda>dep. list_ex (\<lambda>(j, res). j < length nodes \<and> node_name nodes j = dep \<and> NodeGreen res) (log_finishes past)) (dg_After (nodes ! i)))"

fun trace_ok :: "node list \<Rightarrow> int \<Rightarrow> sched_event list \<Rightarrow> sched_event list \<Rightarrow> bool" where
  "trace_ok nodes maxParallel past [] = True"
| "trace_ok nodes maxParallel past (e # l) =
     ((case e of NodeStarted i \<Rightarrow> may_start nodes maxParallel past i | NodeFinished i res \<Rightarrow> i \<in> set (log_starts past))
      \<and> trace_ok nodes maxParallel (past @ [e]) l)"

lemma log_append [simp]: "log_starts (xs @ ys) = log_starts xs @ log_starts ys" "log_finishes (xs @ ys) = log_finishes xs @ log_finishes ys"
  by (induction xs rule: log_starts.induct; simp)+

lemma trace_ok_append: "trace_ok nodes maxParallel past (xs @ ys) \<longleftrightarrow> trace_ok nodes maxParallel past xs \<and> trace_ok nodes maxParallel (past @ xs) ys"
  by (induction xs arbitrary: past) auto

definition log_ok :: "node list \<Rightarrow> int \<Rightarrow> sched_state \<Rightarrow> bool" where
  "log_ok nodes maxParallel s =
     (trace_ok nodes maxParallel [] (ss_log s)
      \<and> (\<forall>i < length nodes. i \<in> set (log_starts (ss_log s)) \<longleftrightarrow> ss_started s ! i)
      \<and> (\<forall>name res. result_of s name = Some res \<longrightarrow> (\<exists>i < length nodes. node_name nodes i = name \<and> (i, res) \<in> set (log_finishes (ss_log s))))
      \<and> (keep s \<longrightarrow> length (log_starts (ss_log s)) = length (log_finishes (ss_log s)) + length (ss_inflight s)))"

lemma log_ok_look: "log_ok nodes maxParallel s \<Longrightarrow> log_ok nodes maxParallel (look env s)"
  using keep_look [of env s] unfolding log_ok_def look_fields by blast

lemma log_ok_cull: "log_ok nodes maxParallel s \<Longrightarrow> log_ok nodes maxParallel (cull nodes s)"
  by (auto simp: cull_def log_ok_def keep_def split: option.split)

lemma log_ok_start:
  assumes "log_ok nodes maxParallel s" "sched_ok nodes maxParallel s" "keep s" "i < length nodes" "\<not> ss_started s ! i"
    "node_ready (ss_results s) (nodes ! i)" "int (length (ss_inflight s)) < maxParallel"
  shows "log_ok nodes maxParallel (start_node i s)"
proof -
  have len: "length (ss_started s) = length nodes" using assms(2) by (simp add: sched_ok_def flight_ok_def)
  have "\<exists>(j, res) \<in> set (log_finishes (ss_log s)). j < length nodes \<and> node_name nodes j = dep \<and> NodeGreen res"
    if dep: "dep \<in> set (dg_After (nodes ! i))" for dep
  proof -
    obtain res where res: "result_of s dep = Some res" "NodeGreen res" using assms(6) dep unfolding node_ready_iff by blast
    then obtain j where "j < length nodes" "node_name nodes j = dep" "(j, res) \<in> set (log_finishes (ss_log s))"
      using assms(1) unfolding log_ok_def by blast
    then show ?thesis using res(2) by blast
  qed
  then have "may_start nodes maxParallel (ss_log s) i"
    using assms(1,3,4,5,7) by (simp add: may_start_def log_ok_def list_all_iff list_ex_iff)
  then show ?thesis
    using assms(1,3,4) len by (auto simp: log_ok_def start_node_def trace_ok_append nth_list_update keep_def)
qed

lemma log_ok_start_nodes:
  "log_ok nodes maxParallel s \<Longrightarrow> sched_ok nodes maxParallel s \<Longrightarrow> keep s \<Longrightarrow> ns = drop i nodes
    \<Longrightarrow> log_ok nodes maxParallel (start_nodes maxParallel i ns s)"
proof (induction ns arbitrary: i s)
  case (Cons n ns)
  have i: "i < length nodes" "nodes ! i = n" "ns = drop (Suc i) nodes" by (rule drop_Cons_nth [OF Cons.prems(4) [symmetric]])+
  note ok = start_node_ok [OF Cons.prems(2) i(1), unfolded i(2)]
  note lo = log_ok_start [OF Cons.prems(1-3) i(1), unfolded i(2)]
  show ?case using Cons.IH [OF _ _ _ i(3)] Cons.prems(1-3) ok(1,2) lo by auto
qed simp

lemma log_ok_store:
  assumes "log_ok nodes maxParallel s" "sched_ok nodes maxParallel s" "ar_idx f \<in> set (ss_inflight s)"
  shows "log_ok nodes maxParallel (store nodes f s)"
proof (cases rule: store_cases [of nodes f s, case_names kept dropped])
  case kept
  have i: "ar_idx f < length nodes" "ss_started s ! ar_idx f" using assms(2,3) by (auto simp: sched_ok_def flight_ok_def)
  have found: "\<exists>i < length nodes. node_name nodes i = name \<and> (i, res) \<in> set (log_finishes (ss_log s))" if "result_of s name = Some res" for name res
    using assms(1) that unfolding log_ok_def by blast
  have "length (ss_inflight s) = Suc (length (remove1 (ar_idx f) (ss_inflight s)))"
    using assms(3) length_pos_if_in_set [OF assms(3)] by (simp add: length_remove1)
  moreover have "\<exists>i < length nodes. node_name nodes i = name \<and> (i, res) \<in> set (log_finishes (ss_log (store nodes f s)))"
    if "result_of (store nodes f s) name = Some res" for name res
    using that i(1) found unfolding kept(3,4) by (cases "name = node_name nodes (ar_idx f)") fastforce+
  ultimately show ?thesis using assms(1) i kept(2) unfolding log_ok_def kept(4) by (simp add: trace_ok_append)
next
  case dropped
  then show ?thesis using assms(1) unfolding log_ok_def by simp
qed

lemma log_ok_fold_store:
  "log_ok nodes maxParallel s \<Longrightarrow> sched_ok nodes maxParallel s \<Longrightarrow> named nodes \<Longrightarrow> distinct (map ar_idx fs)
    \<Longrightarrow> set (map ar_idx fs) \<subseteq> set (ss_inflight s) \<Longrightarrow> log_ok nodes maxParallel (fold (store nodes) fs s)"
proof (induction fs arbitrary: s)
  case (Cons f fs)
  have f: "ar_idx f \<in> set (ss_inflight s)" using Cons.prems(5) by simp
  have "distinct (ss_inflight s)" using Cons.prems(2) by (simp add: sched_ok_def flight_ok_def)
  then have "set (map ar_idx fs) \<subseteq> set (ss_inflight (store nodes f s))" using Cons.prems(4,5) by (auto simp: image_iff)
  then show ?case using Cons.IH [OF log_ok_store [OF Cons.prems(1,2) f] store_ok [OF Cons.prems(2,3) f] Cons.prems(3)] Cons.prems(4) by simp
qed simp

lemma sched_loop_log:
  assumes "sched_loop env nodes maxParallel fuel s = Some s'" "log_ok nodes maxParallel s" "sched_ok nodes maxParallel s" "culled nodes s"
    "named nodes" "answers env" "1 \<le> maxParallel"
  shows "log_ok nodes maxParallel s'"
  using assms
proof (induction fuel arbitrary: s)
  case (Suc fuel)
  let ?s = "sched_start env nodes maxParallel s"
  have lo: "log_ok nodes maxParallel ?s"
    using log_ok_start_nodes [OF log_ok_look [OF Suc.prems(2)] sched_ok_look [OF Suc.prems(3)], of env nodes 0] log_ok_look [OF Suc.prems(2), of env]
    by (simp add: sched_start_def Let_def)
  note st = sched_start_ok [OF Suc.prems(3,4,7), of env]
  show ?case
  proof (cases "ss_inflight ?s = []")
    case True
    then show ?thesis using Suc.prems(1) lo by auto
  next
    case False
    have "log_ok nodes maxParallel (sched_drain env nodes ?s)"
      unfolding sched_drain_def using Suc.prems(6) False
      by (intro log_ok_cull log_ok_look log_ok_fold_store lo st(1) Suc.prems(5)) (simp_all add: answers_def)
    then show ?thesis
      using Suc.IH [of "sched_drain env nodes ?s"] sched_drain_ok [OF st(1,2) Suc.prems(5,6) False] Suc.prems False by (simp add: Let_def)
  qed
qed simp

section \<open>The verdict of a run\<close>

text \<open>A graph that the spec loader accepts and the tracker runs: names, edges within the graph, no cycle.\<close>

definition as_check :: "node \<Rightarrow> check_cfg" where
  "as_check n = node_zero\<lparr>ck_Name := dg_Name n, ck_After := dg_After n\<rparr>"

definition graph_wf :: "node list \<Rightarrow> bool" where
  "graph_wf nodes = (named nodes \<and> nodes_wf (map as_check nodes))"

lemma as_check_fields [simp]: "ck_Name (as_check n) = dg_Name n" "ck_After (as_check n) = dg_After n"
  by (simp_all add: as_check_def)

lemma sched_init_ok: "0 \<le> maxParallel \<Longrightarrow> sched_ok nodes maxParallel (sched_init nodes)" "culled nodes (sched_init nodes)"
    "work_left (sched_init nodes) = length nodes" "log_ok nodes maxParallel (sched_init nodes)"
  by (simp_all add: sched_init_def sched_ok_def flight_ok_def results_ok_def edges_ok_def finished_def culled_def work_left_def log_ok_def)

text \<open>A run that was neither failed nor cancelled has a green result for every node.\<close>

lemma all_green:
  assumes "graph_wf nodes" "sched_ok nodes maxParallel s" "culled nodes s" "exhausted nodes s" "ss_inflight s = []" "keep s" "n \<in> set nodes"
  shows "\<exists>res. result_of s (dg_Name n) = Some res \<and> NodeGreen res"
proof -
  let ?D = "dom (map_of (ss_results s))"
  have green: "\<forall>name res. result_of s name = Some res \<longrightarrow> NodeGreen res" using assms(3,6) by (simp add: culled_def)
  have "dg_Name n \<in> ?D"
  proof (rule ccontr)
    assume "dg_Name n \<notin> ?D"
    then have "as_check n \<in> set (map as_check nodes)" "ck_Name (as_check n) \<notin> ?D" using assms(7) by auto
    from ready_node_exists [OF _ this] obtain b where b: "b \<in> set nodes" "dg_Name b \<notin> ?D" "set (dg_After b) \<subseteq> ?D"
      using assms(1) unfolding graph_wf_def by auto
    obtain i where i: "i < length nodes" "nodes ! i = b" using b(1) by (auto simp: in_set_conv_nth)
    have "node_ready (ss_results s) b" unfolding node_ready_iff
    proof
      fix dep assume "dep \<in> set (dg_After b)"
      then obtain res where "result_of s dep = Some res" using b(3) by blast
      then show "\<exists>res. result_of s dep = Some res \<and> NodeGreen res" using green by blast
    qed
    then have "finished s i" using assms(4-6) i by (auto simp: exhausted_def finished_def)
    then have "result_of s (dg_Name b) \<noteq> None" using assms(2,6) i unfolding sched_ok_def results_ok_def by blast
    then show False using b(2) by (simp add: domIff)
  qed
  then show ?thesis using green by blast
qed

lemma results_complete:
  assumes "named nodes" "results_ok nodes s" "\<forall>n \<in> set nodes. result_of s (dg_Name n) \<noteq> None"
  shows "length (ss_results s) = length nodes"
proof -
  have "fst ` set (ss_results s) = dg_Name ` set nodes"
  proof (intro equalityI subsetI)
    fix name assume "name \<in> fst ` set (ss_results s)"
    then obtain res where "result_of s name = Some res" by (metis dom_map_of_conv_image_fst domD)
    then obtain i where "i < length nodes" "node_name nodes i = name" using assms(2) unfolding results_ok_def by blast
    then show "name \<in> dg_Name ` set nodes" by auto
  next
    fix name assume "name \<in> dg_Name ` set nodes"
    then have "result_of s name \<noteq> None" using assms(3) by blast
    then show "name \<in> fst ` set (ss_results s)" by (metis domIff dom_map_of_conv_image_fst)
  qed
  moreover have "card (fst ` set (ss_results s)) = length (ss_results s)"
    using assms(2) distinct_card [of "map fst (ss_results s)"] by (simp add: results_ok_def)
  moreover have "card (dg_Name ` set nodes) = length nodes" using assms(1) distinct_card [of "map dg_Name nodes"] by (simp add: named_def)
  ultimately show ?thesis by simp
qed

text \<open>A verdict of the graph itself lists every node.\<close>

definition blocked :: "check_result \<Rightarrow> bool" where
  "blocked row = (cr_Status row = CheckBlocked \<and> cr_Err row = None \<and> cr_BlockedBy row \<noteq> [])"

lemma blocked_not_green: "blocked row \<Longrightarrow> \<not> NodeGreen row"
  by (simp add: blocked_def NodeGreen_def)

lemma NodeGreen_Seq [simp]: "NodeGreen (res\<lparr>cr_Seq := i\<rparr>) = NodeGreen res"
  by (simp add: NodeGreen_def)

lemma materialize_rows_nth:
  assumes "culprit \<noteq> [] \<or> (\<forall>n \<in> set ns. map_of results (dg_Name n) \<noteq> None)" "\<forall>name res. map_of results name = Some res \<longrightarrow> cr_Name res = name"
  shows "map cr_Name (materialize_rows results culprit k ns) = map dg_Name ns
    \<and> map cr_Seq (materialize_rows results culprit k ns) = map (\<lambda>i. k + 1 + int i) [0..<length ns]
    \<and> list_all2 (\<lambda>n row. case map_of results (dg_Name n) of Some res \<Rightarrow> row = res\<lparr>cr_Seq := cr_Seq row\<rparr> | None \<Rightarrow> blocked row)
        ns (materialize_rows results culprit k ns)"
  using assms
proof (induction ns arbitrary: k)
  case (Cons n ns)
  have shift: "map (\<lambda>i. k + 1 + int i) [0..<Suc m] = (k + 1) # map (\<lambda>i. k + 1 + 1 + int i) [0..<m]" for m
    by (simp add: upt_conv_Cons map_Suc_upt [symmetric] comp_def del: upt_Suc)
  have ih: "map cr_Name (materialize_rows results culprit (k + 1) ns) = map dg_Name ns
    \<and> map cr_Seq (materialize_rows results culprit (k + 1) ns) = map (\<lambda>i. k + 1 + 1 + int i) [0..<length ns]
    \<and> list_all2 (\<lambda>n row. case map_of results (dg_Name n) of Some res \<Rightarrow> row = res\<lparr>cr_Seq := cr_Seq row\<rparr> | None \<Rightarrow> blocked row)
        ns (materialize_rows results culprit (k + 1) ns)"
    using Cons.IH [of "k + 1"] Cons.prems by auto
  show ?case
  proof (cases "map_of results (dg_Name n)")
    case None
    then have "culprit \<noteq> []" using Cons.prems(1) by auto
    then show ?thesis using None ih shift
      by (auto simp: Let_def blocked_def check_result_zero_def simp del: upt_Suc)
  next
    case (Some res)
    then have "cr_Name res = dg_Name n" using Cons.prems(2) by blast
    then show ?thesis using Some ih shift by (simp del: upt_Suc)
  qed
qed simp

lemma verdict_rows:
  assumes "named nodes" "sched_ok nodes maxParallel s" "culprit \<noteq> [] \<or> (\<forall>n \<in> set nodes. result_of s (dg_Name n) \<noteq> None)"
  defines "rows \<equiv> materialize nodes (ss_results s) culprit"
  shows "map cr_Name rows = map dg_Name nodes" "map cr_Seq rows = map (\<lambda>i. int i + 1) [0..<length nodes]"
    "\<And>i. i < length nodes \<Longrightarrow>
       (case result_of s (node_name nodes i) of Some res \<Rightarrow> rows ! i = res\<lparr>cr_Seq := cr_Seq (rows ! i)\<rparr> | None \<Rightarrow> blocked (rows ! i))"
proof -
  have "\<forall>name res. result_of s name = Some res \<longrightarrow> cr_Name res = name" using assms(2) unfolding sched_ok_def results_ok_def by blast
  note rows = materialize_rows_nth [OF assms(3) this, of 0]
  show "map cr_Name rows = map dg_Name nodes" using rows unfolding rows_def materialize_def by blast
  show "map cr_Seq rows = map (\<lambda>i. int i + 1) [0..<length nodes]" using rows unfolding rows_def materialize_def by (simp add: add.commute)
  show "case result_of s (node_name nodes i) of Some res \<Rightarrow> rows ! i = res\<lparr>cr_Seq := cr_Seq (rows ! i)\<rparr> | None \<Rightarrow> blocked (rows ! i)"
    if "i < length nodes" for i
    using that list_all2_nthD [OF conjunct2 [OF conjunct2 [OF rows]] that] unfolding rows_def materialize_def by simp
qed

lemma sched_verdict_final:
  assumes "graph_wf nodes" "sched_ok nodes maxParallel s" "culled nodes s" "exhausted nodes s" "ss_inflight s = []" "(rows, culprit, err) = sched_verdict nodes s"
  shows "(err = None \<or> err = Some ''context canceled'' \<and> culprit = [])
    \<and> (err = None \<longrightarrow> map cr_Name rows = map dg_Name nodes \<and> map cr_Seq rows = map (\<lambda>i. int i + 1) [0..<length nodes]
         \<and> (culprit = [] \<longleftrightarrow> (\<forall>row \<in> set rows. NodeGreen row)))
    \<and> (culprit \<noteq> [] \<longrightarrow> (\<exists>i < length nodes. node_name nodes i = culprit \<and> \<not> NodeGreen (rows ! i)
         \<and> (\<forall>j < i. NodeGreen (rows ! j) \<or> blocked (rows ! j))))"
proof -
  have nm: "named nodes" using assms(1) by (simp add: graph_wf_def)
  note s = assms(2-6)
  consider (cancelled) "ss_ctx s" | (red) "\<not> ss_ctx s" "ss_culprit s \<noteq> []" | (green) "keep s" by (auto simp: keep_def)
  then show ?thesis
  proof cases
    case cancelled
    then show ?thesis using s(5) by (simp add: sched_verdict_def)
  next
    case red
    then have v: "culprit = ss_culprit s" "err = None" "rows = materialize nodes (ss_results s) culprit"
      using s(5) by (simp_all add: sched_verdict_def)
    have "culprit \<noteq> []" using red v(1) by simp
    note rows = verdict_rows [OF nm s(1) disjI1 [OF this], folded v(3)]
    have "first_nongreen (ss_results s) nodes = Some culprit" using s(2) red by (simp add: culled_def v(1))
    from first_nongreen_Some [OF this] obtain i res where i: "i < length nodes" "node_name nodes i = culprit" "result_of s culprit = Some res" "\<not> NodeGreen res"
      "\<forall>j < i. \<forall>res. result_of s (node_name nodes j) = Some res \<longrightarrow> NodeGreen res" by blast
    have "rows ! i = res\<lparr>cr_Seq := cr_Seq (rows ! i)\<rparr>" using rows(3) [OF i(1)] i(2,3) by simp
    then have bad: "\<not> NodeGreen (rows ! i)" using i(4) by (metis NodeGreen_Seq)
    have "NodeGreen (rows ! j) \<or> blocked (rows ! j)" if "j < i" for j
      using rows(3) [of j] that i(1,5) by (auto split: option.splits) (metis NodeGreen_Seq)
    moreover have "length rows = length nodes" using arg_cong [OF rows(1), of length] by simp
    ultimately show ?thesis using bad i(1,2) rows(1,2) v(2) \<open>culprit \<noteq> []\<close> nth_mem by metis
  next
    case green
    have all: "\<forall>n \<in> set nodes. \<exists>res. result_of s (dg_Name n) = Some res \<and> NodeGreen res" using all_green [OF assms(1) s(1-4) green] by blast
    then have ne: "\<forall>n \<in> set nodes. result_of s (dg_Name n) \<noteq> None" by fastforce
    have "length (ss_results s) = length nodes" by (rule results_complete [OF nm _ ne]) (use s(1) in \<open>simp add: sched_ok_def\<close>)
    then have v: "culprit = []" "err = None" "rows = materialize nodes (ss_results s) culprit"
      using s(5) green by (simp_all add: sched_verdict_def keep_def)
    note rows = verdict_rows [OF nm s(1) disjI2 [OF ne], where culprit = culprit, folded v(3)]
    have len: "length rows = length nodes" using arg_cong [OF rows(1), of length] by simp
    have "NodeGreen (rows ! i)" if "i < length nodes" for i
      using rows(3) [OF that] all nth_mem [OF that] by (auto split: option.splits) (metis NodeGreen_Seq option.inject)
    then have "\<forall>row \<in> set rows. NodeGreen row" using len by (auto simp: in_set_conv_nth)
    then show ?thesis using rows(1,2) v(1,2) by simp
  qed
qed

lemma exhausted_look: "exhausted nodes s \<Longrightarrow> exhausted nodes (look env s)"
  using keep_look [of env s] unfolding exhausted_def look_fields by blast

lemma Run_final:
  assumes "Run env nodes maxParallel fuel = Some v" "named nodes" "answers env"
  obtains s where "sched_ok nodes (max maxParallel 1) s" "culled nodes s" "exhausted nodes s" "ss_inflight s = []" "v = sched_verdict nodes s"
proof -
  obtain s where s: "sched_loop env nodes (max maxParallel 1) fuel (sched_init nodes) = Some s" "v = sched_verdict nodes (look env s)"
    using assms(1) by (auto simp: Run_def)
  have "sched_ok nodes (max maxParallel 1) s \<and> culled nodes s \<and> exhausted nodes s \<and> ss_inflight s = []"
    by (rule sched_loop_ok [OF s(1) sched_init_ok(1,2) assms(2,3)]) simp_all
  then show ?thesis using that [of "look env s"] s(2) by (simp add: sched_ok_look culled_look exhausted_look)
qed

text \<open>A concrete run: the rollout and the smoke test wait for the build, and the smoke test fails when \<open>ok\<close> is false.\<close>

definition sample_nodes :: "node list" where
  "sample_nodes =
    [\<lparr>dg_Name = ''build'', dg_After = [], dg_Command = [''make''], dg_Executor = []\<rparr>,
     \<lparr>dg_Name = ''smoke'', dg_After = [''build''], dg_Command = [''smoke''], dg_Executor = []\<rparr>,
     \<lparr>dg_Name = ''rollout'', dg_After = [''build''], dg_Command = [''rollout''], dg_Executor = []\<rparr>,
     \<lparr>dg_Name = ''notify'', dg_After = [''rollout''], dg_Command = [''notify''], dg_Executor = []\<rparr>]"

definition sample_arrival :: "bool \<Rightarrow> nat \<Rightarrow> arrival" where
  "sample_arrival ok i = \<lparr>ar_ctx = False, ar_idx = i, ar_wait = (if i = 2 then SlotWaited 5 else SlotFree),
     ar_res = check_result_zero\<lparr>cr_Status := (if i = 1 \<and> \<not> ok then CheckFailed else CheckPassed)\<rparr>\<rparr>"

definition sample_env :: "bool \<Rightarrow> graph_env" where
  "sample_env ok = \<lparr>ge_ctx = (\<lambda>s. False), ge_done = (\<lambda>s. map (sample_arrival ok) (remdups (ss_inflight s)))\<rparr>"

lemma sample_answers: "answers (sample_env ok)"
  by (auto simp: answers_def sample_env_def sample_arrival_def comp_def distinct_map inj_on_def)

lemma sample_wf: "graph_wf sample_nodes" "named sample_nodes"
proof -
  show n: "named sample_nodes" by (simp add: named_def sample_nodes_def)
  have "node_rel (map as_check sample_nodes) = {(''smoke'', ''build''), (''rollout'', ''build''), (''notify'', ''rollout'')}"
    by (auto simp: node_rel_def sample_nodes_def)
  then have "acyclic (node_rel (map as_check sample_nodes))" by (simp add: acyclic_insert rtrancl_insert) (simp add: acyclic_def)
  then show "graph_wf sample_nodes" using n by (simp add: graph_wf_def nodes_wf_def sample_nodes_def)
qed

text \<open>every run of a deploy graph returns: as long as each started node reports once, one round per node and one more are enough, whatever the nodes
  answer, in which order, and whenever the run is cancelled.\<close>

theorem Run_returns:
  assumes "named nodes" "answers env" "length nodes < fuel"
  shows "\<exists>rows culprit err. Run env nodes maxParallel fuel = Some (rows, culprit, err)"
proof -
  have "\<exists>s. sched_loop env nodes (max maxParallel 1) fuel (sched_init nodes) = Some s"
    using sched_loop_returns [OF sched_init_ok(1,2) assms(1,2)] sched_init_ok(3) assms(3) by simp
  then show ?thesis by (auto simp: Run_def) (metis prod_cases3)
qed

theorem Run_returns_witness: "\<exists>rows culprit err. Run (sample_env True) sample_nodes 2 5 = Some (rows, culprit, err)"
  by (rule Run_returns [OF sample_wf(2) sample_answers]) (simp add: sample_nodes_def)

text \<open>C14: the verdict of a deploy graph.  The only error of a run over a loaded graph is the cancellation of its context: the error of unsatisfiable
  edges is unreachable.  Without an error there is one row per declared node, in declaration order and numbered from one; the graph is green exactly when
  every row is; and the culprit is a node that reported a failure, with nothing but green and blocked nodes before it.\<close>

theorem Run_verdict:
  assumes "graph_wf nodes" "answers env" "Run env nodes maxParallel fuel = Some (rows, culprit, err)"
  shows "(err = None \<or> err = Some ''context canceled'' \<and> culprit = [])
    \<and> (err = None \<longrightarrow> map cr_Name rows = map dg_Name nodes \<and> map cr_Seq rows = map (\<lambda>i. int i + 1) [0..<length nodes]
         \<and> (culprit = [] \<longleftrightarrow> (\<forall>row \<in> set rows. NodeGreen row)))
    \<and> (culprit \<noteq> [] \<longrightarrow> (\<exists>i < length nodes. node_name nodes i = culprit \<and> \<not> NodeGreen (rows ! i)
         \<and> (\<forall>j < i. NodeGreen (rows ! j) \<or> blocked (rows ! j))))"
proof -
  have "named nodes" using assms(1) by (simp add: graph_wf_def)
  then obtain s where "sched_ok nodes (max maxParallel 1) s" "culled nodes s" "exhausted nodes s" "ss_inflight s = []"
    "(rows, culprit, err) = sched_verdict nodes s" using Run_final [OF assms(3) _ assms(2)] by blast
  then show ?thesis by (rule sched_verdict_final [OF assms(1)])
qed

lemma sample_red:
  "Run (sample_env False) sample_nodes 2 5 =
     Some ([check_result_zero\<lparr>cr_Name := ''build'', cr_Seq := 1, cr_Status := CheckPassed\<rparr>,
            check_result_zero\<lparr>cr_Name := ''smoke'', cr_Seq := 2, cr_Status := CheckFailed\<rparr>,
            check_result_zero\<lparr>cr_Name := ''rollout'', cr_Seq := 3, cr_Status := CheckPassed, cr_Waited := 5\<rparr>,
            check_result_zero\<lparr>cr_Name := ''notify'', cr_Seq := 4, cr_Status := CheckBlocked, cr_BlockedBy := [''smoke'']\<rparr>], ''smoke'', None)"
  by code_simp

theorem Run_verdict_witness:
  "\<exists>rows. Run (sample_env False) sample_nodes 2 5 = Some (rows, ''smoke'', None) \<and> map cr_Name rows = map dg_Name sample_nodes
     \<and> \<not> (\<forall>row \<in> set rows. NodeGreen row)"
  using Run_verdict [OF sample_wf(1) sample_answers sample_red] sample_red by fastforce

text \<open>C15: the order of a run: no node is started twice, none before all its prerequisites have finished green, and none while as many nodes run as
  the bound allows; every result of the verdict was reported by the node it is shown for.\<close>

theorem Run_order:
  assumes "named nodes" "answers env" "sched_loop env nodes (max maxParallel 1) fuel (sched_init nodes) = Some s"
  shows "trace_ok nodes (max maxParallel 1) [] (ss_log s)
    \<and> (\<forall>name res. map_of (ss_results s) name = Some res \<longrightarrow> (\<exists>i < length nodes. node_name nodes i = name \<and> (i, res) \<in> set (log_finishes (ss_log s))))"
proof -
  have "log_ok nodes (max maxParallel 1) s"
    by (rule sched_loop_log [OF assms(3) sched_init_ok(4,1,2) assms(1,2)]) simp_all
  then show ?thesis unfolding log_ok_def by blast
qed

theorem Run_order_witness:
  "\<exists>s. sched_loop (sample_env False) sample_nodes 2 5 (sched_init sample_nodes) = Some s \<and> trace_ok sample_nodes 2 [] (ss_log s)"
proof -
  obtain s where s: "sched_loop (sample_env False) sample_nodes 2 5 (sched_init sample_nodes) = Some s"
    using sample_red by (auto simp: Run_def)
  then show ?thesis using Run_order [OF sample_wf(2) sample_answers, where maxParallel = 2] by simp
qed

text \<open>the rows of a deploy graph are those the queue's scheduler shows for a check run with the same nodes, results and culprit.\<close>

theorem materialize_mirrors_queue:
  assumes "r_emergencyReason r = []" "r_checks r = map as_check nodes" "r_results r = results" "r_culprit r = culprit"
  shows "materialize nodes results culprit = check_rows r 0 (r_checks r)"
proof -
  have "materialize_rows results culprit k ns = check_rows r k (map as_check ns)" for k ns
    using assms(1,3,4) by (induction ns arbitrary: k) (auto simp: dep_green_def nodeGreen_def Let_def split: option.splits intro!: filter_cong)
  then show ?thesis by (simp add: materialize_def assms(2))
qed

theorem materialize_mirrors_queue_witness:
  "\<exists>r. r_culprit r = ''smoke'' \<and> materialize sample_nodes [] ''smoke'' = check_rows r 0 (r_checks r)"
proof -
  let ?r = "undefined\<lparr>r_emergencyReason := [], r_checks := map as_check sample_nodes, r_results := [], r_culprit := ''smoke''\<rparr> :: run"
  show ?thesis using materialize_mirrors_queue [of ?r sample_nodes "[]" "''smoke''"] by (intro exI [of _ ?r]) simp
qed

end
