(* ===== verification/Deploy_Tracker.thy ===== *)
theory Deploy_Tracker
  imports Deploy_Graph
begin

text \<open>
  The deploy-ref tracker and its lane runner (\<^verbatim>\<open>internal/deploy/deploy.go\<close>, \<^verbatim>\<open>run.go\<close>, \<^verbatim>\<open>policy.go\<close> and \<^verbatim>\<open>snapshot.go\<close>): the desired and
  observed refs of every environment, the lanes with their parks and automatic retries, and the goroutine that deploys one revision.  The goroutines are
  entries of the tracker's state and advance by steps of their own, so that passes of the reconcile loop, operator calls and the goroutines of other lanes
  may come in between wherever the code holds no mutex.  Git, the policy engine, the executor and the KDL package are parameters: what they answer in one
  step is a \<open>deploy_io\<close>.
\<close>

section \<open>Configuration\<close>

definition DesiredRefPrefix :: string where
  "DesiredRefPrefix = ''refs/heads/deploy/''"

definition ObservedRefPrefix :: string where
  "ObservedRefPrefix = ''refs/gauntlet/deployed/''"

definition DesiredRef :: "string \<Rightarrow> string" where
  "DesiredRef env = DesiredRefPrefix @ env"

definition ObservedRef :: "string \<Rightarrow> string" where
  "ObservedRef env = ObservedRefPrefix @ env"

datatype deploy_mode = ModeTrack | ModeManual

datatype on_desired_move = OnMoveFinish | OnMoveCancel

record environment =
  en_Name :: string
  en_SourceBranch :: string
  en_SourceEnv :: string
  en_Mode :: deploy_mode
  en_Nodes :: "string list"
  en_MaxParallel :: int
  en_OnDesiredMove :: on_desired_move

text \<open>\<open>Params\<close>: \<open>dc_runnable\<close> is whether \<open>Exec\<close> was given.\<close>

record deploy_cfg =
  dc_Environments :: "environment list"
  dc_runnable :: bool
  dc_HasCustom :: "string \<Rightarrow> bool"
  dc_CheckSpec :: string
  dc_KnownExecutorProfile :: "(string \<Rightarrow> bool) option"
  dc_LogDir :: string
  dc_HistoryMtimes :: bool
  dc_AutoRetryErrors :: bool
  dc_kdlParse :: "string \<Rightarrow> string option list option"
  dc_kdlUnmarshal :: "string \<Rightarrow> string + check_spec"
  dc_specErrorText :: "spec_error \<Rightarrow> string"
  dc_formatRunIDTime :: "go_time \<Rightarrow> string"

definition sourceDisplay :: "environment \<Rightarrow> string" where
  "sourceDisplay env = (if en_SourceEnv env \<noteq> [] then ''env='' @ en_SourceEnv env else en_SourceBranch env)"

definition shortSHA :: "string \<Rightarrow> string" where
  "shortSHA sha = (if length sha > 8 then take 8 sha else sha)"

section \<open>Lanes\<close>

record laneRun =
  lr_runID :: string
  lr_sha :: string
  lr_prev :: string
  lr_startedAt :: go_time
  lr_nodes :: "string list"

record lane_park =
  lp_SHA :: string
  lp_RunID :: string
  lp_Outcome :: outcome
  lp_Detail :: string
  lp_At :: go_time

record lane_result =
  lq_RunID :: string
  lq_DeploySHA :: string
  lq_DeployedSHA :: string
  lq_Outcome :: outcome
  lq_Culprit :: string
  lq_Detail :: string
  lq_StartedAt :: go_time
  lq_EndedAt :: go_time

text \<open>\<open>ln_cancel\<close> is the goroutine whose context the stored \<open>CancelFunc\<close> cancels.\<close>

record deploy_lane =
  ln_running :: bool
  ln_run :: laneRun
  ln_cancel :: "nat option"
  ln_cancelled :: bool
  ln_cancelReason :: string
  ln_parked :: "lane_park option"
  ln_last :: "lane_result option"
  ln_syncedSHA :: string
  ln_autoRetried :: string

definition laneRun_zero :: laneRun where
  "laneRun_zero = \<lparr>lr_runID = [], lr_sha = [], lr_prev = [], lr_startedAt = 0, lr_nodes = []\<rparr>"

definition lane_zero :: deploy_lane where
  "lane_zero = \<lparr>ln_running = False, ln_run = laneRun_zero, ln_cancel = None, ln_cancelled = False, ln_cancelReason = [], ln_parked = None, ln_last = None,
     ln_syncedSHA = [], ln_autoRetried = []\<rparr>"

text \<open>The published state of a lane; \<open>la_Running\<close> is the run in flight.\<close>

record lane_state =
  la_Env :: string
  la_Mode :: deploy_mode
  la_Source :: string
  la_SourceTip :: string
  la_Desired :: string
  la_Observed :: string
  la_InSync :: bool
  la_Drift :: bool
  la_LastAdvance :: go_time
  la_LastError :: string
  la_Pending :: bool
  la_Running :: "laneRun option"
  la_Parked :: "lane_park option"
  la_LastResult :: "lane_result option"

record lane_snapshot =
  sn_At :: go_time
  sn_Lanes :: "lane_state list"

section \<open>Goroutines and the tracker\<close>

text \<open>Where a run's goroutine stands: before the pin; at the head of the scheduler's loop; waiting for reports; with the verdict mapped to an outcome and
  everything it acquired released; after the lane was released and before the terminal event; gone.\<close>

datatype phase = PhBegin | PhStart sched_state | PhDrain sched_state | PhFinish outcome string | PhEmit outcome string | PhGone

text \<open>\<open>go_ctx\<close> is whether the run's own context was cancelled.  \<open>go_data\<close> and \<open>go_nodes\<close> keep the spec file that was read and the graph it declares.\<close>

record goroutine =
  go_env :: environment
  go_rec :: deploy_record
  go_ctx :: bool
  go_data :: string
  go_nodes :: "node list"
  go_dir :: string
  go_phase :: phase

text \<open>\<open>tk_heads\<close> and \<open>tk_local\<close> are the fetched branches and the local mirror of the observed refs, \<open>tk_remote\<close> the refs of the remote itself.  The
  ghost \<open>tk_pushes\<close> records every push of the tracker that took effect, with the goroutine that made it, or \<open>None\<close> for a pass of the loop.\<close>

record tracker =
  tk_cfg :: deploy_cfg
  tk_lastAdvance :: "(string, go_time) gomap"
  tk_lanes :: "(string, deploy_lane) gomap"
  tk_draining :: bool
  tk_snap :: "lane_snapshot option"
  tk_counter :: int
  tk_runs :: "goroutine list"
  tk_heads :: "(string, string) gomap"
  tk_local :: "(string, string) gomap"
  tk_remote :: "(string, string) gomap"
  tk_pins :: "string list"
  tk_events :: "event list"
  tk_pushes :: "(nat option \<times> ref_push) list"

definition New_tracker :: "deploy_cfg \<Rightarrow> (string, string) gomap \<Rightarrow> tracker" where
  "New_tracker cfg remote = \<lparr>tk_cfg = cfg, tk_lastAdvance = [], tk_lanes = [], tk_draining = False, tk_snap = None, tk_counter = 0, tk_runs = [],
     tk_heads = [], tk_local = [], tk_remote = remote, tk_pins = [], tk_events = [], tk_pushes = []\<rparr>"

text \<open>The facts handed to the policy: the map \<open>Deployment\<close> with the entries a custom policy gets in addition, and the nodes of an execution.\<close>

record deploy_facts =
  df_phase :: string
  df_environment :: string
  df_mode :: deploy_mode
  df_source_branch :: string
  df_source_environment :: string
  df_desired :: string
  df_observed :: string
  df_current :: "(string \<times> string \<times> string) option"
  df_nodes :: "node list option"

record deploy_io =
  io_now :: go_time
  io_ListRefs :: go_error
  io_ListLocalRefs :: go_error
  io_cas :: cas_fault
  io_Decide :: "string \<Rightarrow> deploy_facts \<Rightarrow> string + decision"
  io_Pin :: go_error
  io_Unpin :: go_error
  io_ReadFileFromTree :: "string \<Rightarrow> string \<Rightarrow> string + string"
  io_MkdirTemp :: "string + string"
  io_ExportTree :: go_error
  io_RestoreMtimes :: go_error
  io_RunCheck :: "check_job \<Rightarrow> check_result"
  io_reports :: "sched_state \<Rightarrow> (nat \<times> bool \<times> slot_wait) list"
  io_done :: bool

abbreviation lane_of :: "tracker \<Rightarrow> string \<Rightarrow> deploy_lane" where
  "lane_of t name \<equiv> mget lane_zero (tk_lanes t) name"

definition put_lane :: "string \<Rightarrow> deploy_lane \<Rightarrow> tracker \<Rightarrow> tracker" where
  "put_lane name l t = t\<lparr>tk_lanes := mput name l (tk_lanes t)\<rparr>"

definition emit_deploy :: "event \<Rightarrow> tracker \<Rightarrow> tracker" where
  "emit_deploy ev t = t\<lparr>tk_events := tk_events t @ [ev]\<rparr>"

text \<open>\<open>CASUpdate\<close>, as the queue's model has it.\<close>

definition cas_ref :: "deploy_io \<Rightarrow> nat option \<Rightarrow> string \<Rightarrow> string \<Rightarrow> string \<Rightarrow> tracker \<Rightarrow> git_error option \<times> tracker" where
  "cas_ref io who ref old new t =
     (let cur = mget [] (tk_remote t) ref in
      case io_cas io of
        CasLost e \<Rightarrow> (Some (ErrOther e), t)
      | fault \<Rightarrow>
          (let report = (case fault of CasAmbiguous e \<Rightarrow> Some (ErrOther e) | _ \<Rightarrow> None) in
           if cur = old
           then (report, t\<lparr>tk_remote := mput ref new (tk_remote t),
                           tk_pushes := tk_pushes t @ [(who, \<lparr>ps_ref = ref, ps_old = old, ps_new = new\<rparr>)]\<rparr>)
           else if new \<noteq> [] \<and> cur = new then (report, t)
           else (Some ErrCASStale, t)))"

section \<open>Policy\<close>

definition decide_name :: "string \<Rightarrow> string" where
  "decide_name phase = (if phase = ''execution'' then ''execution'' else ''deployment'')"

definition decideDeployment :: "deploy_io \<Rightarrow> tracker \<Rightarrow> environment \<Rightarrow> string \<Rightarrow> string \<Rightarrow> string \<Rightarrow> node list \<Rightarrow> go_error" where
  "decideDeployment io t env phase desired observed nodes =
     (let name = decide_name phase;
          facts = \<lparr>df_phase = phase, df_environment = en_Name env, df_mode = en_Mode env, df_source_branch = en_SourceBranch env,
            df_source_environment = en_SourceEnv env, df_desired = desired, df_observed = observed, df_current = None,
            df_nodes = (if phase = ''execution'' then Some nodes else None)\<rparr>;
          custom = dc_HasCustom (tk_cfg t) name in
      if custom \<and> io_ListRefs io \<noteq> None then Some (msg [''deployment policy refs: '', the (io_ListRefs io)])
      else if custom \<and> io_ListLocalRefs io \<noteq> None then Some (msg [''deployment policy observed refs: '', the (io_ListLocalRefs io)])
      else
       (let facts = (if custom
          then facts\<lparr>df_current := Some (mget [] (tk_heads t) (DesiredRef (en_Name env)), mget [] (tk_local t) (ObservedRef (en_Name env)),
                  if en_SourceEnv env \<noteq> [] then mget [] (tk_local t) (ObservedRef (en_SourceEnv env))
                  else mget [] (tk_heads t) (''refs/heads/'' @ en_SourceBranch env))\<rparr>
          else facts) in
        case io_Decide io name facts of
          Inl e \<Rightarrow> Some (msg [name, '' policy: '', e])
        | Inr decision \<Rightarrow> if de_Allow decision then None else Some (msg [name, '' policy: '', Reason decision])))"

section \<open>The graph of a revision\<close>

definition to_node :: "deploy_node \<Rightarrow> node" where
  "to_node d = \<lparr>dg_Name = dn_Name d, dg_After = dn_After d, dg_Command = dn_Command d, dg_Executor = dn_Executor d\<rparr>"

definition unknown_profile :: "deploy_cfg \<Rightarrow> deploy_node \<Rightarrow> bool" where
  "unknown_profile cfg d =
     (dn_Executor d \<noteq> [] \<and> (case dc_KnownExecutorProfile cfg of None \<Rightarrow> True | Some known \<Rightarrow> \<not> known (dn_Executor d)))"

definition deployGraph :: "deploy_io \<Rightarrow> deploy_cfg \<Rightarrow> environment \<Rightarrow> string \<Rightarrow> string + string \<times> node list" where
  "deployGraph io cfg env sha =
     (case io_ReadFileFromTree io sha (dc_CheckSpec cfg) of
        Inl e \<Rightarrow> Inl (msg [''deploy spec '', go_quote (dc_CheckSpec cfg), '': '', e])
      | Inr data \<Rightarrow>
          (case ParseChecks (dc_kdlParse cfg) (dc_kdlUnmarshal cfg) data of
             Inl e \<Rightarrow> Inl (msg [''deploy spec '', go_quote (dc_CheckSpec cfg), '': '', dc_specErrorText cfg e])
           | Inr spec \<Rightarrow>
               (case SelectDeployNodes spec (en_Nodes env) of
                  Inl e \<Rightarrow> Inl (dc_specErrorText cfg e)
                | Inr selected \<Rightarrow>
                    if selected = [] then Inl ''no deploy nodes declared''
                    else (case find (unknown_profile cfg) selected of
                            Some d \<Rightarrow> Inl (msg [''deploy node '', go_quote (dn_Name d), '' selects unknown executor profile '', go_quote (dn_Executor d)])
                          | None \<Rightarrow> Inr (data, map to_node selected)))))"

section \<open>Operator calls\<close>

definition Retry_lane :: "string \<Rightarrow> tracker \<Rightarrow> bool \<times> tracker" where
  "Retry_lane env t =
     (case map_of (tk_lanes t) env of
        None \<Rightarrow> (False, t)
      | Some l \<Rightarrow> if ln_parked l = None then (False, t) else (True, put_lane env (l\<lparr>ln_parked := None\<rparr>) t))"

definition cancel_context :: "nat \<Rightarrow> tracker \<Rightarrow> tracker" where
  "cancel_context k t = t\<lparr>tk_runs := (tk_runs t)[k := (tk_runs t ! k)\<lparr>go_ctx := True\<rparr>]\<rparr>"

definition CancelCurrent :: "string \<Rightarrow> tracker \<Rightarrow> bool \<times> tracker" where
  "CancelCurrent env t =
     (case map_of (tk_lanes t) env of
        None \<Rightarrow> (False, t)
      | Some l \<Rightarrow>
          (if \<not> ln_running l then (False, t)
           else (case ln_cancel l of
                   None \<Rightarrow> (False, t)
                 | Some k \<Rightarrow>
                     (let l = (if ln_cancelled l then l else l\<lparr>ln_cancelled := True, ln_cancelReason := ''cancelled by operator''\<rparr>) in
                      (True, cancel_context k (put_lane env l t))))))"

definition Drain_lanes :: "tracker \<Rightarrow> tracker" where
  "Drain_lanes t = t\<lparr>tk_draining := True\<rparr>"

section \<open>The life of a run\<close>

definition set_run :: "nat \<Rightarrow> goroutine \<Rightarrow> tracker \<Rightarrow> tracker" where
  "set_run k g t = t\<lparr>tk_runs := (tk_runs t)[k := g]\<rparr>"

definition nodeLogPath :: "deploy_cfg \<Rightarrow> string \<Rightarrow> nat \<Rightarrow> string \<Rightarrow> string" where
  "nodeLogPath cfg runID idx name =
     (if dc_LogDir cfg = [] then []
      else str_join ''/'' [dc_LogDir cfg, runID, msg [show_int (int idx + 1), ''-'', SanitizeName name, ''.log.zst'']])"

definition deploy_job :: "deploy_cfg \<Rightarrow> goroutine \<Rightarrow> nat \<Rightarrow> check_job" where
  "deploy_job cfg g idx =
     (let n = go_nodes g ! idx; rec = go_rec g in
      check_job_zero\<lparr>j_RunID := dr_RunID rec, j_Name := dg_Name n, j_Command := dg_Command n, j_Executor := dg_Executor n, j_Dir := go_dir g,
        j_LogPath := nodeLogPath cfg (dr_RunID rec) idx (dg_Name n), j_BaseSHA := dr_DeployedSHA rec, j_MergeSHA := dr_DeploySHA rec,
        j_Candidate := candidate_zero\<lparr>c_Ref := DesiredRef (en_Name (go_env g)), c_SHA := dr_DeploySHA rec\<rparr>,
        j_DeployEnv := en_Name (go_env g), j_DeployNode := dg_Name n, j_DeployedSHA := dr_DeployedSHA rec, j_OperatorOwned := False\<rparr>)"

definition node_env :: "deploy_io \<Rightarrow> deploy_cfg \<Rightarrow> goroutine \<Rightarrow> graph_env" where
  "node_env io cfg g =
     \<lparr>ge_ctx = (\<lambda>s. go_ctx g \<or> io_done io),
      ge_done = (\<lambda>s. map (\<lambda>(idx, ctx, wait). \<lparr>ar_ctx = ctx, ar_idx = idx, ar_wait = wait, ar_res = io_RunCheck io (deploy_job cfg g idx)\<rparr>) (io_reports io s))\<rparr>"

definition deploy_event :: "event_kind \<Rightarrow> go_time \<Rightarrow> goroutine \<Rightarrow> event" where
  "deploy_event kind now g =
     (event_zero kind)\<lparr>ev_At := now, ev_RunID := dr_RunID (go_rec g), ev_DeployEnv := en_Name (go_env g), ev_DeploySHA := dr_DeploySHA (go_rec g),
        ev_DeployedSHA := dr_DeployedSHA (go_rec g)\<rparr>"

definition nodeStarted :: "string \<Rightarrow> string \<Rightarrow> tracker \<Rightarrow> tracker" where
  "nodeStarted env name t =
     (let l = lane_of t env in put_lane env (l\<lparr>ln_run := (ln_run l)\<lparr>lr_nodes := lr_nodes (ln_run l) @ [name]\<rparr>\<rparr>) t)"

definition nodeFinished :: "string \<Rightarrow> string \<Rightarrow> tracker \<Rightarrow> tracker" where
  "nodeFinished env name t =
     (let l = lane_of t env in put_lane env (l\<lparr>ln_run := (ln_run l)\<lparr>lr_nodes := remove1 name (lr_nodes (ln_run l))\<rparr>\<rparr>) t)"

text \<open>\<open>OnStart\<close> and \<open>OnFinish\<close>.\<close>

definition on_node :: "go_time \<Rightarrow> goroutine \<Rightarrow> sched_event \<Rightarrow> tracker \<Rightarrow> tracker" where
  "on_node now g e t =
     (case e of
        NodeStarted i \<Rightarrow> nodeStarted (en_Name (go_env g)) (dg_Name (go_nodes g ! i)) t
      | NodeFinished i res \<Rightarrow>
          emit_deploy ((deploy_event EventDeployNodeFinished now g)\<lparr>ev_CheckName := dg_Name (go_nodes g ! i), ev_Check := Some res\<rparr>)
            (nodeFinished (en_Name (go_env g)) (dg_Name (go_nodes g ! i)) t))"

definition release_pin :: "deploy_io \<Rightarrow> goroutine \<Rightarrow> tracker \<Rightarrow> tracker" where
  "release_pin io g t = (if io_Unpin io = None then t\<lparr>tk_pins := removeAll (dr_DeploySHA (go_rec g)) (tk_pins t)\<rparr> else t)"

definition specRejectPrefix :: string where
  "specRejectPrefix = ''spec reject: ''"

text \<open>\<open>execGraph\<close> up to the scheduler.\<close>

definition exec_begin :: "deploy_io \<Rightarrow> nat \<Rightarrow> tracker \<Rightarrow> tracker" where
  "exec_begin io k t =
     (let g = tk_runs t ! k; env = go_env g; desired = dr_DeploySHA (go_rec g); observed = dr_DeployedSHA (go_rec g);
          stop = (\<lambda>outcome detail t. set_run k (g\<lparr>go_phase := PhFinish outcome detail\<rparr>) t) in
      case io_Pin io of
        Some e \<Rightarrow> stop OutcomeError (''pin deploy revision: '' @ e) t
      | None \<Rightarrow>
         (let t = t\<lparr>tk_pins := List.insert desired (tk_pins t)\<rparr>; unpinned = release_pin io g t in
          case deployGraph io (tk_cfg t) env desired of
            Inl reason \<Rightarrow> stop OutcomeRejected (specRejectPrefix @ reason) unpinned
          | Inr (data, nodes) \<Rightarrow>
             (case decideDeployment io t env ''execution'' desired observed nodes of
                Some e \<Rightarrow> stop OutcomeRejected e unpinned
              | None \<Rightarrow>
                 (case io_MkdirTemp io of
                    Inl e \<Rightarrow> stop OutcomeError (''export tree: mkdir temp: '' @ e) unpinned
                  | Inr dir \<Rightarrow>
                     (case io_ExportTree io of
                        Some e \<Rightarrow> stop OutcomeError (''export tree: '' @ e) unpinned
                      | None \<Rightarrow>
                          if dc_HistoryMtimes (tk_cfg t) \<and> io_RestoreMtimes io \<noteq> None
                          then stop OutcomeError (''restore mtimes: '' @ the (io_RestoreMtimes io)) unpinned
                          else emit_deploy (deploy_event EventDeployStarted (io_now io) g)
                                 (set_run k (g\<lparr>go_data := data, go_nodes := nodes, go_dir := dir, go_phase := PhStart (sched_init nodes)\<rparr>) t))))))"

definition runCancelDetail :: "deploy_lane \<Rightarrow> string \<Rightarrow> string" where
  "runCancelDetail l err = (if ln_cancelReason l \<noteq> [] then ln_cancelReason l else ''run concluded externally: '' @ err)"

definition rowFor :: "check_result list \<Rightarrow> string \<Rightarrow> check_result option" where
  "rowFor rows name = find (\<lambda>row. cr_Name row = name) rows"

text \<open>\<open>execGraph\<close> after the scheduler: the outcome, and the advance of the observed ref that a green graph earns.\<close>

definition publish :: "deploy_io \<Rightarrow> nat \<Rightarrow> goroutine \<Rightarrow> tracker \<Rightarrow> (outcome \<times> string) \<times> tracker" where
  "publish io k g t =
     (let env = go_env g; desired = dr_DeploySHA (go_rec g); observed = dr_DeployedSHA (go_rec g) in
      case decideDeployment io t env ''publication'' desired observed (go_nodes g) of
        Some e \<Rightarrow> ((OutcomeRejected, e), t)
      | None \<Rightarrow>
         (case cas_ref io (Some k) (ObservedRef (en_Name env)) observed desired t of
            (None, t) \<Rightarrow> ((OutcomeLanded, []), t)
          | (Some ErrCASStale, t) \<Rightarrow>
              ((OutcomeError, msg [''advance observed ref: it no longer held '', shortSHA observed, '' '', [CHR 0xE2, CHR 0x80, CHR 0x94], '' another writer moved it'']), t)
          | (Some e, t) \<Rightarrow> ((OutcomeError, ''advance observed ref: '' @ git_error_string e), t)))"

definition exec_verdict :: "deploy_io \<Rightarrow> nat \<Rightarrow> goroutine \<Rightarrow> bool \<Rightarrow> check_result list \<times> string \<times> go_error \<Rightarrow> tracker
    \<Rightarrow> (outcome \<times> string) \<times> tracker" where
  "exec_verdict io k g ctx v t =
     (case v of (rows, culprit, runErr) \<Rightarrow>
        (case runErr of
           Some e \<Rightarrow> if ctx then ((OutcomeSkipped, runCancelDetail (lane_of t (en_Name (go_env g))) e), t) else ((OutcomeError, e), t)
         | None \<Rightarrow>
             if culprit \<noteq> []
             then (case rowFor rows culprit of
                     Some res \<Rightarrow>
                       (case cr_Err res of
                          Some e \<Rightarrow> ((OutcomeError, msg [''deploy node '', go_quote culprit, '': '', e]), t)
                        | None \<Rightarrow> ((OutcomeRejected, msg [''deploy node '', go_quote culprit, '' failed'']), t))
                   | None \<Rightarrow> ((OutcomeRejected, msg [''deploy node '', go_quote culprit, '' failed'']), t))
             else publish io k g t))"

definition exec_conclude :: "deploy_io \<Rightarrow> nat \<Rightarrow> sched_state \<Rightarrow> tracker \<Rightarrow> tracker" where
  "exec_conclude io k s t =
     (let g = tk_runs t ! k; genv = node_env io (tk_cfg t) g; s = look genv s; v = sched_verdict (go_nodes g) s;
          g = g\<lparr>go_rec := (go_rec g)\<lparr>dr_Nodes := fst v, dr_Culprit := fst (snd v)\<rparr>\<rparr>;
          ((outcome, detail), t) = exec_verdict io k g (ss_ctx (look genv s)) v t in
      set_run k (g\<lparr>go_phase := PhFinish outcome detail\<rparr>) (release_pin io g t))"

text \<open>The scheduler's two half rounds, with the callbacks for what it logged.\<close>

definition exec_start :: "deploy_io \<Rightarrow> nat \<Rightarrow> sched_state \<Rightarrow> tracker \<Rightarrow> tracker" where
  "exec_start io k s t =
     (let g = tk_runs t ! k;
          s' = sched_start (node_env io (tk_cfg t) g) (go_nodes g) (max (en_MaxParallel (go_env g)) 1) s;
          t = fold (on_node (io_now io) g) (drop (length (ss_log s)) (ss_log s')) t in
      if ss_inflight s' = [] then exec_conclude io k s' t else set_run k (g\<lparr>go_phase := PhDrain s'\<rparr>) t)"

definition exec_drain :: "deploy_io \<Rightarrow> nat \<Rightarrow> sched_state \<Rightarrow> tracker \<Rightarrow> tracker" where
  "exec_drain io k s t =
     (let g = tk_runs t ! k;
          s' = sched_drain (node_env io (tk_cfg t) g) (go_nodes g) s;
          t = fold (on_node (io_now io) g) (drop (length (ss_log s)) (ss_log s')) t in
      set_run k (g\<lparr>go_phase := PhStart s'\<rparr>) t)"

definition releaseLane :: "go_time \<Rightarrow> environment \<Rightarrow> deploy_record \<Rightarrow> outcome \<Rightarrow> string \<Rightarrow> tracker \<Rightarrow> tracker" where
  "releaseLane now env rec outcome detail t =
     (let l = (lane_of t (en_Name env))\<lparr>ln_running := False, ln_cancel := None, ln_cancelled := False, ln_cancelReason := [], ln_run := laneRun_zero,
            ln_last := Some \<lparr>lq_RunID = dr_RunID rec, lq_DeploySHA = dr_DeploySHA rec, lq_DeployedSHA = dr_DeployedSHA rec, lq_Outcome = outcome,
              lq_Culprit = dr_Culprit rec, lq_Detail = detail, lq_StartedAt = dr_StartedAt rec, lq_EndedAt = now\<rparr>\<rparr> in
      put_lane (en_Name env)
       (case outcome of
          OutcomeLanded \<Rightarrow> l\<lparr>ln_syncedSHA := dr_DeploySHA rec, ln_parked := None\<rparr>
        | OutcomeSkipped \<Rightarrow> l
        | _ \<Rightarrow>
           (let l = l\<lparr>ln_parked := Some \<lparr>lp_SHA = dr_DeploySHA rec, lp_RunID = dr_RunID rec, lp_Outcome = outcome, lp_Detail = detail, lp_At = now\<rparr>\<rparr> in
            if outcome = OutcomeError \<and> dc_AutoRetryErrors (tk_cfg t) \<and> \<not> tk_draining t \<and> ln_autoRetried l \<noteq> dr_DeploySHA rec
            then l\<lparr>ln_autoRetried := dr_DeploySHA rec, ln_parked := None\<rparr>
            else l)) t)"

definition finishGraph :: "deploy_io \<Rightarrow> nat \<Rightarrow> outcome \<Rightarrow> string \<Rightarrow> tracker \<Rightarrow> tracker" where
  "finishGraph io k outcome detail t =
     (let g = tk_runs t ! k; rec = (go_rec g)\<lparr>dr_Outcome := outcome, dr_Detail := detail, dr_EndedAt := io_now io\<rparr> in
      set_run k (g\<lparr>go_rec := rec, go_phase := PhEmit outcome detail\<rparr>) (releaseLane (io_now io) (go_env g) rec outcome detail t))"

definition finish_emit :: "nat \<Rightarrow> outcome \<Rightarrow> string \<Rightarrow> tracker \<Rightarrow> tracker" where
  "finish_emit k outcome detail t =
     (let g = tk_runs t ! k in
      emit_deploy ((deploy_event EventDeployFinished (dr_EndedAt (go_rec g)) g)\<lparr>ev_Deploy := Some (go_rec g), ev_Detail := detail\<rparr>)
        (set_run k (g\<lparr>go_phase := PhGone\<rparr>) t))"

definition runGraph_step :: "deploy_io \<Rightarrow> nat \<Rightarrow> tracker \<Rightarrow> tracker" where
  "runGraph_step io k t =
     (if k < length (tk_runs t)
      then (case go_phase (tk_runs t ! k) of
              PhBegin \<Rightarrow> exec_begin io k t
            | PhStart s \<Rightarrow> exec_start io k s t
            | PhDrain s \<Rightarrow> exec_drain io k s t
            | PhFinish outcome detail \<Rightarrow> finishGraph io k outcome detail t
            | PhEmit outcome detail \<Rightarrow> finish_emit k outcome detail t
            | PhGone \<Rightarrow> t)
      else t)"

section \<open>Passes of the reconcile loop\<close>

text \<open>What may happen while a pass does not hold the mutex: operator calls, steps of the goroutines, fetches of the queue, and pushes of others.\<close>

datatype lane_op = OpDrain | OpRetry string | OpCancel string | OpRun deploy_io nat
  | OpFetch "(string, string) gomap" "(string, string) gomap" | OpPush string string

fun apply_op :: "lane_op \<Rightarrow> tracker \<Rightarrow> tracker" where
  "apply_op OpDrain t = Drain_lanes t"
| "apply_op (OpRetry env) t = snd (Retry_lane env t)"
| "apply_op (OpCancel env) t = snd (CancelCurrent env t)"
| "apply_op (OpRun io k) t = runGraph_step io k t"
| "apply_op (OpFetch heads observed) t = t\<lparr>tk_heads := heads, tk_local := observed\<rparr>"
| "apply_op (OpPush ref oid) t = t\<lparr>tk_remote := mput ref oid (tk_remote t)\<rparr>"

definition canStart :: "tracker \<Rightarrow> deploy_lane \<Rightarrow> lane_state \<Rightarrow> bool" where
  "canStart t l ls =
     (if \<not> dc_runnable (tk_cfg t) \<or> tk_draining t then False
      else if la_Desired ls = [] \<or> la_Desired ls = la_Observed ls then False
      else if ln_syncedSHA l = la_Desired ls then False
      else if ln_parked l \<noteq> None then False
      else True)"

definition newDeployRunID :: "tracker \<Rightarrow> go_time \<Rightarrow> string \<Rightarrow> string \<Rightarrow> string \<times> tracker" where
  "newDeployRunID t now env sha =
     (let sha = (if length sha > 12 then take 12 sha else sha); n = i64 (tk_counter t + 1) in
      (msg [''deploy-'', dc_formatRunIDTime (tk_cfg t) now, ''-'', show_int n, ''-'', SanitizeName env, ''-'', sha], t\<lparr>tk_counter := n\<rparr>))"

definition startLane :: "deploy_io \<Rightarrow> environment \<Rightarrow> lane_state \<Rightarrow> tracker \<Rightarrow> tracker" where
  "startLane io env ls t =
     (let (runID, t) = newDeployRunID t (io_now io) (en_Name env) (la_Desired ls);
          l = (lane_of t (en_Name env))\<lparr>ln_running := True, ln_cancel := Some (length (tk_runs t)), ln_cancelled := False, ln_cancelReason := [],
                ln_run := \<lparr>lr_runID = runID, lr_sha = la_Desired ls, lr_prev = la_Observed ls, lr_startedAt = io_now io, lr_nodes = []\<rparr>\<rparr>;
          rec = \<lparr>dr_Env = en_Name env, dr_RunID = runID, dr_DeploySHA = la_Desired ls, dr_DeployedSHA = la_Observed ls, dr_Nodes = [],
                 dr_Outcome = OutcomeLanded, dr_Culprit = [], dr_Detail = [], dr_StartedAt = io_now io, dr_EndedAt = 0\<rparr> in
      (put_lane (en_Name env) l t)\<lparr>tk_runs := tk_runs t @
         [\<lparr>go_env = env, go_rec = rec, go_ctx = False, go_data = [], go_nodes = [], go_dir = [], go_phase = PhBegin\<rparr>]\<rparr>)"

definition runningState :: "deploy_lane \<Rightarrow> laneRun option" where
  "runningState l = (if ln_running l then Some (ln_run l) else None)"

definition move_cancel :: "environment \<Rightarrow> lane_state \<Rightarrow> deploy_lane \<Rightarrow> tracker \<Rightarrow> tracker" where
  "move_cancel env ls l t =
     (if en_OnDesiredMove env = OnMoveCancel \<and> la_Desired ls \<noteq> [] \<and> la_Desired ls \<noteq> lr_sha (ln_run l) \<and> \<not> ln_cancelled l
      then (let l = l\<lparr>ln_cancelled := True,
                      ln_cancelReason := msg [''desired ref moved to '', shortSHA (la_Desired ls), '' mid-run (on-desired-move '', go_quote ''cancel'', '')'']\<rparr>;
                t = put_lane (en_Name env) l t in
            case ln_cancel l of Some k \<Rightarrow> cancel_context k t | None \<Rightarrow> t)
      else t)"

definition stepLane :: "deploy_io \<Rightarrow> lane_op list \<Rightarrow> environment \<Rightarrow> lane_state \<Rightarrow> tracker \<Rightarrow> lane_state \<times> tracker" where
  "stepLane io meanwhile env ls t =
     (let l = lane_of t (en_Name env);
          l = (case ln_parked l of Some p \<Rightarrow> if lp_SHA p \<noteq> la_Desired ls then l\<lparr>ln_parked := None\<rparr> else l | None \<Rightarrow> l);
          t = put_lane (en_Name env) l t;
          (ls, t) =
            (if ln_running l then (ls, move_cancel env ls l t)
             else if \<not> canStart t l ls then (ls\<lparr>la_Pending := False\<rparr>, t)
             else (let err = decideDeployment io t env ''admission'' (la_Desired ls) (la_Observed ls) [];
                       t = fold apply_op meanwhile t;
                       pending = (err = None \<and> canStart t (lane_of t (en_Name env)) ls);
                       ls = ls\<lparr>la_Pending := pending, la_LastError := (case err of Some e \<Rightarrow> e | None \<Rightarrow> la_LastError ls)\<rparr> in
                   (ls, if pending then startLane io env ls t else t)));
          l = lane_of t (en_Name env) in
      (ls\<lparr>la_Running := runningState l, la_Parked := ln_parked l, la_LastResult := ln_last l\<rparr>, t))"

text \<open>The desired ref of a tracked environment is advanced to the source's tip.\<close>

definition advance_desired :: "deploy_io \<Rightarrow> environment \<Rightarrow> go_time \<Rightarrow> lane_state \<Rightarrow> tracker \<Rightarrow> lane_state \<times> tracker" where
  "advance_desired io env now ls t =
     (if en_Mode env = ModeTrack \<and> la_SourceTip ls \<noteq> [] \<and> la_Desired ls \<noteq> la_SourceTip ls
      then (case decideDeployment io t env ''promotion'' (la_SourceTip ls) (la_Observed ls) [] of
              Some e \<Rightarrow> (ls\<lparr>la_LastError := e\<rparr>, t)
            | None \<Rightarrow>
               (case cas_ref io None (DesiredRef (en_Name env)) (la_Desired ls) (la_SourceTip ls) t of
                  (None, t) \<Rightarrow> (ls\<lparr>la_Desired := la_SourceTip ls\<rparr>, t\<lparr>tk_lastAdvance := mput (en_Name env) now (tk_lastAdvance t)\<rparr>)
                | (Some e, t) \<Rightarrow> (ls\<lparr>la_LastError := git_error_string e\<rparr>, t)))
      else (ls, t))"

definition reconcileLane :: "deploy_io \<Rightarrow> lane_op list \<Rightarrow> environment \<Rightarrow> (string, string) gomap \<Rightarrow> (string, string) gomap \<Rightarrow> go_time \<Rightarrow> tracker
    \<Rightarrow> lane_state \<times> tracker" where
  "reconcileLane io meanwhile env refs observed now t =
     (let ls = \<lparr>la_Env = en_Name env, la_Mode = en_Mode env, la_Source = sourceDisplay env,
            la_SourceTip = (if en_SourceBranch env \<noteq> [] then mget [] refs (''refs/heads/'' @ en_SourceBranch env)
                            else if en_SourceEnv env \<noteq> [] then mget [] observed (ObservedRef (en_SourceEnv env)) else []),
            la_Desired = mget [] refs (DesiredRef (en_Name env)), la_Observed = mget [] observed (ObservedRef (en_Name env)),
            la_InSync = False, la_Drift = False, la_LastAdvance = 0, la_LastError = [], la_Pending = False, la_Running = None, la_Parked = None,
            la_LastResult = None\<rparr>;
          (ls, t) = advance_desired io env now ls t;
          ls = ls\<lparr>la_LastAdvance := mget 0 (tk_lastAdvance t) (en_Name env), la_InSync := la_Desired ls \<noteq> [] \<and> la_Desired ls = la_Observed ls,
                  la_Drift := la_SourceTip ls \<noteq> [] \<and> la_Desired ls \<noteq> la_SourceTip ls\<rparr> in
      stepLane io meanwhile env ls t)"

text \<open>A pass asks git and the policy once per lane, so each lane has its own \<open>deploy_io\<close>, with what other goroutines do before the lane is reached
  (\<open>before\<close>) and while the admission is decided (\<open>meanwhile\<close>).\<close>

record lane_turn =
  lt_io :: deploy_io
  lt_before :: "lane_op list"
  lt_meanwhile :: "lane_op list"

fun reconcile_lanes :: "(environment \<Rightarrow> lane_turn) \<Rightarrow> environment list \<Rightarrow> (string, string) gomap \<Rightarrow> (string, string) gomap \<Rightarrow> go_time \<Rightarrow> tracker
    \<Rightarrow> lane_state list \<times> tracker" where
  "reconcile_lanes turn [] refs observed now t = ([], t)"
| "reconcile_lanes turn (env # envs) refs observed now t =
     (let t = fold apply_op (lt_before (turn env)) t;
          (ls, t) = reconcileLane (lt_io (turn env)) (lt_meanwhile (turn env)) env refs observed now t;
          (lss, t) = reconcile_lanes turn envs refs observed now t in
      (ls # lss, t))"

definition ReconcileOnce_deploy :: "deploy_io \<Rightarrow> (environment \<Rightarrow> lane_turn) \<Rightarrow> tracker \<Rightarrow> go_error \<times> tracker" where
  "ReconcileOnce_deploy io turn t =
     (case io_ListRefs io of
        Some e \<Rightarrow> (Some (''deploy: list refs: '' @ e), t)
      | None \<Rightarrow>
         (case io_ListLocalRefs io of
            Some e \<Rightarrow> (Some (''deploy: list observed refs: '' @ e), t)
          | None \<Rightarrow>
             (let (lanes, t) = reconcile_lanes turn (dc_Environments (tk_cfg t)) (tk_heads t) (tk_local t) (io_now io) t in
              (None, t\<lparr>tk_snap := Some \<lparr>sn_At = io_now io, sn_Lanes = lanes\<rparr>\<rparr>))))"

section \<open>The graph a revision declares\<close>

text \<open>A graph that was read from a revision: the selection of the environment out of a spec that parsed and validated, with known profiles.\<close>

definition declared :: "deploy_cfg \<Rightarrow> environment \<Rightarrow> string \<Rightarrow> node list \<Rightarrow> bool" where
  "declared cfg env data nodes =
     (\<exists>spec selected. ParseChecks (dc_kdlParse cfg) (dc_kdlUnmarshal cfg) data = Inr spec \<and> SelectDeployNodes spec (en_Nodes env) = Inr selected
        \<and> selected \<noteq> [] \<and> \<not> list_ex (unknown_profile cfg) selected \<and> nodes = map to_node selected)"

lemma deployGraph_declared:
  assumes "deployGraph io cfg env sha = Inr (data, nodes)"
  shows "declared cfg env data nodes" "io_ReadFileFromTree io sha (dc_CheckSpec cfg) = Inr data"
  using assms by (auto simp: deployGraph_def declared_def find_None_iff list_ex_iff split: sum.splits option.splits if_splits)

lemma validate_deploy_names_nonempty: "validate_deploy_names ds seen = Inr out \<Longrightarrow> \<forall>d \<in> set ds. dn_Name d \<noteq> []"
  by (induction ds seen rule: validate_deploy_names.induct) (auto split: if_splits)

text \<open>The selected nodes are declared ones, and closed under \<open>after\<close>.\<close>

lemma SelectDeployNodes_closed:
  assumes "validate cs = None" "SelectDeployNodes cs names = Inr selected"
  shows "\<exists>P. selected = filter P (cs_Deploys cs)" "\<forall>d \<in> set selected. set (dn_After d) \<subseteq> dn_Name ` set selected"
proof -
  have "validateDeploys cs = None" using assms(1) by (auto simp: validate_def split: if_splits sum.splits option.splits)
  note v = validateDeploys_None [OF this]
  have "(\<exists>P. selected = filter P (cs_Deploys cs)) \<and> (\<forall>d \<in> set selected. set (dn_After d) \<subseteq> dn_Name ` set selected)"
  proof (cases "names = []")
    case True
    then have s: "selected = cs_Deploys cs" using assms(2) by (simp add: SelectDeployNodes_def)
    moreover have "selected = filter (\<lambda>_. True) (cs_Deploys cs)" using s by simp
    ultimately show ?thesis using v(2) unfolding list_all_iff by blast
  next
    case False
    then obtain out where out: "pull_list (length (cs_Deploys cs) + 1) (deploy_byName cs) names [] = PullDone out"
      and s: "selected = filter (\<lambda>d. dn_Name d \<in> set out) (cs_Deploys cs)"
      using assms(2) by (auto simp: SelectDeployNodes_def deploy_byName_def split: pull_result.splits)
    have "set (dn_After d) \<subseteq> dn_Name ` set selected" if "d \<in> set selected" for d
    proof
      fix a assume a: "a \<in> set (dn_After d)"
      have d: "d \<in> set (cs_Deploys cs)" "dn_Name d \<in> set out" using that s by auto
      have "(dn_Name d, a) \<in> deploy_rel cs" using a d(1) by (auto simp: deploy_rel_def)
      then have "a \<in> set out" using pull_closed(2) [OF out, of "dn_Name d" a] d(2) deploy_byName_rel [OF v(1)] by simp
      moreover have "a \<in> dn_Name ` set (cs_Deploys cs)" using a d(1) v(2) by (auto simp: list_all_iff)
      ultimately show "a \<in> dn_Name ` set selected" using s by auto
    qed
    then show ?thesis using s by blast
  qed
  then show "\<exists>P. selected = filter P (cs_Deploys cs)" "\<forall>d \<in> set selected. set (dn_After d) \<subseteq> dn_Name ` set selected" by blast+
qed

lemma declared_wf:
  assumes "declared cfg env data nodes"
  shows "graph_wf nodes"
proof -
  obtain spec selected where d: "ParseChecks (dc_kdlParse cfg) (dc_kdlUnmarshal cfg) data = Inr spec" "SelectDeployNodes spec (en_Nodes env) = Inr selected"
    "selected \<noteq> []" "nodes = map to_node selected" using assms by (auto simp: declared_def)
  have val: "validate spec = None" using d(1) by (auto simp: ParseChecks_def Let_def split: option.splits sum.splits)
  note sel = SelectDeployNodes_closed [OF val d(2)]
  have dv: "validateDeploys spec = None" using val by (auto simp: validate_def split: if_splits sum.splits option.splits)
  note v = validateDeploys_None [OF dv]
  obtain out where "validate_deploy_names (cs_Deploys spec) [] = Inr out"
    using dv by (auto simp: validateDeploys_def split: sum.splits)
  note ne = validate_deploy_names_nonempty [OF this]
  have sub: "set selected \<subseteq> set (cs_Deploys spec)" "distinct (map dn_Name selected)" using sel(1) v(1) by (auto simp: distinct_map_filter)
  have names: "map dg_Name nodes = map dn_Name selected" "dg_Name ` set nodes = dn_Name ` set selected" by (auto simp: d(4) to_node_def image_image)
  have "[] \<notin> dn_Name ` set selected" using sub(1) ne by (metis imageE subsetD)
  then have "named nodes" using sub(2) by (simp add: named_def names)
  moreover have "node_rel (map as_check nodes) \<subseteq> deploy_rel spec" using sub(1) by (auto simp: node_rel_def deploy_rel_def d(4) to_node_def)
  then have "acyclic (node_rel (map as_check nodes))" by (rule acyclic_subset [OF v(3)])
  moreover have "set (ck_After c) \<subseteq> ck_Name ` set (map as_check nodes)" if c: "c \<in> set (map as_check nodes)" for c
  proof -
    obtain d where "d \<in> set selected" "c = as_check (to_node d)" using c \<open>nodes = map to_node selected\<close> by auto
    then show ?thesis using sel(2) unfolding \<open>nodes = map to_node selected\<close> by (force simp: to_node_def)
  qed
  moreover have "distinct (map ck_Name (map as_check nodes))" using sub(2) names(1) by (simp add: comp_def)
  ultimately show ?thesis using d(3,4) by (simp add: graph_wf_def nodes_wf_def list_all_iff)
qed

end
