(* ===== verification/Deploy_System.thy ===== *)
theory Deploy_System
  imports Deploy_Tracker
begin

text \<open>
  The tracker as a system: passes of the reconcile loop, operator calls and the goroutines of the lanes, interleaved in any order.  A pass is broken down
  into the small steps between which the code lets others in (\<open>tracker_step\<close>); the invariants are proved over those steps.
\<close>

section \<open>Steps\<close>

text \<open>What is relied on: a goroutine of the scheduler reports once, as long as some are in flight some report, and git returns, when it returns a file at
  all, the content \<open>files sha path\<close> of that path in that revision.\<close>

definition io_ok :: "(string \<Rightarrow> string \<Rightarrow> string) \<Rightarrow> deploy_io \<Rightarrow> bool" where
  "io_ok files io =
     ((\<forall>s. ss_inflight s \<noteq> [] \<longrightarrow> io_reports io s \<noteq> [] \<and> distinct (map fst (io_reports io s)) \<and> fst ` set (io_reports io s) \<subseteq> set (ss_inflight s))
      \<and> (\<forall>sha path data. io_ReadFileFromTree io sha path = Inr data \<longrightarrow> data = files sha path))"

fun op_ok :: "(string \<Rightarrow> string \<Rightarrow> string) \<Rightarrow> lane_op \<Rightarrow> bool" where
  "op_ok files (OpRun io k) = io_ok files io"
| "op_ok files op = True"

inductive tracker_step :: "(string \<Rightarrow> string \<Rightarrow> string) \<Rightarrow> tracker \<Rightarrow> tracker \<Rightarrow> bool" for files where
  op: "op_ok files op \<Longrightarrow> tracker_step files t (apply_op op t)"
| advance: "env \<in> set (dc_Environments (tk_cfg t)) \<Longrightarrow> tracker_step files t (snd (advance_desired io env now ls t))"
| lane: "l = lane_of t name \<or> l = (lane_of t name)\<lparr>ln_parked := None\<rparr> \<Longrightarrow> tracker_step files t (put_lane name l t)"
| move: "ln_running (lane_of t (en_Name env)) \<Longrightarrow> tracker_step files t (move_cancel env ls (lane_of t (en_Name env)) t)"
| start: "env \<in> set (dc_Environments (tk_cfg t)) \<Longrightarrow> \<not> ln_running (lane_of t (en_Name env)) \<Longrightarrow> canStart t (lane_of t (en_Name env)) ls
    \<Longrightarrow> tracker_step files t (startLane io env ls t)"
| snap: "tracker_step files t (t\<lparr>tk_snap := sn\<rparr>)"

definition turn_ok :: "(string \<Rightarrow> string \<Rightarrow> string) \<Rightarrow> lane_turn \<Rightarrow> bool" where
  "turn_ok files turn = (list_all (op_ok files) (lt_before turn) \<and> list_all (op_ok files) (lt_meanwhile turn))"

inductive tracker_reachable :: "(string \<Rightarrow> string \<Rightarrow> string) \<Rightarrow> deploy_cfg \<Rightarrow> tracker \<Rightarrow> bool" for files cfg where
  new: "tracker_reachable files cfg (New_tracker cfg remote)"
| call: "tracker_reachable files cfg t \<Longrightarrow> op_ok files op \<Longrightarrow> tracker_reachable files cfg (apply_op op t)"
| pass: "tracker_reachable files cfg t \<Longrightarrow> (\<And>env. turn_ok files (turn env)) \<Longrightarrow> tracker_reachable files cfg (snd (ReconcileOnce_deploy io turn t))"

section \<open>What each step keeps\<close>

lemma put_lane_fields [simp]:
  "lane_of (put_lane name l t) n = (if n = name then l else lane_of t n)" "tk_cfg (put_lane name l t) = tk_cfg t" "tk_runs (put_lane name l t) = tk_runs t"
  "tk_pushes (put_lane name l t) = tk_pushes t" "tk_draining (put_lane name l t) = tk_draining t" "tk_remote (put_lane name l t) = tk_remote t"
  "tk_pins (put_lane name l t) = tk_pins t" "tk_heads (put_lane name l t) = tk_heads t" "tk_local (put_lane name l t) = tk_local t"
  "tk_lastAdvance (put_lane name l t) = tk_lastAdvance t"
  by (simp_all add: put_lane_def)

lemma set_run_fields [simp]:
  "tk_lanes (set_run k g t) = tk_lanes t" "tk_cfg (set_run k g t) = tk_cfg t" "tk_runs (set_run k g t) = (tk_runs t)[k := g]"
  "tk_pushes (set_run k g t) = tk_pushes t" "tk_draining (set_run k g t) = tk_draining t" "tk_remote (set_run k g t) = tk_remote t"
  "tk_pins (set_run k g t) = tk_pins t"
  by (simp_all add: set_run_def)

lemma emit_deploy_fields [simp]:
  "tk_lanes (emit_deploy ev t) = tk_lanes t" "tk_cfg (emit_deploy ev t) = tk_cfg t" "tk_runs (emit_deploy ev t) = tk_runs t"
  "tk_pushes (emit_deploy ev t) = tk_pushes t" "tk_draining (emit_deploy ev t) = tk_draining t" "tk_remote (emit_deploy ev t) = tk_remote t"
  "tk_pins (emit_deploy ev t) = tk_pins t"
  by (simp_all add: emit_deploy_def)

lemma release_pin_fields [simp]:
  "tk_lanes (release_pin io g t) = tk_lanes t" "tk_cfg (release_pin io g t) = tk_cfg t" "tk_runs (release_pin io g t) = tk_runs t"
  "tk_pushes (release_pin io g t) = tk_pushes t" "tk_draining (release_pin io g t) = tk_draining t" "tk_remote (release_pin io g t) = tk_remote t"
  by (simp_all add: release_pin_def)

lemma cancel_context_fields [simp]:
  "tk_lanes (cancel_context k t) = tk_lanes t" "tk_cfg (cancel_context k t) = tk_cfg t" "tk_pushes (cancel_context k t) = tk_pushes t"
  "tk_draining (cancel_context k t) = tk_draining t" "length (tk_runs (cancel_context k t)) = length (tk_runs t)"
  by (simp_all add: cancel_context_def)

text \<open>The callbacks change only the list of running nodes of the lane.\<close>

definition same_lane :: "deploy_lane \<Rightarrow> deploy_lane \<Rightarrow> bool" where
  "same_lane l m = (\<exists>xs. m = l\<lparr>ln_run := (ln_run l)\<lparr>lr_nodes := xs\<rparr>\<rparr>)"

lemma same_lane_refl [simp]: "same_lane l l"
  unfolding same_lane_def by (intro exI [of _ "lr_nodes (ln_run l)"]) simp

lemma same_lane_nodes [simp]: "same_lane l (l\<lparr>ln_run := (ln_run l)\<lparr>lr_nodes := xs\<rparr>\<rparr>)"
  by (auto simp: same_lane_def)

lemma same_lane_trans: "same_lane a b \<Longrightarrow> same_lane b c \<Longrightarrow> same_lane a c"
  by (auto simp: same_lane_def)

lemma same_lane_fields:
  assumes "same_lane l m"
  shows "ln_running m = ln_running l" "ln_cancel m = ln_cancel l" "lr_sha (ln_run m) = lr_sha (ln_run l)" "lr_runID (ln_run m) = lr_runID (ln_run l)"
    "ln_parked m = ln_parked l" "ln_syncedSHA m = ln_syncedSHA l" "ln_autoRetried m = ln_autoRetried l" "ln_cancelled m = ln_cancelled l"
    "ln_cancelReason m = ln_cancelReason l"
  using assms by (auto simp: same_lane_def)

section \<open>The invariant\<close>

fun live_phase :: "phase \<Rightarrow> bool" where
  "live_phase (PhEmit outcome detail) = False"
| "live_phase PhGone = False"
| "live_phase ph = True"

fun concluded :: "phase \<Rightarrow> bool" where
  "concluded PhBegin = False"
| "concluded (PhStart s) = False"
| "concluded (PhDrain s) = False"
| "concluded ph = True"

abbreviation run_name :: "goroutine \<Rightarrow> string" where
  "run_name g \<equiv> en_Name (go_env g)"

abbreviation live :: "goroutine \<Rightarrow> bool" where
  "live g \<equiv> live_phase (go_phase g)"

text \<open>A live goroutine owns its lane, and a running lane belongs to a live goroutine.\<close>

definition owns :: "tracker \<Rightarrow> nat \<Rightarrow> goroutine \<Rightarrow> bool" where
  "owns t k g =
     (let l = lane_of t (run_name g) in
      ln_running l \<and> ln_cancel l = Some k \<and> lr_sha (ln_run l) = dr_DeploySHA (go_rec g) \<and> lr_runID (ln_run l) = dr_RunID (go_rec g))"

definition lanes_ok :: "tracker \<Rightarrow> bool" where
  "lanes_ok t =
     ((\<forall>k < length (tk_runs t). live (tk_runs t ! k) \<longrightarrow> owns t k (tk_runs t ! k))
      \<and> (\<forall>name. ln_running (lane_of t name) \<longrightarrow>
           (\<exists>k < length (tk_runs t). ln_cancel (lane_of t name) = Some k \<and> live (tk_runs t ! k) \<and> run_name (tk_runs t ! k) = name)))"

definition graph_ok :: "(string \<Rightarrow> string \<Rightarrow> string) \<Rightarrow> deploy_cfg \<Rightarrow> goroutine \<Rightarrow> bool" where
  "graph_ok files cfg g = declared cfg (go_env g) (files (dr_DeploySHA (go_rec g)) (dc_CheckSpec cfg)) (go_nodes g)"

definition loop_ok :: "goroutine \<Rightarrow> sched_state \<Rightarrow> bool" where
  "loop_ok g s = (sched_ok (go_nodes g) (max (en_MaxParallel (go_env g)) 1) s \<and> culled (go_nodes g) s)"

definition deploy_ok :: "(string \<Rightarrow> string \<Rightarrow> string) \<Rightarrow> deploy_cfg \<Rightarrow> goroutine \<Rightarrow> bool" where
  "deploy_ok files cfg g =
     (case go_phase g of
        PhStart s \<Rightarrow> graph_ok files cfg g \<and> loop_ok g s
      | PhDrain s \<Rightarrow> graph_ok files cfg g \<and> loop_ok g s \<and> ss_inflight s \<noteq> []
      | _ \<Rightarrow> True)"

text \<open>An advance of an observed ref that a run has earned.\<close>

definition earned :: "(string \<Rightarrow> string \<Rightarrow> string) \<Rightarrow> deploy_cfg \<Rightarrow> goroutine \<Rightarrow> ref_push \<Rightarrow> bool" where
  "earned files cfg g p =
     (p = \<lparr>ps_ref = ObservedRef (run_name g), ps_old = dr_DeployedSHA (go_rec g), ps_new = dr_DeploySHA (go_rec g)\<rparr>
      \<and> graph_ok files cfg g \<and> map cr_Name (dr_Nodes (go_rec g)) = map dg_Name (go_nodes g) \<and> (\<forall>row \<in> set (dr_Nodes (go_rec g)). NodeGreen row))"

definition push_ok :: "(string \<Rightarrow> string \<Rightarrow> string) \<Rightarrow> tracker \<Rightarrow> nat option \<times> ref_push \<Rightarrow> bool" where
  "push_ok files t wp =
     (case wp of
        (None, p) \<Rightarrow> \<exists>env \<in> set (dc_Environments (tk_cfg t)). en_Mode env = ModeTrack \<and> ps_ref p = DesiredRef (en_Name env) \<and> ps_new p \<noteq> []
      | (Some k, p) \<Rightarrow> k < length (tk_runs t) \<and> concluded (go_phase (tk_runs t ! k)) \<and> earned files (tk_cfg t) (tk_runs t ! k) p)"

definition tracker_ok :: "(string \<Rightarrow> string \<Rightarrow> string) \<Rightarrow> tracker \<Rightarrow> bool" where
  "tracker_ok files t =
     (lanes_ok t \<and> (\<forall>g \<in> set (tk_runs t). deploy_ok files (tk_cfg t) g) \<and> (\<forall>wp \<in> set (tk_pushes t). push_ok files t wp))"

lemma tracker_ok_frame:
  assumes "tracker_ok files t" "tk_runs t' = tk_runs t" "tk_cfg t' = tk_cfg t" "tk_pushes t' = tk_pushes t" "lanes_ok t'"
  shows "tracker_ok files t'"
  using assms(1,5) unfolding tracker_ok_def push_ok_def assms(2-4) by blast

lemma run_is_ok: "tracker_ok files t \<Longrightarrow> k < length (tk_runs t) \<Longrightarrow> deploy_ok files (tk_cfg t) (tk_runs t ! k)"
  unfolding tracker_ok_def using nth_mem by blast

lemma lanes_ok_same:
  assumes "lanes_ok t" "tk_runs t' = tk_runs t"
    "\<And>name. let l = lane_of t name; m = lane_of t' name in ln_running m = ln_running l \<and> ln_cancel m = ln_cancel l
       \<and> lr_sha (ln_run m) = lr_sha (ln_run l) \<and> lr_runID (ln_run m) = lr_runID (ln_run l)"
  shows "lanes_ok t'"
  using assms(1,3) unfolding lanes_ok_def owns_def assms(2) Let_def by simp

text \<open>A step of goroutine \<open>k\<close>: its entry changes, perhaps with an advance it has earned.\<close>

definition same_attempt :: "goroutine \<Rightarrow> goroutine \<Rightarrow> bool" where
  "same_attempt g g' =
     (go_env g' = go_env g \<and> dr_RunID (go_rec g') = dr_RunID (go_rec g) \<and> dr_DeploySHA (go_rec g') = dr_DeploySHA (go_rec g)
      \<and> dr_DeployedSHA (go_rec g') = dr_DeployedSHA (go_rec g)
      \<and> (concluded (go_phase g) \<longrightarrow> concluded (go_phase g') \<and> go_nodes g' = go_nodes g \<and> dr_Nodes (go_rec g') = dr_Nodes (go_rec g)))"

lemma tracker_ok_run:
  assumes "tracker_ok files t" "k < length (tk_runs t)" "tk_runs t' = (tk_runs t)[k := g']" "tk_cfg t' = tk_cfg t" "same_attempt (tk_runs t ! k) g'"
    "deploy_ok files (tk_cfg t) g'" "set (tk_pushes t') \<subseteq> set (tk_pushes t) \<union> {(Some k, p) |p. concluded (go_phase g') \<and> earned files (tk_cfg t) g' p}"
    "lanes_ok t'"
  shows "tracker_ok files t'"
proof -
  have "push_ok files t' wp" if wp: "wp \<in> set (tk_pushes t')" for wp
  proof (cases "wp \<in> set (tk_pushes t)")
    case True
    then have old: "push_ok files t wp" using assms(1) by (simp add: tracker_ok_def)
    show ?thesis
    proof (cases "fst wp = Some k")
      case True
      then show ?thesis using old assms(2,5)
        by (cases wp) (auto simp: push_ok_def assms(3,4) earned_def graph_ok_def same_attempt_def)
    next
      case False
      then show ?thesis using old by (cases wp) (auto simp: push_ok_def assms(3,4) nth_list_update split: option.splits)
    qed
  next
    case False
    then show ?thesis using wp assms(2,7) by (auto simp: push_ok_def assms(3,4))
  qed
  moreover have "\<forall>g \<in> set (tk_runs t'). deploy_ok files (tk_cfg t') g"
    using assms(1,6) set_update_subset_insert [of "tk_runs t" k g'] unfolding tracker_ok_def assms(3,4) by blast
  ultimately show ?thesis using assms(8) by (simp add: tracker_ok_def)
qed

lemma lanes_ok_live:
  assumes "lanes_ok t" "k < length (tk_runs t)" "tk_runs t' = (tk_runs t)[k := g']" "same_attempt (tk_runs t ! k) g'" "live g' = live (tk_runs t ! k)"
    "\<And>name. same_lane (lane_of t name) (lane_of t' name)"
  shows "lanes_ok t'"
proof -
  note lane = same_lane_fields(1-4) [OF assms(6)]
  have runs: "live (tk_runs t' ! j) = live (tk_runs t ! j)" "run_name (tk_runs t' ! j) = run_name (tk_runs t ! j)"
    "dr_DeploySHA (go_rec (tk_runs t' ! j)) = dr_DeploySHA (go_rec (tk_runs t ! j))" "dr_RunID (go_rec (tk_runs t' ! j)) = dr_RunID (go_rec (tk_runs t ! j))"
    if "j < length (tk_runs t)" for j
    using that assms(2,4,5) by (auto simp: assms(3) nth_list_update same_attempt_def)
  have len: "length (tk_runs t') = length (tk_runs t)" by (simp add: assms(3))
  show ?thesis using assms(1) lane runs unfolding lanes_ok_def owns_def Let_def len by (metis (no_types, lifting))
qed

section \<open>The steps of a run\<close>

lemma on_node_frame:
  "tk_runs (on_node now g e t) = tk_runs t \<and> tk_cfg (on_node now g e t) = tk_cfg t \<and> tk_pushes (on_node now g e t) = tk_pushes t
   \<and> tk_draining (on_node now g e t) = tk_draining t \<and> tk_pins (on_node now g e t) = tk_pins t \<and> tk_remote (on_node now g e t) = tk_remote t
   \<and> same_lane (lane_of t name) (lane_of (on_node now g e t) name)"
  by (simp add: on_node_def nodeStarted_def nodeFinished_def Let_def split: sched_event.split)

lemma fold_on_node_frame:
  "tk_runs (fold (on_node now g) es t) = tk_runs t \<and> tk_cfg (fold (on_node now g) es t) = tk_cfg t \<and> tk_pushes (fold (on_node now g) es t) = tk_pushes t
   \<and> tk_draining (fold (on_node now g) es t) = tk_draining t \<and> tk_pins (fold (on_node now g) es t) = tk_pins t
   \<and> tk_remote (fold (on_node now g) es t) = tk_remote t \<and> same_lane (lane_of t name) (lane_of (fold (on_node now g) es t) name)"
proof (induction es arbitrary: t)
  case (Cons e es)
  then show ?case using on_node_frame [of now g e t name] same_lane_trans by fastforce
qed simp

lemma cas_ref_frame:
  "tk_runs (snd (cas_ref io who ref old new t)) = tk_runs t" "tk_cfg (snd (cas_ref io who ref old new t)) = tk_cfg t"
  "tk_lanes (snd (cas_ref io who ref old new t)) = tk_lanes t" "tk_draining (snd (cas_ref io who ref old new t)) = tk_draining t"
  "tk_pins (snd (cas_ref io who ref old new t)) = tk_pins t" "tk_lastAdvance (snd (cas_ref io who ref old new t)) = tk_lastAdvance t"
  "set (tk_pushes (snd (cas_ref io who ref old new t))) \<subseteq> insert (who, \<lparr>ps_ref = ref, ps_old = old, ps_new = new\<rparr>) (set (tk_pushes t))"
  by (auto simp: cas_ref_def Let_def split: cas_fault.split)

lemma publish_frame:
  "tk_runs (snd (publish io k g t)) = tk_runs t" "tk_cfg (snd (publish io k g t)) = tk_cfg t" "tk_lanes (snd (publish io k g t)) = tk_lanes t"
  "tk_draining (snd (publish io k g t)) = tk_draining t" "tk_pins (snd (publish io k g t)) = tk_pins t"
  "set (tk_pushes (snd (publish io k g t))) \<subseteq> insert (Some k, \<lparr>ps_ref = ObservedRef (run_name g), ps_old = dr_DeployedSHA (go_rec g),
     ps_new = dr_DeploySHA (go_rec g)\<rparr>) (set (tk_pushes t))"
proof -
  let ?c = "cas_ref io (Some k) (ObservedRef (run_name g)) (dr_DeployedSHA (go_rec g)) (dr_DeploySHA (go_rec g)) t"
  have "snd (publish io k g t) = t \<or> snd (publish io k g t) = snd ?c"
    by (cases ?c) (auto simp: publish_def Let_def split: option.split git_error.split)
  then show "tk_runs (snd (publish io k g t)) = tk_runs t" "tk_cfg (snd (publish io k g t)) = tk_cfg t" "tk_lanes (snd (publish io k g t)) = tk_lanes t"
    "tk_draining (snd (publish io k g t)) = tk_draining t" "tk_pins (snd (publish io k g t)) = tk_pins t"
    "set (tk_pushes (snd (publish io k g t))) \<subseteq> insert (Some k, \<lparr>ps_ref = ObservedRef (run_name g), ps_old = dr_DeployedSHA (go_rec g),
       ps_new = dr_DeploySHA (go_rec g)\<rparr>) (set (tk_pushes t))"
    using cas_ref_frame [of io "Some k" "ObservedRef (run_name g)" "dr_DeployedSHA (go_rec g)" "dr_DeploySHA (go_rec g)" t] by auto
qed

lemma exec_verdict_cases:
  "exec_verdict io k g ctx v t = publish io k g t \<and> fst (snd v) = [] \<and> snd (snd v) = None
   \<or> snd (exec_verdict io k g ctx v t) = t \<and> fst (fst (exec_verdict io k g ctx v t)) \<noteq> OutcomeLanded"
  by (cases v) (auto simp: exec_verdict_def split: option.split)

lemma exec_verdict_frame:
  "tk_runs (snd (exec_verdict io k g ctx v t)) = tk_runs t" "tk_cfg (snd (exec_verdict io k g ctx v t)) = tk_cfg t"
  "tk_lanes (snd (exec_verdict io k g ctx v t)) = tk_lanes t" "tk_draining (snd (exec_verdict io k g ctx v t)) = tk_draining t"
  using exec_verdict_cases [of io k g ctx v t] publish_frame [of io k g t] by (metis (no_types))+

text \<open>The reports that a run's goroutines owe the scheduler.\<close>

lemma node_env_answers: "io_ok files io \<Longrightarrow> answers (node_env io cfg g)"
  by (force simp: io_ok_def answers_def node_env_def comp_def case_prod_beta)

lemma exec_begin_run:
  assumes "io_ok files io" "go_phase (tk_runs t ! k) = PhBegin"
  shows "\<exists>g'. tk_runs (exec_begin io k t) = (tk_runs t)[k := g'] \<and> same_attempt (tk_runs t ! k) g' \<and> live g' \<and> deploy_ok files (tk_cfg t) g'"
    "tk_cfg (exec_begin io k t) = tk_cfg t" "tk_pushes (exec_begin io k t) = tk_pushes t" "tk_lanes (exec_begin io k t) = tk_lanes t"
    "tk_draining (exec_begin io k t) = tk_draining t"
proof -
  let ?g = "tk_runs t ! k"
  show "tk_cfg (exec_begin io k t) = tk_cfg t" "tk_pushes (exec_begin io k t) = tk_pushes t" "tk_lanes (exec_begin io k t) = tk_lanes t"
    "tk_draining (exec_begin io k t) = tk_draining t"
    by (auto simp: exec_begin_def Let_def split: option.split sum.split)
  have stop: "same_attempt ?g (?g\<lparr>go_phase := PhFinish out d\<rparr>) \<and> live (?g\<lparr>go_phase := PhFinish out d\<rparr>) \<and> deploy_ok files (tk_cfg t) (?g\<lparr>go_phase := PhFinish out d\<rparr>)" for out d
    using assms(2) by (simp add: same_attempt_def deploy_ok_def)
  have go: "same_attempt ?g h \<and> live h \<and> deploy_ok files (tk_cfg t) h"
    if "deployGraph io (tk_cfg t) (go_env ?g) (dr_DeploySHA (go_rec ?g)) = Inr (data, nodes)"
      "h = ?g\<lparr>go_data := data, go_nodes := nodes, go_dir := dir, go_phase := PhStart (sched_init nodes)\<rparr>" for data nodes dir h
  proof -
    note d = deployGraph_declared [OF that(1)]
    have "data = files (dr_DeploySHA (go_rec ?g)) (dc_CheckSpec (tk_cfg t))" using assms(1) d(2) unfolding io_ok_def by blast
    then show ?thesis using d(1) assms(2) sched_init_ok(1,2) by (simp add: that(2) same_attempt_def deploy_ok_def graph_ok_def loop_ok_def)
  qed
  show "\<exists>g'. tk_runs (exec_begin io k t) = (tk_runs t)[k := g'] \<and> same_attempt ?g g' \<and> live g' \<and> deploy_ok files (tk_cfg t) g'"
    using stop go by (auto simp: exec_begin_def Let_def split: option.split sum.split)
qed

text \<open>The end of a graph: an advance happens only after a verdict without culprit and without error.\<close>

lemma exec_conclude_run:
  assumes "graph_ok files (tk_cfg t) (tk_runs t ! k)" "loop_ok (tk_runs t ! k) s" "exhausted (go_nodes (tk_runs t ! k)) s" "ss_inflight s = []"
    "\<not> concluded (go_phase (tk_runs t ! k))"
  shows "\<exists>g'. tk_runs (exec_conclude io k s t) = (tk_runs t)[k := g'] \<and> same_attempt (tk_runs t ! k) g' \<and> live g' \<and> deploy_ok files (tk_cfg t) g'
     \<and> set (tk_pushes (exec_conclude io k s t)) \<subseteq> set (tk_pushes t) \<union> {(Some k, p) |p. concluded (go_phase g') \<and> earned files (tk_cfg t) g' p}"
    "tk_cfg (exec_conclude io k s t) = tk_cfg t" "tk_lanes (exec_conclude io k s t) = tk_lanes t" "tk_draining (exec_conclude io k s t) = tk_draining t"
proof -
  let ?g = "tk_runs t ! k"
  let ?env = "node_env io (tk_cfg t) ?g"
  let ?s = "look ?env s"
  obtain rows culprit err where v: "sched_verdict (go_nodes ?g) ?s = (rows, culprit, err)" by (metis prod_cases3)
  let ?h = "?g\<lparr>go_rec := (go_rec ?g)\<lparr>dr_Nodes := rows, dr_Culprit := culprit\<rparr>\<rparr>"
  obtain out detail t1 where e: "exec_verdict io k ?h (ss_ctx (look ?env ?s)) (rows, culprit, err) t = ((out, detail), t1)" by (metis prod_cases3 prod.collapse)
  let ?g' = "?h\<lparr>go_phase := PhFinish out detail\<rparr>"
  have c: "exec_conclude io k s t = set_run k ?g' (release_pin io ?h t1)"
    using v e by (simp add: exec_conclude_def Let_def)
  note fr = exec_verdict_frame [of io k ?h "ss_ctx (look ?env ?s)" "(rows, culprit, err)" t, unfolded e snd_conv]
  have wf: "graph_wf (go_nodes ?g)" using assms(1) declared_wf unfolding graph_ok_def by blast
  have "sched_ok (go_nodes ?g) (max (en_MaxParallel (go_env ?g)) 1) ?s" "culled (go_nodes ?g) ?s" "exhausted (go_nodes ?g) ?s" "ss_inflight ?s = []"
    using assms(2-4) by (simp_all add: loop_ok_def sched_ok_look culled_look exhausted_look)
  note verdict = sched_verdict_final [OF wf this v [symmetric]]
  have "set (tk_pushes t1) \<subseteq> set (tk_pushes t) \<union> {(Some k, p) |p. earned files (tk_cfg t) ?g' p}"
  proof (cases "exec_verdict io k ?h (ss_ctx (look ?env ?s)) (rows, culprit, err) t = publish io k ?h t \<and> culprit = [] \<and> err = None")
    case True
    then have "earned files (tk_cfg t) ?g' \<lparr>ps_ref = ObservedRef (run_name ?h), ps_old = dr_DeployedSHA (go_rec ?h), ps_new = dr_DeploySHA (go_rec ?h)\<rparr>"
      using verdict assms(1) by (simp add: earned_def graph_ok_def)
    moreover have "t1 = snd (publish io k ?h t)" using True e by (metis snd_conv)
    moreover have "set (tk_pushes (snd (publish io k ?h t))) \<subseteq> insert (Some k, \<lparr>ps_ref = ObservedRef (run_name ?h), ps_old = dr_DeployedSHA (go_rec ?h),
       ps_new = dr_DeploySHA (go_rec ?h)\<rparr>) (set (tk_pushes t))" by (rule publish_frame(6))
    ultimately show ?thesis by blast
  next
    case False
    then have "t1 = t" using exec_verdict_cases [of io k ?h "ss_ctx (look ?env ?s)" "(rows, culprit, err)" t] e by auto
    then show ?thesis by blast
  qed
  moreover have "same_attempt ?g ?g'" "live ?g'" "deploy_ok files (tk_cfg t) ?g'" using assms(5) by (simp_all add: same_attempt_def deploy_ok_def)
  ultimately show "\<exists>g'. tk_runs (exec_conclude io k s t) = (tk_runs t)[k := g'] \<and> same_attempt ?g g' \<and> live g' \<and> deploy_ok files (tk_cfg t) g'
     \<and> set (tk_pushes (exec_conclude io k s t)) \<subseteq> set (tk_pushes t) \<union> {(Some k, p) |p. concluded (go_phase g') \<and> earned files (tk_cfg t) g' p}"
    using fr(1) unfolding c by (intro exI [of _ ?g']) simp
  show "tk_cfg (exec_conclude io k s t) = tk_cfg t" "tk_lanes (exec_conclude io k s t) = tk_lanes t" "tk_draining (exec_conclude io k s t) = tk_draining t"
    using fr(2-4) unfolding c by simp_all
qed

lemma exec_start_ok:
  assumes "tracker_ok files t" "k < length (tk_runs t)" "go_phase (tk_runs t ! k) = PhStart s"
  shows "tracker_ok files (exec_start io k s t) \<and> tk_cfg (exec_start io k s t) = tk_cfg t \<and> tk_draining (exec_start io k s t) = tk_draining t"
proof -
  let ?g = "tk_runs t ! k"
  let ?env = "node_env io (tk_cfg t) ?g" and ?mp = "max (en_MaxParallel (go_env ?g)) 1"
  let ?s = "sched_start ?env (go_nodes ?g) ?mp s"
  let ?t = "fold (on_node (io_now io) ?g) (drop (length (ss_log s)) (ss_log ?s)) t"
  have g: "graph_ok files (tk_cfg t) ?g" "loop_ok ?g s" using run_is_ok [OF assms(1,2)] assms(3) by (simp_all add: deploy_ok_def)
  have st: "loop_ok ?g ?s" "ss_inflight ?s = [] \<Longrightarrow> exhausted (go_nodes ?g) ?s"
    using sched_start_ok [of "go_nodes ?g" ?mp s ?env] g(2) by (simp_all add: loop_ok_def)
  note fr = fold_on_node_frame [of "io_now io" ?g "drop (length (ss_log s)) (ss_log ?s)" t]
  have lo: "lanes_ok t" using assms(1) by (simp add: tracker_ok_def)
  show ?thesis
  proof (cases "ss_inflight ?s = []")
    case True
    then have e: "exec_start io k s t = exec_conclude io k ?s ?t" by (simp add: exec_start_def Let_def)
    have "graph_ok files (tk_cfg ?t) (tk_runs ?t ! k)" "loop_ok (tk_runs ?t ! k) ?s" "exhausted (go_nodes (tk_runs ?t ! k)) ?s" "\<not> concluded (go_phase (tk_runs ?t ! k))"
      using g(1) st True fr assms(3) by simp_all
    note c = exec_conclude_run [OF this(1-3) True this(4), of io]
    from c(1) obtain g' where g': "tk_runs (exec_start io k s t) = (tk_runs t)[k := g']" "same_attempt ?g g'" "live g'" "deploy_ok files (tk_cfg t) g'"
      "set (tk_pushes (exec_start io k s t)) \<subseteq> set (tk_pushes t) \<union> {(Some k, p) |p. concluded (go_phase g') \<and> earned files (tk_cfg t) g' p}"
      unfolding e using fr by auto
    have "same_lane (lane_of t name) (lane_of (exec_start io k s t) name)" for name unfolding e c(3) using fr by blast
    then have "lanes_ok (exec_start io k s t)" using lanes_ok_live [OF lo assms(2) g'(1,2)] g'(3) assms(3) by simp
    then have "tracker_ok files (exec_start io k s t)"
      using tracker_ok_run [OF assms(1,2) g'(1) _ g'(2,4,5)] c(2) fr unfolding e by simp
    then show ?thesis using c(2,4) fr unfolding e by simp
  next
    case False
    let ?g' = "?g\<lparr>go_phase := PhDrain ?s\<rparr>"
    have e: "exec_start io k s t = set_run k ?g' ?t" using False by (simp add: exec_start_def Let_def)
    have r: "tk_runs (exec_start io k s t) = (tk_runs t)[k := ?g']" "tk_cfg (exec_start io k s t) = tk_cfg t" "tk_pushes (exec_start io k s t) = tk_pushes t"
      using fr unfolding e by simp_all
    have sr: "same_attempt ?g ?g'" using assms(3) by (simp add: same_attempt_def)
    have "same_lane (lane_of t name) (lane_of (exec_start io k s t) name)" for name unfolding e using fr by simp
    then have "lanes_ok (exec_start io k s t)" using lanes_ok_live [OF lo assms(2) r(1) sr] assms(3) by simp
    moreover have "deploy_ok files (tk_cfg t) ?g'" using g(1) st(1) False by (simp add: deploy_ok_def graph_ok_def loop_ok_def)
    ultimately have "tracker_ok files (exec_start io k s t)" using tracker_ok_run [OF assms(1,2) r(1,2) sr] r(3) by simp
    then show ?thesis using r(2) fr unfolding e by simp
  qed
qed

lemma exec_drain_ok:
  assumes "tracker_ok files t" "k < length (tk_runs t)" "go_phase (tk_runs t ! k) = PhDrain s" "io_ok files io"
  shows "tracker_ok files (exec_drain io k s t) \<and> tk_cfg (exec_drain io k s t) = tk_cfg t \<and> tk_draining (exec_drain io k s t) = tk_draining t"
proof -
  let ?g = "tk_runs t ! k"
  let ?env = "node_env io (tk_cfg t) ?g"
  let ?s = "sched_drain ?env (go_nodes ?g) s"
  let ?t = "fold (on_node (io_now io) ?g) (drop (length (ss_log s)) (ss_log ?s)) t" and ?g' = "?g\<lparr>go_phase := PhStart ?s\<rparr>"
  have g: "graph_ok files (tk_cfg t) ?g" "loop_ok ?g s" "ss_inflight s \<noteq> []" using run_is_ok [OF assms(1,2)] assms(3) by (simp_all add: deploy_ok_def)
  have "named (go_nodes ?g)" using declared_wf g(1) unfolding graph_ok_def graph_wf_def by blast
  then have "loop_ok ?g ?s"
    using sched_drain_ok [of "go_nodes ?g" "max (en_MaxParallel (go_env ?g)) 1" s ?env] g(2,3) node_env_answers [OF assms(4)] by (simp add: loop_ok_def)
  then have ok: "deploy_ok files (tk_cfg t) ?g'" using g(1) by (simp add: deploy_ok_def graph_ok_def loop_ok_def)
  note fr = fold_on_node_frame [of "io_now io" ?g "drop (length (ss_log s)) (ss_log ?s)" t]
  have e: "exec_drain io k s t = set_run k ?g' ?t" by (simp add: exec_drain_def Let_def)
  have r: "tk_runs (exec_drain io k s t) = (tk_runs t)[k := ?g']" "tk_cfg (exec_drain io k s t) = tk_cfg t" "tk_pushes (exec_drain io k s t) = tk_pushes t"
    using fr unfolding e by simp_all
  have sr: "same_attempt ?g ?g'" using assms(3) by (simp add: same_attempt_def)
  have "same_lane (lane_of t name) (lane_of (exec_drain io k s t) name)" for name unfolding e using fr by simp
  then have "lanes_ok (exec_drain io k s t)" using lanes_ok_live [OF _ assms(2) r(1) sr] assms(1,3) by (simp add: tracker_ok_def)
  then have "tracker_ok files (exec_drain io k s t)" using tracker_ok_run [OF assms(1,2) r(1,2) sr ok] r(3) by simp
  then show ?thesis using r(2) fr unfolding e by simp
qed

lemma exec_begin_ok:
  assumes "tracker_ok files t" "k < length (tk_runs t)" "go_phase (tk_runs t ! k) = PhBegin" "io_ok files io"
  shows "tracker_ok files (exec_begin io k t)"
proof -
  note b = exec_begin_run [OF assms(4,3)]
  obtain g' where g': "tk_runs (exec_begin io k t) = (tk_runs t)[k := g']" "same_attempt (tk_runs t ! k) g'" "live g'" "deploy_ok files (tk_cfg t) g'" using b(1) by blast
  have "lanes_ok (exec_begin io k t)"
    using lanes_ok_live [OF _ assms(2) g'(1,2)] g'(3) assms(1,3) b(4) by (simp add: tracker_ok_def)
  then show ?thesis using tracker_ok_run [OF assms(1,2) g'(1) b(2) g'(2,4)] b(3) by simp
qed

lemma releaseLane_fields:
  "tk_runs (releaseLane now env rec out detail t) = tk_runs t" "tk_cfg (releaseLane now env rec out detail t) = tk_cfg t"
  "tk_pushes (releaseLane now env rec out detail t) = tk_pushes t" "tk_draining (releaseLane now env rec out detail t) = tk_draining t"
  "name \<noteq> en_Name env \<Longrightarrow> lane_of (releaseLane now env rec out detail t) name = lane_of t name"
  "\<not> ln_running (lane_of (releaseLane now env rec out detail t) (en_Name env))"
  by (auto simp: releaseLane_def Let_def split: outcome.split)

lemma finishGraph_ok:
  assumes "tracker_ok files t" "k < length (tk_runs t)" "go_phase (tk_runs t ! k) = PhFinish out detail"
  shows "tracker_ok files (finishGraph io k out detail t)"
proof -
  let ?g = "tk_runs t ! k" and ?t = "finishGraph io k out detail t"
  let ?rec = "(go_rec ?g)\<lparr>dr_Outcome := out, dr_Detail := detail, dr_EndedAt := io_now io\<rparr>"
  let ?g' = "?g\<lparr>go_rec := ?rec, go_phase := PhEmit out detail\<rparr>"
  have e: "?t = set_run k ?g' (releaseLane (io_now io) (go_env ?g) ?rec out detail t)" by (simp add: finishGraph_def Let_def)
  have r: "tk_runs ?t = (tk_runs t)[k := ?g']" "tk_cfg ?t = tk_cfg t" "tk_pushes ?t = tk_pushes t" unfolding e by (simp_all add: releaseLane_fields)
  have lane: "lane_of ?t name = lane_of t name" if "name \<noteq> run_name ?g" for name unfolding e using that by (simp add: releaseLane_fields)
  have idle: "\<not> ln_running (lane_of ?t (run_name ?g))" unfolding e by (simp add: releaseLane_fields)
  have lo: "lanes_ok t" using assms(1) by (simp add: tracker_ok_def)
  have own: "owns t k ?g" using lo assms(2,3) by (simp add: lanes_ok_def)
  have other: "run_name (tk_runs t ! j) \<noteq> run_name ?g" if "j < length (tk_runs t)" "live (tk_runs t ! j)" "j \<noteq> k" for j
    using lo own that by (auto simp: lanes_ok_def owns_def Let_def)
  have "owns ?t j (tk_runs ?t ! j)" if "j < length (tk_runs ?t)" "live (tk_runs ?t ! j)" for j
  proof -
    have "j \<noteq> k" using that assms(2) by (auto simp: r(1))
    then have j: "j \<noteq> k" "j < length (tk_runs t)" "tk_runs ?t ! j = tk_runs t ! j" using that(1) by (simp_all add: r(1))
    then show ?thesis using lo that other [of j] lane unfolding j(3) by (simp add: lanes_ok_def owns_def)
  qed
  moreover have "\<exists>j < length (tk_runs ?t). ln_cancel (lane_of ?t name) = Some j \<and> live (tk_runs ?t ! j) \<and> run_name (tk_runs ?t ! j) = name"
    if run: "ln_running (lane_of ?t name)" for name
  proof -
    have n: "name \<noteq> run_name ?g" using run idle by auto
    then obtain j where "j < length (tk_runs t)" "ln_cancel (lane_of t name) = Some j" "live (tk_runs t ! j)" "run_name (tk_runs t ! j) = name"
      using lo run lane unfolding lanes_ok_def by metis
    moreover from this have "j \<noteq> k" using n by auto
    ultimately show ?thesis using n lane by (intro exI [of _ j]) (simp add: r(1))
  qed
  ultimately have "lanes_ok ?t" by (simp add: lanes_ok_def)
  moreover have "same_attempt ?g ?g'" using assms(3) by (simp add: same_attempt_def)
  moreover have "deploy_ok files (tk_cfg t) ?g'" by (simp add: deploy_ok_def)
  ultimately show ?thesis using tracker_ok_run [OF assms(1,2) r(1,2)] r(3) by simp
qed

lemma finish_emit_ok:
  assumes "tracker_ok files t" "k < length (tk_runs t)" "go_phase (tk_runs t ! k) = PhEmit out detail"
  shows "tracker_ok files (finish_emit k out detail t)"
proof -
  let ?g = "tk_runs t ! k" and ?t = "finish_emit k out detail t"
  let ?g' = "?g\<lparr>go_phase := PhGone\<rparr>"
  have r: "tk_runs ?t = (tk_runs t)[k := ?g']" "tk_cfg ?t = tk_cfg t" "tk_pushes ?t = tk_pushes t" "tk_lanes ?t = tk_lanes t"
    by (simp_all add: finish_emit_def Let_def)
  have sr: "same_attempt ?g ?g'" using assms(3) by (simp add: same_attempt_def)
  have "lanes_ok ?t" using lanes_ok_live [OF _ assms(2) r(1) sr] assms(1,3) r(4) by (simp add: tracker_ok_def)
  moreover have "deploy_ok files (tk_cfg t) ?g'" by (simp add: deploy_ok_def)
  ultimately show ?thesis using tracker_ok_run [OF assms(1,2) r(1,2) sr] r(3) by simp
qed

lemma runGraph_step_ok:
  assumes "tracker_ok files t" "io_ok files io"
  shows "tracker_ok files (runGraph_step io k t)"
proof (cases "k < length (tk_runs t)")
  case True
  then show ?thesis
    using exec_begin_ok [OF assms(1) True _ assms(2)] exec_start_ok [OF assms(1) True] exec_drain_ok [OF assms(1) True _ assms(2)]
      finishGraph_ok [OF assms(1) True] finish_emit_ok [OF assms(1) True] assms(1)
    by (cases "go_phase (tk_runs t ! k)") (simp_all add: runGraph_step_def)
qed (use assms in \<open>simp add: runGraph_step_def\<close>)

section \<open>The other steps\<close>

lemma cancel_context_ok:
  assumes "tracker_ok files t" "k < length (tk_runs t)"
  shows "tracker_ok files (cancel_context k t)"
proof -
  let ?g = "tk_runs t ! k"
  let ?g' = "?g\<lparr>go_ctx := True\<rparr>"
  have r: "tk_runs (cancel_context k t) = (tk_runs t)[k := ?g']" by (simp add: cancel_context_def)
  have sr: "same_attempt ?g ?g'" by (simp add: same_attempt_def)
  have "lanes_ok (cancel_context k t)" using lanes_ok_live [OF _ assms(2) r sr] assms(1) by (simp add: tracker_ok_def)
  moreover have "deploy_ok files (tk_cfg t) ?g'" using run_is_ok [OF assms] by (simp add: deploy_ok_def graph_ok_def loop_ok_def split: phase.splits)
  ultimately show ?thesis using tracker_ok_run [OF assms(1,2) r _ sr] by simp
qed

text \<open>Changes of a lane that keep its run.\<close>

definition same_owner :: "deploy_lane \<Rightarrow> deploy_lane \<Rightarrow> bool" where
  "same_owner l m = (ln_running m = ln_running l \<and> ln_cancel m = ln_cancel l \<and> ln_run m = ln_run l)"

lemma put_lane_ok:
  assumes "tracker_ok files t" "same_owner (lane_of t name) l"
  shows "tracker_ok files (put_lane name l t)"
proof (rule tracker_ok_frame [OF assms(1)])
  show "lanes_ok (put_lane name l t)"
    by (rule lanes_ok_same [of t]) (use assms in \<open>auto simp: tracker_ok_def same_owner_def Let_def\<close>)
qed simp_all

lemma running_cancel: "tracker_ok files t \<Longrightarrow> ln_running (lane_of t name) \<Longrightarrow> \<exists>k < length (tk_runs t). ln_cancel (lane_of t name) = Some k"
  unfolding tracker_ok_def lanes_ok_def by blast

lemma cancel_lane_ok:
  assumes "tracker_ok files t" "ln_running (lane_of t name)" "same_owner (lane_of t name) l" "ln_cancel l = Some k"
  shows "tracker_ok files (cancel_context k (put_lane name l t))"
  using cancel_context_ok [OF put_lane_ok [OF assms(1,3)]] running_cancel [OF assms(1,2)] assms(3,4) by (auto simp: same_owner_def)

lemma apply_op_ok:
  assumes "tracker_ok files t" "op_ok files op"
  shows "tracker_ok files (apply_op op t)"
proof (cases op)
  case OpDrain
  show ?thesis unfolding OpDrain by (rule tracker_ok_frame [OF assms(1)]) (use assms(1) in \<open>simp_all add: Drain_lanes_def tracker_ok_def lanes_ok_def owns_def\<close>)
next
  case (OpRetry env)
  then show ?thesis using assms(1) put_lane_ok [OF assms(1), of env]
    by (auto simp: Retry_lane_def same_owner_def mget_def split: option.split)
next
  case (OpCancel env)
  show ?thesis
  proof (cases "map_of (tk_lanes t) env")
    case (Some l)
    then have l: "lane_of t env = l" by (simp add: mget_def)
    show ?thesis using Some assms(1) cancel_lane_ok [OF assms(1), of env] l
      by (auto simp: OpCancel CancelCurrent_def same_owner_def Let_def split: option.split)
  qed (use assms(1) in \<open>simp add: OpCancel CancelCurrent_def\<close>)
next
  case (OpRun io k)
  then show ?thesis using runGraph_step_ok [OF assms(1)] assms(2) by simp
next
  case (OpFetch heads observed)
  show ?thesis unfolding OpFetch by (rule tracker_ok_frame [OF assms(1)]) (use assms(1) in \<open>simp_all add: tracker_ok_def lanes_ok_def owns_def\<close>)
next
  case (OpPush ref oid)
  show ?thesis unfolding OpPush by (rule tracker_ok_frame [OF assms(1)]) (use assms(1) in \<open>simp_all add: tracker_ok_def lanes_ok_def owns_def\<close>)
qed

lemma advance_desired_fields:
  "tk_runs (snd (advance_desired io env now ls t)) = tk_runs t" "tk_cfg (snd (advance_desired io env now ls t)) = tk_cfg t"
  "tk_lanes (snd (advance_desired io env now ls t)) = tk_lanes t" "tk_draining (snd (advance_desired io env now ls t)) = tk_draining t"
  "set (tk_pushes (snd (advance_desired io env now ls t))) \<subseteq> set (tk_pushes t)
     \<union> {(None, p) |p. en_Mode env = ModeTrack \<and> ps_ref p = DesiredRef (en_Name env) \<and> ps_new p \<noteq> []}"
  using cas_ref_frame [of io None "DesiredRef (en_Name env)" "la_Desired ls" "la_SourceTip ls" t]
  by (auto simp: advance_desired_def split: option.split prod.split)

lemma startLane_fields:
  "tk_cfg (startLane io env ls t) = tk_cfg t" "tk_pushes (startLane io env ls t) = tk_pushes t" "tk_draining (startLane io env ls t) = tk_draining t"
  "name \<noteq> en_Name env \<Longrightarrow> lane_of (startLane io env ls t) name = lane_of t name"
  "\<exists>g. tk_runs (startLane io env ls t) = tk_runs t @ [g] \<and> go_phase g = PhBegin \<and> go_env g = env \<and> dr_DeploySHA (go_rec g) = la_Desired ls
     \<and> owns (startLane io env ls t) (length (tk_runs t)) g"
  by (simp_all add: startLane_def newDeployRunID_def owns_def Let_def put_lane_def)

lemma startLane_ok:
  assumes "tracker_ok files t" "\<not> ln_running (lane_of t (en_Name env))"
  shows "tracker_ok files (startLane io env ls t)"
proof -
  let ?t = "startLane io env ls t"
  obtain g where g: "tk_runs ?t = tk_runs t @ [g]" "go_phase g = PhBegin" "go_env g = env" "owns ?t (length (tk_runs t)) g"
    using startLane_fields(5) [of io env ls t] by blast
  have lo: "lanes_ok t" using assms(1) by (simp add: tracker_ok_def)
  have other: "run_name (tk_runs t ! j) \<noteq> en_Name env" if "j < length (tk_runs t)" "live (tk_runs t ! j)" for j
    using lo assms(2) that by (auto simp: lanes_ok_def owns_def Let_def)
  have "owns ?t j (tk_runs ?t ! j)" if "j < length (tk_runs ?t)" "live (tk_runs ?t ! j)" for j
  proof (cases "j = length (tk_runs t)")
    case False
    then have j: "j < length (tk_runs t)" "live (tk_runs t ! j)" using that by (auto simp: g(1) nth_append)
    then show ?thesis using lo startLane_fields(4) [OF other [OF j]] by (simp add: g(1) nth_append lanes_ok_def owns_def)
  qed (use g in \<open>simp add: nth_append\<close>)
  moreover have "\<exists>j < length (tk_runs ?t). ln_cancel (lane_of ?t name) = Some j \<and> live (tk_runs ?t ! j) \<and> run_name (tk_runs ?t ! j) = name"
    if run: "ln_running (lane_of ?t name)" for name
  proof (cases "name = en_Name env")
    case True
    then show ?thesis using g by (intro exI [of _ "length (tk_runs t)"]) (simp add: owns_def Let_def)
  next
    case False
    then obtain j where "j < length (tk_runs t)" "ln_cancel (lane_of t name) = Some j" "live (tk_runs t ! j)" "run_name (tk_runs t ! j) = name"
      using lo run startLane_fields(4) [OF False] unfolding lanes_ok_def by metis
    then show ?thesis using startLane_fields(4) [OF False] by (intro exI [of _ j]) (simp add: g(1) nth_append)
  qed
  ultimately have "lanes_ok ?t" by (simp add: lanes_ok_def)
  moreover have "push_ok files ?t wp" if "wp \<in> set (tk_pushes t)" for wp
    using assms(1) that by (cases wp) (auto simp: tracker_ok_def push_ok_def startLane_fields(1) g(1) nth_append split: option.splits)
  moreover have "deploy_ok files (tk_cfg t) g" using g(2) by (simp add: deploy_ok_def)
  ultimately show ?thesis using assms(1) by (simp add: tracker_ok_def startLane_fields(1,2) g(1))
qed

lemma tracker_step_ok:
  assumes "tracker_step files t t'" "tracker_ok files t"
  shows "tracker_ok files t'"
  using assms
proof (cases rule: tracker_step.cases)
  case (op op)
  then show ?thesis using apply_op_ok assms(2) by blast
next
  case (advance env io now ls)
  note fl = advance_desired_fields [of io env now ls t]
  have "lanes_ok t'" using assms(2) fl by (simp add: advance(1) tracker_ok_def lanes_ok_def owns_def)
  moreover have "push_ok files t' wp" if new: "wp \<in> set (tk_pushes t')" for wp
  proof (cases "wp \<in> set (tk_pushes t)")
    case True
    then have "push_ok files t wp" using assms(2) unfolding tracker_ok_def by blast
    then show ?thesis unfolding push_ok_def advance(1) fl(1,2) .
  next
    case False
    then obtain p where "wp = (None, p)" "en_Mode env = ModeTrack" "ps_ref p = DesiredRef (en_Name env)" "ps_new p \<noteq> []"
      using new fl(5) unfolding advance(1) by blast
    then show ?thesis using advance(2) by (auto simp: advance(1) push_ok_def fl(2))
  qed
  ultimately show ?thesis using assms(2) by (simp add: tracker_ok_def advance(1) fl(1,2))
next
  case (lane l name)
  then show ?thesis using put_lane_ok [OF assms(2)] by (auto simp: same_owner_def)
next
  case (move env ls)
  then show ?thesis using cancel_lane_ok [OF assms(2) move(2)] running_cancel [OF assms(2) move(2)] assms(2)
    by (auto simp: move_cancel_def same_owner_def Let_def)
next
  case (start env ls io)
  then show ?thesis using startLane_ok assms(2) by blast
next
  case (snap sn)
  show ?thesis by (rule tracker_ok_frame [OF assms(2)]) (use assms(2) snap in \<open>simp_all add: tracker_ok_def lanes_ok_def owns_def\<close>)
qed

section \<open>A pass is a sequence of steps\<close>

lemma exec_begin_fields:
  "tk_cfg (exec_begin io k t) = tk_cfg t" "tk_lanes (exec_begin io k t) = tk_lanes t" "tk_draining (exec_begin io k t) = tk_draining t"
  "length (tk_runs (exec_begin io k t)) = length (tk_runs t)"
  by (auto simp: exec_begin_def Let_def split: option.split sum.split)

lemma exec_conclude_fields:
  "tk_cfg (exec_conclude io k s t) = tk_cfg t" "tk_lanes (exec_conclude io k s t) = tk_lanes t" "tk_draining (exec_conclude io k s t) = tk_draining t"
  "length (tk_runs (exec_conclude io k s t)) = length (tk_runs t)"
proof -
  let ?g = "tk_runs t ! k"
  let ?env = "node_env io (tk_cfg t) ?g"
  let ?v = "sched_verdict (go_nodes ?g) (look ?env s)"
  let ?h = "?g\<lparr>go_rec := (go_rec ?g)\<lparr>dr_Nodes := fst ?v, dr_Culprit := fst (snd ?v)\<rparr>\<rparr>" and ?ctx = "ss_ctx (look ?env (look ?env s))"
  obtain out detail t1 where e: "exec_verdict io k ?h ?ctx ?v t = ((out, detail), t1)" by (metis prod_cases3 prod.collapse)
  note fr = exec_verdict_frame [of io k ?h ?ctx ?v t, unfolded e snd_conv]
  have "exec_conclude io k s t = set_run k (?h\<lparr>go_phase := PhFinish out detail\<rparr>) (release_pin io ?h t1)"
    using e by (simp add: exec_conclude_def Let_def)
  then show "tk_cfg (exec_conclude io k s t) = tk_cfg t" "tk_lanes (exec_conclude io k s t) = tk_lanes t" "tk_draining (exec_conclude io k s t) = tk_draining t"
    "length (tk_runs (exec_conclude io k s t)) = length (tk_runs t)" using fr by simp_all
qed

text \<open>What a step of a run can do to the tracker: it starts no other run, and it can only give its lane up.\<close>

lemma runGraph_step_fields:
  "tk_cfg (runGraph_step io k t) = tk_cfg t \<and> tk_draining (runGraph_step io k t) = tk_draining t
   \<and> length (tk_runs (runGraph_step io k t)) = length (tk_runs t)
   \<and> (ln_running (lane_of (runGraph_step io k t) name) \<longrightarrow> ln_running (lane_of t name))"
proof -
  let ?g = "tk_runs t ! k"
  have fr: "same_lane (lane_of t name) (lane_of (fold (on_node now ?g) es t) name)" for now es using fold_on_node_frame by blast
  have fold: "tk_cfg (fold (on_node now ?g) es t) = tk_cfg t" "tk_draining (fold (on_node now ?g) es t) = tk_draining t"
    "tk_runs (fold (on_node now ?g) es t) = tk_runs t" "ln_running (lane_of (fold (on_node now ?g) es t) name) = ln_running (lane_of t name)" for now es
    using fold_on_node_frame same_lane_fields(1) [OF fr] by blast+
  have "ln_running (lane_of (releaseLane now (go_env ?g) rec out detail t) name) \<Longrightarrow> ln_running (lane_of t name)" for now rec out detail
    using releaseLane_fields(5) [of name "go_env ?g"] releaseLane_fields(6) [of now "go_env ?g"] by (cases "name = run_name ?g") auto
  then show ?thesis
    by (auto simp: runGraph_step_def exec_begin_fields exec_start_def exec_conclude_fields exec_drain_def finishGraph_def releaseLane_fields finish_emit_def
        Let_def fold split: phase.split)
qed

lemma apply_op_fields:
  "tk_cfg (apply_op op t) = tk_cfg t \<and> length (tk_runs (apply_op op t)) = length (tk_runs t) \<and> (tk_draining t \<longrightarrow> tk_draining (apply_op op t))
   \<and> (ln_running (lane_of (apply_op op t) name) \<longrightarrow> ln_running (lane_of t name))"
  using runGraph_step_fields [of _ _ t name]
  by (cases op) (auto simp: Drain_lanes_def Retry_lane_def CancelCurrent_def Let_def mget_def put_lane_def split: option.split)

lemma fold_apply_op_fields:
  "tk_cfg (fold apply_op ops t) = tk_cfg t \<and> (ln_running (lane_of (fold apply_op ops t) name) \<longrightarrow> ln_running (lane_of t name))"
proof (induction ops arbitrary: t)
  case (Cons op ops)
  then show ?case using apply_op_fields [of op t name] by auto
qed simp

lemma fold_apply_op_steps: "list_all (op_ok files) ops \<Longrightarrow> (tracker_step files)\<^sup>*\<^sup>* t (fold apply_op ops t)"
proof (induction ops arbitrary: t)
  case (Cons op ops)
  then show ?case using tracker_step.op [of files op t] by (auto intro: converse_rtranclp_into_rtranclp)
qed simp

lemma tracker_step_fields:
  "tracker_step files t t' \<Longrightarrow> tk_cfg t' = tk_cfg t \<and> (tk_draining t \<longrightarrow> tk_draining t' \<and> length (tk_runs t') = length (tk_runs t))"
  by (induction rule: tracker_step.induct)
    (auto simp: apply_op_fields advance_desired_fields startLane_fields move_cancel_def canStart_def Let_def split: option.split)

lemma tracker_steps_fields:
  "(tracker_step files)\<^sup>*\<^sup>* t t' \<Longrightarrow> tk_cfg t' = tk_cfg t \<and> (tk_draining t \<longrightarrow> tk_draining t' \<and> length (tk_runs t') = length (tk_runs t))"
  by (induction rule: rtranclp_induct) (use tracker_step_fields in metis)+

lemma tracker_steps_ok: "(tracker_step files)\<^sup>*\<^sup>* t t' \<Longrightarrow> tracker_ok files t \<Longrightarrow> tracker_ok files t'"
  by (induction rule: rtranclp_induct) (blast intro: tracker_step_ok)+

definition unparked :: "lane_state \<Rightarrow> deploy_lane \<Rightarrow> deploy_lane" where
  "unparked ls l = (case ln_parked l of Some p \<Rightarrow> if lp_SHA p \<noteq> la_Desired ls then l\<lparr>ln_parked := None\<rparr> else l | None \<Rightarrow> l)"

lemma unparked_cases: "unparked ls l = l \<or> unparked ls l = l\<lparr>ln_parked := None\<rparr>"
  by (simp add: unparked_def split: option.split)

lemma canStart_state: "canStart t l (ls\<lparr>la_Pending := b\<rparr>) = canStart t l ls"
  by (simp add: canStart_def)

text \<open>What one turn of a lane does to the tracker.\<close>

lemma stepLane_cases:
  fixes t :: tracker and env :: environment and ls :: lane_state
  defines "u \<equiv> put_lane (en_Name env) (unparked ls (lane_of t (en_Name env))) t"
  obtains (busy) "ln_running (lane_of u (en_Name env))" "snd (stepLane io ops env ls t) = move_cancel env ls (lane_of u (en_Name env)) u"
      "\<not> la_Pending ls \<Longrightarrow> \<not> la_Pending (fst (stepLane io ops env ls t))"
    | (idle) "snd (stepLane io ops env ls t) = u" "\<not> canStart u (lane_of u (en_Name env)) ls" "\<not> la_Pending (fst (stepLane io ops env ls t))"
    | (refused) "snd (stepLane io ops env ls t) = fold apply_op ops u" "\<not> la_Pending (fst (stepLane io ops env ls t))"
    | (started) ls' where "\<not> ln_running (lane_of u (en_Name env))" "canStart (fold apply_op ops u) (lane_of (fold apply_op ops u) (en_Name env)) ls'"
        "snd (stepLane io ops env ls t) = startLane io env ls' (fold apply_op ops u)" "la_Desired ls' = la_Desired ls" "la_Observed ls' = la_Observed ls"
        "decideDeployment io u env ''admission'' (la_Desired ls) (la_Observed ls) [] = None" "la_Pending (fst (stepLane io ops env ls t))"
proof -
  let ?l = "unparked ls (lane_of t (en_Name env))"
  have l: "lane_of u (en_Name env) = ?l" by (simp add: u_def)
  have step: "stepLane io ops env ls t =
     (let (ls, t) =
            (if ln_running ?l then (ls, move_cancel env ls ?l u)
             else if \<not> canStart u ?l ls then (ls\<lparr>la_Pending := False\<rparr>, u)
             else (let err = decideDeployment io u env ''admission'' (la_Desired ls) (la_Observed ls) [];
                       t = fold apply_op ops u;
                       pending = (err = None \<and> canStart t (lane_of t (en_Name env)) ls);
                       ls = ls\<lparr>la_Pending := pending, la_LastError := (case err of Some e \<Rightarrow> e | None \<Rightarrow> la_LastError ls)\<rparr> in
                   (ls, if pending then startLane io env ls t else t)));
          l = lane_of t (en_Name env) in
      (ls\<lparr>la_Running := runningState l, la_Parked := ln_parked l, la_LastResult := ln_last l\<rparr>, t))"
    unfolding stepLane_def unparked_def [symmetric] Let_def u_def by simp
  let ?err = "decideDeployment io u env ''admission'' (la_Desired ls) (la_Observed ls) []"
  let ?t = "fold apply_op ops u"
  let ?ls = "ls\<lparr>la_Pending := True, la_LastError := la_LastError ls\<rparr>"
  consider "ln_running ?l" | "\<not> ln_running ?l" "\<not> canStart u ?l ls"
    | "\<not> ln_running ?l" "canStart u ?l ls" "\<not> (?err = None \<and> canStart ?t (lane_of ?t (en_Name env)) ls)"
    | "\<not> ln_running ?l" "canStart u ?l ls" "?err = None" "canStart ?t (lane_of ?t (en_Name env)) ls" by blast
  then show thesis
  proof cases
    case 1
    then show thesis using busy by (simp add: step l Let_def)
  next
    case 2
    then show thesis using idle by (simp add: step l Let_def)
  next
    case 3
    then show thesis using refused by (auto simp: step l Let_def)
  next
    case 4
    then show thesis using started [of ?ls] by (simp add: step l Let_def canStart_state)
  qed
qed

lemma stepLane_steps:
  assumes "env \<in> set (dc_Environments (tk_cfg t))" "list_all (op_ok files) ops"
  shows "(tracker_step files)\<^sup>*\<^sup>* t (snd (stepLane io ops env ls t))"
proof -
  let ?u = "put_lane (en_Name env) (unparked ls (lane_of t (en_Name env))) t"
  have u: "tracker_step files t ?u" by (rule tracker_step.lane) (rule unparked_cases)
  have o: "(tracker_step files)\<^sup>*\<^sup>* t (fold apply_op ops ?u)"
    using fold_apply_op_steps [OF assms(2), of ?u] u by (rule converse_rtranclp_into_rtranclp [rotated])
  have cfg: "tk_cfg (fold apply_op ops ?u) = tk_cfg t" using fold_apply_op_fields [of ops ?u] by simp
  show ?thesis
  proof (cases rule: stepLane_cases [of env ls t io ops, case_names busy idle refused started])
    case busy
    then show ?thesis using tracker_step.move [of ?u env files ls] u by (metis converse_rtranclp_into_rtranclp r_into_rtranclp)
  next
    case idle
    then show ?thesis using u by auto
  next
    case refused
    then show ?thesis using o by simp
  next
    case (started ls')
    have "\<not> ln_running (lane_of (fold apply_op ops ?u) (en_Name env))" using started(1) fold_apply_op_fields by blast
    then have "tracker_step files (fold apply_op ops ?u) (startLane io env ls' (fold apply_op ops ?u))"
      using tracker_step.start started(2) assms(1) cfg by metis
    then show ?thesis using o started(3) by (metis rtranclp.rtrancl_into_rtrancl)
  qed
qed

lemma reconcileLane_steps:
  assumes "env \<in> set (dc_Environments (tk_cfg t))" "list_all (op_ok files) ops"
  shows "(tracker_step files)\<^sup>*\<^sup>* t (snd (reconcileLane io ops env refs observed now t))"
proof -
  obtain ls0 where ls0: "\<exists>ls. snd (reconcileLane io ops env refs observed now t) = snd (stepLane io ops env ls (snd (advance_desired io env now ls0 t)))"
    by (auto simp: reconcileLane_def Let_def split_beta)
  then obtain ls where r: "snd (reconcileLane io ops env refs observed now t) = snd (stepLane io ops env ls (snd (advance_desired io env now ls0 t)))" by blast
  have "tracker_step files t (snd (advance_desired io env now ls0 t))" by (rule tracker_step.advance [OF assms(1)])
  moreover have "(tracker_step files)\<^sup>*\<^sup>* (snd (advance_desired io env now ls0 t)) (snd (reconcileLane io ops env refs observed now t))"
    unfolding r using assms by (intro stepLane_steps) (simp_all add: advance_desired_fields)
  ultimately show ?thesis by (rule converse_rtranclp_into_rtranclp)
qed

lemma reconcile_lanes_steps:
  assumes "\<And>env. turn_ok files (turn env)" "set envs \<subseteq> set (dc_Environments (tk_cfg t))"
  shows "(tracker_step files)\<^sup>*\<^sup>* t (snd (reconcile_lanes turn envs refs observed now t))"
  using assms(2)
proof (induction envs arbitrary: t)
  case (Cons env envs)
  let ?t = "fold apply_op (lt_before (turn env)) t"
  let ?u = "snd (reconcileLane (lt_io (turn env)) (lt_meanwhile (turn env)) env refs observed now ?t)"
  have b: "(tracker_step files)\<^sup>*\<^sup>* t ?t" using assms(1) by (intro fold_apply_op_steps) (simp add: turn_ok_def)
  have cfg: "tk_cfg ?t = tk_cfg t" using fold_apply_op_fields by blast
  have m: "(tracker_step files)\<^sup>*\<^sup>* ?t ?u" using assms(1) Cons.prems by (intro reconcileLane_steps) (simp_all add: turn_ok_def cfg)
  have "set envs \<subseteq> set (dc_Environments (tk_cfg ?u))" using tracker_steps_fields [OF m] Cons.prems cfg by simp
  from Cons.IH [OF this] have "(tracker_step files)\<^sup>*\<^sup>* ?u (snd (reconcile_lanes turn (env # envs) refs observed now t))"
    by (simp add: Let_def split_beta)
  then show ?case using b m by (meson rtranclp_trans)
qed simp

lemma pass_steps:
  assumes "\<And>env. turn_ok files (turn env)"
  shows "(tracker_step files)\<^sup>*\<^sup>* t (snd (ReconcileOnce_deploy io turn t))"
proof -
  let ?r = "reconcile_lanes turn (dc_Environments (tk_cfg t)) (tk_heads t) (tk_local t) (io_now io) t"
  have "(tracker_step files)\<^sup>*\<^sup>* t (snd ?r)" by (rule reconcile_lanes_steps [OF assms subset_refl])
  then have "(tracker_step files)\<^sup>*\<^sup>* t ((snd ?r)\<lparr>tk_snap := sn\<rparr>)" for sn using tracker_step.snap by (meson rtranclp.rtrancl_into_rtrancl)
  then show ?thesis by (auto simp: ReconcileOnce_deploy_def Let_def split: option.split prod.split)
qed

lemma tracker_reachable_ok:
  assumes "tracker_reachable files cfg t"
  shows "tracker_ok files t \<and> tk_cfg t = cfg"
  using assms
proof (induction rule: tracker_reachable.induct)
  case (new remote)
  show ?case by (simp add: New_tracker_def tracker_ok_def lanes_ok_def lane_zero_def)
next
  case (call t op)
  then show ?case using apply_op_ok apply_op_fields by metis
next
  case (pass t turn io)
  note st = pass_steps [of files turn t io, OF pass.hyps(2)]
  show ?case using tracker_steps_ok [OF st] tracker_steps_fields [OF st] pass.IH by simp
qed

section \<open>A deployment of a small spec\<close>

definition demo_cfg :: deploy_cfg where
  "demo_cfg =
     \<lparr>dc_Environments = [\<lparr>en_Name = ''dev'', en_SourceBranch = ''main'', en_SourceEnv = [], en_Mode = ModeTrack, en_Nodes = [''app''], en_MaxParallel = 1,
                          en_OnDesiredMove = OnMoveFinish\<rparr>,
                         \<lparr>en_Name = ''prod'', en_SourceBranch = [], en_SourceEnv = ''dev'', en_Mode = ModeManual, en_Nodes = [], en_MaxParallel = 2,
                          en_OnDesiredMove = OnMoveCancel\<rparr>],
      dc_runnable = True, dc_HasCustom = (\<lambda>_. False), dc_CheckSpec = ''spec'', dc_KnownExecutorProfile = None, dc_LogDir = [], dc_HistoryMtimes = False,
      dc_AutoRetryErrors = False, dc_kdlParse = (\<lambda>_. Some []), dc_kdlUnmarshal = (\<lambda>_. Inr sample_deploy_spec), dc_specErrorText = (\<lambda>_. []),
      dc_formatRunIDTime = (\<lambda>_. ''T'')\<rparr>"

definition demo_files :: "string \<Rightarrow> string \<Rightarrow> string" where
  "demo_files sha path = ''doc''"

definition demo_io :: deploy_io where
  "demo_io = \<lparr>io_now = 1, io_ListRefs = None, io_ListLocalRefs = None, io_cas = CasClean,
     io_Decide = (\<lambda>_ _. Inr \<lparr>de_Allow = True, de_Requirements = [], de_Version = []\<rparr>), io_Pin = None, io_Unpin = None,
     io_ReadFileFromTree = (\<lambda>_ _. Inr ''doc''), io_MkdirTemp = Inr ''d'', io_ExportTree = None, io_RestoreMtimes = None,
     io_RunCheck = (\<lambda>_. check_result_zero\<lparr>cr_Status := CheckPassed\<rparr>), io_reports = (\<lambda>s. map (\<lambda>i. (i, False, SlotFree)) (remdups (ss_inflight s))), io_done = False\<rparr>"

definition demo_turn :: "environment \<Rightarrow> lane_turn" where
  "demo_turn env = \<lparr>lt_io = demo_io, lt_before = [], lt_meanwhile = []\<rparr>"

definition demo_heads :: "(string, string) gomap" where
  "demo_heads = [(''refs/heads/main'', ''c1''), (''refs/heads/deploy/prod'', ''c1'')]"

text \<open>A fetch and a first pass, which starts a run for each environment.\<close>

definition demo_started :: tracker where
  "demo_started = snd (ReconcileOnce_deploy demo_io demo_turn (apply_op (OpFetch demo_heads []) (New_tracker demo_cfg demo_heads)))"

fun demo_runs :: "nat list \<Rightarrow> tracker \<Rightarrow> tracker" where
  "demo_runs [] t = t"
| "demo_runs (k # ks) t = demo_runs ks (runGraph_step demo_io k t)"

lemma demo_io_ok: "io_ok demo_files demo_io"
  by (auto simp: io_ok_def demo_io_def demo_files_def comp_def)

lemma demo_started_reachable: "tracker_reachable demo_files demo_cfg demo_started"
  unfolding demo_started_def
  by (intro tracker_reachable.pass tracker_reachable.call tracker_reachable.new) (simp_all add: turn_ok_def demo_turn_def)

lemma demo_runs_reachable: "tracker_reachable demo_files demo_cfg t \<Longrightarrow> tracker_reachable demo_files demo_cfg (demo_runs ks t)"
proof (induction ks arbitrary: t)
  case (Cons k ks)
  have "tracker_reachable demo_files demo_cfg (apply_op (OpRun demo_io k) t)" by (rule tracker_reachable.call [OF Cons.prems]) (simp add: demo_io_ok)
  then show ?case using Cons.IH by simp
qed simp

lemma demo_facts:
  "length (tk_runs demo_started) = 2" "live (tk_runs demo_started ! 1)" "run_name (tk_runs demo_started ! 1) = ''prod''"
  "run_name (tk_runs demo_started ! 0) = ''dev''" "dr_DeploySHA (go_rec (tk_runs demo_started ! 0)) = ''c1''"
  "(None, \<lparr>ps_ref = DesiredRef ''dev'', ps_old = [], ps_new = ''c1''\<rparr>) \<in> set (tk_pushes demo_started)"
proof -
  have "(let t = demo_started; r = tk_runs t in length r = 2 \<and> live (r ! 1) \<and> run_name (r ! 1) = ''prod'' \<and> run_name (r ! 0) = ''dev''
     \<and> dr_DeploySHA (go_rec (r ! 0)) = ''c1'' \<and> (None, \<lparr>ps_ref = DesiredRef ''dev'', ps_old = [], ps_new = ''c1''\<rparr>) \<in> set (tk_pushes t))"
    by code_simp
  then show "length (tk_runs demo_started) = 2" "live (tk_runs demo_started ! 1)" "run_name (tk_runs demo_started ! 1) = ''prod''"
    "run_name (tk_runs demo_started ! 0) = ''dev''" "dr_DeploySHA (go_rec (tk_runs demo_started ! 0)) = ''c1''"
    "(None, \<lparr>ps_ref = DesiredRef ''dev'', ps_old = [], ps_new = ''c1''\<rparr>) \<in> set (tk_pushes demo_started)" unfolding Let_def by blast+
qed

section \<open>What the tracker guarantees\<close>

lemma DesiredRef_inject [simp]: "DesiredRef a = DesiredRef b \<longleftrightarrow> a = b" "ObservedRef a = ObservedRef b \<longleftrightarrow> a = b"
    "DesiredRef a \<noteq> ObservedRef b" "ObservedRef b \<noteq> DesiredRef a"
  by (simp_all add: DesiredRef_def ObservedRef_def DesiredRefPrefix_def ObservedRefPrefix_def)

text \<open>C2: in every reachable state, an observed ref was advanced only by a run of that environment, from the revision the run was told to replace to the one
  it deployed, and only after every node of the graph which that revision's own spec declares for the environment finished green.\<close>

theorem observed_only_green:
  assumes "tracker_reachable files cfg t" "(who, p) \<in> set (tk_pushes t)" "ps_ref p = ObservedRef name"
  shows "\<exists>k g nodes. who = Some k \<and> k < length (tk_runs t) \<and> tk_runs t ! k = g \<and> run_name g = name
    \<and> ps_old p = dr_DeployedSHA (go_rec g) \<and> ps_new p = dr_DeploySHA (go_rec g)
    \<and> declared cfg (go_env g) (files (ps_new p) (dc_CheckSpec cfg)) nodes \<and> graph_wf nodes
    \<and> map cr_Name (dr_Nodes (go_rec g)) = map dg_Name nodes \<and> (\<forall>row \<in> set (dr_Nodes (go_rec g)). NodeGreen row)"
proof -
  have ok: "push_ok files t (who, p)" "tk_cfg t = cfg" using tracker_reachable_ok [OF assms(1)] assms(2) unfolding tracker_ok_def by blast+
  then obtain k where k: "who = Some k" using assms(3) by (cases who) (auto simp: push_ok_def)
  then have "k < length (tk_runs t)" "earned files cfg (tk_runs t ! k) p" using ok by (simp_all add: push_ok_def)
  then show ?thesis using k assms(3) declared_wf unfolding earned_def graph_ok_def by fastforce
qed

lemma demo_deployed: "(Some 0, \<lparr>ps_ref = ObservedRef ''dev'', ps_old = [], ps_new = ''c1''\<rparr>) \<in> set (tk_pushes (demo_runs [0, 0, 0, 0, 0, 0] demo_started))"
  by code_simp

theorem observed_only_green_witness:
  "\<exists>t nodes. tracker_reachable demo_files demo_cfg t \<and> graph_wf nodes \<and> map cr_Name (dr_Nodes (go_rec (tk_runs t ! 0))) = map dg_Name nodes"
  using observed_only_green [OF demo_runs_reachable [OF demo_started_reachable] demo_deployed, of "''dev''"] demo_runs_reachable [OF demo_started_reachable]
  by fastforce

text \<open>a desired ref is written only by a pass of the loop, only for a tracked environment, and never removed: no manual environment's desired ref is
  ever touched.\<close>

theorem desired_only_tracked:
  assumes "tracker_reachable files cfg t" "(who, p) \<in> set (tk_pushes t)" "ps_ref p = DesiredRef name"
  shows "who = None \<and> ps_new p \<noteq> [] \<and> (\<exists>env \<in> set (dc_Environments cfg). en_Name env = name \<and> en_Mode env = ModeTrack)"
proof -
  have ok: "push_ok files t (who, p)" "tk_cfg t = cfg" using tracker_reachable_ok [OF assms(1)] assms(2) unfolding tracker_ok_def by blast+
  then show ?thesis using assms(3) by (cases who) (auto simp: push_ok_def earned_def)
qed

theorem desired_only_tracked_witness: "\<exists>env \<in> set (dc_Environments demo_cfg). en_Name env = ''dev'' \<and> en_Mode env = ModeTrack"
  using desired_only_tracked [OF demo_started_reachable demo_facts(6), of "''dev''"] by simp

text \<open>C13: an environment sees a strict sequence of deploy attempts: in every reachable state at most one run of an environment is under way, its lane is
  marked busy with exactly that run, and a busy lane has such a run.\<close>

theorem one_run_per_lane:
  assumes "tracker_reachable files cfg t"
  shows "(\<forall>j k. j < length (tk_runs t) \<and> k < length (tk_runs t) \<and> live (tk_runs t ! j) \<and> live (tk_runs t ! k)
            \<and> run_name (tk_runs t ! j) = run_name (tk_runs t ! k) \<longrightarrow> j = k)
    \<and> (\<forall>name. ln_running (lane_of t name) \<longleftrightarrow> (\<exists>k < length (tk_runs t). live (tk_runs t ! k) \<and> run_name (tk_runs t ! k) = name))
    \<and> (\<forall>k < length (tk_runs t). live (tk_runs t ! k) \<longrightarrow>
         lr_runID (ln_run (lane_of t (run_name (tk_runs t ! k)))) = dr_RunID (go_rec (tk_runs t ! k))
         \<and> lr_sha (ln_run (lane_of t (run_name (tk_runs t ! k)))) = dr_DeploySHA (go_rec (tk_runs t ! k)))"
proof -
  have lo: "lanes_ok t" using tracker_reachable_ok [OF assms] by (simp add: tracker_ok_def)
  have own: "owns t k (tk_runs t ! k)" if "k < length (tk_runs t)" "live (tk_runs t ! k)" for k using lo that by (simp add: lanes_ok_def)
  have "j = k" if "j < length (tk_runs t)" "k < length (tk_runs t)" "live (tk_runs t ! j)" "live (tk_runs t ! k)" "run_name (tk_runs t ! j) = run_name (tk_runs t ! k)" for j k
    using own [OF that(1,3)] own [OF that(2,4)] that(5) by (simp add: owns_def Let_def)
  moreover have "ln_running (lane_of t name) \<longleftrightarrow> (\<exists>k < length (tk_runs t). live (tk_runs t ! k) \<and> run_name (tk_runs t ! k) = name)" for name
    using lo own unfolding lanes_ok_def owns_def Let_def by metis
  ultimately show ?thesis using own unfolding owns_def Let_def by blast
qed

theorem one_run_per_lane_witness: "ln_running (lane_of demo_started ''prod'')"
  using one_run_per_lane [OF demo_started_reachable] demo_facts(1-3) by (metis one_less_numeral_iff semiring_norm(76))

lemma fold_apply_op_runs: "length (tk_runs (fold apply_op ops u)) = length (tk_runs u)" "tk_draining u \<Longrightarrow> tk_draining (fold apply_op ops u)"
  by (induction ops arbitrary: u) (simp_all add: apply_op_fields)

definition demo_env :: environment where
  "demo_env = hd (dc_Environments demo_cfg)"

definition demo_lane :: lane_state where
  "demo_lane = \<lparr>la_Env = ''dev'', la_Mode = ModeTrack, la_Source = ''main'', la_SourceTip = ''c1'', la_Desired = ''c1'', la_Observed = [], la_InSync = False,
     la_Drift = False, la_LastAdvance = 0, la_LastError = [], la_Pending = False, la_Running = None, la_Parked = None, la_LastResult = None\<rparr>"

text \<open>the published flag \<open>Pending\<close> and the start of a run are one event: a turn that leaves the lane's previous run alone sets the flag exactly when it
  starts a run of the desired revision, which the same published state then shows as running.  The admission policy and the admission test both allowed it
  after whatever others did while the policy was asked.\<close>

theorem Pending_means_started:
  assumes "\<not> la_Pending ls" "stepLane io ops env ls t = (ls', t')"
  shows "(la_Pending ls' \<longleftrightarrow> \<not> ln_running (lane_of t (en_Name env)) \<and> length (tk_runs t') = Suc (length (tk_runs t)))
    \<and> (la_Pending ls' \<longrightarrow> (\<exists>r. la_Running ls' = Some r \<and> lr_sha r = la_Desired ls) \<and> \<not> tk_draining t' \<and> la_Desired ls \<noteq> la_Observed ls
      \<and> last (tk_runs t') = (last (tk_runs t'))\<lparr>go_env := env, go_phase := PhBegin\<rparr> \<and> dr_DeploySHA (go_rec (last (tk_runs t'))) = la_Desired ls)"
proof -
  let ?u = "put_lane (en_Name env) (unparked ls (lane_of t (en_Name env))) t"
  have run: "ln_running (lane_of ?u (en_Name env)) = ln_running (lane_of t (en_Name env))" using unparked_cases [of ls "lane_of t (en_Name env)"] by auto
  note ops = fold_apply_op_runs(1)
  show ?thesis
  proof (cases rule: stepLane_cases [of env ls t io ops, case_names busy idle refused started])
    case busy
    then show ?thesis using assms run by simp
  next
    case idle
    then show ?thesis using assms(2) by simp
  next
    case refused
    then show ?thesis using assms(2) ops by simp
  next
    case (started ls1)
    obtain g where g: "tk_runs t' = tk_runs (fold apply_op ops ?u) @ [g]" "go_phase g = PhBegin" "go_env g = env" "dr_DeploySHA (go_rec g) = la_Desired ls"
      "owns t' (length (tk_runs (fold apply_op ops ?u))) g"
      using startLane_fields(5) [of io env ls1 "fold apply_op ops ?u"] started(3,4) assms(2) by auto
    have pub: "la_Running ls' = runningState (lane_of t' (en_Name env))" using assms(2) by (auto simp: stepLane_def Let_def split_beta)
    have "\<exists>r. la_Running ls' = Some r \<and> lr_sha r = la_Desired ls" using g(3-5) pub by (simp add: owns_def Let_def runningState_def)
    moreover have "\<not> tk_draining t'" using started(2,3) assms(2) startLane_fields(3) by (metis canStart_def snd_conv)
    moreover have "la_Desired ls \<noteq> la_Observed ls" using started(2,4,5) by (metis canStart_def)
    moreover have "length (tk_runs t') = Suc (length (tk_runs t))" using g(1) ops by simp
    ultimately show ?thesis using started(1,7) g(1-4) run assms(2) by simp
  qed
qed

theorem Pending_means_started_witness:
  "\<exists>ls' t'. stepLane demo_io [OpRetry ''dev''] demo_env demo_lane (New_tracker demo_cfg []) = (ls', t') \<and> la_Pending ls' \<and> la_Running ls' \<noteq> None"
proof -
  obtain ls' t' where s: "stepLane demo_io [OpRetry ''dev''] demo_env demo_lane (New_tracker demo_cfg []) = (ls', t')" by (metis prod.collapse)
  have p: "\<not> la_Pending demo_lane" by (simp add: demo_lane_def)
  have "la_Pending (fst (stepLane demo_io [OpRetry ''dev''] demo_env demo_lane (New_tracker demo_cfg [])))" by code_simp
  then show ?thesis using s Pending_means_started [OF p s] by auto
qed

lemma stepLane_draining:
  assumes "tk_draining t" "\<not> la_Pending ls"
  shows "\<not> la_Pending (fst (stepLane io ops env ls t)) \<and> tk_draining (snd (stepLane io ops env ls t))"
proof (cases rule: stepLane_cases [of env ls t io ops, case_names busy idle refused started])
  case busy
  then show ?thesis using assms by (auto simp: move_cancel_def Let_def split: option.split)
next
  case idle
  then show ?thesis using assms(1) by simp
next
  case refused
  then show ?thesis using fold_apply_op_runs(2) assms(1) by simp
next
  case (started ls')
  then show ?thesis using fold_apply_op_runs(2) assms(1) by (metis canStart_def put_lane_fields(5))
qed

lemma reconcileLane_draining:
  assumes "tk_draining t"
  shows "\<not> la_Pending (fst (reconcileLane io ops env refs observed now t)) \<and> tk_draining (snd (reconcileLane io ops env refs observed now t))"
proof -
  have "la_Pending (fst (advance_desired io env now ls t)) = la_Pending ls" for ls
    by (auto simp: advance_desired_def split: option.split prod.split)
  then show ?thesis unfolding reconcileLane_def Let_def split_beta using assms by (intro stepLane_draining) (simp_all add: advance_desired_fields)
qed

lemma reconcile_lanes_draining:
  "tk_draining t \<Longrightarrow> length (fst (reconcile_lanes turn envs refs observed now t)) = length envs
     \<and> (\<forall>ls \<in> set (fst (reconcile_lanes turn envs refs observed now t)). \<not> la_Pending ls)"
proof (induction envs arbitrary: t)
  case (Cons env envs)
  let ?r = "reconcileLane (lt_io (turn env)) (lt_meanwhile (turn env)) env refs observed now (fold apply_op (lt_before (turn env)) t)"
  have "tk_draining (fold apply_op (lt_before (turn env)) t)" by (rule fold_apply_op_runs(2) [OF Cons.prems])
  note r = reconcileLane_draining [OF this, of "lt_io (turn env)" "lt_meanwhile (turn env)" env refs observed now]
  have e: "fst (reconcile_lanes turn (env # envs) refs observed now t) = fst ?r # fst (reconcile_lanes turn envs refs observed now (snd ?r))"
    by (simp add: Let_def split_beta)
  show ?case unfolding e using Cons.IH [OF conjunct2 [OF r]] r by simp
qed simp

text \<open>once the tracker is draining, no pass starts a run or shows one as pending, and the drain is not undone.\<close>

theorem drain_starts_nothing:
  assumes "tk_draining t" "\<And>env. turn_ok files (turn env)" "ReconcileOnce_deploy io turn t = (err, t')"
  shows "tk_draining t' \<and> length (tk_runs t') = length (tk_runs t)
    \<and> (err = None \<longrightarrow> (\<exists>sn. tk_snap t' = Some sn \<and> length (sn_Lanes sn) = length (dc_Environments (tk_cfg t)) \<and> (\<forall>ls \<in> set (sn_Lanes sn). \<not> la_Pending ls)))"
proof -
  have "tk_draining t' \<and> length (tk_runs t') = length (tk_runs t)"
    using tracker_steps_fields [OF pass_steps [of files turn t io, OF assms(2)]] assms(1,3) by simp
  moreover have "\<exists>sn. tk_snap t' = Some sn \<and> length (sn_Lanes sn) = length (dc_Environments (tk_cfg t)) \<and> (\<forall>ls \<in> set (sn_Lanes sn). \<not> la_Pending ls)" if "err = None"
    using that assms(3) reconcile_lanes_draining [OF assms(1), of turn "dc_Environments (tk_cfg t)" "tk_heads t" "tk_local t" "io_now io"]
    by (auto simp: ReconcileOnce_deploy_def Let_def split: option.splits prod.splits)
  ultimately show ?thesis by blast
qed

theorem drain_starts_nothing_witness:
  "\<exists>t'. ReconcileOnce_deploy demo_io demo_turn (apply_op OpDrain demo_started) = (None, t') \<and> tk_draining t' \<and> length (tk_runs t') = 2"
proof -
  have "fst (ReconcileOnce_deploy demo_io demo_turn (apply_op OpDrain demo_started)) = None"
    by (auto simp: ReconcileOnce_deploy_def demo_io_def Let_def split: prod.split)
  then obtain t' where t': "ReconcileOnce_deploy demo_io demo_turn (apply_op OpDrain demo_started) = (None, t')" by (metis prod.collapse)
  moreover have "tk_draining (apply_op OpDrain demo_started)" "length (tk_runs (apply_op OpDrain demo_started)) = 2"
    using demo_facts(1) by (simp_all add: Drain_lanes_def)
  ultimately show ?thesis using drain_starts_nothing [of "apply_op OpDrain demo_started" demo_files demo_turn demo_io None t'] by (auto simp: turn_ok_def demo_turn_def)
qed

text \<open>C38: how a run ends for its lane.  The lane is free and shows the run as its last one; a landed revision is remembered as deployed and unparks the
  lane; a cancelled run leaves park, marker and retry budget as they were; every other end parks the lane at that revision, so that no later pass admits it
  again before the desired revision changes or the park is cleared, except that the first infrastructure error of a revision is retried once.\<close>

theorem finishGraph_parks:
  "let g = tk_runs t ! k; sha = dr_DeploySHA (go_rec g); l = lane_of t (run_name g); l' = lane_of (finishGraph io k out detail t) (run_name g) in
    \<not> ln_running l' \<and> ln_cancel l' = None \<and> map_option lq_Outcome (ln_last l') = Some out \<and> map_option lq_DeploySHA (ln_last l') = Some sha
    \<and> (if out = OutcomeLanded then ln_parked l' = None \<and> ln_syncedSHA l' = sha \<and> ln_autoRetried l' = ln_autoRetried l
       else if out = OutcomeSkipped then ln_parked l' = ln_parked l \<and> ln_syncedSHA l' = ln_syncedSHA l \<and> ln_autoRetried l' = ln_autoRetried l
       else if out = OutcomeError \<and> dc_AutoRetryErrors (tk_cfg t) \<and> \<not> tk_draining t \<and> ln_autoRetried l \<noteq> sha
       then ln_parked l' = None \<and> ln_autoRetried l' = sha \<and> ln_syncedSHA l' = ln_syncedSHA l
       else map_option lp_SHA (ln_parked l') = Some sha \<and> map_option lp_Outcome (ln_parked l') = Some out \<and> ln_autoRetried l' = ln_autoRetried l
            \<and> (\<forall>u ls. la_Desired ls = sha \<longrightarrow> unparked ls l' = l' \<and> \<not> canStart u l' ls))"
proof -
  let ?g = "tk_runs t ! k"
  have e: "lane_of (finishGraph io k out detail t) (run_name ?g)
      = lane_of (releaseLane (io_now io) (go_env ?g) ((go_rec ?g)\<lparr>dr_Outcome := out, dr_Detail := detail, dr_EndedAt := io_now io\<rparr>) out detail t) (run_name ?g)"
    by (simp add: finishGraph_def Let_def)
  show ?thesis unfolding Let_def e unfolding releaseLane_def Let_def put_lane_fields
    by (cases out) (auto simp: unparked_def canStart_def)
qed

theorem finishGraph_parks_witness:
  "\<not> canStart demo_started (lane_of (finishGraph demo_io 0 OutcomeRejected ''red'' demo_started) ''dev'') demo_lane"
proof -
  show ?thesis using finishGraph_parks [where t = demo_started and k = 0 and io = demo_io and out = OutcomeRejected and detail = "''red''"] unfolding Let_def demo_facts(4,5)
    by (simp add: demo_lane_def)
qed


text \<open>a run that is cancelled before its graph starts is not concluded as cancelled: when git answers the spec read with the context's error, the lane
  is parked at that revision as rejected.\<close>

theorem early_cancel_parks:
  assumes "k < length (tk_runs t)" "go_phase (tk_runs t ! k) = PhBegin" "io_Pin io = None"
    "io_ReadFileFromTree io (dr_DeploySHA (go_rec (tk_runs t ! k))) (dc_CheckSpec (tk_cfg t)) = Inl ''context canceled''"
  shows "\<exists>p. ln_parked (lane_of (runGraph_step io' k (runGraph_step io k t)) (run_name (tk_runs t ! k))) = Some p
    \<and> lp_SHA p = dr_DeploySHA (go_rec (tk_runs t ! k)) \<and> lp_Outcome p = OutcomeRejected
    \<and> lp_Detail p = msg [''spec reject: deploy spec '', go_quote (dc_CheckSpec (tk_cfg t)), '': context canceled'']"
proof -
  let ?g = "tk_runs t ! k" and ?d = "msg [''spec reject: deploy spec '', go_quote (dc_CheckSpec (tk_cfg t)), '': context canceled'']"
  let ?t = "runGraph_step io k t"
  have "deployGraph io (tk_cfg t) (go_env ?g) (dr_DeploySHA (go_rec ?g)) = Inl (msg [''deploy spec '', go_quote (dc_CheckSpec (tk_cfg t)), '': '', ''context canceled''])"
    using assms(4) by (simp add: deployGraph_def)
  then have "tk_runs ?t = (tk_runs t)[k := ?g\<lparr>go_phase := PhFinish OutcomeRejected ?d\<rparr>]"
    using assms(1-3) by (simp add: runGraph_step_def exec_begin_def Let_def specRejectPrefix_def msg_def)
  then show ?thesis using assms(1) by (simp add: runGraph_step_def [of io' k ?t] finishGraph_def releaseLane_def Let_def)
qed

text \<open>The context error of a cancelled run, on the demonstration.\<close>

theorem early_cancel_parks_witness:
  "\<exists>p. ln_parked (lane_of (runGraph_step demo_io 0 (runGraph_step (demo_io\<lparr>io_ReadFileFromTree := (\<lambda>_ _. Inl ''context canceled'')\<rparr>) 0
        (snd (CancelCurrent ''dev'' demo_started)))) ''dev'') = Some p \<and> lp_Outcome p = OutcomeRejected"
proof -
  let ?t = "snd (CancelCurrent ''dev'' demo_started)"
  have "(let r = tk_runs ?t in 0 < length r \<and> run_name (r ! 0) = ''dev'' \<and> (case go_phase (r ! 0) of PhBegin \<Rightarrow> True | _ \<Rightarrow> False))" by code_simp
  then have "0 < length (tk_runs ?t)" "run_name (tk_runs ?t ! 0) = ''dev''" "go_phase (tk_runs ?t ! 0) = PhBegin"
    unfolding Let_def by (simp_all split: phase.splits)
  then show ?thesis
    using early_cancel_parks [of 0 ?t "demo_io\<lparr>io_ReadFileFromTree := (\<lambda>_ _. Inl ''context canceled'')\<rparr>" demo_io] by (auto simp: demo_io_def)
qed

section \<open>Every run ends\<close>

fun phase_rank :: "phase \<Rightarrow> nat \<times> nat" where
  "phase_rank PhBegin = (4, 0)"
| "phase_rank (PhStart s) = (3, 2 * work_left s + 1)"
| "phase_rank (PhDrain s) = (3, 2 * work_left s)"
| "phase_rank (PhFinish out detail) = (2, 0)"
| "phase_rank (PhEmit out detail) = (1, 0)"
| "phase_rank PhGone = (0, 0)"

lemma exec_conclude_phase: "k < length (tk_runs t) \<Longrightarrow> \<exists>out detail. go_phase (tk_runs (exec_conclude io k s t) ! k) = PhFinish out detail"
proof -
  assume k: "k < length (tk_runs t)"
  let ?g = "tk_runs t ! k"
  let ?env = "node_env io (tk_cfg t) ?g"
  let ?v = "sched_verdict (go_nodes ?g) (look ?env s)"
  let ?h = "?g\<lparr>go_rec := (go_rec ?g)\<lparr>dr_Nodes := fst ?v, dr_Culprit := fst (snd ?v)\<rparr>\<rparr>" and ?ctx = "ss_ctx (look ?env (look ?env s))"
  obtain out detail t1 where e: "exec_verdict io k ?h ?ctx ?v t = ((out, detail), t1)" by (metis prod_cases3 prod.collapse)
  have "tk_runs t1 = tk_runs t" using exec_verdict_frame(1) [of io k ?h ?ctx ?v t] e by simp
  then have "go_phase (tk_runs (exec_conclude io k s t) ! k) = PhFinish out detail" using e k by (simp add: exec_conclude_def Let_def)
  then show ?thesis by blast
qed

lemma sched_start_work: "sched_ok nodes maxParallel s \<Longrightarrow> work_left (sched_start env nodes maxParallel s) = work_left s"
  using start_nodes_work [OF sched_ok_look, of nodes maxParallel s nodes 0 env] by (simp add: sched_start_def Let_def work_left_def)

text \<open>Each step of a run that is not over brings it closer to its end.\<close>

lemma runGraph_step_rank:
  assumes "tracker_ok files t" "io_ok files io" "k < length (tk_runs t)" "go_phase (tk_runs t ! k) \<noteq> PhGone"
  shows "(phase_rank (go_phase (tk_runs (runGraph_step io k t) ! k)), phase_rank (go_phase (tk_runs t ! k))) \<in> less_than <*lex*> less_than"
proof -
  let ?g = "tk_runs t ! k"
  let ?env = "node_env io (tk_cfg t) ?g" and ?mp = "max (en_MaxParallel (go_env ?g)) 1"
  note ok = run_is_ok [OF assms(1,3)]
  have frame: "tk_runs (fold (on_node (io_now io) ?g) es t) = tk_runs t" for es using fold_on_node_frame by blast
  show ?thesis
  proof (cases "go_phase ?g")
    case PhBegin
    then show ?thesis using assms(3) by (auto simp: runGraph_step_def exec_begin_def Let_def split: option.split sum.split)
  next
    case (PhStart s)
    let ?s = "sched_start ?env (go_nodes ?g) ?mp s"
    let ?t = "fold (on_node (io_now io) ?g) (drop (length (ss_log s)) (ss_log ?s)) t"
    have "work_left ?s = work_left s" using ok PhStart by (intro sched_start_work) (simp add: deploy_ok_def loop_ok_def)
    moreover have "\<exists>out detail. go_phase (tk_runs (exec_conclude io k ?s ?t) ! k) = PhFinish out detail"
      by (rule exec_conclude_phase) (simp add: frame assms(3))
    ultimately show ?thesis using PhStart assms(3) frame by (auto simp: runGraph_step_def exec_start_def Let_def)
  next
    case (PhDrain s)
    let ?s = "sched_drain ?env (go_nodes ?g) s"
    have g: "graph_ok files (tk_cfg t) ?g" "loop_ok ?g s" "ss_inflight s \<noteq> []" using ok PhDrain by (simp_all add: deploy_ok_def)
    have "named (go_nodes ?g)" using declared_wf g(1) unfolding graph_ok_def graph_wf_def by blast
    then have "work_left ?s < work_left s"
      using sched_drain_ok [of "go_nodes ?g" ?mp s ?env] g(2,3) node_env_answers [OF assms(2)] by (simp add: loop_ok_def work_left_def)
    then show ?thesis using PhDrain assms(3) frame by (simp add: runGraph_step_def exec_drain_def Let_def)
  qed (use assms(3,4) in \<open>simp_all add: runGraph_step_def finishGraph_def finish_emit_def releaseLane_fields Let_def\<close>)
qed

fun run_steps :: "(nat \<Rightarrow> deploy_io) \<Rightarrow> nat \<Rightarrow> nat \<Rightarrow> tracker \<Rightarrow> tracker" where
  "run_steps ios k 0 t = t"
| "run_steps ios k (Suc n) t = run_steps (\<lambda>i. ios (Suc i)) k n (runGraph_step (ios 0) k t)"

lemma run_steps_end:
  assumes "tracker_ok files t" "\<And>i. io_ok files (ios i)" "k < length (tk_runs t)"
  shows "\<exists>n. go_phase (tk_runs (run_steps ios k n t) ! k) = PhGone"
  using assms
proof (induction "phase_rank (go_phase (tk_runs t ! k))" arbitrary: t ios rule: wf_induct_rule [OF wf_lex_prod [OF wf_less_than wf_less_than]])
  case (1 t ios)
  show ?case
  proof (cases "go_phase (tk_runs t ! k) = PhGone")
    case True
    then show ?thesis by (intro exI [of _ 0]) simp
  next
    case False
    let ?t = "runGraph_step (ios 0) k t"
    have "k < length (tk_runs ?t)" using 1(4) runGraph_step_fields by simp
    moreover have "tracker_ok files ?t" by (rule runGraph_step_ok [OF 1(2,3)])
    moreover have "(phase_rank (go_phase (tk_runs ?t ! k)), phase_rank (go_phase (tk_runs t ! k))) \<in> less_than <*lex*> less_than"
      by (rule runGraph_step_rank [OF 1(2,3,4) False])
    ultimately obtain n where "go_phase (tk_runs (run_steps (\<lambda>i. ios (Suc i)) k n ?t) ! k) = PhGone"
      using 1(1) [of ?t "\<lambda>i. ios (Suc i)"] 1(3) by blast
    then show ?thesis by (intro exI [of _ "Suc n"]) simp
  qed
qed



end
