(* ===== verification/Test_Report.thy ===== *)
theory Test_Report
  imports Queue_Pick
begin

text \<open>
  Test reports (\<^verbatim>\<open>internal/testreport/report.go\<close>): what a list of test results must satisfy, which tests failed, and how the results of a rerun
  replace those of the run before it.  Reading JUnit, TRX and JSON files is left out.
\<close>

definition MaxBytes :: nat where
  "MaxBytes = 1048576"

definition MaxTests :: nat where
  "MaxTests = 10000"

fun validate_tests :: "test_case list \<Rightarrow> string list \<Rightarrow> nat \<Rightarrow> go_error" where
  "validate_tests [] seen bytes = None"
| "validate_tests (test # tests) seen bytes =
     (let bytes = bytes + length (tc_ID test) + length (tc_Message test) in
      if bytes > 2 * MaxBytes then Some ''test report is too large''
      else if trim_space (tc_ID test) = [] \<or> length (tc_ID test) > 2048 \<or> tc_ID test \<in> set seen \<or> length (tc_Message test) > 8192
      then Some (msg [''invalid or duplicate test identity '', go_quote (tc_ID test)])
      else if tc_Status test \<notin> {''passed'', ''failed'', ''skipped''} then Some (msg [''test '', go_quote (tc_ID test), '': invalid status''])
      else validate_tests tests (tc_ID test # seen) bytes)"

definition ValidateTests :: "test_case list \<Rightarrow> go_error" where
  "ValidateTests tests =
     (if tests = [] \<or> length tests > MaxTests then Some (msg [''test report must contain 1..'', show_nat MaxTests, '' tests''])
      else validate_tests tests [] 0)"

definition FailedTests :: "test_case list \<Rightarrow> string list" where
  "FailedTests tests = sort_by (<) (map tc_ID (filter (\<lambda>test. tc_Status test = ''failed'') tests))"

definition report_map :: "test_case list \<Rightarrow> (string, test_case) gomap" where
  "report_map tests = rev (map (\<lambda>test. (tc_ID test, test)) tests)"

definition not_executed :: "(string, test_case) gomap \<Rightarrow> string \<Rightarrow> bool" where
  "not_executed byID i = (case map_of byID i of None \<Rightarrow> True | Some test \<Rightarrow> tc_Status test = ''skipped'')"

fun replace_tests :: "test_case list \<Rightarrow> (string, test_case) gomap \<Rightarrow> test_case list \<times> (string, test_case) gomap" where
  "replace_tests [] byID = ([], byID)"
| "replace_tests (test # tests) byID =
     (case map_of byID (tc_ID test) of
        Some replacement \<Rightarrow> (let (merged, byID) = replace_tests tests (mdel (tc_ID test) byID) in (replacement # merged, byID))
      | None \<Rightarrow> (let (merged, byID) = replace_tests tests byID in (test # merged, byID)))"

definition MergeRerun :: "test_case list \<Rightarrow> test_case list \<Rightarrow> string list \<Rightarrow> test_case list \<times> go_error" where
  "MergeRerun previous rerun requested =
     (case ValidateTests rerun of
        Some e \<Rightarrow> (previous, Some e)
      | None \<Rightarrow>
         (let byID = report_map rerun in
          case find (not_executed byID) requested of
            Some i \<Rightarrow> (previous, Some (msg [''retry did not execute failed test '', go_quote i]))
          | None \<Rightarrow>
             (let (merged, byID) = replace_tests previous byID;
                  merged = merged @ filter (\<lambda>test. mhas byID (tc_ID test)) rerun in
              (merged, ValidateTests merged))))"

section \<open>A merged report covers both runs\<close>

lemma validate_tests_distinct: "validate_tests tests seen bytes = None \<Longrightarrow> distinct (map tc_ID tests) \<and> set (map tc_ID tests) \<inter> set seen = {}"
  by (induction tests seen bytes rule: validate_tests.induct) (auto simp: Let_def split: if_splits)

lemma ValidateTests_distinct: "ValidateTests tests = None \<Longrightarrow> distinct (map tc_ID tests)"
  using validate_tests_distinct [of tests "[]" 0] by (auto simp: ValidateTests_def split: if_splits)

lemma find_distinct: "distinct (map f xs) \<Longrightarrow> find (\<lambda>x. f x = k) xs = Some y \<longleftrightarrow> y \<in> set xs \<and> f y = k"
  by (induction xs) auto

lemma report_map_of: "distinct (map tc_ID tests) \<Longrightarrow> map_of (report_map tests) i = find (\<lambda>test. tc_ID test = i) tests"
proof (induction tests)
  case (Cons test tests)
  have new: "map_of (report_map tests) (tc_ID test) = None" using Cons.prems by (auto simp: report_map_def map_of_eq_None_iff)
  have split: "map_of (report_map (test # tests)) = [tc_ID test \<mapsto> test] ++ map_of (report_map tests)" by (simp add: report_map_def)
  show ?case
  proof (cases "tc_ID test = i")
    case True
    then show ?thesis using new by (simp add: split map_add_def)
  next
    case False
    then show ?thesis using Cons by (simp add: split map_add_def split: option.split)
  qed
qed (simp add: report_map_def)

lemma replace_tests_fst:
  assumes "distinct (map tc_ID tests)" "\<forall>i test. map_of byID i = Some test \<longrightarrow> tc_ID test = i"
  shows "fst (replace_tests tests byID) = map (\<lambda>test. case map_of byID (tc_ID test) of Some r \<Rightarrow> r | None \<Rightarrow> test) tests
    \<and> map_of (snd (replace_tests tests byID)) = (map_of byID) |` (- (tc_ID ` set tests))"
  using assms
proof (induction tests arbitrary: byID)
  case (Cons test tests)
  show ?case
  proof (cases "map_of byID (tc_ID test)")
    case None
    then show ?thesis using Cons by (auto simp: split_beta Let_def restrict_map_def fun_eq_iff)
  next
    case (Some r)
    let ?byID = "mdel (tc_ID test) byID"
    have "\<forall>i test. map_of ?byID i = Some test \<longrightarrow> tc_ID test = i" using Cons.prems(2) by auto
    note ih = Cons.IH [OF _ this]
    have "map (\<lambda>test. case map_of ?byID (tc_ID test) of Some r \<Rightarrow> r | None \<Rightarrow> test) tests = map (\<lambda>test. case map_of byID (tc_ID test) of Some r \<Rightarrow> r | None \<Rightarrow> test) tests"
      using Cons.prems(1) by (intro map_cong) (auto simp: image_iff)
    then show ?thesis using ih Cons.prems(1) Some by (auto simp: split_beta Let_def restrict_map_def fun_eq_iff)
  qed
qed (auto simp: restrict_map_def)

text \<open>C37: the report after a rerun.  When \<open>MergeRerun\<close> accepts a rerun of a validated report, every requested test was executed again, every test of
  either run is reported exactly once, with the rerun's result where there is one and the previous result otherwise, and the tests of the previous run keep
  their order; so a failure disappears only when its own test passed or was skipped by name in the rerun.\<close>

theorem MergeRerun_covers:
  assumes "ValidateTests previous = None" "MergeRerun previous rerun requested = (merged, None)"
  shows "(\<forall>i \<in> set requested. \<exists>test \<in> set rerun. tc_ID test = i \<and> tc_Status test \<noteq> ''skipped'')
    \<and> distinct (map tc_ID merged) \<and> take (length previous) (map tc_ID merged) = map tc_ID previous
    \<and> set merged = set rerun \<union> {test \<in> set previous. tc_ID test \<notin> tc_ID ` set rerun}"
proof -
  let ?byID = "report_map rerun" and ?find = "\<lambda>i. find (\<lambda>test. tc_ID test = i) rerun"
  have ok: "ValidateTests rerun = None" "find (not_executed ?byID) requested = None" "ValidateTests merged = None"
    using assms(2) by (auto simp: MergeRerun_def Let_def split: option.splits prod.splits)
  note dr = ValidateTests_distinct [OF ok(1)] and dp = ValidateTests_distinct [OF assms(1)]
  have map: "map_of ?byID i = ?find i" for i by (rule report_map_of [OF dr])
  note found = find_distinct [OF dr]
  have miss: "?find i = None \<longleftrightarrow> i \<notin> tc_ID ` set rerun" for i by (auto simp: find_None_iff)
  have byID: "\<forall>i test. map_of ?byID i = Some test \<longrightarrow> tc_ID test = i" using found map by simp
  note rep = replace_tests_fst [OF dp byID]
  let ?new = "\<lambda>test. case ?find (tc_ID test) of Some r \<Rightarrow> r | None \<Rightarrow> test"
  have m: "merged = map ?new previous @ filter (\<lambda>test. tc_ID test \<notin> tc_ID ` set previous) rerun"
  proof -
    have "merged = fst (replace_tests previous ?byID) @ filter (\<lambda>test. mhas (snd (replace_tests previous ?byID)) (tc_ID test)) rerun"
      using assms(2) ok(1,2) by (auto simp: MergeRerun_def Let_def split: prod.splits)
    moreover have "mhas (snd (replace_tests previous ?byID)) (tc_ID test) \<longleftrightarrow> tc_ID test \<notin> tc_ID ` set previous" if "test \<in> set rerun" for test
      using rep found [of "tc_ID test" test] that by (auto simp: mhas_def restrict_map_def map)
    ultimately show ?thesis using rep map by (simp cong: filter_cong)
  qed
  have id: "tc_ID (?new test) = tc_ID test" for test using found by (auto split: option.split)
  have "\<exists>test \<in> set rerun. tc_ID test = i \<and> tc_Status test \<noteq> ''skipped''" if "i \<in> set requested" for i
  proof -
    have "\<not> not_executed ?byID i" using ok(2) that by (auto simp: find_None_iff)
    then obtain test where "?find i = Some test" "tc_Status test \<noteq> ''skipped''" by (auto simp: not_executed_def map split: option.splits)
    then show ?thesis using found by blast
  qed
  moreover have "take (length previous) (map tc_ID merged) = map tc_ID previous" by (simp add: m id comp_def)
  moreover have "set merged = set rerun \<union> {test \<in> set previous. tc_ID test \<notin> tc_ID ` set rerun}"
  proof (intro equalityI subsetI)
    fix x assume "x \<in> set merged"
    then consider test where "test \<in> set previous" "x = ?new test" | "x \<in> set rerun" by (auto simp: m)
    then show "x \<in> set rerun \<union> {test \<in> set previous. tc_ID test \<notin> tc_ID ` set rerun}"
      using found miss by cases (auto split: option.splits)
  next
    fix x assume x: "x \<in> set rerun \<union> {test \<in> set previous. tc_ID test \<notin> tc_ID ` set rerun}"
    show "x \<in> set merged"
    proof (cases "x \<in> set rerun \<and> tc_ID x \<in> tc_ID ` set previous")
      case True
      then obtain test where "test \<in> set previous" "tc_ID test = tc_ID x" by auto
      moreover have "?find (tc_ID x) = Some x" using found True by blast
      ultimately have "?new test = x" by simp
      then show ?thesis using \<open>test \<in> set previous\<close> unfolding m by force
    next
      case False
      then consider "x \<in> set rerun" "tc_ID x \<notin> tc_ID ` set previous" | "x \<in> set previous" "tc_ID x \<notin> tc_ID ` set rerun" using x by blast
      then show ?thesis
      proof cases
        case 2
        then have "?new x = x" using miss [of "tc_ID x"] by simp
        then show ?thesis using 2(1) unfolding m by force
      qed (simp add: m)
    qed
  qed
  ultimately show ?thesis using ValidateTests_distinct [OF ok(3)] by blast
qed

definition sample_test :: "string \<Rightarrow> string \<Rightarrow> test_case" where
  "sample_test i status = \<lparr>tc_ID = i, tc_Status = status, tc_Message = []\<rparr>"

lemma sample_test_sel [simp]: "tc_ID (sample_test i status) = i" "tc_Status (sample_test i status) = status" "tc_Message (sample_test i status) = []"
  by (simp_all add: sample_test_def)

lemmas sample_report = ValidateTests_def MaxTests_def MaxBytes_def trim_space_def is_space_def Let_def

theorem MergeRerun_covers_witness:
  "\<exists>merged. MergeRerun [sample_test ''a'' ''passed'', sample_test ''b'' ''failed''] [sample_test ''b'' ''passed'', sample_test ''c'' ''skipped''] [''b''] = (merged, None)
     \<and> distinct (map tc_ID merged) \<and> sample_test ''b'' ''passed'' \<in> set merged"
proof -
  let ?p = "[sample_test ''a'' ''passed'', sample_test ''b'' ''failed'']" and ?r = "[sample_test ''b'' ''passed'', sample_test ''c'' ''skipped'']"
  have p: "ValidateTests ?p = None" by (simp add: sample_report)
  have r: "ValidateTests ?r = None" by (simp add: sample_report)
  have "ValidateTests [sample_test ''a'' ''passed'', sample_test ''b'' ''passed'', sample_test ''c'' ''skipped''] = None" by (simp add: sample_report)
  moreover have "replace_tests ?p (report_map ?r) = ([sample_test ''a'' ''passed'', sample_test ''b'' ''passed''], [(''c'', sample_test ''c'' ''skipped'')])"
    by (simp add: report_map_def)
  moreover have "find (not_executed (report_map ?r)) [''b''] = None" by (simp add: report_map_def not_executed_def)
  ultimately have "snd (MergeRerun ?p ?r [''b'']) = None" using r by (simp add: MergeRerun_def mhas_def)
  then obtain merged where m: "MergeRerun ?p ?r [''b''] = (merged, None)" by (metis prod.collapse)
  show ?thesis using MergeRerun_covers [OF p m] m by auto
qed

end
