(* ===== verification/Workers_Broker.thy ===== *)
theory Workers_Broker
  imports Test_Report
begin

text \<open>
  The broker of remote executions (\<^verbatim>\<open>types.go\<close>, \<^verbatim>\<open>broker.go\<close> and \<^verbatim>\<open>status.go\<close> of \<^verbatim>\<open>internal/workers\<close>).  Its two SQLite tables are lists: the jobs in
  rowid order and the peers by identity; they survive a restart, which only changes the epoch and forgets the waiters.  A call works under the broker's
  mutex.  A call in a transaction has its effects only when every statement succeeded; \<open>bi_fault n\<close> is the error of the \<open>n\<close>-th statement outside
  one.  The clock, the random tokens and the SHA-256 key of an attempt are parameters.  JSON encoding and decoding of the stored structs is the identity.
\<close>

section \<open>Data\<close>

record resources =
  rs_Slots :: int
  rs_CPU :: int
  rs_Memory :: int

definition fits :: "resources \<Rightarrow> resources \<Rightarrow> bool" where
  "fits r available = (rs_Slots r \<le> rs_Slots available \<and> rs_CPU r \<le> rs_CPU available \<and> rs_Memory r \<le> rs_Memory available)"

definition subtract :: "resources \<Rightarrow> resources \<Rightarrow> resources" where
  "subtract r used = \<lparr>rs_Slots = i64 (rs_Slots r - rs_Slots used), rs_CPU = i64 (rs_CPU r - rs_CPU used), rs_Memory = i64 (rs_Memory r - rs_Memory used)\<rparr>"

record requirements =
  nd_Labels :: "string list"
  nd_Resources :: resources

record worker =
  w_ImageProfiles :: "string list"
  w_ServiceProfiles :: "string list"
  w_ID :: string
  w_Session :: string
  w_Profiles :: "string list"
  w_Labels :: "string list"
  w_Capacity :: resources
  w_Usage :: resources
  w_UrgentReserve :: int
  w_Draining :: bool

definition accepts :: "worker \<Rightarrow> check_job \<Rightarrow> requirements \<Rightarrow> bool" where
  "accepts w job needs =
     (if j_Image job \<noteq> [] \<and> j_Executor job \<notin> set (w_ImageProfiles w) then False
      else if j_ServiceNeeds job \<noteq> [] \<and> j_Executor job \<notin> set (w_ServiceProfiles w) then False
      else if j_Executor job \<notin> set (w_Profiles w) then False
      else list_all (\<lambda>label. label \<in> set (w_Labels w)) (nd_Labels needs))"

record attempt =
  at_ID :: string
  at_Token :: string
  at_Worker :: string
  at_LeaseUntil :: go_time
  at_LeaseMillis :: int
  at_Job :: check_job
  at_Requirements :: requirements

record worker_result =
  wr_AttemptLogPath :: string
  wr_Check :: check_result
  wr_Error :: string
  wr_LogDigest :: string

definition EncodeResult :: "check_result \<Rightarrow> worker_result" where
  "EncodeResult check =
     (case cr_Err check of
        Some e \<Rightarrow> \<lparr>wr_AttemptLogPath = [], wr_Check = check\<lparr>cr_Err := None\<rparr>, wr_Error = e, wr_LogDigest = []\<rparr>
      | None \<Rightarrow> \<lparr>wr_AttemptLogPath = [], wr_Check = check, wr_Error = [], wr_LogDigest = []\<rparr>)"

definition CheckResult :: "worker_result \<Rightarrow> check_result" where
  "CheckResult r = (if wr_Error r \<noteq> [] then (wr_Check r)\<lparr>cr_Err := Some (''worker: '' @ wr_Error r)\<rparr> else wr_Check r)"

text \<open>Go's remainder has the sign of the dividend.\<close>

definition go_rem :: "int \<Rightarrow> int \<Rightarrow> int" where
  "go_rem a b = a - go_div a b * b"

definition reservedShare :: "int \<Rightarrow> int \<Rightarrow> int \<Rightarrow> int" where
  "reservedShare capacity slots reserve =
     i64 (i64 (go_div capacity slots * reserve) + go_div (i64 (i64 (go_rem capacity slots * reserve) + slots - 1)) slots)"

section \<open>The broker\<close>

datatype job_state = JobPending | JobLeased | JobCompleted | JobCancelled

record job_row =
  jr_id :: string
  jr_job :: check_job
  jr_needs :: requirements
  jr_priority :: int
  jr_created :: int
  jr_wanted :: int
  jr_state :: job_state
  jr_root :: string
  jr_parent :: string
  jr_epoch :: string
  jr_worker :: string
  jr_session :: string
  jr_token :: string
  jr_lease :: int
  jr_result :: "worker_result option"

record peer_row =
  pe_id :: string
  pe_session :: string
  pe_seen :: int
  pe_data :: worker
  pe_draining :: bool

text \<open>The ghost \<open>bk_issued\<close> lists the tokens handed out so far.\<close>

record broker =
  bk_epoch :: string
  bk_waiters :: "(string, int) gomap"
  bk_closed :: bool
  bk_born :: go_time
  bk_lease :: go_duration
  bk_grace :: go_duration
  bk_jobs :: "job_row list"
  bk_peers :: "peer_row list"
  bk_issued :: "string list"

record broker_io =
  bi_now :: go_time
  bi_tx :: go_error
  bi_fault :: "nat \<Rightarrow> go_error"
  bi_token :: string
  bi_key :: "string \<Rightarrow> string \<Rightarrow> string list \<Rightarrow> string list \<Rightarrow> string"

datatype broker_error = ErrStale | ErrCapacity | ErrBroker string

text \<open>\<open>time.UnixMilli\<close> and its inverse; the zero time of Go is 62135596800 seconds before the Unix epoch.\<close>

definition unix_milli :: "go_time \<Rightarrow> int" where
  "unix_milli t = (t - 62135596800000000000) div 1000000"

definition from_milli :: "int \<Rightarrow> go_time" where
  "from_milli ms = 62135596800000000000 + ms * 1000000"

definition find_job :: "broker \<Rightarrow> string \<Rightarrow> job_row option" where
  "find_job b i = find (\<lambda>r. jr_id r = i) (bk_jobs b)"

definition find_peer :: "broker \<Rightarrow> string \<Rightarrow> peer_row option" where
  "find_peer b i = find (\<lambda>p. pe_id p = i) (bk_peers b)"

definition update_jobs :: "(job_row \<Rightarrow> bool) \<Rightarrow> (job_row \<Rightarrow> job_row) \<Rightarrow> broker \<Rightarrow> broker" where
  "update_jobs P f b = b\<lparr>bk_jobs := map (\<lambda>r. if P r then f r else r) (bk_jobs b)\<rparr>"

definition active_state :: "job_row \<Rightarrow> bool" where
  "active_state r = (jr_state r = JobPending \<or> jr_state r = JobLeased)"

definition active_jobs :: "broker \<Rightarrow> int" where
  "active_jobs b = int (length (filter active_state (bk_jobs b)))"

definition Open_broker :: "string \<Rightarrow> go_time \<Rightarrow> go_duration \<Rightarrow> go_duration \<Rightarrow> job_row list \<Rightarrow> peer_row list \<Rightarrow> string list \<Rightarrow> string + broker" where
  "Open_broker epoch now lease reconnectGrace jobs peers issued =
     (if lease \<le> 0 \<or> reconnectGrace < 0 then Inl ''invalid worker lease or reconnect grace''
      else Inr \<lparr>bk_epoch = epoch, bk_waiters = [], bk_closed = False, bk_born = now, bk_lease = lease, bk_grace = reconnectGrace, bk_jobs = jobs,
                bk_peers = peers, bk_issued = issued\<rparr>)"

definition Close_broker :: "broker \<Rightarrow> broker" where
  "Close_broker b = b\<lparr>bk_closed := True\<rparr>"

section \<open>Claiming work\<close>

definition bad_advertisement :: "worker \<Rightarrow> bool" where
  "bad_advertisement w =
     (w_ID w = [] \<or> w_Session w = [] \<or> rs_Slots (w_Capacity w) < 1 \<or> rs_Slots (w_Capacity w) > 4096 \<or> rs_CPU (w_Capacity w) \<le> 0 \<or> rs_Memory (w_Capacity w) \<le> 0
      \<or> rs_Slots (w_Usage w) < 0 \<or> rs_CPU (w_Usage w) < 0 \<or> rs_Memory (w_Usage w) < 0 \<or> w_UrgentReserve w < 0 \<or> rs_Slots (w_Capacity w) \<le> w_UrgentReserve w)"

definition put_peer :: "worker \<Rightarrow> int \<Rightarrow> broker \<Rightarrow> broker" where
  "put_peer w seen b =
     (case find_peer b (w_ID w) of
        None \<Rightarrow> b\<lparr>bk_peers := bk_peers b @ [\<lparr>pe_id = w_ID w, pe_session = w_Session w, pe_seen = seen, pe_data = w, pe_draining = False\<rparr>]\<rparr>
      | Some _ \<Rightarrow> b\<lparr>bk_peers := map (\<lambda>p. if pe_id p = w_ID w then p\<lparr>pe_session := w_Session w, pe_seen := seen, pe_data := w\<rparr> else p) (bk_peers b)\<rparr>)"

definition leased_to :: "string \<Rightarrow> string \<Rightarrow> job_row \<Rightarrow> bool" where
  "leased_to worker session r = (jr_state r = JobLeased \<and> jr_worker r = worker \<and> jr_session r = session)"

definition available_for :: "broker \<Rightarrow> worker \<Rightarrow> resources" where
  "available_for b w =
     (let available = fold (\<lambda>r available. subtract available (nd_Resources (jr_needs r))) (filter (leased_to (w_ID w) (w_Session w)) (bk_jobs b)) (w_Capacity w);
          unused = subtract (w_Capacity w) (w_Usage w) in
      \<lparr>rs_Slots = min (rs_Slots available) (rs_Slots unused), rs_CPU = min (rs_CPU available) (rs_CPU unused),
       rs_Memory = min (rs_Memory available) (rs_Memory unused)\<rparr>)"

definition claimable :: "broker \<Rightarrow> go_time \<Rightarrow> worker \<Rightarrow> job_row \<Rightarrow> bool" where
  "claimable b now w r =
     (j_Executor (jr_job r) \<in> set (w_Profiles w) \<and> jr_epoch r = bk_epoch b
      \<and> (jr_state r = JobPending
         \<or> jr_state r = JobLeased \<and> jr_lease r < unix_milli now \<and> unix_milli (bk_born b + bk_grace b) \<le> unix_milli now))"

text \<open>\<open>ORDER BY priority DESC, created, id\<close>.\<close>

definition claim_before :: "job_row \<Rightarrow> job_row \<Rightarrow> bool" where
  "claim_before r s =
     (jr_priority s < jr_priority r \<or> jr_priority r = jr_priority s
        \<and> (jr_created r < jr_created s \<or> jr_created r = jr_created s \<and> jr_id r < jr_id s))"

definition admissible :: "worker \<Rightarrow> resources \<Rightarrow> job_row \<Rightarrow> bool" where
  "admissible w available r =
     (let needs = nd_Resources (jr_needs r); after = subtract available needs in
      accepts w (jr_job r) (jr_needs r) \<and> fits needs available
      \<and> (3 \<le> jr_priority r
         \<or> w_UrgentReserve w \<le> rs_Slots after
           \<and> reservedShare (rs_CPU (w_Capacity w)) (rs_Slots (w_Capacity w)) (w_UrgentReserve w) \<le> rs_CPU after
           \<and> reservedShare (rs_Memory (w_Capacity w)) (rs_Slots (w_Capacity w)) (w_UrgentReserve w) \<le> rs_Memory after))"

definition lease_job :: "worker \<Rightarrow> string \<Rightarrow> int \<Rightarrow> job_row \<Rightarrow> job_row" where
  "lease_job w token until r = r\<lparr>jr_state := JobLeased, jr_worker := w_ID w, jr_session := w_Session w, jr_token := token, jr_lease := until\<rparr>"

definition Claim :: "broker_io \<Rightarrow> worker \<Rightarrow> broker \<Rightarrow> (broker_error + attempt option) \<times> broker" where
  "Claim io w b =
     (if bad_advertisement w then (Inl (ErrBroker ''invalid worker advertisement''), b)
      else (case bi_tx io of
        Some e \<Rightarrow> (Inl (ErrBroker e), b)
      | None \<Rightarrow>
         (let now = bi_now io; peer = find_peer b (w_ID w) in
          if (case peer of Some p \<Rightarrow> pe_session p \<noteq> w_Session w \<and> time_sub now (from_milli (pe_seen p)) < bk_lease b | None \<Rightarrow> False)
          then (Inl (ErrBroker ''worker identity is already active''), b)
          else
           (let b = put_peer w (unix_milli now) b; available = available_for b w in
            if w_Draining w \<or> (case peer of Some p \<Rightarrow> pe_draining p | None \<Rightarrow> False) then (Inr None, b)
            else (case find (admissible w available) (sort_by claim_before (filter (claimable b now w) (bk_jobs b))) of
                    None \<Rightarrow> (Inr None, b)
                  | Some r \<Rightarrow>
                     (let until = now + bk_lease b in
                      (Inr (Some \<lparr>at_ID = jr_id r, at_Token = bi_token io, at_Worker = w_ID w, at_LeaseUntil = until,
                                  at_LeaseMillis = go_div (bk_lease b) 1000000, at_Job = jr_job r, at_Requirements = jr_needs r\<rparr>),
                       (update_jobs (\<lambda>s. jr_id s = jr_id r) (lease_job w (bi_token io) (unix_milli until)) b)
                         \<lparr>bk_issued := bi_token io # bk_issued b\<rparr>)))))))"

section \<open>Keeping, finishing and cancelling an attempt\<close>

definition Renew :: "broker_io \<Rightarrow> string \<Rightarrow> string \<Rightarrow> broker \<Rightarrow> broker_error option \<times> broker" where
  "Renew io i token b =
     (case bi_fault io 0 of
        Some e \<Rightarrow> (Some (ErrBroker e), b)
      | None \<Rightarrow>
         (let P = (\<lambda>r. jr_id r = i \<and> jr_token r = token \<and> jr_state r = JobLeased);
              n = length (filter P (bk_jobs b));
              b = update_jobs P (\<lambda>r. r\<lparr>jr_lease := unix_milli (bi_now io + bk_lease b)\<rparr>) b in
          if n \<noteq> 1 then (Some ErrStale, b)
          else (case bi_fault io 1 of
                  Some e \<Rightarrow> (Some (ErrBroker e), b)
                | None \<Rightarrow>
                   (None, b\<lparr>bk_peers := map (\<lambda>p. if list_ex (\<lambda>r. jr_id r = i \<and> jr_token r = token \<and> jr_worker r = pe_id p \<and> jr_session r = pe_session p) (bk_jobs b)
                                                 then p\<lparr>pe_seen := unix_milli (bi_now io)\<rparr> else p) (bk_peers b)\<rparr>))))"

definition result_too_large :: "worker_result \<Rightarrow> bool" where
  "result_too_large res =
     (length (cr_Output (wr_Check res)) > 65536 \<or> length (wr_Error res) > 4096
      \<or> (case cr_Receipt (wr_Check res) of None \<Rightarrow> 0 | Some r \<Rightarrow> length r) > 1048576 \<or> length (cr_InputsKey (wr_Check res)) > 4096)"

definition stamp_result :: "job_row \<Rightarrow> worker_result \<Rightarrow> worker_result" where
  "stamp_result r res =
     (let job = jr_job r in
      res\<lparr>wr_Check := (wr_Check res)\<lparr>cr_Name := j_Name job, cr_Command := j_Command job, cr_ExecutedRun := j_RunID job, cr_ExecutedSHA := j_MergeSHA job,
            cr_ExecutionID := jr_id r, cr_Worker := jr_worker r, cr_VerificationID := j_VerificationID job, cr_Reused := False\<rparr>\<rparr>)"

definition retry_requested :: "check_job \<Rightarrow> test_case list \<Rightarrow> string list" where
  "retry_requested job previous =
     (if j_RetryTests job = [] then map tc_ID (filter (\<lambda>test. tc_Status test \<noteq> ''skipped'') previous) else j_RetryTests job)"

definition merge_previous :: "check_job \<Rightarrow> check_result \<Rightarrow> worker_result \<Rightarrow> worker_result" where
  "merge_previous job previous res =
     (let check = (wr_Check res)\<lparr>cr_TestAttempts := cr_TestAttempts previous,
            cr_Duration := i64 (cr_Duration (wr_Check res) + cr_Duration previous),
            cr_Output := msg [cr_Output previous, [CHR 0x0A], ''--- worker retry ---'', [CHR 0x0A], cr_Output (wr_Check res)],
            cr_UserCPU := i64 (cr_UserCPU (wr_Check res) + cr_UserCPU previous), cr_SysCPU := i64 (cr_SysCPU (wr_Check res) + cr_SysCPU previous),
            cr_PeakRSS := max (cr_PeakRSS (wr_Check res)) (cr_PeakRSS previous),
            cr_Materialized := i64 (cr_Materialized (wr_Check res) + cr_Materialized previous)\<rparr> in
      if cr_Tests previous \<noteq> [] \<and> wr_Error res = []
      then (let (merged, err) = MergeRerun (cr_Tests previous) (cr_Tests check) (retry_requested job (cr_Tests previous));
                check = check\<lparr>cr_Tests := merged\<rparr> in
            case err of
              None \<Rightarrow> res\<lparr>wr_Check := check\<rparr>
            | Some e \<Rightarrow> res\<lparr>wr_Check := check\<lparr>cr_Status := CheckFailed, cr_Output := msg [cr_Output check, [CHR 0x0A], ''gauntlet: '', e]\<rparr>\<rparr>)
      else res\<lparr>wr_Check := check\<rparr>)"

definition record_attempt :: "job_row \<Rightarrow> test_case list \<Rightarrow> worker_result \<Rightarrow> worker_result" where
  "record_attempt r raw res =
     (let attemptLog = (if wr_AttemptLogPath res = [] then cr_LogPath (wr_Check res) else wr_AttemptLogPath res);
          attempts = cr_TestAttempts (wr_Check res) in
      res\<lparr>wr_AttemptLogPath := [],
          wr_Check := (wr_Check res)\<lparr>cr_TestAttempts := attempts @ [\<lparr>ta_LogDigest = wr_LogDigest res, ta_ExecutionID = jr_id r, ta_Worker = jr_worker r,
              ta_Command = j_Command (jr_job r), ta_LogPath = attemptLog, ta_Number = int (length attempts) + 1, ta_Tests = raw\<rparr>],
            cr_Output := last_n 65536 (cr_Output (wr_Check res))\<rparr>\<rparr>)"

text \<open>What is stored for a result that passed the guards; the retry's predecessor must still be there.\<close>

definition finished_result :: "broker \<Rightarrow> job_row \<Rightarrow> worker_result \<Rightarrow> string + worker_result" where
  "finished_result b r res =
     (let raw = cr_Tests (wr_Check res); res = res\<lparr>wr_Check := (wr_Check res)\<lparr>cr_TestAttempts := []\<rparr>\<rparr> in
      if jr_parent r = [] then Inr (record_attempt r raw res)
      else (case find_job b (jr_parent r) of
              None \<Rightarrow> Inl ''retry predecessor unavailable: sql: no rows in result set''
            | Some p \<Rightarrow>
               (if jr_state p \<noteq> JobCompleted then Inl ''retry predecessor unavailable: sql: no rows in result set''
                else (case jr_result p of
                        None \<Rightarrow> Inl ''unexpected end of JSON input''
                      | Some previous \<Rightarrow> Inr (record_attempt r raw (merge_previous (jr_job r) (wr_Check previous) res))))))"

definition Complete :: "broker_io \<Rightarrow> string \<Rightarrow> string \<Rightarrow> worker_result \<Rightarrow> broker \<Rightarrow> broker_error option \<times> broker" where
  "Complete io i token res b =
     (if cr_Err (wr_Check res) \<noteq> None then (Some (ErrBroker ''wire result contains an error interface''), b)
      else (case bi_fault io 0 of
        Some e \<Rightarrow> (Some (ErrBroker e), b)
      | None \<Rightarrow>
         (case find_job b i of
            None \<Rightarrow> (Some ErrStale, b)
          | Some r \<Rightarrow>
             (if token = [] \<or> token \<noteq> jr_token r then (Some ErrStale, b)
              else if jr_state r = JobCompleted then (None, b)
              else if jr_state r \<noteq> JobLeased then (Some ErrStale, b)
              else if result_too_large res then (Some (ErrBroker ''worker result exceeds bounds''), b)
              else (let res = stamp_result r res; check = wr_Check res in
                if cr_Status check \<noteq> CheckPassed \<and> cr_Status check \<noteq> CheckFailed \<and> cr_Status check \<noteq> CheckSkipped
                then (Some (ErrBroker ''invalid worker verdict''), b)
                else if j_TestResults (jr_job r) \<noteq> [] \<and> wr_Error res = [] \<and> cr_Status check = CheckPassed
                        \<and> (ValidateTests (cr_Tests check) \<noteq> None \<or> FailedTests (cr_Tests check) \<noteq> [])
                then (Some (ErrBroker ''passing result lacks passing tests''), b)
                else (case finished_result b r res of
                        Inl e \<Rightarrow> (Some (ErrBroker e), b)
                      | Inr res \<Rightarrow>
                         (case bi_fault io 1 of
                            Some e \<Rightarrow> (Some (ErrBroker e), b)
                          | None \<Rightarrow>
                             (None, update_jobs (\<lambda>s. jr_id s = i \<and> jr_token s = token \<and> jr_state s = JobLeased)
                                      (\<lambda>s. s\<lparr>jr_result := Some res, jr_state := JobCompleted\<rparr>) b))))))))"

definition Cancel :: "broker_io \<Rightarrow> string \<Rightarrow> broker \<Rightarrow> broker_error option \<times> broker" where
  "Cancel io i b =
     (case bi_fault io 0 of
        Some e \<Rightarrow> (Some (ErrBroker e), b)
      | None \<Rightarrow> (None, update_jobs (\<lambda>r. jr_id r = i \<and> active_state r) (\<lambda>r. r\<lparr>jr_state := JobCancelled\<rparr>) b))"

section \<open>Waiting and submitting\<close>

definition wait_begin :: "string \<Rightarrow> broker \<Rightarrow> broker" where
  "wait_begin i b = b\<lparr>bk_waiters := mput i (mget 0 (bk_waiters b) i + 1) (bk_waiters b)\<rparr>"

definition wait_end :: "string \<Rightarrow> broker \<Rightarrow> broker" where
  "wait_end i b =
     (let n = mget 0 (bk_waiters b) i - 1 in
      b\<lparr>bk_waiters := (if n = 0 then mdel i (bk_waiters b) else mput i n (bk_waiters b))\<rparr>)"

text \<open>One look of \<open>Wait\<close> at the job: \<open>None\<close> is to wait for the next change.\<close>

definition wait_look :: "broker_io \<Rightarrow> string \<Rightarrow> broker \<Rightarrow> (broker_error + worker_result) option" where
  "wait_look io i b =
     (if bk_closed b then Some (Inl (ErrBroker ''worker broker closed''))
      else (case bi_fault io 0 of
        Some e \<Rightarrow> Some (Inl (ErrBroker e))
      | None \<Rightarrow>
         (case find_job b i of
            None \<Rightarrow> Some (Inl (ErrBroker ''sql: no rows in result set''))
          | Some r \<Rightarrow>
             (case jr_state r of
                JobCancelled \<Rightarrow> Some (Inl ErrStale)
              | JobCompleted \<Rightarrow>
                 (case jr_result r of Some res \<Rightarrow> Some (Inr res) | None \<Rightarrow> Some (Inl (ErrBroker ''unexpected end of JSON input'')))
              | _ \<Rightarrow> None))))"

definition latest_of_root :: "string \<Rightarrow> broker \<Rightarrow> job_row option" where
  "latest_of_root rootKey b = find (\<lambda>r. jr_root r = rootKey) (rev (bk_jobs b))"

definition insert_job :: "job_row \<Rightarrow> broker \<Rightarrow> broker" where
  "insert_job r b =
     (case find_job b (jr_id r) of
        None \<Rightarrow> b\<lparr>bk_jobs := bk_jobs b @ [r]\<rparr>
      | Some _ \<Rightarrow> update_jobs (\<lambda>s. jr_id s = jr_id r) (\<lambda>s. s\<lparr>jr_wanted := jr_wanted r, jr_priority := jr_priority r, jr_epoch := jr_epoch r\<rparr>) b)"

definition submit_new :: "broker_io \<Rightarrow> string \<Rightarrow> string \<Rightarrow> check_job \<Rightarrow> requirements \<Rightarrow> int \<Rightarrow> broker \<Rightarrow> (broker_error + string) \<times> broker" where
  "submit_new io rootKey parent job needs priority b =
     (if 10000 \<le> active_jobs b then (Inl ErrCapacity, b)
      else (let i = bi_key io rootKey parent (j_Command job) (j_RetryTests job); now = unix_milli (bi_now io) in
            (Inr i, insert_job \<lparr>jr_id = i, jr_job = job, jr_needs = needs, jr_priority = priority, jr_created = now, jr_wanted = now, jr_state = JobPending,
               jr_root = rootKey, jr_parent = parent, jr_epoch = bk_epoch b, jr_worker = [], jr_session = [], jr_token = [], jr_lease = 0, jr_result = None\<rparr> b)))"

definition submit_adopt :: "broker_io \<Rightarrow> job_row \<Rightarrow> broker \<Rightarrow> (broker_error + string) \<times> broker" where
  "submit_adopt io r b =
     (let adopt = update_jobs (\<lambda>s. jr_id s = jr_id r) (\<lambda>s. s\<lparr>jr_wanted := unix_milli (bi_now io), jr_epoch := bk_epoch b\<rparr>) in
      if jr_state r = JobCancelled
      then (if 10000 \<le> active_jobs b then (Inl ErrCapacity, b)
            else (Inr (jr_id r), adopt (update_jobs (\<lambda>s. jr_id s = jr_id r)
                    (\<lambda>s. s\<lparr>jr_state := JobPending, jr_token := [], jr_lease := 0, jr_worker := [], jr_session := []\<rparr>) b)))
      else (Inr (jr_id r), adopt b))"

definition Submit :: "broker_io \<Rightarrow> string \<Rightarrow> check_job \<Rightarrow> requirements \<Rightarrow> int \<Rightarrow> broker \<Rightarrow> (broker_error + string) \<times> broker" where
  "Submit io rootKey job needs priority b =
     (if rootKey = [] \<or> j_Command job = [] \<or> rs_Slots (nd_Resources needs) < 1 \<or> rs_CPU (nd_Resources needs) < 0 \<or> rs_Memory (nd_Resources needs) < 0
      then (Inl (ErrBroker ''invalid worker job''), b)
      else (case bi_tx io of
        Some e \<Rightarrow> (Inl (ErrBroker e), b)
      | None \<Rightarrow>
         (let parent = j_PreviousExecution job in
          if parent \<noteq> []
          then (case find_job b parent of
                  None \<Rightarrow> (Inl (ErrBroker ''sql: no rows in result set''), b)
                | Some p \<Rightarrow>
                   (if jr_root p = [] \<or> jr_state p \<noteq> JobCompleted then (Inl (ErrBroker ''retry requires a completed predecessor''), b)
                    else submit_new io (jr_root p) parent job needs priority b))
          else (case latest_of_root rootKey b of
                  Some r \<Rightarrow> submit_adopt io r b
                | None \<Rightarrow> submit_new io rootKey parent job needs priority b))))"

definition forgetCompleted :: "broker_io \<Rightarrow> string \<Rightarrow> broker \<Rightarrow> broker" where
  "forgetCompleted io i b =
     (if mget 0 (bk_waiters b) i > 0 \<or> bi_fault io 0 \<noteq> None then b
      else b\<lparr>bk_jobs := filter (\<lambda>r. \<not> (jr_id r = i \<and> jr_state r = JobCompleted)) (bk_jobs b)\<rparr>)"

section \<open>Maintenance\<close>

definition cancelUnwatched :: "broker_io \<Rightarrow> string \<Rightarrow> broker \<Rightarrow> broker_error option \<times> broker" where
  "cancelUnwatched io i b = (if mget 0 (bk_waiters b) i > 0 then (None, b) else Cancel io i b)"

definition Drain_worker :: "broker_io \<Rightarrow> string \<Rightarrow> bool \<Rightarrow> broker \<Rightarrow> broker_error option \<times> broker" where
  "Drain_worker io worker draining b =
     (case bi_fault io 0 of
        Some e \<Rightarrow> (Some (ErrBroker e), b)
      | None \<Rightarrow>
         (if find_peer b worker = None then (Some (ErrBroker (msg [''unknown worker '', go_quote worker])), b)
          else (None, b\<lparr>bk_peers := map (\<lambda>p. if pe_id p = worker then p\<lparr>pe_draining := draining\<rparr> else p) (bk_peers b)\<rparr>)))"

definition KeepRun :: "broker_io \<Rightarrow> string \<Rightarrow> string \<Rightarrow> broker \<Rightarrow> broker_error option \<times> broker" where
  "KeepRun io runID sha b =
     (case bi_fault io 0 of
        Some e \<Rightarrow> (Some (ErrBroker e), b)
      | None \<Rightarrow>
         (None, update_jobs (\<lambda>r. j_RunID (jr_job r) = runID \<and> j_MergeSHA (jr_job r) = sha
              \<and> (jr_epoch r \<noteq> bk_epoch b \<or> jr_wanted r < unix_milli (bi_now io - 30 * 1000000000)))
            (\<lambda>r. r\<lparr>jr_wanted := unix_milli (bi_now io), jr_epoch := bk_epoch b\<rparr>) b))"

definition orphaned :: "broker_io \<Rightarrow> broker \<Rightarrow> go_duration \<Rightarrow> job_row \<Rightarrow> bool" where
  "orphaned io b orphanGrace r =
     (\<not> mget 0 (bk_waiters b) (jr_id r) > 0 \<and> active_state r \<and> orphanGrace < time_sub (bi_now io) (from_milli (jr_wanted r)))"

definition expired :: "broker_io \<Rightarrow> broker \<Rightarrow> go_duration \<Rightarrow> go_duration \<Rightarrow> job_row \<Rightarrow> bool" where
  "expired io b orphanGrace retention r =
     (\<not> mget 0 (bk_waiters b) (jr_id r) > 0 \<and> \<not> orphaned io b orphanGrace r \<and> retention < time_sub (bi_now io) (from_milli (jr_wanted r)))"

fun maintain_each :: "broker_io \<Rightarrow> nat \<Rightarrow> (string \<Rightarrow> broker \<Rightarrow> broker) \<Rightarrow> string list \<Rightarrow> broker \<Rightarrow> broker_error option \<times> broker" where
  "maintain_each io n f [] b = (None, b)"
| "maintain_each io n f (i # ids) b = (case bi_fault io n of Some e \<Rightarrow> (Some (ErrBroker e), b) | None \<Rightarrow> maintain_each io (Suc n) f ids (f i b))"

definition cancel_row :: "string \<Rightarrow> broker \<Rightarrow> broker" where
  "cancel_row i b = update_jobs (\<lambda>r. jr_id r = i) (\<lambda>r. r\<lparr>jr_state := JobCancelled\<rparr>) b"

definition delete_row :: "string \<Rightarrow> broker \<Rightarrow> broker" where
  "delete_row i b = b\<lparr>bk_jobs := filter (\<lambda>r. jr_id r \<noteq> i) (bk_jobs b)\<rparr>"

definition Maintain :: "broker_io \<Rightarrow> go_duration \<Rightarrow> go_duration \<Rightarrow> broker \<Rightarrow> broker_error option \<times> broker" where
  "Maintain io orphanGrace retention b =
     (let now = bi_now io in
      if time_sub now (bk_born b) < bk_grace b then (None, b)
      else (case bi_fault io 0 of
        Some e \<Rightarrow> (Some (ErrBroker e), b)
      | None \<Rightarrow>
         (let cancel = map jr_id (filter (orphaned io b orphanGrace) (bk_jobs b)); remove = map jr_id (filter (expired io b orphanGrace retention) (bk_jobs b)) in
          case maintain_each io 1 cancel_row cancel b of
            (Some e, b) \<Rightarrow> (Some e, b)
          | (None, b) \<Rightarrow>
             (case maintain_each io (1 + length cancel) delete_row remove b of
                (Some e, b) \<Rightarrow> (Some e, b)
              | (None, b) \<Rightarrow>
                 (case bi_fault io (1 + length cancel + length remove) of
                    Some e \<Rightarrow> (Some (ErrBroker e), b)
                  | None \<Rightarrow>
                     (None, b\<lparr>bk_peers := filter (\<lambda>p. \<not> (pe_seen p < unix_milli (now - retention)
                         \<and> \<not> list_ex (\<lambda>r. jr_worker r = pe_id p \<and> jr_state r = JobLeased) (bk_jobs b))) (bk_peers b)\<rparr>))))))"

definition drainForRemoval :: "broker_io \<Rightarrow> string \<Rightarrow> go_time \<Rightarrow> bool \<Rightarrow> broker \<Rightarrow> (broker_error + bool) \<times> broker" where
  "drainForRemoval io worker before offline b =
     (case bi_tx io of
        Some e \<Rightarrow> (Inl (ErrBroker e), b)
      | None \<Rightarrow>
         (case find_peer b worker of
            None \<Rightarrow> (Inr True, b)
          | Some p \<Rightarrow>
             (let now = bi_now io; usage = w_Usage (pe_data p); leased = filter (\<lambda>r. jr_worker r = worker \<and> jr_state r = JobLeased) (bk_jobs b);
                  drain = (\<lambda>b. b\<lparr>bk_peers := map (\<lambda>p. if pe_id p = worker then p\<lparr>pe_draining := True\<rparr> else p) (bk_peers b)\<rparr>) in
              if offline
              then (if unix_milli before \<le> pe_seen p \<or> time_sub now (bk_born b) < bk_grace b then (Inr False, b)
                    else if list_ex (\<lambda>r. unix_milli now \<le> jr_lease r) leased then (Inr False, b)
                    else (Inr True, drain (update_jobs (\<lambda>r. jr_worker r = worker \<and> jr_state r = JobLeased)
                            (\<lambda>r. r\<lparr>jr_state := JobPending, jr_token := [], jr_worker := [], jr_session := [], jr_lease := 0\<rparr>) b)))
              else (if i64 (2 * bk_lease b) < time_sub now (from_milli (pe_seen p)) \<or> rs_Slots usage \<noteq> 0 \<or> rs_CPU usage \<noteq> 0 \<or> rs_Memory usage \<noteq> 0
                    then (Inr False, b)
                    else if leased \<noteq> [] then (Inr False, b)
                    else (Inr True, drain b)))))"

definition Pressure :: "broker_io \<Rightarrow> broker \<Rightarrow> bool" where
  "Pressure io b =
     (bi_fault io 0 \<noteq> None
      \<or> list_ex (\<lambda>r. jr_state r = JobPending \<and> jr_epoch r = bk_epoch b \<and> jr_created r < unix_milli (bi_now io - bk_lease b)) (bk_jobs b))"

end
