(* ===== verification/Workers_Lease.thy ===== *)
theory Workers_Lease
  imports Workers_Broker
begin

text \<open>
  What the broker of remote executions guarantees, whatever workers, schedulers and the clock do: a lease fits the capacity its worker advertised, a token that was
  revoked never reports again, a stored verdict is about its own job and stays, the backlog is bounded, and a job somebody waits for is not given up.  The
  states are those reachable by the operations of \<^verbatim>\<open>internal/workers/broker.go\<close> and \<^verbatim>\<open>status.go\<close>, a restart of the scheduler included.
\<close>

section \<open>Arithmetic at 64 bits\<close>

definition in_i64 :: "int \<Rightarrow> bool" where
  "in_i64 x = (- (2 ^ 63) \<le> x \<and> x < 2 ^ 63)"

lemma i64_in [simp]: "in_i64 x \<Longrightarrow> i64 x = x"
  by (simp add: in_i64_def i64_id)

lemma in_i64_nonneg: "0 \<le> x \<Longrightarrow> x \<le> y \<Longrightarrow> in_i64 y \<Longrightarrow> in_i64 x"
  by (simp add: in_i64_def)

lemma go_rem_nonneg: "0 \<le> a \<Longrightarrow> 0 < b \<Longrightarrow> go_rem a b = a mod b"
  by (simp add: go_rem_def go_div_nonneg minus_div_mult_eq_mod)

lemma ceiling_division:
  fixes a d n :: int
  assumes "0 < d"
  shows "a div d * n + (a mod d * n + d - 1) div d = (a * n + d - 1) div d"
proof -
  have "a * n + d - 1 = (a mod d * n + d - 1) + (a div d * n) * d"
    by (metis (no_types, opaque_lifting) add.commute add.assoc add_diff_eq distrib_right div_mult_mod_eq mult.assoc mult.commute)
  then show ?thesis using assms by (simp only: div_mult_self1)
qed

lemma reserved_share_ceiling:
  assumes "0 < capacity" "capacity < 2 ^ 63" "1 \<le> slots" "slots \<le> 4096" "0 \<le> reserve" "reserve < slots"
  shows "reservedShare capacity slots reserve = (capacity * reserve + slots - 1) div slots
    \<and> capacity * reserve \<le> reservedShare capacity slots reserve * slots
    \<and> reservedShare capacity slots reserve * slots < capacity * reserve + slots
    \<and> 0 \<le> reservedShare capacity slots reserve \<and> reservedShare capacity slots reserve \<le> capacity"
proof -
  let ?q = "capacity div slots" and ?m = "capacity mod slots"
  have q: "0 \<le> ?q" "?q * slots \<le> capacity" using assms by (auto simp: pos_imp_zdiv_nonneg_iff minus_mod_eq_div_mult [symmetric])
  have m: "0 \<le> ?m" "?m < slots" using assms by auto
  have qr: "0 \<le> ?q * reserve" "?q * reserve \<le> ?q * slots" using assms q by (auto intro: mult_left_mono)
  have "0 \<le> ?m * reserve" using m assms by simp
  moreover have "?m * reserve \<le> 4096 * 4096" using m assms by (intro mult_mono) linarith+
  ultimately have mr: "0 \<le> ?m * reserve" "?m * reserve \<le> 4096 * 4096" by blast+
  let ?s = "(capacity * reserve + slots - 1) div slots"
  have eq: "?q * reserve + (?m * reserve + slots - 1) div slots = ?s" using ceiling_division [of slots capacity reserve] assms by simp
  have lo: "capacity * reserve \<le> ?s * slots" and hi: "?s * slots < capacity * reserve + slots"
    using assms(3) by (smt (verit, ccfv_threshold) div_mult_mod_eq pos_mod_bound pos_mod_sign)+
  have "capacity * reserve \<le> capacity * (slots - 1)" using assms by (intro mult_left_mono) auto
  then have "?s * slots < capacity * slots - capacity + slots" using hi by (simp add: right_diff_distrib)
  have top: "?s \<le> capacity"
  proof (rule ccontr)
    assume "\<not> ?thesis"
    then have "(capacity + 1) * slots \<le> ?s * slots" using assms by (intro mult_right_mono) auto
    then show False using \<open>?s * slots < capacity * slots - capacity + slots\<close> assms by (simp add: distrib_right)
  qed
  have "0 \<le> capacity * reserve" using assms by simp
  then have "0 \<le> capacity * reserve + slots - 1" using assms(3) by linarith
  then have bot: "0 \<le> ?s" using assms(3) by (simp add: pos_imp_zdiv_nonneg_iff)
  have cap: "in_i64 capacity" and small: "in_i64 (4096 * 4096 + 4096)" using assms by (simp_all add: in_i64_def)
  have "in_i64 (?q * reserve)" "in_i64 ?s" using in_i64_nonneg [OF _ _ cap] q qr top bot by fastforce+
  moreover have "in_i64 (?m * reserve)" "in_i64 (?m * reserve + slots - 1)" using mr assms(3,4) by (auto intro!: in_i64_nonneg [OF _ _ small])
  moreover have "go_div (?m * reserve + slots - 1) slots = (?m * reserve + slots - 1) div slots" using mr assms(3) by (intro go_div_nonneg) linarith+
  ultimately have "reservedShare capacity slots reserve = ?s"
    using assms mr m eq go_div_nonneg [of capacity slots] by (simp add: reservedShare_def go_rem_nonneg)
  then show ?thesis using lo hi top bot by simp
qed

section \<open>Steps of the broker\<close>

text \<open>Resource numbers are machine integers; tokens are 24 random bytes, so a new one has not been used before.\<close>

definition resources_i64 :: "resources \<Rightarrow> bool" where
  "resources_i64 r = (in_i64 (rs_Slots r) \<and> in_i64 (rs_CPU r) \<and> in_i64 (rs_Memory r))"

definition needs_ok :: "requirements \<Rightarrow> bool" where
  "needs_ok n = (1 \<le> rs_Slots (nd_Resources n) \<and> 0 \<le> rs_CPU (nd_Resources n) \<and> 0 \<le> rs_Memory (nd_Resources n) \<and> resources_i64 (nd_Resources n))"

inductive broker_step :: "broker \<Rightarrow> broker \<Rightarrow> bool" where
  claim: "Claim io w b = (res, b') \<Longrightarrow> bi_token io \<noteq> [] \<Longrightarrow> bi_token io \<notin> set (bk_issued b) \<Longrightarrow> resources_i64 (w_Capacity w) \<Longrightarrow> resources_i64 (w_Usage w)
    \<Longrightarrow> broker_step b b'"
| renew: "Renew io i token b = (err, b') \<Longrightarrow> broker_step b b'"
| complete: "Complete io i token res b = (err, b') \<Longrightarrow> broker_step b b'"
| cancel: "Cancel io i b = (err, b') \<Longrightarrow> broker_step b b'"
| cancel_unwatched: "cancelUnwatched io i b = (err, b') \<Longrightarrow> broker_step b b'"
| wait: "broker_step b (wait_begin i b)"
| waited: "broker_step b (wait_end i b)"
| submit: "Submit io rootKey job needs priority b = (r, b') \<Longrightarrow> resources_i64 (nd_Resources needs) \<Longrightarrow> broker_step b b'"
| forget: "broker_step b (forgetCompleted io i b)"
| drain: "Drain_worker io worker draining b = (err, b') \<Longrightarrow> broker_step b b'"
| keep: "KeepRun io runID sha b = (err, b') \<Longrightarrow> broker_step b b'"
| maintain: "Maintain io orphanGrace retention b = (err, b') \<Longrightarrow> broker_step b b'"
| removal: "drainForRemoval io worker before offline b = (r, b') \<Longrightarrow> broker_step b b'"
| restart: "Open_broker epoch now lease reconnectGrace (bk_jobs b) (bk_peers b) (bk_issued b) = Inr b' \<Longrightarrow> broker_step b b'"
| stop: "broker_step b (Close_broker b)"

text \<open>From new tables, or from any state it led to.\<close>

inductive broker_reachable :: "broker \<Rightarrow> bool" where
  opened: "Open_broker epoch now lease reconnectGrace [] [] [] = Inr b \<Longrightarrow> broker_reachable b"
| next_state: "broker_reachable b \<Longrightarrow> broker_step b b' \<Longrightarrow> broker_reachable b'"

section \<open>What a step does to a row\<close>

text \<open>A stored result is about its own job.\<close>

definition stamped :: "job_row \<Rightarrow> worker_result \<Rightarrow> bool" where
  "stamped r res =
     (let c = wr_Check res; job = jr_job r in
      cr_Name c = j_Name job \<and> cr_Command c = j_Command job \<and> cr_ExecutedRun c = j_RunID job \<and> cr_ExecutedSHA c = j_MergeSHA job
      \<and> cr_ExecutionID c = jr_id r \<and> cr_VerificationID c = j_VerificationID job \<and> \<not> cr_Reused c \<and> cr_Err c = None
      \<and> cr_Status c \<in> {CheckPassed, CheckFailed, CheckSkipped})"

definition about_job :: "job_row \<Rightarrow> worker_result \<Rightarrow> bool" where
  "about_job r res = (stamped r res \<and> length (cr_Output (wr_Check res)) \<le> 65536)"

definition same_job :: "job_row \<Rightarrow> job_row \<Rightarrow> bool" where
  "same_job r r' = (jr_id r' = jr_id r \<and> jr_job r' = jr_job r \<and> jr_needs r' = jr_needs r \<and> jr_root r' = jr_root r \<and> jr_parent r' = jr_parent r
     \<and> jr_created r' = jr_created r)"

inductive row_change :: "bool \<Rightarrow> job_row \<Rightarrow> job_row \<Rightarrow> bool" for grow where
  keep: "same_job r r' \<Longrightarrow> jr_state r' = jr_state r \<Longrightarrow> jr_token r' = jr_token r \<Longrightarrow> jr_worker r' = jr_worker r \<Longrightarrow> jr_session r' = jr_session r
    \<Longrightarrow> jr_result r' = jr_result r \<Longrightarrow> row_change grow r r'"
| verdict: "same_job r r' \<Longrightarrow> jr_state r = JobLeased \<Longrightarrow> jr_state r' = JobCompleted \<Longrightarrow> jr_token r' = jr_token r \<Longrightarrow> jr_token r \<noteq> [] \<Longrightarrow> jr_result r' = Some res
    \<Longrightarrow> about_job r res \<Longrightarrow> row_change grow r r'"
| give_up: "same_job r r' \<Longrightarrow> active_state r \<Longrightarrow> jr_state r' = JobCancelled \<Longrightarrow> jr_token r' = jr_token r \<Longrightarrow> jr_result r' = jr_result r \<Longrightarrow> row_change grow r r'"
| release: "same_job r r' \<Longrightarrow> jr_state r = JobLeased \<or> grow \<and> jr_state r = JobCancelled \<Longrightarrow> jr_state r' = JobPending \<Longrightarrow> jr_token r' = [] \<Longrightarrow> jr_result r' = jr_result r
    \<Longrightarrow> row_change grow r r'"

definition fresh_row :: "broker \<Rightarrow> job_row \<Rightarrow> bool" where
  "fresh_row b r = (jr_id r \<notin> jr_id ` set (bk_jobs b) \<and> jr_state r = JobPending \<and> jr_token r = [] \<and> jr_result r = None \<and> needs_ok (jr_needs r))"

text \<open>A quiet step hands out no lease: rows change one by one, some are deleted, at most one is added.\<close>

definition quiet_step :: "bool \<Rightarrow> broker \<Rightarrow> broker \<Rightarrow> bool" where
  "quiet_step grow b b' =
     (bk_issued b' = bk_issued b \<and> (\<exists>f keep new. bk_jobs b' = filter keep (map f (bk_jobs b)) @ new \<and> (\<forall>r \<in> set (bk_jobs b). row_change grow r (f r))
        \<and> (new = [] \<or> grow \<and> (\<exists>r. new = [r] \<and> fresh_row b r))))"

lemma same_job_refl [simp]: "same_job r r"
  by (simp add: same_job_def)

lemma row_change_refl [simp]: "row_change grow r r"
  by (rule row_change.keep) simp_all

lemma quiet_map: "(\<And>r. r \<in> set (bk_jobs b) \<Longrightarrow> row_change grow r (f r)) \<Longrightarrow> bk_jobs b' = map f (bk_jobs b) \<Longrightarrow> bk_issued b' = bk_issued b \<Longrightarrow> quiet_step grow b b'"
  unfolding quiet_step_def by (intro conjI exI [of _ f] exI [of _ "\<lambda>_. True"] exI [of _ "[]"]) auto

lemma quiet_refl: "bk_jobs b' = bk_jobs b \<Longrightarrow> bk_issued b' = bk_issued b \<Longrightarrow> quiet_step grow b b'"
  by (rule quiet_map [of b _ "\<lambda>r. r"]) simp_all

lemma quiet_filter: "bk_jobs b' = filter keep (bk_jobs b) \<Longrightarrow> bk_issued b' = bk_issued b \<Longrightarrow> quiet_step grow b b'"
  unfolding quiet_step_def by (intro conjI exI [of _ "\<lambda>r. r"] exI [of _ keep] exI [of _ "[]"]) auto

lemma quiet_update: "(\<And>r. r \<in> set (bk_jobs b) \<Longrightarrow> P r \<Longrightarrow> row_change grow r (f r)) \<Longrightarrow> quiet_step grow b (update_jobs P f b)"
  by (rule quiet_map [of b _ "\<lambda>r. if P r then f r else r"]) (simp_all add: update_jobs_def)


lemma quiet_append: "fresh_row b r \<Longrightarrow> bk_jobs b' = bk_jobs b @ [r] \<Longrightarrow> bk_issued b' = bk_issued b \<Longrightarrow> quiet_step True b b'"
  unfolding quiet_step_def by (intro conjI exI [of _ "\<lambda>r. r"] exI [of _ "\<lambda>_. True"] exI [of _ "[r]"]) auto

lemma update_jobs_none: "\<forall>r \<in> set (bk_jobs b). \<not> P r \<Longrightarrow> update_jobs P f b = b"
proof -
  assume "\<forall>r \<in> set (bk_jobs b). \<not> P r"
  then have "map (\<lambda>r. if P r then f r else r) (bk_jobs b) = bk_jobs b" by (intro map_idI) auto
  then show ?thesis by (simp add: update_jobs_def)
qed

text \<open>Rows by identity.\<close>

abbreviation distinct_jobs :: "broker \<Rightarrow> bool" where
  "distinct_jobs b \<equiv> distinct (map jr_id (bk_jobs b))"

lemma find_job_Some: "find_job b i = Some r \<Longrightarrow> r \<in> set (bk_jobs b) \<and> jr_id r = i"
  by (auto simp: find_job_def find_Some_iff)

lemma find_job_None: "find_job b i = None \<longleftrightarrow> i \<notin> jr_id ` set (bk_jobs b)"
  by (auto simp: find_job_def find_None_iff)

lemma same_row: "distinct_jobs b \<Longrightarrow> r \<in> set (bk_jobs b) \<Longrightarrow> s \<in> set (bk_jobs b) \<Longrightarrow> jr_id r = jr_id s \<Longrightarrow> r = s"
  by (auto simp: distinct_map inj_on_def)

lemma find_job_row: "distinct_jobs b \<Longrightarrow> r \<in> set (bk_jobs b) \<Longrightarrow> find_job b (jr_id r) = Some r"
  by (simp add: find_job_def find_distinct)

subsection \<open>The quiet operations\<close>

lemma Renew_quiet: "Renew io i token b = (err, b') \<Longrightarrow> quiet_step grow b b'"
  by (rule quiet_map [of b _ "\<lambda>r. if bi_fault io 0 = None \<and> jr_id r = i \<and> jr_token r = token \<and> jr_state r = JobLeased
        then r\<lparr>jr_lease := unix_milli (bi_now io + bk_lease b)\<rparr> else r"])
    (auto simp: Renew_def Let_def update_jobs_def same_job_def split: option.splits if_splits intro: row_change.keep)

lemma stamp_result_keeps [simp]: "cr_Status (wr_Check (stamp_result r res)) = cr_Status (wr_Check res)" "wr_Error (stamp_result r res) = wr_Error res"
  by (simp_all add: stamp_result_def Let_def)

lemma stamp_result_stamped:
  "cr_Err (wr_Check res) = None \<Longrightarrow> cr_Status (wr_Check res) \<in> {CheckPassed, CheckFailed, CheckSkipped}
    \<Longrightarrow> stamped r (stamp_result r res\<lparr>wr_Check := (wr_Check (stamp_result r res))\<lparr>cr_TestAttempts := []\<rparr>\<rparr>)"
  by (simp add: stamped_def stamp_result_def Let_def)

lemma merge_previous_stamped: "stamped r res \<Longrightarrow> stamped r (merge_previous job previous res)"
  by (auto simp: merge_previous_def stamped_def Let_def split: prod.splits option.splits)

lemma record_attempt_about: "stamped r res \<Longrightarrow> about_job r (record_attempt r raw res)"
  by (simp add: about_job_def stamped_def record_attempt_def Let_def)

lemma finished_result_about:
  assumes "finished_result b r (stamp_result r res) = Inr res'" "cr_Err (wr_Check res) = None" "cr_Status (wr_Check res) \<in> {CheckPassed, CheckFailed, CheckSkipped}"
  shows "about_job r res'"
  using assms(1) stamp_result_stamped [OF assms(2,3), of r]
  by (auto simp: finished_result_def Let_def split: if_splits option.splits intro: record_attempt_about merge_previous_stamped)

lemma Complete_cases:
  assumes "Complete io i token res b = (err, b')" "b' \<noteq> b"
  obtains r res' where "find_job b i = Some r" "jr_token r = token" "token \<noteq> []" "jr_state r = JobLeased" "about_job r res'" "err = None"
    "b' = update_jobs (\<lambda>s. jr_id s = i \<and> jr_token s = token \<and> jr_state s = JobLeased) (\<lambda>s. s\<lparr>jr_result := Some res', jr_state := JobCompleted\<rparr>) b"
proof -
  have "\<exists>r res'. find_job b i = Some r \<and> jr_token r = token \<and> token \<noteq> [] \<and> jr_state r = JobLeased \<and> finished_result b r (stamp_result r res) = Inr res' \<and> err = None
      \<and> cr_Err (wr_Check res) = None \<and> cr_Status (wr_Check res) \<in> {CheckPassed, CheckFailed, CheckSkipped}
      \<and> b' = update_jobs (\<lambda>s. jr_id s = i \<and> jr_token s = token \<and> jr_state s = JobLeased) (\<lambda>s. s\<lparr>jr_result := Some res', jr_state := JobCompleted\<rparr>) b"
    using assms by (auto simp: Complete_def Let_def split: if_splits option.splits sum.splits)
  then show thesis using that finished_result_about by blast
qed

lemma Complete_quiet:
  assumes "Complete io i token res b = (err, b')" "distinct_jobs b"
  shows "quiet_step grow b b'"
proof (cases "b' = b")
  case False
  with assms(1) show ?thesis
  proof (rule Complete_cases)
    fix r res' assume r: "find_job b i = Some r" "about_job r res'" "token \<noteq> []"
      and b': "b' = update_jobs (\<lambda>s. jr_id s = i \<and> jr_token s = token \<and> jr_state s = JobLeased) (\<lambda>s. s\<lparr>jr_result := Some res', jr_state := JobCompleted\<rparr>) b"
    have "row_change grow s (s\<lparr>jr_result := Some res', jr_state := JobCompleted\<rparr>)"
      if "s \<in> set (bk_jobs b)" "jr_id s = i \<and> jr_token s = token \<and> jr_state s = JobLeased" for s
    proof -
      have "s = r" using same_row [OF assms(2) that(1)] find_job_Some [OF r(1)] that(2) by auto
      then show ?thesis using that(2) r(2,3) by (auto intro: row_change.verdict simp: same_job_def)
    qed
    then show ?thesis unfolding b' by (rule quiet_update)
  qed
qed (simp add: quiet_refl)

lemma Cancel_quiet: "Cancel io i b = (err, b') \<Longrightarrow> quiet_step grow b b'"
  by (auto simp: Cancel_def same_job_def split: option.splits intro!: quiet_update row_change.give_up quiet_refl)

lemma cancelUnwatched_quiet: "cancelUnwatched io i b = (err, b') \<Longrightarrow> quiet_step grow b b'"
  by (auto simp: cancelUnwatched_def split: if_splits intro: Cancel_quiet quiet_refl)

lemma forgetCompleted_quiet: "quiet_step grow b (forgetCompleted io i b)"
  by (auto simp: forgetCompleted_def intro: quiet_filter quiet_refl)

lemma KeepRun_quiet: "KeepRun io runID sha b = (err, b') \<Longrightarrow> quiet_step grow b b'"
  by (auto simp: KeepRun_def same_job_def split: option.splits intro!: quiet_update row_change.keep quiet_refl)

lemma Drain_quiet: "Drain_worker io worker draining b = (err, b') \<Longrightarrow> quiet_step grow b b'"
  by (auto simp: Drain_worker_def split: option.splits if_splits intro: quiet_refl)

lemma removal_quiet:
  assumes "drainForRemoval io worker before offline b = (r, b')"
  shows "quiet_step grow b b'"
proof -
  let ?f = "\<lambda>r. if jr_worker r = worker \<and> jr_state r = JobLeased then r\<lparr>jr_state := JobPending, jr_token := [], jr_worker := [], jr_session := [], jr_lease := 0\<rparr> else r"
  have "bk_jobs b' = bk_jobs b \<or> bk_jobs b' = map ?f (bk_jobs b)" "bk_issued b' = bk_issued b"
    using assms by (auto simp: drainForRemoval_def Let_def update_jobs_def split: option.splits if_splits)
  moreover have "row_change grow r (?f r)" for r by (auto intro!: row_change.release simp: same_job_def)
  ultimately show ?thesis using quiet_refl quiet_map [of b grow ?f b'] by blast
qed

lemma latest_of_root_Some: "latest_of_root k b = Some r \<Longrightarrow> r \<in> set (bk_jobs b) \<and> jr_root r = k"
  by (auto simp: latest_of_root_def find_Some_iff) (metis length_rev nth_mem set_rev)

lemma insert_job_quiet:
  assumes "jr_state r = JobPending" "jr_token r = []" "jr_result r = None" "needs_ok (jr_needs r)"
  shows "quiet_step True b (insert_job r b)"
proof (cases "find_job b (jr_id r)")
  case None
  then have "fresh_row b r" using assms by (simp add: fresh_row_def find_job_None)
  then show ?thesis using None by (auto simp: insert_job_def intro: quiet_append)
next
  case (Some s)
  then show ?thesis by (auto simp: insert_job_def same_job_def intro!: quiet_update row_change.keep)
qed

lemma submit_new_quiet: "submit_new io k parent job needs priority b = (r, b') \<Longrightarrow> needs_ok needs \<Longrightarrow> quiet_step True b b'"
  by (auto simp: submit_new_def Let_def split: if_splits intro: insert_job_quiet quiet_refl)

lemma submit_adopt_quiet:
  assumes "submit_adopt io r b = (res, b')" "distinct_jobs b" "r \<in> set (bk_jobs b)"
  shows "quiet_step True b b'"
proof -
  let ?adopt = "\<lambda>s. s\<lparr>jr_wanted := unix_milli (bi_now io), jr_epoch := bk_epoch b\<rparr>"
    and ?revive = "\<lambda>s. s\<lparr>jr_state := JobPending, jr_token := [], jr_lease := 0, jr_worker := [], jr_session := []\<rparr>"
  have row: "s = r" if "s \<in> set (bk_jobs b)" "jr_id s = jr_id r" for s using same_row [OF assms(2) that(1) assms(3) that(2)] .
  show ?thesis
  proof (cases "jr_state r = JobCancelled")
    case True
    have "row_change True r (?adopt (?revive r))" using True by (auto intro: row_change.release simp: same_job_def)
    then have "row_change True s (if jr_id s = jr_id r then ?adopt (?revive s) else s)" if "s \<in> set (bk_jobs b)" for s using row [OF that] by auto
    note step = quiet_map [of b _ "\<lambda>s. if jr_id s = jr_id r then ?adopt (?revive s) else s", OF this]
    have "b' = b \<or> bk_issued b' = bk_issued b \<and> bk_jobs b' = map (\<lambda>s. if jr_id s = jr_id r then ?adopt (?revive s) else s) (bk_jobs b)"
      using assms(1) True by (auto simp: submit_adopt_def Let_def update_jobs_def split: if_splits)
    then show ?thesis using step quiet_refl by blast
  next
    case False
    then show ?thesis using assms(1) by (auto simp: submit_adopt_def Let_def same_job_def intro!: quiet_update row_change.keep)
  qed
qed

lemma Submit_quiet:
  assumes "Submit io k job needs priority b = (r, b')" "distinct_jobs b" "resources_i64 (nd_Resources needs)"
  shows "quiet_step True b b'"
  using assms
  by (auto simp: Submit_def Let_def needs_ok_def split: if_splits option.splits
      intro: quiet_refl submit_new_quiet submit_adopt_quiet dest: latest_of_root_Some)

lemma maintain_cancel: "maintain_each io n cancel_row ids b = (err, b') \<Longrightarrow>
  \<exists>gone \<subseteq> set ids. bk_jobs b' = map (\<lambda>r. if jr_id r \<in> gone then r\<lparr>jr_state := JobCancelled\<rparr> else r) (bk_jobs b)
    \<and> (err = None \<longrightarrow> gone = set ids) \<and> bk_issued b' = bk_issued b"
proof (induction ids arbitrary: n b)
  case (Cons i ids)
  show ?case
  proof (cases "bi_fault io n")
    case None
    then have "maintain_each io (Suc n) cancel_row ids (cancel_row i b) = (err, b')" using Cons.prems by simp
    from Cons.IH [OF this] obtain gone where g: "gone \<subseteq> set ids" "err = None \<longrightarrow> gone = set ids" "bk_issued b' = bk_issued b"
      "bk_jobs b' = map (\<lambda>r. if jr_id r \<in> gone then r\<lparr>jr_state := JobCancelled\<rparr> else r) (bk_jobs (cancel_row i b))"
      by (auto simp: cancel_row_def update_jobs_def)
    then show ?thesis by (intro exI [of _ "insert i gone"]) (auto simp: cancel_row_def update_jobs_def)
  next
    case (Some e)
    then show ?thesis using Cons.prems by (intro exI [of _ "{}"]) auto
  qed
qed auto

lemma maintain_delete: "maintain_each io n delete_row ids b = (err, b') \<Longrightarrow>
  \<exists>gone \<subseteq> set ids. bk_jobs b' = filter (\<lambda>r. jr_id r \<notin> gone) (bk_jobs b) \<and> (err = None \<longrightarrow> gone = set ids) \<and> bk_issued b' = bk_issued b"
proof (induction ids arbitrary: n b)
  case (Cons i ids)
  show ?case
  proof (cases "bi_fault io n")
    case None
    then have "maintain_each io (Suc n) delete_row ids (delete_row i b) = (err, b')" using Cons.prems by simp
    from Cons.IH [OF this] obtain gone where g: "gone \<subseteq> set ids" "err = None \<longrightarrow> gone = set ids" "bk_issued b' = bk_issued b"
      "bk_jobs b' = filter (\<lambda>r. jr_id r \<notin> gone) (bk_jobs (delete_row i b))"
      by (auto simp: delete_row_def)
    then show ?thesis by (intro exI [of _ "insert i gone"]) (auto simp: delete_row_def intro: filter_cong)
  next
    case (Some e)
    then show ?thesis using Cons.prems by (intro exI [of _ "{}"]) auto
  qed
qed auto


text \<open>Maintenance cancels some orphaned rows and deletes some expired ones; without an error it reaches all of them.\<close>

lemma Maintain_rows:
  assumes "Maintain io orphanGrace retention b = (err, b')"
  obtains gone lost where "gone \<subseteq> jr_id ` set (filter (orphaned io b orphanGrace) (bk_jobs b))"
    "lost \<subseteq> jr_id ` set (filter (expired io b orphanGrace retention) (bk_jobs b))"
    "bk_jobs b' = filter (\<lambda>r. jr_id r \<notin> lost) (map (\<lambda>r. if jr_id r \<in> gone then r\<lparr>jr_state := JobCancelled\<rparr> else r) (bk_jobs b))"
    "bk_issued b' = bk_issued b"
    "err = None \<Longrightarrow> \<not> time_sub (bi_now io) (bk_born b) < bk_grace b \<Longrightarrow>
       gone = jr_id ` set (filter (orphaned io b orphanGrace) (bk_jobs b)) \<and> lost = jr_id ` set (filter (expired io b orphanGrace retention) (bk_jobs b))"
proof (cases "time_sub (bi_now io) (bk_born b) < bk_grace b \<or> bi_fault io 0 \<noteq> None")
  case True
  then have "b' = b" "err = None \<longrightarrow> time_sub (bi_now io) (bk_born b) < bk_grace b"
    using assms(1) by (auto simp: Maintain_def Let_def split: option.splits if_splits)
  then show thesis using that [of "{}" "{}"] by simp
next
  case False
  let ?cancel = "map jr_id (filter (orphaned io b orphanGrace) (bk_jobs b))" and ?remove = "map jr_id (filter (expired io b orphanGrace retention) (bk_jobs b))"
  obtain e1 b1 where c: "maintain_each io 1 cancel_row ?cancel b = (e1, b1)" by fastforce
  obtain e2 b2 where d: "maintain_each io (1 + length ?cancel) delete_row ?remove b1 = (e2, b2)" by fastforce
  from maintain_cancel [OF c] obtain gone where g: "gone \<subseteq> set ?cancel" "bk_issued b1 = bk_issued b" "e1 = None \<longrightarrow> gone = set ?cancel"
    "bk_jobs b1 = map (\<lambda>r. if jr_id r \<in> gone then r\<lparr>jr_state := JobCancelled\<rparr> else r) (bk_jobs b)" by blast
  from maintain_delete [OF d] obtain lost where l: "lost \<subseteq> set ?remove" "bk_jobs b2 = filter (\<lambda>r. jr_id r \<notin> lost) (bk_jobs b1)"
    "bk_issued b2 = bk_issued b1" "e2 = None \<longrightarrow> lost = set ?remove" by blast
  have "err \<noteq> None \<and> bk_jobs b' = bk_jobs b1 \<and> bk_issued b' = bk_issued b1
      \<or> (err = None \<longrightarrow> e1 = None \<and> e2 = None) \<and> bk_jobs b' = bk_jobs b2 \<and> bk_issued b' = bk_issued b2"
    using assms(1) False c d by (auto simp: Maintain_def Let_def split: option.splits)
  then show thesis
  proof
    assume "err \<noteq> None \<and> bk_jobs b' = bk_jobs b1 \<and> bk_issued b' = bk_issued b1"
    then show thesis using g by (intro that [of gone "{}"]) auto
  next
    assume "(err = None \<longrightarrow> e1 = None \<and> e2 = None) \<and> bk_jobs b' = bk_jobs b2 \<and> bk_issued b' = bk_issued b2"
    then show thesis using g l by (intro that [of gone lost]) auto
  qed
qed

lemma Maintain_quiet:
  assumes "Maintain io orphanGrace retention b = (err, b')" "distinct_jobs b"
  shows "quiet_step grow b b'"
  using assms(1)
proof (rule Maintain_rows)
  let ?f = "\<lambda>gone r. if jr_id r \<in> gone then r\<lparr>jr_state := JobCancelled\<rparr> else r"
  fix gone lost assume g: "gone \<subseteq> jr_id ` set (filter (orphaned io b orphanGrace) (bk_jobs b))" "bk_jobs b' = filter (\<lambda>r. jr_id r \<notin> lost) (map (?f gone) (bk_jobs b))"
    "bk_issued b' = bk_issued b"
  have "row_change grow r (?f gone r)" if "r \<in> set (bk_jobs b)" for r
  proof (cases "jr_id r \<in> gone")
    case True
    then obtain s where "s \<in> set (bk_jobs b)" "jr_id s = jr_id r" "orphaned io b orphanGrace s" using g(1) by force
    then have "active_state r" using same_row [OF assms(2) _ that] by (auto simp: orphaned_def)
    then show ?thesis using True by (auto intro: row_change.give_up simp: same_job_def)
  qed simp
  then show ?thesis unfolding quiet_step_def using g
    by (intro conjI exI [of _ "?f gone"] exI [of _ "\<lambda>r. jr_id r \<notin> lost"] exI [of _ "[]"]) auto
qed

subsection \<open>Leasing\<close>

definition lease_step :: "worker \<Rightarrow> job_row \<Rightarrow> string \<Rightarrow> broker \<Rightarrow> broker \<Rightarrow> bool" where
  "lease_step w r token b b' =
     (\<not> bad_advertisement w \<and> r \<in> set (bk_jobs b) \<and> active_state r \<and> fits (nd_Resources (jr_needs r)) (available_for b w)
      \<and> (\<exists>until. bk_jobs b' = map (\<lambda>s. if jr_id s = jr_id r then lease_job w token until s else s) (bk_jobs b)) \<and> bk_issued b' = token # bk_issued b)"

lemma put_peer_tables [simp]:
  "bk_jobs (put_peer w t b) = bk_jobs b" "bk_issued (put_peer w t b) = bk_issued b" "bk_epoch (put_peer w t b) = bk_epoch b"
  "bk_born (put_peer w t b) = bk_born b" "bk_grace (put_peer w t b) = bk_grace b" "bk_lease (put_peer w t b) = bk_lease b"
  "bk_waiters (put_peer w t b) = bk_waiters b"
  by (simp_all add: put_peer_def split: option.split)

lemma available_for_put_peer [simp]: "available_for (put_peer v t b) w = available_for b w"
  by (simp add: available_for_def)

lemma claimable_put_peer [simp]: "claimable (put_peer v t b) = claimable b"
  by (simp add: claimable_def fun_eq_iff)

text \<open>The comparison of the claim's \<open>ORDER BY\<close>.\<close>

interpretation claim_order: strict_weak claim_before
  by unfold_locales (auto simp: claim_before_def)

lemma Claim_chosen:
  assumes "Claim io w b = (Inr (Some a), b')"
  obtains r where "find (admissible w (available_for b w)) (sort_by claim_before (filter (claimable b (bi_now io) w) (bk_jobs b))) = Some r"
    "\<not> bad_advertisement w" "a = \<lparr>at_ID = jr_id r, at_Token = bi_token io, at_Worker = w_ID w, at_LeaseUntil = bi_now io + bk_lease b,
       at_LeaseMillis = go_div (bk_lease b) 1000000, at_Job = jr_job r, at_Requirements = jr_needs r\<rparr>"
    "b' = (update_jobs (\<lambda>s. jr_id s = jr_id r) (lease_job w (bi_token io) (unix_milli (bi_now io + bk_lease b))) (put_peer w (unix_milli (bi_now io)) b))
       \<lparr>bk_issued := bi_token io # bk_issued b\<rparr>"
    "\<not> w_Draining w" "case find_peer b (w_ID w) of Some p \<Rightarrow> \<not> pe_draining p | None \<Rightarrow> True"
  using assms by (auto simp: Claim_def Let_def split: if_splits option.splits)

lemma Claim_idle: "Claim io w b = (res, b') \<Longrightarrow> (\<nexists>a. res = Inr (Some a)) \<Longrightarrow> quiet_step grow b b'"
  by (rule quiet_refl) (auto simp: Claim_def Let_def split: if_splits option.splits)

lemma Claim_lease:
  assumes "Claim io w b = (Inr (Some a), b')"
  obtains r where "lease_step w r (bi_token io) b b'"
  using assms
proof (rule Claim_chosen)
  fix r assume r: "find (admissible w (available_for b w)) (sort_by claim_before (filter (claimable b (bi_now io) w) (bk_jobs b))) = Some r" "\<not> bad_advertisement w"
    "b' = (update_jobs (\<lambda>s. jr_id s = jr_id r) (lease_job w (bi_token io) (unix_milli (bi_now io + bk_lease b))) (put_peer w (unix_milli (bi_now io)) b))
       \<lparr>bk_issued := bi_token io # bk_issued b\<rparr>"
  from claim_order.find_sort_by_least [OF r(1)] have "lease_step w r (bi_token io) b b'"
    using r(2,3) by (auto simp: lease_step_def admissible_def claimable_def active_state_def update_jobs_def Let_def)
  then show thesis by (rule that)
qed


section \<open>The invariant\<close>

text \<open>What a worker's leases take of one resource.\<close>

definition leased_sum :: "(resources \<Rightarrow> int) \<Rightarrow> string \<Rightarrow> string \<Rightarrow> job_row list \<Rightarrow> int" where
  "leased_sum f worker session rows = sum_list (map (\<lambda>r. f (nd_Resources (jr_needs r))) (filter (leased_to worker session) rows))"

definition row_ok :: "string list \<Rightarrow> job_row \<Rightarrow> bool" where
  "row_ok issued r =
     (needs_ok (jr_needs r) \<and> (jr_token r = [] \<or> jr_token r \<in> set issued) \<and> (jr_state r = JobLeased \<or> jr_state r = JobCompleted \<longrightarrow> jr_token r \<noteq> [])
      \<and> (if jr_state r = JobCompleted then \<exists>res. jr_result r = Some res \<and> about_job r res else jr_result r = None))"

definition broker_inv :: "broker \<Rightarrow> bool" where
  "broker_inv b =
     (distinct_jobs b \<and> (\<forall>r \<in> set (bk_jobs b). row_ok (bk_issued b) r)
      \<and> (\<forall>r \<in> set (bk_jobs b). \<forall>s \<in> set (bk_jobs b). jr_token r = jr_token s \<and> jr_token r \<noteq> [] \<longrightarrow> r = s)
      \<and> (\<forall>f \<in> {rs_Slots, rs_CPU, rs_Memory}. \<forall>worker session. leased_sum f worker session (bk_jobs b) < 2 ^ 63))"

lemma row_change_same: "row_change grow r r' \<Longrightarrow> same_job r r'"
  by (cases rule: row_change.cases) auto

lemma about_same_job: "same_job r r' \<Longrightarrow> about_job r' res = about_job r res"
  by (simp add: same_job_def about_job_def stamped_def)

lemma row_change_token: "row_change grow r r' \<Longrightarrow> jr_token r' = jr_token r \<or> jr_token r' = []"
  by (cases rule: row_change.cases) auto

lemma row_change_leased: "row_change grow r r' \<Longrightarrow> leased_to worker session r' \<Longrightarrow> leased_to worker session r"
  by (cases rule: row_change.cases) (auto simp: leased_to_def)

lemma row_change_ok:
  assumes "row_change grow r r'" "row_ok issued r"
  shows "row_ok issued r'"
proof -
  note job = row_change_same [OF assms(1)]
  note same = about_same_job [OF job] job [unfolded same_job_def]
  from assms(1) show ?thesis
  proof cases
    case keep
    then show ?thesis using assms(2) by (simp add: row_ok_def same)
  next
    case (verdict res)
    then show ?thesis using assms(2) by (simp add: row_ok_def same)
  next
    case give_up
    then show ?thesis using assms(2) by (cases "jr_state r") (auto simp: row_ok_def active_state_def same)
  next
    case release
    then show ?thesis using assms(2) by (cases "jr_state r") (simp_all add: row_ok_def same)
  qed
qed

lemma row_ok_issued: "row_ok issued r \<Longrightarrow> row_ok (token # issued) r"
  by (auto simp: row_ok_def)

lemma leased_sum_Cons [simp]: "leased_sum f w s (r # rows) = (if leased_to w s r then f (nd_Resources (jr_needs r)) else 0) + leased_sum f w s rows"
  and leased_sum_Nil [simp]: "leased_sum f w s [] = 0"
  and leased_sum_append [simp]: "leased_sum f w s (rows @ rest) = leased_sum f w s rows + leased_sum f w s rest"
  by (simp_all add: leased_sum_def)

lemma needs_nonneg: "needs_ok n \<Longrightarrow> f \<in> {rs_Slots, rs_CPU, rs_Memory} \<Longrightarrow> 0 \<le> f (nd_Resources n)"
  by (auto simp: needs_ok_def)

lemma leased_sum_nonneg: "\<forall>r \<in> set rows. needs_ok (jr_needs r) \<Longrightarrow> f \<in> {rs_Slots, rs_CPU, rs_Memory} \<Longrightarrow> 0 \<le> leased_sum f w s rows"
  by (induction rows) (use needs_nonneg in auto)

lemma leased_sum_quiet:
  assumes "\<forall>r \<in> set rows. needs_ok (jr_needs r) \<and> row_change grow r (g r)" "f \<in> {rs_Slots, rs_CPU, rs_Memory}"
  shows "leased_sum f w s (filter keep (map g rows)) \<le> leased_sum f w s rows"
  using assms(1)
proof (induction rows)
  case (Cons r rows)
  have "jr_needs (g r) = jr_needs r" using row_change_same Cons.prems by (auto simp: same_job_def)
  moreover have "leased_to w s r" if "leased_to w s (g r)" using row_change_leased Cons.prems that by auto
  moreover have "0 \<le> f (nd_Resources (jr_needs r))" using needs_nonneg assms(2) Cons.prems by auto
  ultimately show ?case using Cons by auto
qed simp

lemma quiet_step_inv:
  assumes "quiet_step grow b b'" "broker_inv b"
  shows "broker_inv b'"
proof -
  from assms(1) obtain f keep new where jobs: "bk_jobs b' = filter keep (map f (bk_jobs b)) @ new" and change: "\<forall>r \<in> set (bk_jobs b). row_change grow r (f r)"
    and new: "new = [] \<or> grow \<and> (\<exists>r. new = [r] \<and> fresh_row b r)" and issued: "bk_issued b' = bk_issued b" unfolding quiet_step_def by blast
  note inv = assms(2) [unfolded broker_inv_def]
  have id: "jr_id (f r) = jr_id r" if "r \<in> set (bk_jobs b)" for r using row_change_same change that by (auto simp: same_job_def)
  have ids: "map jr_id (map f (bk_jobs b)) = map jr_id (bk_jobs b)" using id by simp
  have new_row: "jr_id n \<notin> jr_id ` set (bk_jobs b) \<and> jr_state n = JobPending \<and> jr_token n = [] \<and> row_ok (bk_issued b') n" if "n \<in> set new" for n
    using new that by (auto simp: fresh_row_def row_ok_def)
  have "distinct (map jr_id (filter keep (map f (bk_jobs b))))" using inv ids by (metis distinct_map_filter)
  moreover have "jr_id s \<in> jr_id ` set (bk_jobs b)" if "s \<in> set (filter keep (map f (bk_jobs b)))" for s using id that by auto
  ultimately have 1: "distinct_jobs b'" using new unfolding jobs fresh_row_def by fastforce
  have old: "\<exists>r. r \<in> set (bk_jobs b) \<and> s = f r" if "s \<in> set (bk_jobs b')" "s \<notin> set new" for s using that by (auto simp: jobs)
  have 2: "\<forall>r \<in> set (bk_jobs b'). row_ok (bk_issued b') r"
    using new_row row_change_ok inv change by (auto simp: jobs issued)
  have 3: "r = s" if rs: "r \<in> set (bk_jobs b')" "s \<in> set (bk_jobs b')" and t: "jr_token r = jr_token s" "jr_token r \<noteq> []" for r s
  proof -
    obtain p q where pq: "p \<in> set (bk_jobs b)" "r = f p" "q \<in> set (bk_jobs b)" "s = f q" using old [OF rs(1)] old [OF rs(2)] new_row t by metis
    have "jr_token p = jr_token r" "jr_token q = jr_token s" using row_change_token change pq t by metis+
    then have "p = q" using inv pq t by metis
    then show ?thesis using pq by simp
  qed
  have 4: "leased_sum g w s (bk_jobs b') < 2 ^ 63" if "g \<in> {rs_Slots, rs_CPU, rs_Memory}" for g w s
  proof -
    have "leased_sum g w s new = 0" using new by (auto simp: fresh_row_def leased_to_def)
    moreover have "leased_sum g w s (filter keep (map f (bk_jobs b))) \<le> leased_sum g w s (bk_jobs b)"
      using inv change that by (intro leased_sum_quiet) (auto simp: row_ok_def)
    moreover have "leased_sum g w s (bk_jobs b) < 2 ^ 63" using inv that by blast
    ultimately show ?thesis unfolding jobs leased_sum_append by linarith
  qed
  show ?thesis unfolding broker_inv_def using 1 2 3 4 by blast
qed


subsection \<open>A lease within capacity\<close>

lemma subtract_sel:
  assumes "f \<in> {rs_Slots, rs_CPU, rs_Memory}" "in_i64 (f r - f used)"
  shows "f (subtract r used) = f r - f used"
  using assms by (auto simp: subtract_def)

lemma fold_subtract:
  assumes f: "f \<in> {rs_Slots, rs_CPU, rs_Memory}" and "\<forall>r \<in> set rows. needs_ok (jr_needs r)" "in_i64 (f cap)"
    "- (2 ^ 63) \<le> f cap - sum_list (map (\<lambda>r. f (nd_Resources (jr_needs r))) rows)"
  shows "f (fold (\<lambda>r available. subtract available (nd_Resources (jr_needs r))) rows cap) = f cap - sum_list (map (\<lambda>r. f (nd_Resources (jr_needs r))) rows)"
  using assms(2-)
proof (induction rows arbitrary: cap)
  case (Cons r rows)
  let ?n = "nd_Resources (jr_needs r)" and ?sum = "sum_list (map (\<lambda>r. f (nd_Resources (jr_needs r))) rows)"
  have n: "0 \<le> f ?n" using needs_nonneg [OF _ f] Cons.prems(1) by simp
  have "0 \<le> ?sum" using needs_nonneg [OF _ f] Cons.prems(1) by (intro sum_list_nonneg) auto
  then have i: "in_i64 (f cap - f ?n)" using n Cons.prems(2,3) unfolding in_i64_def by simp
  then have "f (subtract cap ?n) = f cap - f ?n" by (rule subtract_sel [OF f])
  moreover have "f (fold (\<lambda>r available. subtract available (nd_Resources (jr_needs r))) rows (subtract cap ?n)) = f (subtract cap ?n) - ?sum"
    using Cons.prems i calculation by (intro Cons.IH) simp_all
  ultimately show ?case by simp
qed simp

text \<open>What the claim may still hand out: never more than the capacity less what is leased, nor than the capacity less the reported usage; the 64-bit
  subtractions do not wrap.\<close>

lemma available_for_bounds:
  assumes "broker_inv b" "\<not> bad_advertisement w" "resources_i64 (w_Capacity w)" "resources_i64 (w_Usage w)" and f: "f \<in> {rs_Slots, rs_CPU, rs_Memory}"
  shows "f (available_for b w) = min (f (w_Capacity w) - leased_sum f (w_ID w) (w_Session w) (bk_jobs b)) (f (w_Capacity w) - f (w_Usage w))"
proof -
  let ?rows = "filter (leased_to (w_ID w) (w_Session w)) (bk_jobs b)"
  have cap: "0 < f (w_Capacity w)" "in_i64 (f (w_Capacity w))" and use: "0 \<le> f (w_Usage w)" "in_i64 (f (w_Usage w))"
    using assms(2-) by (auto simp: bad_advertisement_def resources_i64_def)
  have ok: "\<forall>r \<in> set (bk_jobs b). needs_ok (jr_needs r)" and sum: "leased_sum f (w_ID w) (w_Session w) (bk_jobs b) < 2 ^ 63"
    using assms(1) f by (auto simp: broker_inv_def row_ok_def)
  have "in_i64 (f (w_Capacity w) - f (w_Usage w))" using cap use unfolding in_i64_def by linarith
  moreover have "f (fold (\<lambda>r available. subtract available (nd_Resources (jr_needs r))) ?rows (w_Capacity w)) = f (w_Capacity w) - leased_sum f (w_ID w) (w_Session w) (bk_jobs b)"
    unfolding leased_sum_def using ok cap sum by (intro fold_subtract f) (auto simp: leased_sum_def)
  ultimately show ?thesis using f by (auto simp: available_for_def Let_def subtract_def)
qed

lemma leased_sum_leased:
  assumes "distinct (map jr_id rows)" "r \<in> set rows" "f \<in> {rs_Slots, rs_CPU, rs_Memory}" "\<forall>r \<in> set rows. needs_ok (jr_needs r)"
  shows "leased_sum f worker session (map (\<lambda>s. if jr_id s = jr_id r then lease_job w token until s else s) rows)
    \<le> leased_sum f worker session rows + (if worker = w_ID w \<and> session = w_Session w then f (nd_Resources (jr_needs r)) else 0)"
  using assms
proof (induction rows)
  case (Cons s rows)
  have nonneg: "0 \<le> f (nd_Resources (jr_needs t))" if "t = s \<or> t \<in> set rows" for t using needs_nonneg Cons.prems(3,4) that by auto
  have leased: "leased_to worker session (lease_job w token until t) \<longleftrightarrow> worker = w_ID w \<and> session = w_Session w" for t by (auto simp: leased_to_def lease_job_def)
  show ?case
  proof (cases "jr_id s = jr_id r")
    case True
    then have "r \<notin> set rows" using Cons.prems(1) by auto
    then have "s = r" using Cons.prems(2) by simp
    have "map (\<lambda>s. if jr_id s = jr_id r then lease_job w token until s else s) rows = rows" using Cons.prems(1) True by (intro map_idI) (auto simp: image_iff)
    then show ?thesis using \<open>s = r\<close> nonneg [of r] by (simp add: leased) (simp add: lease_job_def)
  next
    case False
    then show ?thesis using Cons by auto
  qed
qed simp

lemma lease_step_inv:
  assumes "lease_step w r token b b'" "token \<noteq> []" "token \<notin> set (bk_issued b)" "resources_i64 (w_Capacity w)" "resources_i64 (w_Usage w)" and inv: "broker_inv b"
  shows "broker_inv b'
    \<and> (\<forall>f \<in> {rs_Slots, rs_CPU, rs_Memory}. leased_sum f (w_ID w) (w_Session w) (bk_jobs b') \<le> f (w_Capacity w))"
proof -
  from assms(1) obtain until where jobs: "bk_jobs b' = map (\<lambda>s. if jr_id s = jr_id r then lease_job w token until s else s) (bk_jobs b)"
    and r: "r \<in> set (bk_jobs b)" "active_state r" and adv: "\<not> bad_advertisement w" and issued: "bk_issued b' = token # bk_issued b"
    and fit: "fits (nd_Resources (jr_needs r)) (available_for b w)" unfolding lease_step_def by blast
  have d: "distinct_jobs b" and ok: "\<forall>r \<in> set (bk_jobs b). row_ok (bk_issued b) r" and needs: "\<forall>r \<in> set (bk_jobs b). needs_ok (jr_needs r)"
    using inv by (auto simp: broker_inv_def row_ok_def)
  have row: "s = r" if "s \<in> set (bk_jobs b)" "jr_id s = jr_id r" for s using same_row [OF d that(1) r(1) that(2)] .
  have cap: "leased_sum f (w_ID w) (w_Session w) (bk_jobs b) + f (nd_Resources (jr_needs r)) \<le> f (w_Capacity w)" if f: "f \<in> {rs_Slots, rs_CPU, rs_Memory}" for f
  proof -
    have "f (nd_Resources (jr_needs r)) \<le> f (available_for b w)" using fit f by (auto simp: fits_def)
    then show ?thesis using available_for_bounds [OF inv adv assms(4,5) f] by linarith
  qed
  note leased = leased_sum_leased [OF d r(1) _ needs]
  have sum: "leased_sum f (w_ID w) (w_Session w) (bk_jobs b') \<le> f (w_Capacity w)" if "f \<in> {rs_Slots, rs_CPU, rs_Memory}" for f
    using leased [OF that, of "w_ID w" "w_Session w" w token until] cap [OF that] by (simp add: jobs)
  have "leased_sum f worker session (bk_jobs b') < 2 ^ 63" if f: "f \<in> {rs_Slots, rs_CPU, rs_Memory}" for f worker session
  proof (cases "worker = w_ID w \<and> session = w_Session w")
    case True
    moreover have "f (w_Capacity w) < 2 ^ 63" using assms(4) f by (auto simp: resources_i64_def in_i64_def)
    ultimately show ?thesis using sum [OF f] by simp
  next
    case False
    then have "leased_sum f worker session (bk_jobs b') \<le> leased_sum f worker session (bk_jobs b)" using leased [OF f, of worker session w token until] by (auto simp: jobs split: if_splits)
    moreover have "leased_sum f worker session (bk_jobs b) < 2 ^ 63" using inv f unfolding broker_inv_def by blast
    ultimately show ?thesis by linarith
  qed
  moreover have "row_ok (bk_issued b') s" if "s \<in> set (bk_jobs b')" for s
  proof -
    from that obtain q where q: "q \<in> set (bk_jobs b)" "s = (if jr_id q = jr_id r then lease_job w token until q else q)" by (auto simp: jobs)
    show ?thesis
    proof (cases "jr_id q = jr_id r")
      case True
      then have "q = r" using row q by blast
      then have "jr_result q = None" using ok r by (cases "jr_state r") (auto simp: row_ok_def active_state_def)
      then show ?thesis using q True needs assms(2) by (auto simp: row_ok_def lease_job_def issued)
    next
      case False
      then show ?thesis using q ok row_ok_issued by (simp add: issued)
    qed
  qed
  moreover have "p = q" if pq: "p \<in> set (bk_jobs b')" "q \<in> set (bk_jobs b')" "jr_token p = jr_token q" "jr_token p \<noteq> []" for p q
  proof -
    have old: "jr_token s \<noteq> token" if "s \<in> set (bk_jobs b)" for s using ok assms(2,3) that by (auto simp: row_ok_def)
    have one: "(x \<in> set (bk_jobs b) \<and> jr_id x \<noteq> jr_id r) \<or> x = lease_job w token until r" if "x \<in> set (bk_jobs b')" for x
      using that row by (auto simp: jobs split: if_splits)
    have new: "jr_token (lease_job w token until r) = token" by (simp add: lease_job_def)
    show ?thesis using one [OF pq(1)] one [OF pq(2)] old new pq(3,4) inv unfolding broker_inv_def by metis
  qed
  moreover have "distinct_jobs b'"
  proof -
    have "map jr_id (bk_jobs b') = map jr_id (bk_jobs b)" by (simp add: jobs lease_job_def)
    then show ?thesis using d by simp
  qed
  ultimately show ?thesis using sum unfolding broker_inv_def by blast
qed

text \<open>Every step is quiet, submits a job or hands out a lease.\<close>

lemma broker_step_kinds:
  assumes "broker_step b b'" "distinct_jobs b"
  obtains (quiet) "quiet_step False b b'"
  | (submit) io k job needs priority r where "Submit io k job needs priority b = (r, b')" "resources_i64 (nd_Resources needs)"
  | (lease) w r token where "lease_step w r token b b'" "token \<noteq> []" "token \<notin> set (bk_issued b)" "resources_i64 (w_Capacity w)" "resources_i64 (w_Usage w)"
  using assms(1)
proof cases
  case (claim io w res)
  show thesis
  proof (cases "\<exists>a. res = Inr (Some a)")
    case True
    then obtain r where "lease_step w r (bi_token io) b b'" using claim(1) Claim_lease by metis
    then show thesis using lease claim by blast
  next
    case False
    then show thesis using claim Claim_idle quiet by blast
  qed
next
  case submit
  then show thesis by (rule that(2))
qed (use quiet assms(2) Renew_quiet Complete_quiet Cancel_quiet cancelUnwatched_quiet forgetCompleted_quiet Drain_quiet KeepRun_quiet Maintain_quiet
      removal_quiet quiet_refl in \<open>auto simp: wait_begin_def wait_end_def Close_broker_def Open_broker_def Let_def split: if_splits\<close>)

lemma broker_step_inv:
  assumes "broker_step b b'" "broker_inv b"
  shows "broker_inv b'"
proof -
  have d: "distinct_jobs b" using assms(2) by (simp add: broker_inv_def)
  with assms(1) show ?thesis
  proof (cases rule: broker_step_kinds)
    case (submit io k job needs priority r)
    then show ?thesis using Submit_quiet d quiet_step_inv assms(2) by blast
  qed (use assms(2) quiet_step_inv lease_step_inv in blast)+
qed

lemma reachable_broker_inv: "broker_reachable b \<Longrightarrow> broker_inv b"
proof (induction rule: broker_reachable.induct)
  case (opened epoch now lease reconnectGrace b)
  then show ?case by (auto simp: Open_broker_def broker_inv_def leased_sum_def split: if_splits)
qed (rule broker_step_inv)

section \<open>Claims\<close>

lemma lease_step_adds:
  assumes "lease_step w r token b b'" "broker_inv b" "f \<in> {rs_Slots, rs_CPU, rs_Memory}"
  shows "leased_sum f (w_ID w) (w_Session w) (bk_jobs b') \<le> leased_sum f (w_ID w) (w_Session w) (bk_jobs b) + f (nd_Resources (jr_needs r))"
proof -
  from assms(1) obtain until where "bk_jobs b' = map (\<lambda>s. if jr_id s = jr_id r then lease_job w token until s else s) (bk_jobs b)" "r \<in> set (bk_jobs b)"
    unfolding lease_step_def by blast
  moreover have "distinct_jobs b" "\<forall>r \<in> set (bk_jobs b). needs_ok (jr_needs r)" using assms(2) by (auto simp: broker_inv_def row_ok_def)
  ultimately show ?thesis using leased_sum_leased [of "bk_jobs b" r f "w_ID w" "w_Session w" w token until] assms(3) by simp
qed

text \<open>What is left after an admissible job that is not urgent covers the reserve's share of every resource.\<close>

lemma admissible_reserve:
  assumes "admissible w (available_for b w) r" "jr_priority r < 3" "broker_inv b" "r \<in> set (bk_jobs b)" "\<not> bad_advertisement w" "resources_i64 (w_Capacity w)"
    "resources_i64 (w_Usage w)" and f: "f \<in> {rs_Slots, rs_CPU, rs_Memory}"
  shows "f (w_Capacity w) * w_UrgentReserve w \<le> (f (available_for b w) - f (nd_Resources (jr_needs r))) * rs_Slots (w_Capacity w)"
proof -
  let ?cap = "w_Capacity w" and ?res = "w_UrgentReserve w" and ?n = "nd_Resources (jr_needs r)" and ?av = "available_for b w"
  have adv: "1 \<le> rs_Slots ?cap" "rs_Slots ?cap \<le> 4096" "0 \<le> ?res" "?res < rs_Slots ?cap" "0 < f ?cap" "f ?cap < 2 ^ 63"
    using assms(5,6) f by (auto simp: bad_advertisement_def resources_i64_def in_i64_def)
  have n: "0 \<le> f ?n" "f ?n \<le> f ?av" using assms(1,3,4) f by (auto simp: admissible_def fits_def Let_def broker_inv_def row_ok_def needs_ok_def)
  have nonneg: "0 \<le> leased_sum f (w_ID w) (w_Session w) (bk_jobs b)" using assms(3) f by (intro leased_sum_nonneg) (auto simp: broker_inv_def row_ok_def)
  have "f ?av \<le> f ?cap" using available_for_bounds [OF assms(3,5,6,7) f] nonneg by linarith
  then have "in_i64 (f ?av - f ?n)" using n adv(5,6) unfolding in_i64_def by linarith
  then have after: "f (subtract ?av ?n) = f ?av - f ?n" by (rule subtract_sel [OF f])
  have guard: "?res \<le> rs_Slots (subtract ?av ?n)" "reservedShare (rs_CPU ?cap) (rs_Slots ?cap) ?res \<le> rs_CPU (subtract ?av ?n)"
    "reservedShare (rs_Memory ?cap) (rs_Slots ?cap) ?res \<le> rs_Memory (subtract ?av ?n)"
    using assms(1,2) by (auto simp: admissible_def Let_def)
  show ?thesis
  proof (cases "f = rs_Slots")
    case True
    then show ?thesis using guard(1) after adv by (simp add: mult.commute mult_right_mono)
  next
    case False
    then have "reservedShare (f ?cap) (rs_Slots ?cap) ?res \<le> f ?av - f ?n" using guard after f by auto
    then have "reservedShare (f ?cap) (rs_Slots ?cap) ?res * rs_Slots ?cap \<le> (f ?av - f ?n) * rs_Slots ?cap" using adv by (intro mult_right_mono) auto
    moreover have "f ?cap * ?res \<le> reservedShare (f ?cap) (rs_Slots ?cap) ?res * rs_Slots ?cap" using reserved_share_ceiling adv by blast
    ultimately show ?thesis by linarith
  qed
qed

text \<open>C17: a worker is never overcommitted.  After the broker hands out an attempt, the needs of everything leased to that worker's session sum up to at most the
  slots, processor shares and memory it advertised, and this attempt fits beside the usage it reported; and unless the attempt is urgent, the urgent reserve (its
  slots and the proportional share of processors and memory) is still free.  No 64-bit subtraction of the claim wraps around.\<close>

theorem Claim_within_capacity:
  assumes "broker_reachable b" "Claim io w b = (Inr (Some a), b')" "bi_token io \<noteq> []" "bi_token io \<notin> set (bk_issued b)"
    "resources_i64 (w_Capacity w)" "resources_i64 (w_Usage w)" "f \<in> {rs_Slots, rs_CPU, rs_Memory}"
  shows "leased_sum f (w_ID w) (w_Session w) (bk_jobs b') \<le> f (w_Capacity w)
    \<and> f (nd_Resources (at_Requirements a)) + f (w_Usage w) \<le> f (w_Capacity w)
    \<and> (\<exists>r \<in> set (bk_jobs b'). jr_id r = at_ID a \<and> leased_to (w_ID w) (w_Session w) r \<and> jr_token r = at_Token a
         \<and> (jr_priority r < 3 \<longrightarrow>
              f (w_Capacity w) * w_UrgentReserve w
                \<le> (f (w_Capacity w) - leased_sum f (w_ID w) (w_Session w) (bk_jobs b')) * rs_Slots (w_Capacity w)))"
proof -
  note inv = reachable_broker_inv [OF assms(1)]
  from assms(2) obtain r where r: "find (admissible w (available_for b w)) (sort_by claim_before (filter (claimable b (bi_now io) w) (bk_jobs b))) = Some r"
    and adv: "\<not> bad_advertisement w" and a: "at_ID a = jr_id r" "at_Token a = bi_token io" "at_Requirements a = jr_needs r"
    and b': "bk_jobs b' = map (\<lambda>s. if jr_id s = jr_id r then lease_job w (bi_token io) (unix_milli (bi_now io + bk_lease b)) s else s) (bk_jobs b)"
      "bk_issued b' = bi_token io # bk_issued b"
    by (rule Claim_chosen) (auto simp: update_jobs_def)
  from claim_order.find_sort_by_least [OF r] have row: "r \<in> set (bk_jobs b)" "claimable b (bi_now io) w r" "admissible w (available_for b w) r" by auto
  then have step: "lease_step w r (bi_token io) b b'" using adv b' by (auto simp: lease_step_def admissible_def claimable_def active_state_def Let_def)
  let ?cap = "f (w_Capacity w)" and ?n = "f (nd_Resources (jr_needs r))" and ?leased = "leased_sum f (w_ID w) (w_Session w) (bk_jobs b')"
  note av = available_for_bounds [OF inv adv assms(5,6,7)]
  have "?n \<le> f (available_for b w)" using row(3) assms(7) by (auto simp: admissible_def fits_def Let_def)
  then have fit: "?n + f (w_Usage w) \<le> ?cap" using av by linarith
  have free: "f (available_for b w) - ?n \<le> ?cap - ?leased" using lease_step_adds [OF step inv assms(7)] av by linarith
  have slots: "0 \<le> rs_Slots (w_Capacity w)" using adv by (simp add: bad_advertisement_def)
  have reserve: "?cap * w_UrgentReserve w \<le> (?cap - ?leased) * rs_Slots (w_Capacity w)" if "jr_priority r < 3"
    using admissible_reserve [OF row(3) that inv row(1) adv assms(5,6,7)] mult_right_mono [OF free slots] by linarith
  let ?r = "lease_job w (bi_token io) (unix_milli (bi_now io + bk_lease b)) r"
  have "?r \<in> set (bk_jobs b')" using row(1) by (auto simp: b')
  moreover have "leased_to (w_ID w) (w_Session w) ?r" "jr_id ?r = at_ID a" "jr_token ?r = at_Token a" "jr_priority ?r = jr_priority r"
    by (simp_all add: leased_to_def lease_job_def a)
  moreover have "?leased \<le> ?cap" using lease_step_inv [OF step assms(3-6) inv] assms(7) by blast
  ultimately show ?thesis using fit reserve a(3) by metis
qed




section \<open>Fencing and verdicts\<close>

text \<open>A token is live while the row that holds it is leased or completed.\<close>

definition live_token :: "broker \<Rightarrow> string \<Rightarrow> bool" where
  "live_token b token = (\<exists>r \<in> set (bk_jobs b). jr_token r = token \<and> (jr_state r = JobLeased \<or> jr_state r = JobCompleted))"

lemma row_change_live: "row_change grow r r' \<Longrightarrow> jr_token r' \<noteq> [] \<Longrightarrow> jr_state r' = JobLeased \<or> jr_state r' = JobCompleted
    \<Longrightarrow> jr_token r' = jr_token r \<and> (jr_state r = JobLeased \<or> jr_state r = JobCompleted)"
  by (cases rule: row_change.cases) auto

lemma quiet_step_live:
  assumes "quiet_step grow b b'" "live_token b' token" "token \<noteq> []"
  shows "live_token b token"
proof -
  from assms(1) obtain f keep new where jobs: "bk_jobs b' = filter keep (map f (bk_jobs b)) @ new" and change: "\<forall>r \<in> set (bk_jobs b). row_change grow r (f r)"
    and new: "\<forall>r \<in> set new. fresh_row b r" unfolding quiet_step_def by fastforce
  from assms(2) obtain s where s: "s \<in> set (bk_jobs b')" "jr_token s = token" "jr_state s = JobLeased \<or> jr_state s = JobCompleted" unfolding live_token_def by blast
  then have "s \<notin> set new" using new by (auto simp: fresh_row_def)
  then obtain r where "r \<in> set (bk_jobs b)" "s = f r" using s(1) by (auto simp: jobs)
  then show ?thesis unfolding live_token_def using row_change_live change s(2,3) assms(3) by metis
qed

lemma broker_step_live:
  assumes "broker_step b b'" "broker_inv b" "token \<in> set (bk_issued b)" "token \<noteq> []" "live_token b' token"
  shows "live_token b token"
proof -
  have d: "distinct_jobs b" using assms(2) by (simp add: broker_inv_def)
  with assms(1) show ?thesis
  proof (cases rule: broker_step_kinds)
    case quiet
    then show ?thesis using quiet_step_live assms(4,5) by blast
  next
    case submit
    then show ?thesis using Submit_quiet d quiet_step_live assms(4,5) by blast
  next
    case (lease w r t)
    then obtain until where jobs: "bk_jobs b' = map (\<lambda>s. if jr_id s = jr_id r then lease_job w t until s else s) (bk_jobs b)" unfolding lease_step_def by blast
    from assms(5) obtain s where s: "s \<in> set (bk_jobs b')" "jr_token s = token" "jr_state s = JobLeased \<or> jr_state s = JobCompleted" unfolding live_token_def by blast
    moreover have "t \<noteq> token" using lease(3) assms(3) by blast
    ultimately have "s \<in> set (bk_jobs b)" by (auto simp: jobs lease_job_def split: if_splits)
    then show ?thesis using s unfolding live_token_def by blast
  qed
qed

lemma broker_step_issued:
  assumes "broker_step b b'" "broker_inv b"
  shows "set (bk_issued b) \<subseteq> set (bk_issued b')"
proof -
  have d: "distinct_jobs b" using assms(2) by (simp add: broker_inv_def)
  with assms(1) show ?thesis
    by (cases rule: broker_step_kinds) (use Submit_quiet [OF _ d] in \<open>auto simp: quiet_step_def lease_step_def\<close>)
qed

lemma broker_steps_live:
  assumes "broker_step\<^sup>*\<^sup>* b b'" "broker_inv b" "token \<in> set (bk_issued b)" "token \<noteq> []" "\<not> live_token b token"
  shows "\<not> live_token b' token"
proof -
  have "broker_inv b' \<and> token \<in> set (bk_issued b') \<and> \<not> live_token b' token" using assms
    by (induction rule: rtranclp_induct) (use broker_step_inv broker_step_issued broker_step_live in blast)+
  then show ?thesis by blast
qed

lemma dead_token_stale:
  assumes "\<not> live_token b token" "token \<noteq> []"
  shows "fst (Complete io i token res b) \<noteq> None \<and> snd (Complete io i token res b) = b \<and> fst (Renew io i token b) \<noteq> None \<and> snd (Renew io i token b) = b"
proof -
  have dead: "jr_state r \<noteq> JobLeased \<and> jr_state r \<noteq> JobCompleted" if "r \<in> set (bk_jobs b)" "jr_token r = token" for r
    using assms(1) that by (auto simp: live_token_def)
  have "fst (Complete io i token res b) \<noteq> None \<and> snd (Complete io i token res b) = b"
    using dead find_job_Some [of b i] by (auto simp: Complete_def split: option.splits)
  moreover have "filter (\<lambda>r. jr_id r = i \<and> jr_token r = token \<and> jr_state r = JobLeased) (bk_jobs b) = []" using dead by (auto simp: filter_empty_conv)
  moreover have "update_jobs (\<lambda>r. jr_id r = i \<and> jr_token r = token \<and> jr_state r = JobLeased) g b = b" for g
    using dead by (intro update_jobs_none) auto
  ultimately show ?thesis by (auto simp: Renew_def Let_def split: option.splits)
qed

text \<open>C18: fencing.  Once the token of an attempt is dead (its job was reassigned, cancelled, released from a removed worker, or dropped), no sequence of steps brings it
  back, the scheduler's restarts included: every later completion or renewal under that token is refused and changes nothing, so a worker that lost its lease can
  neither report a verdict nor keep the job.\<close>

theorem dead_token_fenced:
  assumes "broker_reachable b" "token \<in> set (bk_issued b)" "token \<noteq> []" "\<not> live_token b token" "broker_step\<^sup>*\<^sup>* b b'"
  shows "fst (Complete io i token res b') \<noteq> None \<and> snd (Complete io i token res b') = b'
    \<and> fst (Renew io i token b') \<noteq> None \<and> snd (Renew io i token b') = b'"
  using dead_token_stale [OF broker_steps_live [OF assms(5) reachable_broker_inv [OF assms(1)] assms(2,3,4)] assms(3)] by blast

lemma quiet_step_verdict:
  assumes "quiet_step grow b b'" "distinct_jobs b" "r \<in> set (bk_jobs b)" "jr_state r = JobCompleted" "jr_id r \<in> jr_id ` set (bk_jobs b')"
  shows "\<exists>r' \<in> set (bk_jobs b'). same_job r r' \<and> jr_state r' = JobCompleted \<and> jr_result r' = jr_result r"
proof -
  from assms(1) obtain f keep new where jobs: "bk_jobs b' = filter keep (map f (bk_jobs b)) @ new" and change: "\<forall>r \<in> set (bk_jobs b). row_change grow r (f r)"
    and new: "\<forall>r \<in> set new. fresh_row b r" unfolding quiet_step_def by fastforce
  from assms(5) obtain s where s: "s \<in> set (bk_jobs b')" "jr_id s = jr_id r" by force
  then have "s \<notin> set new" using new assms(3) by (auto simp: fresh_row_def)
  then obtain q where q: "q \<in> set (bk_jobs b)" "s = f q" using s(1) by (auto simp: jobs)
  then have "jr_id q = jr_id r" using change row_change_same s(2) unfolding same_job_def by metis
  then have "q = r" using same_row [OF assms(2) q(1) assms(3)] by blast
  moreover have "same_job r (f r) \<and> jr_state (f r) = JobCompleted \<and> jr_result (f r) = jr_result r"
    using bspec [OF change assms(3)] assms(4) by (cases rule: row_change.cases) (auto simp: active_state_def)
  ultimately show ?thesis using s(1) q(2) by blast
qed

lemma broker_step_verdict:
  assumes "broker_step b b'" "distinct_jobs b" "r \<in> set (bk_jobs b)" "jr_state r = JobCompleted" "jr_id r \<in> jr_id ` set (bk_jobs b')"
  shows "\<exists>r' \<in> set (bk_jobs b'). same_job r r' \<and> jr_state r' = JobCompleted \<and> jr_result r' = jr_result r"
  using assms(1,2)
proof (cases rule: broker_step_kinds)
  case (lease w q t)
  then obtain until where jobs: "bk_jobs b' = map (\<lambda>s. if jr_id s = jr_id q then lease_job w t until s else s) (bk_jobs b)" and q: "q \<in> set (bk_jobs b)" "active_state q"
    unfolding lease_step_def by blast
  then have "jr_id r \<noteq> jr_id q" using same_row [OF assms(2,3) q(1)] assms(4) by (auto simp: active_state_def)
  then have "r \<in> set (bk_jobs b')" using assms(3) by (force simp: jobs)
  then show ?thesis using assms(4) same_job_refl by blast
qed (use quiet_step_verdict assms(2-) Submit_quiet in blast)+

text \<open>C19: verdicts.  In every reachable state a completed job holds a result, and it is about that job: its name, command, run, commit, verification and attempt are those
  of the row, whatever the worker sent, its verdict is passed, failed or skipped, it is not marked reused and its output is bounded.  No step changes a stored
  result; a row with one stays completed until it is deleted.\<close>

theorem verdict_kept:
  assumes "broker_reachable b" "r \<in> set (bk_jobs b)" "jr_state r = JobCompleted"
  shows "\<exists>res. jr_result r = Some res \<and> about_job r res
    \<and> (\<forall>b'. broker_step b b' \<longrightarrow> jr_id r \<notin> jr_id ` set (bk_jobs b')
         \<or> (\<exists>r' \<in> set (bk_jobs b'). same_job r r' \<and> jr_state r' = JobCompleted \<and> jr_result r' = Some res))"
proof -
  have inv: "broker_inv b" by (rule reachable_broker_inv [OF assms(1)])
  then have "row_ok (bk_issued b) r" using assms(2) by (simp add: broker_inv_def)
  then obtain res where res: "jr_result r = Some res" "about_job r res" using assms(3) by (auto simp: row_ok_def)
  then show ?thesis using broker_step_verdict [OF _ _ assms(2,3)] inv unfolding broker_inv_def by metis
qed


section \<open>A small history\<close>

text \<open>One job is submitted, claimed, and, its lease run out, claimed again by a second session of the worker; then it is completed.\<close>

definition demo_io :: "go_time \<Rightarrow> string \<Rightarrow> broker_io" where
  "demo_io now token = \<lparr>bi_now = now, bi_tx = None, bi_fault = (\<lambda>_. None), bi_token = token, bi_key = (\<lambda>k parent _ _. k @ ''/'' @ parent)\<rparr>"

definition demo_resources :: "int \<Rightarrow> resources" where
  "demo_resources n = \<lparr>rs_Slots = n, rs_CPU = n * 1000, rs_Memory = n * 1000000\<rparr>"

definition demo_worker :: "string \<Rightarrow> worker" where
  "demo_worker session = \<lparr>w_ImageProfiles = [], w_ServiceProfiles = [], w_ID = ''w1'', w_Session = session, w_Profiles = [''ci''], w_Labels = [],
     w_Capacity = demo_resources 4, w_Usage = demo_resources 0, w_UrgentReserve = 1, w_Draining = False\<rparr>"

definition demo_job :: check_job where
  "demo_job = check_job_zero\<lparr>j_Name := ''test'', j_Command := [''make'', ''test''], j_Executor := ''ci'', j_RunID := ''run1'', j_MergeSHA := ''abc''\<rparr>"

definition demo_needs :: requirements where
  "demo_needs = \<lparr>nd_Labels = [], nd_Resources = demo_resources 2\<rparr>"

definition demo_broker :: broker where
  "demo_broker = \<lparr>bk_epoch = ''e1'', bk_waiters = [], bk_closed = False, bk_born = 0, bk_lease = 60000000000, bk_grace = 0, bk_jobs = [],
                bk_peers = [], bk_issued = []\<rparr>"

definition demo_submitted :: broker where
  "demo_submitted = snd (Submit (demo_io 1000000000 ''x'') ''root'' demo_job demo_needs 1 demo_broker)"

definition demo_claimed :: "(broker_error + attempt option) \<times> broker" where
  "demo_claimed = Claim (demo_io 2000000000 ''t1'') (demo_worker ''s1'') demo_submitted"

definition demo_reclaimed :: "(broker_error + attempt option) \<times> broker" where
  "demo_reclaimed = Claim (demo_io 200000000000 ''t2'') (demo_worker ''s2'') (snd demo_claimed)"

definition demo_result :: worker_result where
  "demo_result = \<lparr>wr_AttemptLogPath = [], wr_Check = check_result_zero\<lparr>cr_Name := ''forged'', cr_Status := CheckPassed\<rparr>, wr_Error = [], wr_LogDigest = []\<rparr>"

definition demo_completed :: "broker_error option \<times> broker" where
  "demo_completed = Complete (demo_io 210000000000 ''t3'') ''root/'' ''t2'' demo_result (snd demo_reclaimed)"

lemma demo_attempt: "map_sum id (map_option at_ID) (fst demo_claimed) = Inr (Some ''root/'')" "bk_issued demo_submitted = []" "bk_issued (snd demo_claimed) = [''t1'']"
  by code_simp+

lemma demo_resources_i64: "resources_i64 (w_Capacity (demo_worker s))" "resources_i64 (w_Usage (demo_worker s))" "resources_i64 (nd_Resources demo_needs)"
  by (simp_all add: demo_worker_def demo_needs_def demo_resources_def resources_i64_def in_i64_def)

lemma demo_submitted_reachable: "broker_reachable demo_submitted"
proof -
  have "broker_reachable demo_broker" by (rule opened [of "''e1''" 0 60000000000 0]) (simp add: Open_broker_def demo_broker_def)
  moreover have "broker_step demo_broker demo_submitted" unfolding demo_submitted_def by (rule broker_step.submit [OF prod.collapse [symmetric] demo_resources_i64(3)])
  ultimately show ?thesis by (rule next_state)
qed

lemma demo_claimed_reachable: "broker_reachable (snd demo_claimed)"
proof -
  have "broker_step demo_submitted (snd demo_claimed)"
    by (rule broker_step.claim [of "demo_io 2000000000 ''t1''" "demo_worker ''s1''" _ "fst demo_claimed"])
      (simp_all add: demo_claimed_def demo_io_def demo_attempt demo_resources_i64)
  then show ?thesis using demo_submitted_reachable next_state by blast
qed

lemma demo_reclaimed_reachable: "broker_reachable (snd demo_reclaimed)"
proof -
  have "broker_step (snd demo_claimed) (snd demo_reclaimed)"
    by (rule broker_step.claim [of "demo_io 200000000000 ''t2''" "demo_worker ''s2''" _ "fst demo_reclaimed"])
      (simp_all add: demo_reclaimed_def demo_io_def demo_attempt demo_resources_i64)
  then show ?thesis using demo_claimed_reachable next_state by blast
qed

lemma demo_completed_reachable: "broker_reachable (snd demo_completed)"
proof -
  have "broker_step (snd demo_reclaimed) (snd demo_completed)"
    unfolding demo_completed_def by (rule broker_step.complete [OF prod.collapse [symmetric]])
  then show ?thesis using demo_reclaimed_reachable next_state by blast
qed

lemma demo_chosen: "\<exists>a. Claim (demo_io 2000000000 ''t1'') (demo_worker ''s1'') demo_submitted = (Inr (Some a), snd demo_claimed) \<and> at_ID a = ''root/''"
proof -
  obtain a where "fst demo_claimed = Inr (Some a)" "at_ID a = ''root/''" using demo_attempt(1) by (cases "fst demo_claimed") (auto simp: map_option_case split: option.splits)
  then show ?thesis unfolding demo_claimed_def by (metis prod.collapse)
qed

theorem Claim_within_capacity_witness: "leased_sum rs_CPU ''w1'' ''s1'' (bk_jobs (snd demo_claimed)) \<le> 4000"
proof -
  obtain a where a: "Claim (demo_io 2000000000 ''t1'') (demo_worker ''s1'') demo_submitted = (Inr (Some a), snd demo_claimed)" using demo_chosen by blast
  have "leased_sum rs_CPU (w_ID (demo_worker ''s1'')) (w_Session (demo_worker ''s1'')) (bk_jobs (snd demo_claimed)) \<le> rs_CPU (w_Capacity (demo_worker ''s1''))"
    using Claim_within_capacity [OF demo_submitted_reachable a, of rs_CPU] demo_resources_i64 by (simp add: demo_io_def demo_attempt)
  then show ?thesis by (simp add: demo_worker_def demo_resources_def)
qed


theorem dead_token_fenced_witness: "fst (Complete (demo_io 210000000000 ''t3'') ''root/'' ''t1'' demo_result (snd demo_reclaimed)) \<noteq> None"
proof -
  have "\<not> live_token (snd demo_reclaimed) ''t1''" "''t1'' \<in> set (bk_issued (snd demo_reclaimed))" by code_simp+
  then show ?thesis using dead_token_fenced [OF demo_reclaimed_reachable] by blast
qed

definition demo_row :: job_row where
  "demo_row = \<lparr>jr_id = ''root/'', jr_job = demo_job, jr_needs = demo_needs, jr_priority = 1, jr_created = unix_milli 1000000000, jr_wanted = unix_milli 1000000000,
     jr_state = JobLeased, jr_root = ''root'', jr_parent = [], jr_epoch = ''e1'', jr_worker = ''w1'', jr_session = ''s2'', jr_token = ''t2'',
     jr_lease = unix_milli 260000000000, jr_result = None\<rparr>"

lemma demo_rows: "bk_jobs (snd demo_reclaimed) = [demo_row]"
  by code_simp

lemma demo_job_sel: "j_TestResults demo_job = []" "j_Name demo_job = ''test''"
  by (simp_all add: demo_job_def check_job_zero_def)

lemma demo_verdict: "list_ex (\<lambda>r. jr_state r = JobCompleted \<and> j_Name (jr_job r) = ''test'') (bk_jobs (snd demo_completed))"
proof -
  have row: "find_job (snd demo_reclaimed) ''root/'' = Some demo_row" by (simp add: find_job_def demo_rows demo_row_def)
  have sel: "jr_token demo_row = ''t2''" "jr_state demo_row = JobLeased" "jr_job demo_row = demo_job" "jr_parent demo_row = []" "jr_id demo_row = ''root/''"
    by (simp_all add: demo_row_def)
  have res: "cr_Err (wr_Check demo_result) = None" "cr_Status (wr_Check demo_result) = CheckPassed" "\<not> result_too_large demo_result"
    by (simp_all add: demo_result_def check_result_zero_def result_too_large_def)
  show ?thesis
    by (simp add: demo_completed_def Complete_def demo_io_def row sel res demo_job_sel finished_result_def update_jobs_def demo_rows Let_def)
qed

theorem verdict_kept_witness: "\<exists>r \<in> set (bk_jobs (snd demo_completed)). jr_state r = JobCompleted \<and> (\<exists>res. jr_result r = Some res \<and> cr_Name (wr_Check res) = ''test'')"
proof -
  obtain r where r: "r \<in> set (bk_jobs (snd demo_completed))" "jr_state r = JobCompleted" "j_Name (jr_job r) = ''test''"
    using demo_verdict by (auto simp: list_ex_iff)
  from verdict_kept [OF demo_completed_reachable r(1,2)] obtain res where "jr_result r = Some res" "about_job r res" by blast
  then show ?thesis using r by (auto simp: about_job_def stamped_def Let_def)
qed

end
