(* ===== verification/Workers_Upkeep.thy ===== *)
theory Workers_Upkeep
  imports Workers_Lease
begin

text \<open>
  The broker over time: the bound on its backlog, what maintenance may drop, when a worker's machine may be removed, and what becomes of a cancelled retry.
\<close>

section \<open>The backlog\<close>

lemma row_change_active: "row_change False r r' \<Longrightarrow> active_state r' \<Longrightarrow> active_state r"
  by (cases rule: row_change.cases) (auto simp: active_state_def)

lemma filter_map_le: "(\<And>x. x \<in> set xs \<Longrightarrow> P (f x) \<Longrightarrow> P x) \<Longrightarrow> length (filter P (filter keep (map f xs))) \<le> length (filter P xs)"
  by (induction xs) (auto simp: le_SucI)

lemma quiet_step_active:
  assumes "quiet_step False b b'"
  shows "active_jobs b' \<le> active_jobs b"
proof -
  from assms obtain f keep where "bk_jobs b' = filter keep (map f (bk_jobs b))" "\<forall>r \<in> set (bk_jobs b). row_change False r (f r)" unfolding quiet_step_def by auto
  then show ?thesis using filter_map_le [of "bk_jobs b" active_state f keep] row_change_active by (fastforce simp: active_jobs_def)
qed

lemma filter_update_one:
  assumes "distinct (map jr_id rows)"
  shows "length (filter P (map (\<lambda>s. if jr_id s = i then g s else s) rows)) \<le> Suc (length (filter P rows))"
  using assms
proof (induction rows)
  case (Cons r rows)
  show ?case
  proof (cases "jr_id r = i")
    case True
    then have "map (\<lambda>s. if jr_id s = i then g s else s) rows = rows" using Cons.prems by (intro map_idI) (auto simp: image_iff)
    then show ?thesis using True by simp
  qed (use Cons in auto)
qed simp

lemma active_update_one: "distinct_jobs b \<Longrightarrow> active_jobs (update_jobs (\<lambda>s. jr_id s = i) g b) \<le> active_jobs b + 1"
  using filter_update_one [of "bk_jobs b" active_state i g] by (simp add: active_jobs_def update_jobs_def)

lemma active_update_same: "(\<And>s. active_state (g s) = active_state s) \<Longrightarrow> active_jobs (update_jobs P g b) = active_jobs b"
proof -
  assume "\<And>s. active_state (g s) = active_state s"
  then have "length (filter active_state (map (\<lambda>s. if P s then g s else s) rows)) = length (filter active_state rows)" for rows by (induction rows) auto
  then show ?thesis by (simp add: active_jobs_def update_jobs_def)
qed

lemma submit_new_active: "submit_new io k parent job needs priority b = (r, b') \<Longrightarrow> active_jobs b' \<le> max (active_jobs b) 10000"
  by (auto simp: submit_new_def insert_job_def Let_def active_update_same active_state_def split: if_splits option.splits) (simp add: active_jobs_def)

lemma submit_adopt_active:
  assumes "submit_adopt io r b = (res, b')" "distinct_jobs b"
  shows "active_jobs b' \<le> max (active_jobs b) 10000"
proof -
  have adopt: "active_jobs (update_jobs (\<lambda>s. jr_id s = jr_id r) (\<lambda>s. s\<lparr>jr_wanted := unix_milli (bi_now io), jr_epoch := bk_epoch b\<rparr>) c) = active_jobs c" for c
    by (rule active_update_same) (simp add: active_state_def)
  show ?thesis using assms(1) active_update_one [OF assms(2), of "jr_id r"] by (auto simp: submit_adopt_def Let_def adopt split: if_splits) (smt (verit))
qed

lemma Submit_active: "Submit io k job needs priority b = (r, b') \<Longrightarrow> distinct_jobs b \<Longrightarrow> active_jobs b' \<le> max (active_jobs b) 10000"
  by (auto simp: Submit_def Let_def split: if_splits option.splits dest: submit_new_active submit_adopt_active)

lemma lease_step_active:
  assumes "lease_step w r token b b'" "distinct_jobs b"
  shows "active_jobs b' = active_jobs b"
proof -
  from assms(1) obtain until where jobs: "bk_jobs b' = map (\<lambda>s. if jr_id s = jr_id r then lease_job w token until s else s) (bk_jobs b)" and r: "r \<in> set (bk_jobs b)" "active_state r"
    unfolding lease_step_def by blast
  have "active_state (if jr_id s = jr_id r then lease_job w token until s else s) = active_state s" if "s \<in> set (bk_jobs b)" for s
    using same_row [OF assms(2) that r(1)] r(2) by (auto simp: active_state_def lease_job_def)
  then have "length (filter active_state (map (\<lambda>s. if jr_id s = jr_id r then lease_job w token until s else s) (bk_jobs b))) = length (filter active_state (bk_jobs b))"
    by (simp add: filter_map comp_def cong: filter_cong)
  then show ?thesis by (simp add: active_jobs_def jobs)
qed

text \<open>the backlog is bounded.  Whatever is submitted, resubmitted, released and restarted, no more than 10000 jobs are pending or leased at a time.\<close>

theorem backlog_bounded: "broker_reachable b \<Longrightarrow> active_jobs b \<le> 10000"
proof (induction rule: broker_reachable.induct)
  case (opened epoch now lease reconnectGrace b)
  then show ?case by (auto simp: Open_broker_def active_jobs_def split: if_splits)
next
  case (next_state b b')
  have d: "distinct_jobs b" using reachable_broker_inv [OF next_state(1)] by (simp add: broker_inv_def)
  with next_state(2) show ?case
  proof (cases rule: broker_step_kinds)
    case quiet
    then show ?thesis using quiet_step_active next_state(3) by fastforce
  next
    case submit
    then show ?thesis using Submit_active [OF _ d] next_state(3) by fastforce
  next
    case (lease w r token)
    then show ?thesis using lease_step_active [OF _ d] next_state(3) by simp
  qed
qed

theorem backlog_bounded_witness: "active_jobs demo_submitted \<le> 10000"
  by (rule backlog_bounded [OF demo_submitted_reachable])


section \<open>Maintenance\<close>



section \<open>Removing a worker's machine\<close>

text \<open>Every lease is held by a worker the broker knows.\<close>

definition leases_known :: "broker \<Rightarrow> bool" where
  "leases_known b = (\<forall>r \<in> set (bk_jobs b). jr_state r = JobLeased \<longrightarrow> jr_worker r \<in> pe_id ` set (bk_peers b))"

lemma quiet_step_leases:
  assumes "quiet_step grow b b'" "leases_known b"
    "\<And>p. p \<in> pe_id ` set (bk_peers b) \<Longrightarrow> p \<notin> pe_id ` set (bk_peers b') \<Longrightarrow> \<not> list_ex (\<lambda>r. jr_worker r = p \<and> jr_state r = JobLeased) (bk_jobs b')"
  shows "leases_known b'"
  unfolding leases_known_def
proof (intro ballI impI)
  fix s assume s: "s \<in> set (bk_jobs b')" "jr_state s = JobLeased"
  from assms(1) obtain f keep new where jobs: "bk_jobs b' = filter keep (map f (bk_jobs b)) @ new" and change: "\<forall>r \<in> set (bk_jobs b). row_change grow r (f r)"
    and new: "\<forall>r \<in> set new. fresh_row b r" unfolding quiet_step_def by fastforce
  have "s \<notin> set new" using s(2) new by (auto simp: fresh_row_def)
  then obtain r where r: "r \<in> set (bk_jobs b)" "s = f r" using s(1) by (auto simp: jobs)
  have "jr_state r = JobLeased \<and> jr_worker s = jr_worker r" using bspec [OF change r(1)] s(2) r(2) by (cases rule: row_change.cases) auto
  then have "jr_worker s \<in> pe_id ` set (bk_peers b)" using assms(2) r(1) by (simp add: leases_known_def)
  then show "jr_worker s \<in> pe_id ` set (bk_peers b')" using assms(3) s by (auto simp: list_ex_iff)
qed

lemma map_peer_ids: "(\<And>p. pe_id (g p) = pe_id p) \<Longrightarrow> pe_id ` set (map g ps) = pe_id ` set ps"
  by (auto simp: image_iff)

lemma flag_peer_ids [simp]: "pe_id ` set (map (\<lambda>p. if pe_id p = worker then p\<lparr>pe_draining := flag\<rparr> else p) ps) = pe_id ` set ps"
  by (rule map_peer_ids) simp

lemma quiet_step_same_peers: "quiet_step grow b b' \<Longrightarrow> leases_known b \<Longrightarrow> pe_id ` set (bk_peers b) \<subseteq> pe_id ` set (bk_peers b') \<Longrightarrow> leases_known b'"
  by (rule quiet_step_leases) blast+

lemma find_peer_Some: "find_peer b i = Some p \<Longrightarrow> p \<in> set (bk_peers b) \<and> pe_id p = i"
  unfolding find_peer_def by (metis (mono_tags, lifting) find_Some_iff nth_mem)

lemma find_peer_None: "find_peer b i = None \<longleftrightarrow> i \<notin> pe_id ` set (bk_peers b)"
  by (auto simp: find_peer_def find_None_iff)

lemma put_peer_ids: "pe_id ` set (bk_peers (put_peer w t b)) = insert (w_ID w) (pe_id ` set (bk_peers b))"
proof (cases "find_peer b (w_ID w)")
  case (Some p)
  have "pe_id ` set (map (\<lambda>p. if pe_id p = w_ID w then p\<lparr>pe_session := w_Session w, pe_seen := t, pe_data := w\<rparr> else p) (bk_peers b)) = pe_id ` set (bk_peers b)"
    by (rule map_peer_ids) simp
  moreover have "w_ID w \<in> pe_id ` set (bk_peers b)" using find_peer_Some [OF Some] by (metis imageI)
  ultimately show ?thesis by (simp add: put_peer_def Some insert_absorb del: set_map)
qed (auto simp: put_peer_def)

lemma Claim_peers: "Claim io w b = (res, b') \<Longrightarrow> pe_id ` set (bk_peers b) \<subseteq> pe_id ` set (bk_peers b') \<and> ((\<exists>a. res = Inr (Some a)) \<longrightarrow> w_ID w \<in> pe_id ` set (bk_peers b'))"
  by (auto simp: Claim_def Let_def update_jobs_def put_peer_ids simp del: set_map split: if_splits option.splits)


lemma Maintain_peers:
  assumes "Maintain io orphanGrace retention b = (err, b')" "p \<in> pe_id ` set (bk_peers b)" "p \<notin> pe_id ` set (bk_peers b')"
  shows "\<not> list_ex (\<lambda>r. jr_worker r = p \<and> jr_state r = JobLeased) (bk_jobs b')"
proof -
  have cancel: "bk_peers (snd (maintain_each io n cancel_row ids b)) = bk_peers b" for n ids and b
    by (induction ids arbitrary: n b) (auto simp: cancel_row_def update_jobs_def split: option.split)
  have delete: "bk_peers (snd (maintain_each io n delete_row ids b)) = bk_peers b" for n ids and b
    by (induction ids arbitrary: n b) (auto simp: delete_row_def split: option.split)
  let ?cancel = "map jr_id (filter (orphaned io b orphanGrace) (bk_jobs b))" and ?remove = "map jr_id (filter (expired io b orphanGrace retention) (bk_jobs b))"
  obtain e1 b1 where c: "maintain_each io 1 cancel_row ?cancel b = (e1, b1)" by fastforce
  obtain e2 b2 where d: "maintain_each io (1 + length ?cancel) delete_row ?remove b1 = (e2, b2)" by fastforce
  have peers: "bk_peers b1 = bk_peers b" "bk_peers b2 = bk_peers b" using cancel [of 1 ?cancel b, unfolded c] delete [of "1 + length ?cancel" ?remove b1, unfolded d] by simp_all
  have "bk_peers b' = bk_peers b \<or> b' = b2\<lparr>bk_peers := filter (\<lambda>p. \<not> (pe_seen p < unix_milli (bi_now io - retention)
      \<and> \<not> list_ex (\<lambda>r. jr_worker r = pe_id p \<and> jr_state r = JobLeased) (bk_jobs b2))) (bk_peers b2)\<rparr>"
    using assms(1) c d peers by (auto simp: Maintain_def Let_def split: option.splits if_splits)
  then show ?thesis using assms(2,3) peers by (auto simp: image_iff)
qed

lemma broker_step_leases:
  assumes "broker_step b b'" "distinct_jobs b" "leases_known b"
  shows "leases_known b'"
  using assms(1)
proof cases
  case (claim io w res)
  note peers = Claim_peers [OF claim(1)]
  show ?thesis
  proof (cases "\<exists>a. res = Inr (Some a)")
    case True
    then obtain a r where r: "lease_step w r (bi_token io) b b'" using claim(1) Claim_lease by metis
    then obtain until where jobs: "bk_jobs b' = map (\<lambda>s. if jr_id s = jr_id r then lease_job w (bi_token io) until s else s) (bk_jobs b)" unfolding lease_step_def by blast
    show ?thesis unfolding leases_known_def
    proof (intro ballI impI)
      fix s assume s: "s \<in> set (bk_jobs b')" "jr_state s = JobLeased"
      then have "jr_worker s = w_ID w \<or> s \<in> set (bk_jobs b)" by (auto simp: jobs lease_job_def)
      then show "jr_worker s \<in> pe_id ` set (bk_peers b')" using assms(3) peers True s(2) unfolding leases_known_def by fastforce
    qed
  next
    case False
    show ?thesis by (rule quiet_step_same_peers [OF Claim_idle [OF claim(1) False] assms(3)]) (use peers in blast)
  qed
next
  case (renew io i token err)
  let ?jobs = "bk_jobs (update_jobs (\<lambda>r. jr_id r = i \<and> jr_token r = token \<and> jr_state r = JobLeased) (\<lambda>r. r\<lparr>jr_lease := unix_milli (bi_now io + bk_lease b)\<rparr>) b)"
  let ?g = "\<lambda>p. if list_ex (\<lambda>r. jr_id r = i \<and> jr_token r = token \<and> jr_worker r = pe_id p \<and> jr_session r = pe_session p) ?jobs then p\<lparr>pe_seen := unix_milli (bi_now io)\<rparr> else p"
  have "bk_peers b' = bk_peers b \<or> bk_peers b' = map ?g (bk_peers b)" using renew by (auto simp: Renew_def Let_def update_jobs_def split: option.splits if_splits)
  then have "pe_id ` set (bk_peers b) \<subseteq> pe_id ` set (bk_peers b')" using map_peer_ids [of ?g "bk_peers b"] by auto
  then show ?thesis using quiet_step_same_peers [OF Renew_quiet [OF renew]] assms(3) by blast
next
  case (complete io i token res err)
  have "bk_peers b' = bk_peers b"
  proof (cases "b' = b")
    case False
    with complete show ?thesis by (rule Complete_cases) (simp add: update_jobs_def)
  qed simp
  then show ?thesis using quiet_step_same_peers [OF Complete_quiet [OF complete assms(2)]] assms(3) by simp
next
  case (cancel io i err)
  have "bk_peers b' = bk_peers b" using cancel by (auto simp: Cancel_def update_jobs_def split: option.splits)
  then show ?thesis using quiet_step_same_peers [OF Cancel_quiet [OF cancel]] assms(3) by simp
next
  case (cancel_unwatched io i err)
  have "bk_peers b' = bk_peers b" using cancel_unwatched by (auto simp: cancelUnwatched_def Cancel_def update_jobs_def split: option.splits if_splits)
  then show ?thesis using quiet_step_same_peers [OF cancelUnwatched_quiet [OF cancel_unwatched]] assms(3) by simp
next
  case (submit io rootKey job needs priority r)
  have "bk_peers b' = bk_peers b"
    using submit(1) by (auto simp: Submit_def submit_new_def submit_adopt_def insert_job_def Let_def update_jobs_def split: option.splits if_splits)
  then show ?thesis using quiet_step_same_peers [OF Submit_quiet [OF submit(1) assms(2) submit(2)]] assms(3) by simp
next
  case (forget io i)
  have "bk_peers b' = bk_peers b" using forget by (auto simp: forgetCompleted_def)
  then show ?thesis using quiet_step_same_peers [OF forgetCompleted_quiet [of _ b io i]] assms(3) forget by simp
next
  case (drain io worker draining err)
  have "pe_id ` set (bk_peers b) \<subseteq> pe_id ` set (bk_peers b')" using drain by (auto simp: Drain_worker_def simp del: set_map split: option.splits if_splits)
  then show ?thesis using quiet_step_same_peers [OF Drain_quiet [OF drain]] assms(3) by blast
next
  case (keep io runID sha err)
  have "bk_peers b' = bk_peers b" using keep by (auto simp: KeepRun_def update_jobs_def split: option.splits)
  then show ?thesis using quiet_step_same_peers [OF KeepRun_quiet [OF keep]] assms(3) by simp
next
  case (maintain io orphanGrace retention err)
  then show ?thesis using quiet_step_leases [OF Maintain_quiet [OF _ assms(2)] assms(3)] Maintain_peers by blast
next
  case (removal io worker before offline r)
  have "pe_id ` set (bk_peers b) \<subseteq> pe_id ` set (bk_peers b')" using removal by (auto simp: drainForRemoval_def Let_def update_jobs_def simp del: set_map split: option.splits if_splits)
  then show ?thesis using quiet_step_same_peers [OF removal_quiet [OF removal]] assms(3) by blast
qed (use assms(3) in \<open>auto simp: leases_known_def wait_begin_def wait_end_def Close_broker_def Open_broker_def Let_def split: if_splits\<close>)

lemma reachable_leases_known: "broker_reachable b \<Longrightarrow> leases_known b"
proof (induction rule: broker_reachable.induct)
  case (opened epoch now lease reconnectGrace b)
  then show ?case by (auto simp: Open_broker_def leases_known_def split: if_splits)
next
  case (next_state b b')
  have "distinct_jobs b" using reachable_broker_inv [OF next_state(1)] by (simp add: broker_inv_def)
  then show ?case using broker_step_leases next_state by blast
qed

lemma drained_claims_nothing:
  assumes "find_peer b worker \<noteq> None" "\<forall>p \<in> set (bk_peers b). pe_id p = worker \<longrightarrow> pe_draining p" "w_ID w = worker"
  shows "Claim io w b \<noteq> (Inr (Some a), b')"
proof
  assume "Claim io w b = (Inr (Some a), b')"
  then have "case find_peer b (w_ID w) of Some p \<Rightarrow> \<not> pe_draining p | None \<Rightarrow> True" by (rule Claim_chosen)
  then show False using assms find_peer_Some [of b worker] by (auto split: option.splits)
qed

lemma removal_cases:
  assumes "drainForRemoval io worker before offline b = (Inr True, b')"
  obtains (unknown) "find_peer b worker = None" "b' = b"
  | (idle) "bk_jobs b' = bk_jobs b" "\<forall>r \<in> set (bk_jobs b). \<not> (jr_worker r = worker \<and> jr_state r = JobLeased)"
      "bk_peers b' = map (\<lambda>p. if pe_id p = worker then p\<lparr>pe_draining := True\<rparr> else p) (bk_peers b)"
  | (revoked) offline "\<forall>r \<in> set (bk_jobs b). jr_worker r = worker \<and> jr_state r = JobLeased \<longrightarrow> jr_lease r < unix_milli (bi_now io)"
      "bk_jobs b' = map (\<lambda>r. if jr_worker r = worker \<and> jr_state r = JobLeased
         then r\<lparr>jr_state := JobPending, jr_token := [], jr_worker := [], jr_session := [], jr_lease := 0\<rparr> else r) (bk_jobs b)"
      "bk_peers b' = map (\<lambda>p. if pe_id p = worker then p\<lparr>pe_draining := True\<rparr> else p) (bk_peers b)"
proof (cases "find_peer b worker")
  case None
  then show thesis using assms unknown by (auto simp: drainForRemoval_def split: option.splits)
next
  case (Some p)
  show thesis
  proof (cases offline)
    case True
    then have "b' = (update_jobs (\<lambda>r. jr_worker r = worker \<and> jr_state r = JobLeased)
        (\<lambda>r. r\<lparr>jr_state := JobPending, jr_token := [], jr_worker := [], jr_session := [], jr_lease := 0\<rparr>) b)
        \<lparr>bk_peers := map (\<lambda>p. if pe_id p = worker then p\<lparr>pe_draining := True\<rparr> else p) (bk_peers b)\<rparr>"
      "\<not> list_ex (\<lambda>r. unix_milli (bi_now io) \<le> jr_lease r) (filter (\<lambda>r. jr_worker r = worker \<and> jr_state r = JobLeased) (bk_jobs b))"
      using assms Some by (auto simp: drainForRemoval_def Let_def update_jobs_def split: option.splits if_splits)
    then show thesis using True by (intro revoked) (auto simp: update_jobs_def list_ex_iff)
  next
    case False
    then have "filter (\<lambda>r. jr_worker r = worker \<and> jr_state r = JobLeased) (bk_jobs b) = []"
      "b' = b\<lparr>bk_peers := map (\<lambda>p. if pe_id p = worker then p\<lparr>pe_draining := True\<rparr> else p) (bk_peers b)\<rparr>"
      using assms Some by (auto simp: drainForRemoval_def Let_def split: option.splits if_splits)
    then show thesis by (intro idle) (auto simp: filter_empty_conv)
  qed
qed

lemma drained_peers:
  assumes "bk_peers b' = map (\<lambda>p. if pe_id p = worker then p\<lparr>pe_draining := True\<rparr> else p) (bk_peers b)" "find_peer b worker \<noteq> None"
  shows "find_peer b' worker \<noteq> None" "\<forall>p \<in> set (bk_peers b'). pe_id p = worker \<longrightarrow> pe_draining p"
proof -
  have "pe_id ` set (bk_peers b') = pe_id ` set (bk_peers b)" unfolding assms(1) by (rule map_peer_ids) simp
  then show "find_peer b' worker \<noteq> None" using assms(2) find_peer_None [of b worker] find_peer_None [of b' worker] by simp
  show "\<forall>p \<in> set (bk_peers b'). pe_id p = worker \<longrightarrow> pe_draining p"
  proof (intro ballI impI)
    fix p assume "p \<in> set (bk_peers b')" "pe_id p = worker"
    then obtain q where "p = (if pe_id q = worker then q\<lparr>pe_draining := True\<rparr> else q)" unfolding assms(1) set_map by blast
    then show "pe_draining p" using \<open>pe_id p = worker\<close> by (simp split: if_splits)
  qed
qed


definition demo_removed :: "(broker_error + bool) \<times> broker" where
  "demo_removed = drainForRemoval (demo_io 400000000000 ''x'') ''w1'' 300000000000 True (snd demo_claimed)"


section \<open>A cancelled retry\<close>

lemma find_job_update:
  assumes "find_job b i = Some r" "\<And>s. jr_id (g s) = jr_id s"
  shows "find_job (update_jobs (\<lambda>s. jr_id s = i) g b) i = Some (g r)"
proof -
  have "find (\<lambda>r. jr_id r = i) (map (\<lambda>s. if jr_id s = i then g s else s) rows) = map_option g (find (\<lambda>r. jr_id r = i) rows)" for rows
    using assms(2) by (induction rows) auto
  then show ?thesis using assms(1) by (simp add: find_job_def update_jobs_def)
qed

text \<open>C40: resubmitting a cancelled job.  A first attempt that was cancelled is pending again after it is submitted once more.  A retry is not: the submission finds the
  cancelled row under the retry's own key, returns its identity and renews its owner, but leaves it cancelled, so that waiting for it fails at once.\<close>

theorem cancelled_retry_stays:
  assumes "distinct_jobs b" "Submit io k job needs priority b = (Inr i, b')" "find_job b i = Some r" "jr_state r = JobCancelled"
  shows "(j_PreviousExecution job = [] \<and> latest_of_root k b \<noteq> None \<longrightarrow> (\<exists>r'. find_job b' i = Some r' \<and> jr_state r' = JobPending))
    \<and> (j_PreviousExecution job \<noteq> [] \<longrightarrow> (\<exists>r'. find_job b' i = Some r' \<and> jr_state r' = JobCancelled)
         \<and> (\<not> bk_closed b \<and> bi_fault io 0 = None \<longrightarrow> wait_look io i b' = Some (Inl ErrStale)))"
proof -
  let ?adopt = "\<lambda>s. s\<lparr>jr_wanted := unix_milli (bi_now io), jr_epoch := bk_epoch b\<rparr>"
    and ?revive = "\<lambda>s. s\<lparr>jr_state := JobPending, jr_token := [], jr_lease := 0, jr_worker := [], jr_session := []\<rparr>"
    and ?renew = "\<lambda>s. s\<lparr>jr_wanted := unix_milli (bi_now io), jr_priority := priority, jr_epoch := bk_epoch b\<rparr>"
  have "\<exists>r'. find_job b' i = Some r' \<and> jr_state r' = JobPending" if "j_PreviousExecution job = []" "latest_of_root k b = Some q" for q
  proof -
    have adopt: "submit_adopt io q b = (Inr i, b')" using assms(2) that by (auto simp: Submit_def Let_def split: if_splits option.splits)
    then have "jr_id q = i" by (auto simp: submit_adopt_def Let_def split: if_splits)
    then have "q = r" using same_row [OF assms(1)] latest_of_root_Some [OF that(2)] find_job_Some [OF assms(3)] by blast
    then have "b' = update_jobs (\<lambda>s. jr_id s = i) ?adopt (update_jobs (\<lambda>s. jr_id s = i) ?revive b)"
      using adopt assms(4) \<open>jr_id q = i\<close> by (auto simp: submit_adopt_def Let_def split: if_splits)
    then show ?thesis using find_job_update [OF find_job_update [OF assms(3), of ?revive], of ?adopt] by simp
  qed
  moreover have "(\<exists>r'. find_job b' i = Some r' \<and> jr_state r' = JobCancelled) \<and> (\<not> bk_closed b \<and> bi_fault io 0 = None \<longrightarrow> wait_look io i b' = Some (Inl ErrStale))"
    if "j_PreviousExecution job \<noteq> []"
  proof -
    from assms(2) that obtain p :: job_row where "submit_new io (jr_root p) (j_PreviousExecution job) job needs priority b = (Inr i, b')"
      by (auto simp: Submit_def Let_def split: if_splits option.splits)
    then have b': "b' = update_jobs (\<lambda>s. jr_id s = i) ?renew b" using assms(3) by (auto simp: submit_new_def insert_job_def Let_def split: if_splits)
    then have "find_job b' i = Some (?renew r)" using find_job_update [OF assms(3), of ?renew] by simp
    moreover have "bk_closed b' = bk_closed b" by (simp add: b' update_jobs_def)
    ultimately show ?thesis using assms(4) by (simp add: wait_look_def)
  qed
  ultimately show ?thesis by auto
qed

definition demo_retry :: check_job where
  "demo_retry = demo_job\<lparr>j_PreviousExecution := ''root/''\<rparr>"

text \<open>The first attempt is completed and its retry cancelled.\<close>

definition demo_cancelled :: broker where
  "demo_cancelled = (snd demo_reclaimed)\<lparr>bk_jobs := [demo_row\<lparr>jr_state := JobCompleted\<rparr>,
     demo_row\<lparr>jr_id := ''root/root/'', jr_job := demo_retry, jr_parent := ''root/'', jr_state := JobCancelled, jr_token := ''t4''\<rparr>]\<rparr>"

theorem cancelled_retry_stays_witness:
  "wait_look (demo_io 400000000000 ''x'') ''root/root/'' (snd (Submit (demo_io 400000000000 ''x'') ''root'' demo_retry demo_needs 1 demo_cancelled)) = Some (Inl ErrStale)"
proof -
  let ?io = "demo_io 400000000000 ''x''"
  have d: "distinct_jobs demo_cancelled" by code_simp
  have "fst (Submit ?io ''root'' demo_retry demo_needs 1 demo_cancelled) = Inr ''root/root/''" by code_simp
  then have s: "Submit ?io ''root'' demo_retry demo_needs 1 demo_cancelled = (Inr ''root/root/'', snd (Submit ?io ''root'' demo_retry demo_needs 1 demo_cancelled))"
    by (metis prod.collapse)
  have f: "find_job demo_cancelled ''root/root/'' = Some (last (bk_jobs demo_cancelled))" "jr_state (last (bk_jobs demo_cancelled)) = JobCancelled" by code_simp+
  have "j_PreviousExecution demo_retry \<noteq> []" "\<not> bk_closed demo_cancelled" "bi_fault ?io 0 = None" by code_simp+
  then show ?thesis using cancelled_retry_stays [OF d s f] by blast
qed

end
