(* ===== verification/Spec2Isabelle.thy ===== *)
theory Spec2Isabelle
  imports Core_Events Core_Check Core_Slots Config_Graph Queue_Operators Deploy_System Workers_Upkeep
begin

text \<open>
  A verification library for gauntlet, a merge queue daemon written in Go.

  \<^bold>\<open>The program.\<close> Candidates are pushed to refs \<^verbatim>\<open>refs/heads/for/<target>/...\<close> (or offered by a forge review source).
  The daemon (\<^verbatim>\<open>internal/queue\<close>) fetches the remote on every tick and reconciles each target: it discovers candidates, orders
  them, merges them in a trial onto the target tip or onto the tip of a run ahead of them, runs the check graph the merged tree
  declares, and advances the target branch by compare-and-swap only to a tip whose checks were green.  The state is owned by one
  goroutine; checks run in workers that answer through one-shot channels.  Beside the queue, the deploy tracker (\<^verbatim>\<open>internal/deploy\<close>) keeps the desired
  ref of each tracked environment at its source's tip, runs the deploy graph of a revision whose desired and observed refs differ, and advances the observed
  ref once that graph is green; each run is a goroutine of its own.  Checks may be
  executed remotely: the broker (\<^verbatim>\<open>internal/workers\<close>) keeps jobs in a database, leases them to workers that pull them, and keeps their verdicts.  Git, the executor, the forge, the policy engine and the
  state file are reached through interfaces.

  \<^bold>\<open>Conventions.\<close> A Go struct is a \<open>record\<close>, an enumeration a \<open>datatype\<close>, a method a function from the daemon record to the
  updated one.  A \<open>map\<close> is an association list (\<open>gomap\<close>, with \<open>mget\<close>, \<open>mput\<close>, \<open>mdel\<close> in Prelude), whose order stands for
  the iteration order Go leaves open.  Times and durations are integers (nanoseconds), the zero time is \<open>0\<close>.  Errors are
  options and sums.  What is not under \<open>src/\<close> or does I/O is a parameter in the records \<open>git_repo\<close>, \<open>config\<close>, \<open>review_source\<close> and
  \<open>policy_engine\<close>: each call takes the number of the call (\<open>d_io\<close>, incremented before it), so that the same question may have
  another answer later.  The remote is the field \<open>d_remote\<close>; it changes by \<open>casUpdate\<close> (the contract of \<open>GitRepo.CASUpdate\<close>: another writer may act
  first, the transport may fail before or after the update) and every update of this daemon that took effect is logged in
  \<open>d_pushes\<close>.  Emitted events are \<open>d_events\<close>, pinned commits \<open>d_pins\<close>, jobs handed to workers \<open>d_jobs\<close>, the control state last
  written to disk \<open>d_stored\<close>.

  \<^bold>\<open>The theories, and the files they model.\<close>
  \<^item> Prelude: Go's maps, strings and integers, and the lemmas on them; the locales \<open>invariant_system\<close> and \<open>monotone_system\<close> (what holds
    along any sequence of operations once each preserves it), interpreted for the slots, the circuit breaker, the governor and the drain.
  \<^item> Core_Types, Core_Events, Core_Check, Core_Slots (\<^verbatim>\<open>internal/core\<close>): candidates, runs records, events and commands; \<open>ValidateEvent\<close>;
    \<open>FirstFailure\<close>, \<open>FailureTail\<close>, \<open>NodeGreen\<close>, \<open>SanitizeName\<close>; the execution slots with a reserve.
  \<^item> Config_Checks, Config_Graph (\<^verbatim>\<open>internal/config/checks.go\<close>): the check spec, its defaults and validation, the three-colour cycle search,
    \<open>ParseChecks\<close> and the selection of deploy nodes.
  \<^item> Queue_Spec (\<^verbatim>\<open>checkspec.go\<close>): the node graph of a run, the spec gates, image references and receipts.
  \<^item> Queue_Types (\<^verbatim>\<open>daemon.go\<close> and the interfaces): the daemon, run, control and policy records, and a sample instance.
  \<^item> Queue_Controls (\<^verbatim>\<open>controls.go\<close>, \<^verbatim>\<open>checkpoint.go\<close>, \<^verbatim>\<open>circuit.go\<close>): \<open>saveControls\<close>, \<open>persistScheduler\<close>, \<open>emit\<close> and the circuit breaker.
  \<^item> Queue_Refs, Queue_Parks, Queue_Pick (\<^verbatim>\<open>reconcile.go\<close>, \<^verbatim>\<open>command.go\<close>, \<^verbatim>\<open>autoretry.go\<close>, \<^verbatim>\<open>scheduling.go\<close>): the ref grammar and run identities;
    parks, retries and bookkeeping; priorities and the selection of candidates.
  \<^item> Queue_Governor (\<^verbatim>\<open>adaptive.go\<close>, \<^verbatim>\<open>drain.go\<close>): the adaptive limit and the drain.
  \<^item> Queue_Checks (\<^verbatim>\<open>checkrun.go\<close>): starting and consuming checks, verdicts, emergency waivers.
  \<^item> Queue_Policy (\<^verbatim>\<open>policy.go\<close>, \<^verbatim>\<open>prepared.go\<close>): policy evaluation with its audit, admission, the store of prepared trials.
  \<^item> Queue_Landing (\<^verbatim>\<open>landing.go\<close>, \<^verbatim>\<open>trialref.go\<close>, \<^verbatim>\<open>linear.go\<close>): terminal outcomes, trial refs, \<open>landRun\<close> with its gates, recovery.
  \<^item> Queue_Lane (\<^verbatim>\<open>reconcile.go\<close>): invalidation, the red bubble, landing of the green prefix.
  \<^item> Queue_Admission (\<^verbatim>\<open>reconcile.go\<close>, \<^verbatim>\<open>message.go\<close>, \<^verbatim>\<open>summary.go\<close>): the merge-commit chain, its messages, trial preparation and the three refill modes.
  \<^item> Queue_Snapshot, Queue_Schedule (\<^verbatim>\<open>snapshot.go\<close>, \<^verbatim>\<open>scheduling.go\<close>): the published view of the queue and the planner of operator moves over it.
  \<^item> Queue_Commands (\<^verbatim>\<open>command.go\<close>, \<^verbatim>\<open>controls.go\<close>, \<^verbatim>\<open>scheduling.go\<close>): retry, cancel, the incident controls and the application of a plan.
  \<^item> Queue_Reconcile (\<^verbatim>\<open>daemon.go\<close>, \<^verbatim>\<open>reconcile.go\<close>, \<^verbatim>\<open>review_emergency.go\<close>, \<^verbatim>\<open>review_scheduling.go\<close>): requests carried by reviews, emergencies,
    \<open>reconcileTarget\<close>, \<open>ReconcileOnce\<close>, the serving loop, and \<open>New\<close> with the loading of the control file.
  \<^item> Queue_System: the daemon and its environment (check workers that answer, the clock, other writers of the remote, drain requests) as
    the transition system \<open>reachable\<close>, and its invariant.
  \<^item> Queue_Operators: what an operator may rely on across commands, reviews and restarts.
  \<^item> Deploy_Graph (\<^verbatim>\<open>internal/deploy/graph.go\<close>): the scheduler of one deploy graph, with the goroutines of its nodes as the environment of its loop.
  \<^item> Deploy_Tracker (\<^verbatim>\<open>deploy.go\<close>, \<^verbatim>\<open>run.go\<close>, \<^verbatim>\<open>policy.go\<close>, \<^verbatim>\<open>snapshot.go\<close> of \<^verbatim>\<open>internal/deploy\<close>): passes over the environments, lanes, parks, automatic
    retries, operator calls, and the goroutine of a run as a state machine (\<open>runGraph_step\<close>).  What git, the policy, the executor and the KDL package answer
    in one step is a \<open>deploy_io\<close>.
  \<^item> Deploy_System: the tracker with its goroutines interleaved in any order (\<open>tracker_reachable\<close>), also inside a pass where the code releases its mutex.
  \<^item> Test_Report (\<^verbatim>\<open>internal/testreport/report.go\<close>): valid reports, failed tests, and the merge of a rerun.
  \<^item> Workers_Broker (\<^verbatim>\<open>types.go\<close>, \<^verbatim>\<open>broker.go\<close>, \<^verbatim>\<open>status.go\<close> of \<^verbatim>\<open>internal/workers\<close>): the broker's two tables and every operation on them; the clock, the
    errors of the database, the random tokens and the hash of an attempt are the record \<open>broker_io\<close>.
  \<^item> Workers_Lease, Workers_Upkeep: the broker's steps in any order, restarts included (\<open>broker_reachable\<close>), and what holds along them.

  \<^bold>\<open>What the lemmas show.\<close> Queue_System: along every history of the daemon only tested, admitted trials land; a pass of the loop returns; a drain
  winds down.  Queue_Lane and Queue_Landing: only the tested tip of a run with a green node graph lands, behind the pause, review, policy and
  receipt gates, and every member is accounted for by one terminal event.  Queue_Admission: whatever enters a lane is a well-formed run of
  eligible candidates on the right base.  Queue_Checks: verdicts, bounded parallelism, progress to a verdict.  Queue_Pick: selection order
  and fairness.  Queue_Snapshot, Queue_Schedule: the published queue is the queue, and a plan over it is a rearrangement.  Queue_Parks, Queue_Controls, Queue_Policy, Queue_Governor: retries, durable state, the breaker, fail-closed policy,
  the adaptive limit and the drain.  Queue_Operators: a cancel, an emergency merge, a review's request and a restart do what they say.
  Deploy_Graph: order, parallelism, verdict and termination of a graph, and that its rows are the queue's.  Deploy_System: observed refs advance
  only to revisions whose own graph was green, desired refs of manual environments are never written, an environment has one run at a time, every
  run ends, and how each outcome leaves the lane.  Workers_Lease and Workers_Upkeep: a worker is never overcommitted, a revoked lease never reports, a stored verdict
  is about its job and stays, the backlog is bounded, and maintenance and removal drop nothing that is wanted.  Test_Report: a rerun loses no test.  Config_Graph and Queue_Spec: an accepted spec is acyclic and schedulable.

  \<^bold>\<open>Fuel.\<close> Recursions that follow the candidates' dependencies or a graph (\<open>rank_at\<close>, \<open>visit\<close>, \<open>pull\<close>, \<open>stack_walk\<close>) mark what they visited;
  their fuel is one more than the number of nodes, and the lemmas show that this is enough.  \<open>pick_loop\<close> selects at least
  one candidate per pass and has one pass more than candidates; \<open>speculate_loop\<close> appends one run per turn and has a turn per free place.
  \<open>emergency_order\<close>, \<open>include_parents\<close> and \<open>place\<close> consume an entry per turn and have one turn more than entries.  \<open>applyControl\<close> has depth two:
  Queue_System shows that this is enough unless a target is named \<^verbatim>\<open>*\<close>, and that then no depth is.
  \<open>sched_loop\<close> has one round per node and one more: every round but the last consumes a report.
  \<open>trim_controls\<close> and \<open>evict_prepared\<close> terminate because they drop an entry per step.

  \<^bold>\<open>Not modelled.\<close> Processes and containers, HTTP servers and clients (dashboard, Slack, forges, MCP), SQL (history), the git executable,
  tracing: I/O and presentation around the queue.  Export directories and their removal, and the leases on source objects
  (\<open>releaseSources\<close>), have no effect on the modelled state.  Of the deploy tracker, log lines, \<open>outcomeWord\<close> and the blocking \<open>Wait\<close> are left out.
  The daemon's own configuration file, the workers' agent, HTTP server and capacity pools, the pool of services, verification reuse, the flaky-test tools, the post-land hooks and the KDL
  formatter are components around the queue that have no model here; the queue sees them through its interfaces.  A candidate with a \<open>Source\<close> comes from the configured review
  source; where Go would dereference a nil one the model returns an error.
\<close>

end
